(* ===== verification/Prelude.thy ===== *)
theory Prelude
  imports Main "HOL-Library.Word"
begin

text \<open>
  What the components share: the machine types of the C++ code, the value a C++ operation can
  end with (\<open>outcome\<close>), the loop that decodes a counted sequence, two interfaces stated as
  locales (a prefix-free codec, a three-way comparison) and the facts about words and lists
  that the component proofs use.
\<close>

section \<open>Machine types\<close>

type_synonym byte = "8 word" \<comment> \<open>\<open>unsigned char\<close>, and \<open>char\<close> where only its bits matter\<close>
type_synonym uchar = "16 word" \<comment> \<open>\<open>UChar\<close>, one UTF-16 code unit\<close>
type_synonym i64 = "64 word" \<comment> \<open>\<open>int64_t\<close>: the 64 bits, read by \<open>sint\<close>\<close>
type_synonym dbl = "64 word" \<comment> \<open>\<open>double\<close>: the 64 bits of its IEEE 754 image\<close>

text \<open>
  ICU's simple case folding. The strings that the code compares with are ASCII, so only the
  characters that fold to ASCII matter: the upper-case letters, U+017F (long s) and U+212A (Kelvin
  sign); all others are left alone here.
\<close>

definition foldCase :: "uchar \<Rightarrow> uchar" where
  "foldCase c =
     (if 0x41 \<le> c \<and> c \<le> 0x5A then c + 0x20
      else if c = 0x17F then 0x73
      else if c = 0x212A then 0x6B
      else c)"

section \<open>Outcomes\<close>

text \<open>
  A C++ operation either delivers a value, or reports failure (a null pointer returned, or its
  \<open>ok\<close> argument set to false), or leaves the defined part of the language: an index past the end
  of a buffer, a null pointer followed, a shift by the width of the type or more, an overflow
  of a signed integer. The assertions of the code are absent from a release build, so they are
  not modelled; where a failed assertion would be followed by such a step, the step shows.
\<close>

datatype 'a outcome = Done 'a | Null | Undef

definition obind :: "'a outcome \<Rightarrow> ('a \<Rightarrow> 'b outcome) \<Rightarrow> 'b outcome" where
  "obind m f = (case m of Done x \<Rightarrow> f x | Null \<Rightarrow> Null | Undef \<Rightarrow> Undef)"

lemma obind_simps [simp]:
  "obind (Done x) f = f x"
  "obind Null f = Null"
  "obind Undef f = Undef"
  by (simp_all add: obind_def)

lemma obind_cong [fundef_cong]:
  "m = m' \<Longrightarrow> (\<And>x. m' = Done x \<Longrightarrow> f x = f' x) \<Longrightarrow> obind m f = obind m' f'"
  by (cases m') (auto simp: obind_def)

lemma obind_Done_iff: "obind m f = Done y \<longleftrightarrow> (\<exists>x. m = Done x \<and> f x = Done y)"
  by (cases m) auto

lemma obind_Undef_iff: "obind m f = Undef \<longleftrightarrow> m = Undef \<or> (\<exists>x. m = Done x \<and> f x = Undef)"
  by (cases m) auto

lemma obind_assoc [simp]: "obind (obind m f) g = obind m (\<lambda>x. obind (f x) g)"
  by (cases m) auto

text \<open>Two operations run one after the other, whose failures are examined after both.\<close>

definition both :: "'a outcome \<Rightarrow> 'b outcome \<Rightarrow> ('a \<times> 'b) outcome" where
  "both m n =
     (case m of Undef \<Rightarrow> Undef
      | Null \<Rightarrow> (case n of Undef \<Rightarrow> Undef | _ \<Rightarrow> Null)
      | Done x \<Rightarrow> (case n of Undef \<Rightarrow> Undef | Null \<Rightarrow> Null | Done y \<Rightarrow> Done (x, y)))"

lemma both_simps [simp]: "both (Done x) (Done y) = Done (x, y)"
  by (simp add: both_def)

lemma both_Done_iff: "both m n = Done z \<longleftrightarrow> (\<exists>x y. m = Done x \<and> n = Done y \<and> z = (x, y))"
  by (cases m; cases n) (auto simp: both_def)

section \<open>A prefix-free codec\<close>

text \<open>
  The contract of an encoder and the decoder that reads its output back from the front of a
  buffer: the value returns, and the rest of the buffer is left as it was.
\<close>

locale codec =
  fixes enc :: "'a \<Rightarrow> byte list"
    and dec :: "byte list \<Rightarrow> ('a \<times> byte list) outcome"
    and ok :: "'a \<Rightarrow> bool"
  assumes dec_enc: "ok x \<Longrightarrow> dec (enc x @ rest) = Done (x, rest)"
begin

lemma dec_enc_Nil: "ok x \<Longrightarrow> dec (enc x) = Done (x, [])"
  using dec_enc [of x "[]"] by simp

lemma prefix_free:
  assumes "ok x" and "ok y" and "enc x @ r = enc y @ s"
  shows "x = y \<and> r = s"
proof -
  have "Done (x, r) = Done (y, s)"
    using dec_enc [OF assms(1), of r] dec_enc [OF assms(2), of s] unfolding assms(3) by simp
  then show ?thesis by simp
qed

lemma enc_append_inject: "ok x \<Longrightarrow> ok y \<Longrightarrow> enc x @ r = enc y @ s \<longleftrightarrow> x = y \<and> r = s"
  using prefix_free [of x y r s] by auto

lemma enc_inject: "ok x \<Longrightarrow> ok y \<Longrightarrow> enc x = enc y \<longleftrightarrow> x = y"
  using prefix_free [of x y "[]" "[]"] by auto

end

section \<open>A three-way comparison\<close>

text \<open>
  The contract of a comparison function that orders the values satisfying \<open>ok\<close>: its result is
  negative, zero or positive, swapping the arguments swaps the sign, and the order is transitive.
  Two equal results may still be different values (a preorder), as for \<open>+0\<close> and \<open>-0\<close>.
\<close>

locale comparator =
  fixes cmp :: "'a \<Rightarrow> 'a \<Rightarrow> int"
    and ok :: "'a \<Rightarrow> bool"
  assumes cmp_swap: "ok x \<Longrightarrow> ok y \<Longrightarrow> sgn (cmp y x) = - sgn (cmp x y)"
    and cmp_le_trans: "ok x \<Longrightarrow> ok y \<Longrightarrow> ok z \<Longrightarrow> cmp x y \<le> 0 \<Longrightarrow> cmp y z \<le> 0 \<Longrightarrow> cmp x z \<le> 0"
begin

lemma cmp_refl: "ok x \<Longrightarrow> cmp x x = 0"
  using cmp_swap [of x x] by (simp add: sgn_if split: if_splits)

lemma cmp_sym0: "ok x \<Longrightarrow> ok y \<Longrightarrow> cmp x y = 0 \<longleftrightarrow> cmp y x = 0"
  using cmp_swap [of x y] by (simp add: sgn_if split: if_splits)

lemma cmp_swap_less: "ok x \<Longrightarrow> ok y \<Longrightarrow> cmp x y < 0 \<longleftrightarrow> 0 < cmp y x"
  using cmp_swap [of x y] by (simp add: sgn_if split: if_splits)

lemma cmp_swap_le: "ok x \<Longrightarrow> ok y \<Longrightarrow> cmp x y \<le> 0 \<longleftrightarrow> 0 \<le> cmp y x"
  using cmp_swap [of x y] by (simp add: sgn_if split: if_splits)

lemma cmp_total: "ok x \<Longrightarrow> ok y \<Longrightarrow> cmp x y \<le> 0 \<or> cmp y x \<le> 0"
  using cmp_swap [of x y] by (auto simp: sgn_if split: if_splits)

lemma cmp_le_less_trans:
  assumes ok: "ok x" "ok y" "ok z" and le: "cmp x y \<le> 0" and less: "cmp y z < 0"
  shows "cmp x z < 0"
proof (rule ccontr)
  assume "\<not> cmp x z < 0"
  then have "cmp z x \<le> 0" using ok cmp_swap_le [of z x] by simp
  then have "cmp z y \<le> 0" using cmp_le_trans [of z x y] ok le by blast
  then show False using less cmp_swap_le [of z y] ok by simp
qed

lemma cmp_less_le_trans:
  assumes ok: "ok x" "ok y" "ok z" and less: "cmp x y < 0" and le: "cmp y z \<le> 0"
  shows "cmp x z < 0"
proof (rule ccontr)
  assume "\<not> cmp x z < 0"
  then have "cmp z x \<le> 0" using ok cmp_swap_le [of z x] by simp
  then have "cmp y x \<le> 0" using cmp_le_trans [of y z x] ok le by blast
  then show False using less cmp_swap_le [of y x] ok by simp
qed

lemma cmp_zero_left:
  assumes ok: "ok x" "ok y" "ok z" and zero: "cmp x y = 0"
  shows "sgn (cmp x z) = sgn (cmp y z)"
proof -
  have zero': "cmp y x = 0" using zero cmp_sym0 ok by blast
  have "cmp x z \<le> 0 \<longleftrightarrow> cmp y z \<le> 0"
    using cmp_le_trans [of x y z] cmp_le_trans [of y x z] ok zero zero' by auto
  moreover have "cmp x z < 0 \<longleftrightarrow> cmp y z < 0"
    using cmp_le_less_trans [of x y z] cmp_le_less_trans [of y x z] ok zero zero' by auto
  ultimately show ?thesis by (auto simp: sgn_if)
qed

lemma cmp_zero_trans: "ok x \<Longrightarrow> ok y \<Longrightarrow> ok z \<Longrightarrow> cmp x y = 0 \<Longrightarrow> cmp y z = 0 \<Longrightarrow> cmp x z = 0"
  using cmp_zero_left [of x y z] by (simp add: sgn_0_0)

end

text \<open>
  The loop that \<open>codePointCompare\<close> and \<open>IDBKey::compare\<close> share: the elements in turn as far as
  both sequences go, then the lengths.
\<close>

fun lexCmp :: "('a \<Rightarrow> 'a \<Rightarrow> int) \<Rightarrow> 'a list \<Rightarrow> 'a list \<Rightarrow> int" where
  "lexCmp f (x # xs) (y # ys) = (let r = f x y in if r \<noteq> 0 then r else lexCmp f xs ys)"
| "lexCmp f [] [] = 0"
| "lexCmp f [] (y # ys) = -1"
| "lexCmp f (x # xs) [] = 1"

lemma lexCmp_cong [fundef_cong]:
  "xs = xs' \<Longrightarrow> ys = ys' \<Longrightarrow> (\<And>x y. x \<in> set xs' \<Longrightarrow> y \<in> set ys' \<Longrightarrow> f x y = g x y) \<Longrightarrow>
     lexCmp f xs ys = lexCmp g xs' ys'"
proof (induction g xs' ys' arbitrary: xs ys rule: lexCmp.induct)
  case (1 g x xs' y ys')
  then show ?case by (auto simp: Let_def)
qed simp_all

lemma lexCmp_range:
  "(\<And>x y. x \<in> set xs \<Longrightarrow> f x y \<in> {-1, 0, 1}) \<Longrightarrow> lexCmp f xs ys \<in> {-1, 0, 1}"
proof (induction f xs ys rule: lexCmp.induct)
  case (1 f x xs y ys)
  then have "f x y \<in> {-1, 0, 1}" and "f x y = 0 \<Longrightarrow> lexCmp f xs ys \<in> {-1, 0, 1}" by simp_all
  then show ?case by (auto simp: Let_def)
qed simp_all

lemma comparator_lexCmp:
  assumes "comparator f ok"
  shows "comparator (lexCmp f) (list_all ok)"
proof -
  have swap: "list_all ok xs \<Longrightarrow> list_all ok ys \<Longrightarrow> sgn (lexCmp f ys xs) = - sgn (lexCmp f xs ys)" for xs ys
  proof (induction xs arbitrary: ys)
    case Nil
    then show ?case by (cases ys) auto
  next
    case (Cons x xs)
    show ?case
    proof (cases ys)
      case ys: (Cons y ys')
      have ok: "ok x" "ok y" using Cons.prems ys by auto
      show ?thesis
      proof (cases "f x y = 0")
        case True
        moreover from this have "f y x = 0" using comparator.cmp_sym0 [OF assms ok] by simp
        ultimately show ?thesis using Cons ys by simp
      next
        case False
        moreover from this have "f y x \<noteq> 0" using comparator.cmp_sym0 [OF assms ok] by simp
        ultimately show ?thesis using comparator.cmp_swap [OF assms ok] ys by simp
      qed
    qed simp
  qed
  have trans: "list_all ok xs \<Longrightarrow> list_all ok ys \<Longrightarrow> list_all ok zs \<Longrightarrow>
      lexCmp f xs ys \<le> 0 \<Longrightarrow> lexCmp f ys zs \<le> 0 \<Longrightarrow> lexCmp f xs zs \<le> 0" for xs ys zs
  proof (induction xs arbitrary: ys zs)
    case Nil
    then show ?case by (cases zs) auto
  next
    case (Cons x xs)
    from Cons.prems obtain y ys' where ys: "ys = y # ys'" by (cases ys) auto
    with Cons.prems obtain z zs' where zs: "zs = z # zs'" by (cases zs) auto
    have ok: "ok x" "ok y" "ok z" using Cons.prems ys zs by auto
    have le: "f x y \<le> 0" "f y z \<le> 0" using Cons.prems ys zs by (auto simp: Let_def split: if_splits)
    show ?case
    proof (cases "f x y = 0 \<and> f y z = 0")
      case True
      then have "f x z = 0" using comparator.cmp_zero_trans [OF assms ok] by simp
      then show ?thesis using Cons True ys zs by (auto simp: Let_def)
    next
      case False
      then have "f x y < 0 \<or> f y z < 0" using le by linarith
      then have "f x z < 0"
        using comparator.cmp_le_less_trans [OF assms ok le(1)]
          comparator.cmp_less_le_trans [OF assms ok _ le(2)] by blast
      then show ?thesis using zs by (simp add: Let_def)
    qed
  qed
  show ?thesis by (rule comparator.intro) (fact swap, fact trans)
qed

lemma comparator_on_key:
  assumes "\<And>x y. ok x \<Longrightarrow> ok y \<Longrightarrow> sgn (f x y) = sgn (g x - g y :: int)"
  shows "comparator f ok"
proof (rule comparator.intro)
  show "sgn (f y x) = - sgn (f x y)" if "ok x" "ok y" for x y
    using that assms [of x y] assms [of y x] by (simp add: sgn_if)
  show "f x z \<le> 0" if ok: "ok x" "ok y" "ok z" and le: "f x y \<le> 0" "f y z \<le> 0" for x y z
    using le assms [OF ok(1,2)] assms [OF ok(2,3)] assms [OF ok(1,3)] by (simp add: sgn_if split: if_splits)
qed

lemma comparator_subset: "comparator f ok \<Longrightarrow> (\<And>x. ok' x \<Longrightarrow> ok x) \<Longrightarrow> comparator f ok'"
proof -
  assume f: "comparator f ok" and sub: "\<And>x. ok' x \<Longrightarrow> ok x"
  show ?thesis
  proof (rule comparator.intro)
    show "sgn (f y x) = - sgn (f x y)" if "ok' x" "ok' y" for x y
      using comparator.cmp_swap [OF f sub [OF that(1)] sub [OF that(2)]] .
    show "f x z \<le> 0" if "ok' x" "ok' y" "ok' z" "f x y \<le> 0" "f y z \<le> 0" for x y z
      using comparator.cmp_le_trans [OF f sub [OF that(1)] sub [OF that(2)] sub [OF that(3)] that(4,5)] .
  qed
qed

section \<open>The signed reading of a word\<close>

definition i64_ok :: "i64 \<Rightarrow> bool" where
  "i64_ok n \<longleftrightarrow> 0 \<le> sint n"

lemma sint_of_nat_i64: "n < 2 ^ 63 \<Longrightarrow> sint (of_nat n :: i64) = int n"
  by (simp add: signed_of_nat signed_take_bit_int_eq_self)

lemma nat_sint_of_nat_i64: "n < 2 ^ 63 \<Longrightarrow> nat (sint (of_nat n :: i64)) = n"
  by (simp add: sint_of_nat_i64)

lemma i64_ok_of_nat: "n < 2 ^ 63 \<Longrightarrow> i64_ok (of_nat n)"
  by (simp add: i64_ok_def sint_of_nat_i64)

lemma sint_eq_iff_i64: "sint (a :: i64) = sint b \<longleftrightarrow> a = b"
  by (metis uint_sint word_uint_eq_iff)

lemma sint_nonneg_uint: "0 \<le> sint (a :: i64) \<Longrightarrow> sint a = uint a"
proof -
  assume "0 \<le> sint a"
  moreover have "sint a < 2 ^ 64" using sint_lt [of a] by simp
  ultimately show ?thesis by (simp add: uint_sint take_bit_int_eq_self)
qed

lemma sint_eq_unat: "0 \<le> sint (a :: i64) \<Longrightarrow> sint a = int (unat a)"
  by (simp add: sint_nonneg_uint)

lemma unat_less_i64:
  assumes "0 \<le> sint (a :: i64)" and "sint a < 2 ^ k"
  shows "unat a < 2 ^ k"
proof -
  have "int (unat a) < 2 ^ k" using assms(2) unfolding sint_eq_unat [OF assms(1)] .
  then show ?thesis by (metis of_nat_less_iff of_nat_numeral of_nat_power)
qed

lemma i64_ok_less: "i64_ok a \<Longrightarrow> unat a < 2 ^ 63"
  using sint_lt [of a] by (intro unat_less_i64) (simp_all add: i64_ok_def)

end
