(* ===== verification/LevelDB_Bytes.thy ===== *)
theory LevelDB_Bytes
  imports Prelude
begin

text \<open>
  The primitive encodings of \<open>IDBLevelDBCoding.cpp\<close>: bytes, booleans, fixed-length and
  variable-length integers, UTF-16 strings and doubles. A pair of pointers \<open>p\<close>, \<open>limit\<close> is the
  list of the bytes between them; a decoder that returns an advanced pointer returns the list
  from that pointer on. The host is little-endian (\<open>encodeDouble\<close> writes the image in host
  order); a multiplication of an \<open>int64_t\<close> that overflows and a shift by 64 or more are \<open>Undef\<close>.
\<close>

unbundle bit_operations_syntax

section \<open>Bytes and booleans\<close>

definition encodeByte :: "byte \<Rightarrow> byte list" where
  "encodeByte c = [c]"

fun decodeByte :: "byte list \<Rightarrow> (byte \<times> byte list) outcome" where
  "decodeByte [] = Null"
| "decodeByte (c # p) = Done (c, p)"

definition encodeBool :: "bool \<Rightarrow> byte list" where
  "encodeBool b = [if b then 1 else 0]"

fun decodeBool :: "byte list \<Rightarrow> bool outcome" where
  "decodeBool [] = Undef"
| "decodeBool (c # p) = Done (c \<noteq> 0)"

section \<open>Integers\<close>

lemma unat_drop_bit: "unat (drop_bit k (n :: 'a::len word)) = unat n div 2 ^ k"
  by (metis drop_bit_eq_div unat_drop_bit_eq)

lemma unat_drop_bit_less:
  assumes "drop_bit k (n :: i64) \<noteq> 0" and "0 < k"
  shows "unat (drop_bit k n) < unat n"
proof -
  have "n \<noteq> 0" using assms(1) by auto
  then have "0 < unat n" by (simp add: unat_gt_0)
  then show ?thesis
    using assms(2) by (auto simp: unat_drop_bit intro!: div_less_dividend one_less_power)
qed

function encodeIntLoop :: "i64 \<Rightarrow> byte list" where
  "encodeIntLoop n =
     (let c = ucast n; n' = drop_bit 8 n
      in if n' \<noteq> 0 then c # encodeIntLoop n' else [c])"
  by pat_completeness auto
termination
  by (relation "measure unat") (auto simp: unat_drop_bit_less)

declare encodeIntLoop.simps [simp del]

definition encodeInt :: "i64 \<Rightarrow> byte list" where
  "encodeInt n = encodeIntLoop n"

fun decodeIntLoop :: "nat \<Rightarrow> i64 \<Rightarrow> byte list \<Rightarrow> i64 outcome" where
  "decodeIntLoop shift ret [] = Done ret"
| "decodeIntLoop shift ret (c # p) =
     (if 64 \<le> shift then Undef
      else decodeIntLoop (shift + 8) (ret OR push_bit shift (ucast c)) p)"

definition decodeInt :: "byte list \<Rightarrow> i64 outcome" where
  "decodeInt p = decodeIntLoop 0 0 p"

definition compareInts :: "i64 \<Rightarrow> i64 \<Rightarrow> int" where
  "compareInts a b = (let diff = a - b in if sint diff < 0 then -1 else if 0 < sint diff then 1 else 0)"

function encodeVarInt :: "i64 \<Rightarrow> byte list" where
  "encodeVarInt n =
     (let c = ucast (n AND 0x7f); n' = drop_bit 7 n
      in if n' \<noteq> 0 then (c OR 0x80) # encodeVarInt n' else [c])"
  by pat_completeness auto
termination
  by (relation "measure unat") (auto simp: unat_drop_bit_less)

declare encodeVarInt.simps [simp del]

text \<open>
  A shift by the width of the type or more is \<open>Undef\<close>. A shift by 63 of a value above 1, which does not
  fit either, is taken as compilers take it: the bits past the sign are lost.
\<close>

fun decodeVarIntLoop :: "nat \<Rightarrow> i64 \<Rightarrow> byte list \<Rightarrow> (i64 \<times> byte list) outcome" where
  "decodeVarIntLoop shift foundInt [] = Null"
| "decodeVarIntLoop shift foundInt (c # p) =
     (if 64 \<le> shift then Undef
      else let foundInt' = foundInt OR push_bit shift (ucast (c AND 0x7f))
           in if c AND 0x80 \<noteq> 0 then decodeVarIntLoop (shift + 7) foundInt' p
              else Done (foundInt', p))"

definition decodeVarInt :: "byte list \<Rightarrow> (i64 \<times> byte list) outcome" where
  "decodeVarInt p = decodeVarIntLoop 0 0 p"

section \<open>Strings\<close>

fun encodeString :: "uchar list \<Rightarrow> byte list" where
  "encodeString [] = []"
| "encodeString (c # s) = ucast (drop_bit 8 c) # ucast c # encodeString s"

fun decodeString :: "byte list \<Rightarrow> uchar list" where
  "decodeString (a # b # p) = (push_bit 8 (ucast a) OR ucast b) # decodeString p"
| "decodeString _ = []"

definition encodeStringWithLength :: "uchar list \<Rightarrow> byte list" where
  "encodeStringWithLength s = encodeVarInt (of_nat (length s)) @ encodeString s"

definition decodeStringWithLength :: "byte list \<Rightarrow> (uchar list \<times> byte list) outcome" where
  "decodeStringWithLength p =
     obind (decodeVarInt p) (\<lambda>(len, p).
       if sint len < 0 then Null
       else if 2 ^ 63 \<le> sint len * 2 then Undef
       else if int (List.length p) < sint len * 2 then Null
       else let n = nat (sint len * 2) in Done (decodeString (take n p), drop n p))"

text \<open>\<open>memcmp\<close> of the standard library; only the sign of its result is used.\<close>

fun memcmp :: "byte list \<Rightarrow> byte list \<Rightarrow> int" where
  "memcmp (a # p) (b # q) = (if a < b then -1 else if b < a then 1 else memcmp p q)"
| "memcmp _ _ = 0"

text \<open>
  The result of a comparison of two encoded values: the result and the two advanced pointers;
  \<open>Null\<close> says that \<open>ok\<close> was set to false (the C++ function then returns 0).
\<close>

definition compareStringBytes :: "int \<Rightarrow> int \<Rightarrow> byte list \<Rightarrow> byte list \<Rightarrow> int" where
  "compareStringBytes lenP lenQ p q =
     (let lmin = nat (min lenP lenQ);
          x = memcmp (take (lmin * 2) p) (take (lmin * 2) q)
      in if x \<noteq> 0 then x
         else if lenP = lenQ then 0
         else if lenQ < lenP then 1 else -1)"

definition compareEncodedStringsWithLength ::
    "byte list \<Rightarrow> byte list \<Rightarrow> (int \<times> byte list \<times> byte list) outcome" where
  "compareEncodedStringsWithLength p q =
     obind (both (decodeVarInt p) (decodeVarInt q)) (\<lambda>((lenP, p), (lenQ, q)).
       if sint lenP < 0 \<or> sint lenQ < 0 then Null
       else if 2 ^ 63 \<le> sint lenP * 2 \<or> 2 ^ 63 \<le> sint lenQ * 2 then Undef
       else if int (length p) < sint lenP * 2 \<or> int (length q) < sint lenQ * 2 then Null
       else Done (compareStringBytes (sint lenP) (sint lenQ) p q,
                  drop (nat (sint lenP * 2)) p, drop (nat (sint lenQ * 2)) q))"

section \<open>Doubles\<close>

fun bytesOfWord :: "nat \<Rightarrow> 64 word \<Rightarrow> byte list" where
  "bytesOfWord 0 w = []"
| "bytesOfWord (Suc k) w = ucast w # bytesOfWord k (drop_bit 8 w)"

fun wordOfBytes :: "byte list \<Rightarrow> 64 word" where
  "wordOfBytes [] = 0"
| "wordOfBytes (c # p) = ucast c OR push_bit 8 (wordOfBytes p)"

definition encodeDouble :: "dbl \<Rightarrow> byte list" where
  "encodeDouble x = bytesOfWord 8 x"

definition decodeDouble :: "byte list \<Rightarrow> (dbl \<times> byte list) outcome" where
  "decodeDouble p = (if length p < 8 then Null else Done (wordOfBytes (take 8 p), drop 8 p))"

text \<open>
  The order of IEEE 754 doubles on their images: \<open>dbl_key\<close> reads sign and magnitude, so that
  \<open>+0\<close> and \<open>-0\<close> are equal; no comparison with a NaN holds.
\<close>

definition dbl_nan :: "dbl \<Rightarrow> bool" where
  "dbl_nan x \<longleftrightarrow> 0x7ff0000000000000 < x AND 0x7fffffffffffffff"

definition dbl_key :: "dbl \<Rightarrow> int" where
  "dbl_key x = (let m = uint (x AND 0x7fffffffffffffff) in if bit x 63 then - m else m)"

definition dbl_less :: "dbl \<Rightarrow> dbl \<Rightarrow> bool" where
  "dbl_less x y \<longleftrightarrow> \<not> dbl_nan x \<and> \<not> dbl_nan y \<and> dbl_key x < dbl_key y"

definition compareDoubles :: "dbl \<Rightarrow> dbl \<Rightarrow> int" where
  "compareDoubles d e = (if dbl_less d e then -1 else if dbl_less e d then 1 else 0)"

section \<open>Variable-length integers read back\<close>

lemma push_bit_split:
  fixes n :: i64
  shows "push_bit s (n AND mask k) OR push_bit (s + k) (drop_bit k n) = push_bit s n"
proof (rule bit_word_eqI)
  fix i assume "i < LENGTH(64)"
  show "bit (push_bit s (n AND mask k) OR push_bit (s + k) (drop_bit k n)) i = bit (push_bit s n) i"
  proof (cases "s + k \<le> i")
    case True
    then have "k + (i - (s + k)) = i - s" by simp
    with True show ?thesis by (auto simp: bit_simps)
  next
    case False
    then show ?thesis by (auto simp: bit_simps)
  qed
qed

lemma push_bit_split_and:
  fixes n :: i64
  shows "push_bit s n AND push_bit s (mask k) OR push_bit (s + k) (drop_bit k n) = push_bit s n"
  using push_bit_split [of s n k] by simp

lemma masks: "(0x7f :: i64) = mask 7" "(0x7f :: byte) = mask 7"
  by (simp_all add: mask_eq_exp_minus_1)

lemma bit_0x80: "bit (0x80 :: byte) i \<longleftrightarrow> i = 7"
proof -
  have "(0x80 :: byte) = 2 ^ 7" by simp
  then show ?thesis by (simp only: bit_exp_iff) auto
qed

lemma ucast_low7: "ucast ((ucast (n AND 0x7f) :: byte) AND 0x7f) = (n :: i64) AND mask 7"
  unfolding masks by (auto intro!: bit_word_eqI simp: bit_simps bit_0x80)

lemma cont_mask: "((c :: byte) OR 0x80) AND 0x7f = c AND 0x7f"
proof (rule bit_word_eqI)
  fix i assume "i < LENGTH(8)"
  show "bit ((c OR 0x80) AND 0x7f) i = bit (c AND 0x7f) i"
    unfolding bit_and_iff bit_or_iff bit_0x80 masks bit_mask_iff by auto
qed

lemma ucast_low7_cont: "ucast (((ucast (n AND 0x7f) :: byte) OR 0x80) AND 0x7f) = (n :: i64) AND mask 7"
  by (simp only: cont_mask ucast_low7)

lemma low7_no_cont: "(ucast ((n :: i64) AND 0x7f) :: byte) AND 0x80 = 0"
proof (rule bit_word_eqI)
  fix i assume "i < LENGTH(8)"
  show "bit ((ucast (n AND 0x7f) :: byte) AND 0x80) i = bit (0 :: byte) i"
    unfolding bit_and_iff bit_0x80 masks bit_mask_iff bit_ucast_iff by auto
qed

lemma cont_bit: "((c :: byte) OR 0x80) AND 0x80 \<noteq> 0"
proof -
  have "bit ((c OR 0x80) AND 0x80) 7" by (simp add: bit_simps bit_0x80)
  then show ?thesis by (metis bit_0_eq bot_apply bot_bool_def)
qed

lemma shift_continues:
  assumes "drop_bit k (n :: i64) \<noteq> 0" and "unat n < 2 ^ (64 - s)" and "s < 64"
  shows "s + k < 64" and "unat (drop_bit k n) < 2 ^ (64 - (s + k))"
proof -
  have "unat (drop_bit k n) \<noteq> 0" using assms(1) by (simp add: unat_eq_0)
  then have ge: "2 ^ k \<le> unat n"
    by (simp add: unat_drop_bit div_eq_0_iff not_less)
  then have "(2::nat) ^ k < 2 ^ (64 - s)" using assms(2) by linarith
  then have "k < 64 - s" by simp
  then show lt: "s + k < 64" by simp
  have "unat n < 2 ^ (64 - (s + k)) * 2 ^ k"
    using assms(2) lt by (simp flip: power_add)
  then show "unat (drop_bit k n) < 2 ^ (64 - (s + k))"
    by (simp add: unat_drop_bit less_mult_imp_div_less)
qed

lemma decodeVarIntLoop_encode:
  "s < 64 \<Longrightarrow> unat n < 2 ^ (64 - s) \<Longrightarrow>
     decodeVarIntLoop s f (encodeVarInt n @ rest) = Done (f OR push_bit s n, rest)"
proof (induction n arbitrary: s f rule: encodeVarInt.induct)
  case (1 n)
  show ?case
  proof (cases "drop_bit 7 n = 0")
    case True
    then have "push_bit s (n AND mask 7) = push_bit s n"
      using push_bit_split [of s n 7] by simp
    with True 1(2) show ?thesis
      by (simp add: encodeVarInt.simps [of n] Let_def low7_no_cont ucast_low7)
  next
    case False
    note s7 = shift_continues [OF False 1(3) 1(2)]
    have IH: "decodeVarIntLoop (s + 7) (f OR push_bit s (n AND mask 7)) (encodeVarInt (drop_bit 7 n) @ rest)
        = Done ((f OR push_bit s (n AND mask 7)) OR push_bit (s + 7) (drop_bit 7 n), rest)"
      using 1(1) [OF refl refl False s7] .
    show ?thesis
      using False 1(2) IH
      by (simp add: encodeVarInt.simps [of n] Let_def cont_bit ucast_low7_cont or.assoc push_bit_split_and)
  qed
qed

lemma decodeVarInt_encode [simp]: "decodeVarInt (encodeVarInt n @ rest) = Done (n, rest)"
  using decodeVarIntLoop_encode [of 0 n 0 rest] unsigned_less [of n] by (simp add: decodeVarInt_def)

interpretation varint: codec encodeVarInt decodeVarInt "\<lambda>_. True"
  by unfold_locales simp

lemma encodeVarInt_nonempty [simp]: "encodeVarInt n \<noteq> []"
  by (subst encodeVarInt.simps) (simp add: Let_def)

lemma encodeVarInt_0: "encodeVarInt 0 = [0]"
  by (subst encodeVarInt.simps) simp

section \<open>Fixed-length integers read back\<close>

lemma push_bit_split8: "push_bit s (ucast (ucast (n :: i64) :: byte)) OR push_bit (s + 8) (drop_bit 8 n) = push_bit s n"
proof -
  have "(ucast (ucast n :: byte) :: i64) = n AND mask 8"
    by (auto intro!: bit_word_eqI simp: bit_simps)
  then show ?thesis by (simp only: push_bit_split)
qed

lemma decodeIntLoop_encode:
  "s < 64 \<Longrightarrow> unat n < 2 ^ (64 - s) \<Longrightarrow> decodeIntLoop s r (encodeIntLoop n) = Done (r OR push_bit s n)"
proof (induction n arbitrary: s r rule: encodeIntLoop.induct)
  case (1 n)
  show ?case
  proof (cases "drop_bit 8 n = 0")
    case True
    then show ?thesis
      using 1(2) push_bit_split8 [of s n] by (simp add: encodeIntLoop.simps [of n] Let_def)
  next
    case False
    note s8 = shift_continues [OF False 1(3) 1(2)]
    show ?thesis
      using False 1(2) 1(1) [OF refl refl False s8]
      by (simp add: encodeIntLoop.simps [of n] Let_def or.assoc push_bit_split8)
  qed
qed

lemma decodeInt_encode [simp]: "decodeInt (encodeInt n) = Done n"
  using decodeIntLoop_encode [of 0 n 0] unsigned_less [of n] by (simp add: decodeInt_def encodeInt_def)

lemma encodeInt_nonempty [simp]: "encodeInt n \<noteq> []"
  unfolding encodeInt_def by (subst encodeIntLoop.simps) (simp add: Let_def)

lemma encodeInt_0: "encodeInt 0 = [0]"
  unfolding encodeInt_def by (subst encodeIntLoop.simps) simp

lemma length_encodeInt: "unat n < 256 ^ k \<Longrightarrow> 0 < k \<Longrightarrow> length (encodeInt n) \<le> k"
  unfolding encodeInt_def
proof (induction n arbitrary: k rule: encodeIntLoop.induct)
  case (1 n)
  show ?case
  proof (cases "drop_bit 8 n = 0")
    case True
    then show ?thesis using 1(3) by (simp add: encodeIntLoop.simps [of n] Let_def)
  next
    case False
    have ge: "256 \<le> unat n"
      using False by (simp add: unat_eq_0 [symmetric] unat_drop_bit div_eq_0_iff not_less)
    obtain j where k: "k = Suc j" using 1(3) by (cases k) auto
    have "j \<noteq> 0" using ge 1(2) k by (cases j) auto
    moreover have "unat (drop_bit 8 n) < 256 ^ j"
      using 1(2) k by (simp add: unat_drop_bit less_mult_imp_div_less)
    ultimately show ?thesis
      using 1(1) [OF refl refl False, of j] False k by (simp add: encodeIntLoop.simps [of n] Let_def)
  qed
qed

lemma length_encodeInt_8: "length (encodeInt n) \<le> 8"
  using unsigned_less [of n] by (intro length_encodeInt) simp_all

section \<open>Strings and doubles read back\<close>

lemma length_encodeString [simp]: "length (encodeString s) = 2 * length s"
  by (induction s) simp_all

lemma uchar_join: "push_bit 8 (ucast (ucast (drop_bit 8 (c :: uchar)) :: byte)) OR ucast (ucast c :: byte) = c"
proof (rule bit_word_eqI)
  fix i assume "i < LENGTH(16)"
  then show "bit (push_bit 8 (ucast (ucast (drop_bit 8 c) :: byte)) OR ucast (ucast c :: byte) :: uchar) i = bit c i"
    by (cases "i < 8") (auto simp: bit_simps)
qed

lemma decodeString_encode [simp]: "decodeString (encodeString s) = s"
  by (induction s) (simp_all add: uchar_join)

definition string_ok :: "uchar list \<Rightarrow> bool" where
  "string_ok s \<longleftrightarrow> length s < 2 ^ 32"

lemma string_ok_Nil [simp]: "string_ok []"
  by (simp add: string_ok_def)

lemma string_ok_length:
  "string_ok s \<Longrightarrow> sint (of_nat (length s) :: i64) = int (length s)"
  by (simp add: string_ok_def sint_of_nat_i64)

lemma decodeStringWithLength_encode:
  "string_ok s \<Longrightarrow> decodeStringWithLength (encodeStringWithLength s @ rest) = Done (s, rest)"
  by (auto simp: decodeStringWithLength_def encodeStringWithLength_def string_ok_length Let_def nat_mult_distrib)
    (simp_all add: string_ok_def)

interpretation str: codec encodeStringWithLength decodeStringWithLength string_ok
  by unfold_locales (rule decodeStringWithLength_encode)

lemma wordOfBytes_bytesOfWord: "wordOfBytes (bytesOfWord k w) = take_bit (8 * k) w"
proof (induction k arbitrary: w)
  case 0
  then show ?case by simp
next
  case (Suc k)
  show ?case
  proof (rule bit_word_eqI)
    fix i assume i: "i < LENGTH(64)"
    show "bit (wordOfBytes (bytesOfWord (Suc k) w)) i = bit (take_bit (8 * Suc k) w) i"
      using i by (cases "i < 8") (auto simp: Suc bit_simps)
  qed
qed

lemma length_bytesOfWord [simp]: "length (bytesOfWord k w) = k"
  by (induction k arbitrary: w) simp_all

lemma length_encodeDouble [simp]: "length (encodeDouble x) = 8"
  by (simp add: encodeDouble_def)

lemma decodeDouble_encode [simp]: "decodeDouble (encodeDouble x @ rest) = Done (x, rest)"
proof -
  have "take_bit (8 * 8) x = x" by (rule take_bit_word_eq_self) simp
  then have "wordOfBytes (encodeDouble x) = x"
    unfolding encodeDouble_def wordOfBytes_bytesOfWord .
  then show ?thesis by (simp add: decodeDouble_def)
qed

interpretation double: codec encodeDouble decodeDouble "\<lambda>_. True"
  by unfold_locales simp

section \<open>Decoders consume a prefix\<close>

lemma decodeVarIntLoop_consumes:
  "decodeVarIntLoop s f p = Done (n, q) \<Longrightarrow> \<exists>c. p = c @ q \<and> c \<noteq> []"
  by (induction s f p rule: decodeVarIntLoop.induct) (fastforce simp: Let_def split: if_splits)+

lemma decodeVarInt_consumes: "decodeVarInt p = Done (n, q) \<Longrightarrow> \<exists>c. p = c @ q \<and> c \<noteq> []"
  unfolding decodeVarInt_def by (rule decodeVarIntLoop_consumes)

lemma decodeVarInt_shrinks: "decodeVarInt p = Done (n, q) \<Longrightarrow> length q < length p"
  using decodeVarInt_consumes by fastforce

lemma decodeStringWithLength_consumes:
  "decodeStringWithLength p = Done (s, q) \<Longrightarrow> \<exists>c. p = c @ q \<and> c \<noteq> []"
proof -
  assume "decodeStringWithLength p = Done (s, q)"
  then obtain n p' where n: "decodeVarInt p = Done (n, p')" and q: "q = drop (nat (sint n * 2)) p'"
    by (auto simp: decodeStringWithLength_def obind_Done_iff Let_def split: if_splits)
  from decodeVarInt_consumes [OF n] obtain c where c: "p = c @ p'" "c \<noteq> []" by blast
  then have "p = (c @ take (nat (sint n * 2)) p') @ q" using q by simp
  then show ?thesis using c(2) by blast
qed

lemma decodeStringWithLength_shrinks: "decodeStringWithLength p = Done (s, q) \<Longrightarrow> length q < length p"
  using decodeStringWithLength_consumes by fastforce

lemma decodeDouble_consumes: "decodeDouble p = Done (d, q) \<Longrightarrow> \<exists>c. p = c @ q \<and> c \<noteq> []"
  by (auto simp: decodeDouble_def split: if_splits intro!: exI [of _ "take 8 p"])

lemma decodeDouble_shrinks: "decodeDouble p = Done (d, q) \<Longrightarrow> length q < length p"
  using decodeDouble_consumes by fastforce

section \<open>Decoders read exactly what they consume\<close>

text \<open>
  A decoder reads a value off some bytes: they are enough, whatever follows them, and with fewer of
  them it fails instead of looking further.
\<close>

definition readsOff :: "(byte list \<Rightarrow> ('a \<times> byte list) outcome) \<Rightarrow> byte list \<Rightarrow> 'a \<Rightarrow> bool" where
  "readsOff dec c x \<longleftrightarrow> (\<forall>r. dec (c @ r) = Done (x, r)) \<and> (\<forall>n<length c. dec (take n c) = Null)"

lemma readsOff_Done: "readsOff (\<lambda>p. Done (x, p)) [] x"
  by (simp add: readsOff_def)

lemma readsOff_bind:
  assumes "readsOff dec c x" and "readsOff (dec' x) d y"
  shows "readsOff (\<lambda>p. obind (dec p) (\<lambda>(x, p). dec' x p)) (c @ d) y"
proof -
  have "obind (dec (take n (c @ d))) (\<lambda>(x, p). dec' x p) = Null" if "n < length (c @ d)" for n
  proof (cases "n < length c")
    case False
    then show ?thesis using assms that by (simp add: readsOff_def)
  qed (use assms in \<open>simp add: readsOff_def\<close>)
  then show ?thesis using assms by (simp add: readsOff_def)
qed

lemma readsOff_map: "readsOff dec c x \<Longrightarrow> readsOff (\<lambda>p. obind (dec p) (\<lambda>(x, p). Done (f x, p))) c (f x)"
  using readsOff_bind [of dec c x "\<lambda>x p. Done (f x, p)" "[]" "f x"] by (simp add: readsOff_Done)

lemma readsOff_Cons:
  assumes "readsOff dec c x" and "dec' [] = Null" and "\<And>p. dec' (b # p) = dec p"
  shows "readsOff dec' (b # c) x"
  using assms by (auto simp: readsOff_def take_Cons split: nat.splits)

lemma decodeVarIntLoop_reads:
  "decodeVarIntLoop s f p = Done (n, q) \<Longrightarrow> \<exists>c. p = c @ q \<and> readsOff (decodeVarIntLoop s f) c n"
proof (induction s f p rule: decodeVarIntLoop.induct)
  case (2 s f b p)
  let ?f = "f OR push_bit s (ucast (b AND 0x7f))"
  have s: "\<not> 64 \<le> s" using 2(2) by auto
  show ?case
  proof (cases "b AND 0x80 = 0")
    case True
    then have "readsOff (decodeVarIntLoop s f) [b] n" "p = q" using 2(2) s by (auto simp: readsOff_def Let_def)
    then show ?thesis by auto
  next
    case False
    then obtain c where "p = c @ q" "readsOff (decodeVarIntLoop (s + 7) ?f) c n"
      using 2 s by (auto simp: Let_def)
    then have "b # p = (b # c) @ q" "readsOff (decodeVarIntLoop s f) (b # c) n"
      using readsOff_Cons [of _ c n "decodeVarIntLoop s f" b] False s by (auto simp: Let_def)
    then show ?thesis by blast
  qed
qed simp

lemma decodeVarInt_reads: "decodeVarInt p = Done (n, q) \<Longrightarrow> \<exists>c. p = c @ q \<and> readsOff decodeVarInt c n"
  using decodeVarIntLoop_reads [of 0 0 p n q] by (auto simp: readsOff_def decodeVarInt_def)

lemma decodeDouble_reads:
  assumes "decodeDouble p = Done (d, q)"
  shows "\<exists>c. p = c @ q \<and> readsOff decodeDouble c d"
proof -
  have "8 \<le> length p" "q = drop 8 p" "d = wordOfBytes (take 8 p)" using assms by (auto simp: decodeDouble_def split: if_splits)
  then have "p = take 8 p @ q" "readsOff decodeDouble (take 8 p) d" by (auto simp: readsOff_def decodeDouble_def)
  then show ?thesis by blast
qed

lemma decodeStringWithLength_reads:
  assumes "decodeStringWithLength p = Done (s, q)"
  shows "\<exists>c. p = c @ q \<and> readsOff decodeStringWithLength c s"
proof -
  define body where "body = (\<lambda>len p.
    if sint (len :: i64) < 0 then Null
    else if 2 ^ 63 \<le> sint len * 2 then Undef
    else if int (length p) < sint len * 2 then Null
    else let n = nat (sint len * 2) in Done (decodeString (take n p), drop n p))"
  have dec: "decodeStringWithLength = (\<lambda>p. obind (decodeVarInt p) (\<lambda>(len, p). body len p))"
    by (simp add: fun_eq_iff decodeStringWithLength_def body_def)
  obtain len p1 where len: "decodeVarInt p = Done (len, p1)" and b: "body len p1 = Done (s, q)"
    using assms by (auto simp: dec obind_Done_iff)
  obtain c where c: "p = c @ p1" "readsOff decodeVarInt c len" using decodeVarInt_reads [OF len] by blast
  have n: "0 \<le> sint len" "sint len * 2 < 2 ^ 63" "nat (sint len * 2) \<le> length p1" "q = drop (nat (sint len * 2)) p1"
    "s = decodeString (take (nat (sint len * 2)) p1)"
    using b by (auto simp: body_def Let_def split: if_splits)
  then have "readsOff (body len) (take (nat (sint len * 2)) p1) s" by (auto simp: readsOff_def body_def Let_def)
  then have "readsOff decodeStringWithLength (c @ take (nat (sint len * 2)) p1) s"
    unfolding dec by (rule readsOff_bind [OF c(2)])
  moreover have "p = (c @ take (nat (sint len * 2)) p1) @ q" using c(1) n(4) by simp
  ultimately show ?thesis by blast
qed

section \<open>Comparisons advance\<close>

lemma compareEncodedStringsE:
  assumes "compareEncodedStringsWithLength p q = Done (r, p', q')"
  obtains lenP p1 lenQ q1 where "decodeVarInt p = Done (lenP, p1)" "decodeVarInt q = Done (lenQ, q1)"
    "p' = drop (nat (sint lenP * 2)) p1" "q' = drop (nat (sint lenQ * 2)) q1"
proof -
  from assms obtain lenP p1 lenQ q1 where
    "both (decodeVarInt p) (decodeVarInt q) = Done ((lenP, p1), (lenQ, q1))"
    and "p' = drop (nat (sint lenP * 2)) p1" "q' = drop (nat (sint lenQ * 2)) q1"
    unfolding compareEncodedStringsWithLength_def by (auto simp: obind_Done_iff split: if_split_asm)
  then show thesis using that by (auto simp: both_Done_iff)
qed

lemma compareEncodedStrings_shrinks:
  assumes "compareEncodedStringsWithLength p q = Done (r, p', q')"
  shows "length p' < length p" and "length q' < length q"
  using assms by (auto elim!: compareEncodedStringsE dest!: decodeVarInt_shrinks)

text \<open>A variable-length integer shifts too far exactly when its first ten bytes all continue.\<close>

lemma decodeVarIntLoop_Undef:
  "s < 64 \<Longrightarrow> decodeVarIntLoop s f p = Undef \<longleftrightarrow>
     (63 - s) div 7 + 1 < length p \<and> (\<forall>c \<in> set (take ((63 - s) div 7 + 1) p). c AND 0x80 \<noteq> 0)"
proof (induction p arbitrary: s f)
  case (Cons c p)
  show ?case
  proof (cases "s + 7 < 64")
    case True
    then have "(63 - s) div 7 = Suc ((63 - (s + 7)) div 7)"
      using le_div_geq [of 7 "63 - s"] by (simp add: algebra_simps)
    then show ?thesis using True Cons by (auto simp: Let_def)
  next
    case False
    then have "(63 - s) div 7 = 0" by simp
    then show ?thesis using False Cons.prems by (cases p) (auto simp: Let_def)
  qed
qed simp

lemma decodeVarInt_Undef:
  "decodeVarInt p = Undef \<longleftrightarrow> 10 < length p \<and> (\<forall>c \<in> set (take 10 p). c AND 0x80 \<noteq> 0)"
  using decodeVarIntLoop_Undef [of 0 0 p] by (simp add: decodeVarInt_def)

section \<open>Comparing encoded strings and integers\<close>

lemma uint_drop_bit: "uint (drop_bit k (c :: 'a::len word)) = uint c div 2 ^ k"
proof -
  have "int (unat (drop_bit k c)) = int (unat c) div 2 ^ k"
    unfolding unat_drop_bit by (simp add: zdiv_int)
  then show ?thesis by simp
qed

lemma uint_ucast_byte: "uint (ucast (c :: uchar) :: byte) = uint c mod 256"
  by (simp add: unsigned_ucast_eq take_bit_eq_mod)

lemma uchar_bytes:
  "uint (ucast (drop_bit 8 (c :: uchar)) :: byte) = uint c div 256"
  "uint (ucast (c :: uchar) :: byte) = uint c mod 256"
proof -
  have "uint c < 65536" using unsigned_less [of c] by simp
  then have "uint c div 256 < 256" by auto
  moreover have "0 \<le> uint c div 256" by (simp add: pos_imp_zdiv_nonneg_iff)
  ultimately show "uint (ucast (drop_bit 8 c) :: byte) = uint c div 256"
    unfolding uint_ucast_byte uint_drop_bit by simp
qed (rule uint_ucast_byte)

lemma bytes_less_iff:
  fixes a b c d :: int
  assumes "0 \<le> b" "b < 256" "0 \<le> d" "d < 256"
  shows "256 * a + b < 256 * c + d \<longleftrightarrow> a < c \<or> a = c \<and> b < d"
    and "256 * a + b = 256 * c + d \<longleftrightarrow> a = c \<and> b = d"
  using assms by (cases a c rule: linorder_cases; simp; linarith)+

lemma memcmp_uchar:
  "memcmp (ucast (drop_bit 8 (c :: uchar)) # ucast c # p) (ucast (drop_bit 8 (d :: uchar)) # ucast d # q) =
     (if c = d then memcmp p q else if c < d then -1 else 1)"
proof -
  define ch cl dh dl where *: "ch = uint c div 256" "cl = uint c mod 256" "dh = uint d div 256" "dl = uint d mod 256"
  have lt: "(x :: byte) < y \<longleftrightarrow> uint x < uint y" for x y by (simp add: word_less_def)
  have split: "uint c = 256 * ch + cl" "uint d = 256 * dh + dl" by (simp_all add: *)
  have bounds: "0 \<le> cl" "cl < 256" "0 \<le> dl" "dl < 256" by (simp_all add: *)
  have less: "c < d \<longleftrightarrow> ch < dh \<or> ch = dh \<and> cl < dl" and eq: "c = d \<longleftrightarrow> ch = dh \<and> cl = dl"
    unfolding word_less_def word_uint_eq_iff split bytes_less_iff [OF bounds] by (rule refl)+
  show ?thesis
    unfolding memcmp.simps lt uchar_bytes(1) [of c] uchar_bytes(1) [of d]
      uchar_bytes(2) [of c] uchar_bytes(2) [of d] less eq * [symmetric]
    by (cases ch dh rule: linorder_cases; cases cl dl rule: linorder_cases) simp_all
qed

lemma compareInts_sgn:
  assumes "i64_ok a" and "i64_ok b"
  shows "compareInts a b = sgn (sint a - sint b)"
proof -
  have "sint a < 2 ^ 63" "sint b < 2 ^ 63" using sint_lt [of a] sint_lt [of b] by simp_all
  then have "sint (a - b) = sint a - sint b"
    using assms by (simp add: sint_word_diff i64_ok_def signed_take_bit_int_eq_self)
  then show ?thesis by (simp add: compareInts_def Let_def sgn_if)
qed

interpretation ints: comparator compareInts i64_ok
  by (rule comparator_on_key [where g = sint]) (simp add: compareInts_sgn)

lemma compareInts_eq_0: "i64_ok a \<Longrightarrow> i64_ok b \<Longrightarrow> compareInts a b = 0 \<longleftrightarrow> a = b"
  by (simp add: compareInts_sgn sgn_0_0 sint_eq_iff_i64)

end
