(* ===== verification/IDB_Key.thy ===== *)
theory IDB_Key
  imports LevelDB_Bytes
begin

text \<open>
  \<open>IDBKey\<close> (\<open>Modules/indexeddb/IDBKey.h\<close>, \<open>IDBKey.cpp\<close>): the keys of an IndexedDB record, their
  types, validity, size estimate and order; \<open>codePointCompare\<close> of \<open>WTF/wtf/text/StringImpl.h\<close>.
\<close>

section \<open>Comparing strings by code unit\<close>

definition compareUChars :: "uchar \<Rightarrow> uchar \<Rightarrow> int" where
  "compareUChars a b = (if a = b then 0 else if b < a then 1 else -1)"

definition codePointCompare :: "uchar list \<Rightarrow> uchar list \<Rightarrow> int" where
  "codePointCompare s t = lexCmp compareUChars s t"

lemma sgn_uint_diff: "sgn (uint a - uint b) = (if a = b then 0 else if b < a then 1 else -1)"
  by (simp add: sgn_if word_less_def word_uint_eq_iff)

interpretation uchars: comparator compareUChars "\<lambda>_. True"
  by (rule comparator_on_key [where g = uint]) (simp add: sgn_uint_diff compareUChars_def)

interpretation codePoints: comparator codePointCompare "\<lambda>_. True"
proof -
  have "comparator (lexCmp compareUChars) (list_all (\<lambda>_. True))"
    by (rule comparator_lexCmp) unfold_locales
  moreover have "lexCmp compareUChars = codePointCompare"
    by (intro ext) (simp add: codePointCompare_def)
  moreover have "list_all (\<lambda>_. True) = (\<lambda>_ :: uchar list. True)"
    by (simp add: fun_eq_iff list_all_iff)
  ultimately show "comparator codePointCompare (\<lambda>_. True)" by simp
qed

lemma codePointCompare_eq_0: "codePointCompare s t = 0 \<longleftrightarrow> s = t"
  unfolding codePointCompare_def
  by (induction compareUChars s t rule: lexCmp.induct) (auto simp: Let_def compareUChars_def)

section \<open>Keys and their types\<close>

datatype IDBKeyType = MaxType | InvalidType | ArrayType | StringType | DateType | NumberType | MinType

fun typeValue :: "IDBKeyType \<Rightarrow> int" where
  "typeValue MaxType = -1"
| "typeValue InvalidType = 0"
| "typeValue ArrayType = 1"
| "typeValue StringType = 2"
| "typeValue DateType = 3"
| "typeValue NumberType = 4"
| "typeValue MinType = 5"

datatype IDBKey =
    InvalidKey
  | MinKey
  | MaxKey
  | NumberKey dbl
  | DateKey dbl
  | StringKey "uchar list"
  | ArrayKey "IDBKey list"

fun keyType :: "IDBKey \<Rightarrow> IDBKeyType" where
  "keyType InvalidKey = InvalidType"
| "keyType MinKey = MinType"
| "keyType MaxKey = MaxType"
| "keyType (NumberKey _) = NumberType"
| "keyType (DateKey _) = DateType"
| "keyType (StringKey _) = StringType"
| "keyType (ArrayKey _) = ArrayType"

definition compareTypes :: "IDBKeyType \<Rightarrow> IDBKeyType \<Rightarrow> int" where
  "compareTypes a b = typeValue b - typeValue a"

fun isValid :: "IDBKey \<Rightarrow> bool" where
  "isValid InvalidKey = False"
| "isValid (ArrayKey ks) = list_all isValid ks"
| "isValid _ = True"

fun IDBKey_compare :: "IDBKey \<Rightarrow> IDBKey \<Rightarrow> int" where
  "IDBKey_compare a b =
     (if keyType a \<noteq> keyType b then (if typeValue (keyType b) < typeValue (keyType a) then -1 else 1)
      else case (a, b) of
        (ArrayKey xs, ArrayKey ys) \<Rightarrow> lexCmp IDBKey_compare xs ys
      | (StringKey s, StringKey t) \<Rightarrow> - codePointCompare t s
      | (DateKey d, DateKey e) \<Rightarrow> compareDoubles d e
      | (NumberKey d, NumberKey e) \<Rightarrow> compareDoubles d e
      | _ \<Rightarrow> 0)"

declare IDBKey_compare.simps [simp del]

definition IDBKey_isLessThan :: "IDBKey \<Rightarrow> IDBKey \<Rightarrow> bool" where
  "IDBKey_isLessThan a b \<longleftrightarrow> IDBKey_compare a b = -1"

definition IDBKey_isEqual :: "IDBKey \<Rightarrow> IDBKey \<Rightarrow> bool" where
  "IDBKey_isEqual a b \<longleftrightarrow> IDBKey_compare a b = 0"

fun multiEntryLoop :: "IDBKey list \<Rightarrow> IDBKey list \<Rightarrow> IDBKey list" where
  "multiEntryLoop result [] = result"
| "multiEntryLoop result (k # array) =
     (if \<not> isValid k then multiEntryLoop result array
      else if list_ex (IDBKey_isEqual k) result then multiEntryLoop result array
      else multiEntryLoop (result @ [k]) array)"

definition createMultiEntryArray :: "IDBKey list \<Rightarrow> IDBKey" where
  "createMultiEntryArray array = ArrayKey (multiEntryLoop [] array)"

fun sizeEstimate :: "IDBKey \<Rightarrow> nat" where
  "sizeEstimate (NumberKey _) = 16 + 8"
| "sizeEstimate (DateKey _) = 16 + 8"
| "sizeEstimate (StringKey s) = 16 + length s * 2"
| "sizeEstimate (ArrayKey ks) = 16 + sum_list (map sizeEstimate ks)"
| "sizeEstimate _ = 16"

section \<open>The order of keys\<close>

lemma typeValue_inject [simp]: "typeValue a = typeValue b \<longleftrightarrow> a = b"
  by (cases a; cases b) simp_all

lemma IDBKey_compare_types:
  "keyType a \<noteq> keyType b \<Longrightarrow>
     IDBKey_compare a b = (if typeValue (keyType b) < typeValue (keyType a) then -1 else 1)"
  by (simp add: IDBKey_compare.simps)

lemma IDBKey_compare_same [simp]:
  "IDBKey_compare (ArrayKey xs) (ArrayKey ys) = lexCmp IDBKey_compare xs ys"
  "IDBKey_compare (StringKey s) (StringKey t) = - codePointCompare t s"
  "IDBKey_compare (DateKey d) (DateKey e) = compareDoubles d e"
  "IDBKey_compare (NumberKey d) (NumberKey e) = compareDoubles d e"
  "IDBKey_compare InvalidKey InvalidKey = 0"
  "IDBKey_compare MinKey MinKey = 0"
  "IDBKey_compare MaxKey MaxKey = 0"
  by (simp_all add: IDBKey_compare.simps)

lemma keyType_cases:
  assumes "keyType a = keyType b"
  obtains (Array) xs ys where "a = ArrayKey xs" "b = ArrayKey ys"
    | (String) s t where "a = StringKey s" "b = StringKey t"
    | (Date) d e where "a = DateKey d" "b = DateKey e"
    | (Number) d e where "a = NumberKey d" "b = NumberKey e"
    | (Other) "b = a" "\<forall>xs. a \<noteq> ArrayKey xs" "IDBKey_compare a a = 0"
  using assms by (cases a; cases b) auto

text \<open>\<open>dbl_less\<close> with a NaN never holds, so a key is ordered when no number in it is a NaN.\<close>

fun no_nan :: "IDBKey \<Rightarrow> bool" where
  "no_nan (NumberKey d) = (\<not> dbl_nan d)"
| "no_nan (DateKey d) = (\<not> dbl_nan d)"
| "no_nan (ArrayKey ks) = list_all no_nan ks"
| "no_nan _ = True"

interpretation doubles: comparator compareDoubles "\<lambda>d. \<not> dbl_nan d"
  by (rule comparator_on_key [where g = dbl_key]) (simp add: compareDoubles_def dbl_less_def sgn_if)

lemma codePointCompare_range: "codePointCompare s t \<in> {-1, 0, 1}"
  unfolding codePointCompare_def by (rule lexCmp_range) (simp add: compareUChars_def)

lemma string_keys_compare: "- codePointCompare t s = codePointCompare s t"
  using codePoints.cmp_swap [of s t] codePointCompare_range [of s t] codePointCompare_range [of t s] by auto

lemma IDBKey_compare_range: "IDBKey_compare a b \<in> {-1, 0, 1}"
proof (induction a arbitrary: b)
  case (ArrayKey xs)
  then have "lexCmp IDBKey_compare xs ys \<in> {-1, 0, 1}" for ys by (rule lexCmp_range)
  then show ?case by (cases b) (simp_all add: IDBKey_compare_types)
next
  case (StringKey s)
  have "codePointCompare s t \<in> {-1, 0, 1}" for t by (rule codePointCompare_range)
  then show ?case by (cases b) (simp_all add: IDBKey_compare_types string_keys_compare)
qed (case_tac [!] b, simp_all add: IDBKey_compare_types compareDoubles_def)

lemma IDBKey_comparator_size: "comparator IDBKey_compare (\<lambda>k. no_nan k \<and> size k < n)"
proof (induction n)
  case 0
  show ?case by (rule comparator.intro) simp_all
next
  case (Suc n)
  let ?ok = "\<lambda>n k. no_nan k \<and> size k < n"
  have arrays: "comparator (lexCmp IDBKey_compare) (list_all (?ok n))"
    by (rule comparator_lexCmp [OF Suc])
  have elems: "list_all (?ok n) xs" if "?ok (Suc n) (ArrayKey xs)" for xs
  proof -
    have "size x < n" if "x \<in> set xs" for x
      using that \<open>?ok (Suc n) (ArrayKey xs)\<close> size_list_estimation' [OF that, of "size x" size] by simp
    then show ?thesis using that by (auto simp: list_all_iff)
  qed
  show ?case
  proof (rule comparator.intro)
    fix x y assume ok: "?ok (Suc n) x" "?ok (Suc n) y"
    show "sgn (IDBKey_compare y x) = - sgn (IDBKey_compare x y)"
    proof (cases "keyType x = keyType y")
      case False
      then show ?thesis by (auto simp: IDBKey_compare_types not_less le_less)
    next
      case True
      then show ?thesis
      proof (cases rule: keyType_cases)
        case (Array xs ys)
        then show ?thesis using ok elems comparator.cmp_swap [OF arrays, of xs ys] by simp
      next
        case (String s t)
        then show ?thesis using codePoints.cmp_swap [of s t] by (simp add: string_keys_compare)
      next
        case (Date d e)
        then show ?thesis using ok doubles.cmp_swap [of d e] by simp
      next
        case (Number d e)
        then show ?thesis using ok doubles.cmp_swap [of d e] by simp
      qed simp
    qed
  next
    fix x y z assume ok: "?ok (Suc n) x" "?ok (Suc n) y" "?ok (Suc n) z"
      and le: "IDBKey_compare x y \<le> 0" "IDBKey_compare y z \<le> 0"
    let ?t = "\<lambda>k. typeValue (keyType k)"
    have tle: "?t b \<le> ?t a" if "IDBKey_compare a b \<le> 0" for a b
      using that by (cases "keyType a = keyType b") (auto simp: IDBKey_compare_types split: if_splits)
    show "IDBKey_compare x z \<le> 0"
    proof (cases "keyType x = keyType z")
      case False
      then have "?t z \<noteq> ?t x" by simp
      then have "?t z < ?t x" using tle [OF le(1)] tle [OF le(2)] by linarith
      with False show ?thesis by (simp add: IDBKey_compare_types)
    next
      case True
      then have "?t y = ?t x" using tle [OF le(1)] tle [OF le(2)] by simp
      then have xy: "keyType x = keyType y" and "keyType y = keyType z" using True by simp_all
      from xy show ?thesis
      proof (cases rule: keyType_cases)
        case (Array xs ys)
        then obtain zs where "z = ArrayKey zs" using \<open>keyType y = keyType z\<close> by (cases z) auto
        then show ?thesis
          using Array ok le elems comparator.cmp_le_trans [OF arrays, of xs ys zs] by simp
      next
        case (String s t)
        then obtain u where "z = StringKey u" using \<open>keyType y = keyType z\<close> by (cases z) auto
        then show ?thesis
          using String le codePoints.cmp_le_trans [of s t u] by (simp add: string_keys_compare)
      next
        case (Date d e)
        then obtain f where "z = DateKey f" using \<open>keyType y = keyType z\<close> by (cases z) auto
        then show ?thesis using Date ok le doubles.cmp_le_trans [of d e f] by simp
      next
        case (Number d e)
        then obtain f where "z = NumberKey f" using \<open>keyType y = keyType z\<close> by (cases z) auto
        then show ?thesis using Number ok le doubles.cmp_le_trans [of d e f] by simp
      next
        case Other
        then show ?thesis using le by simp
      qed
    qed
  qed
qed

interpretation keys: comparator IDBKey_compare no_nan
proof (rule comparator.intro)
  show "sgn (IDBKey_compare y x) = - sgn (IDBKey_compare x y)" if "no_nan x" "no_nan y" for x y
    using that comparator.cmp_swap [OF IDBKey_comparator_size, of x "Suc (size x + size y)" y] by simp
  show "IDBKey_compare x z \<le> 0"
    if "no_nan x" "no_nan y" "no_nan z" "IDBKey_compare x y \<le> 0" "IDBKey_compare y z \<le> 0" for x y z
    using that comparator.cmp_le_trans
      [OF IDBKey_comparator_size, of x "Suc (size x + size y + size z)" y z] by simp
qed

section \<open>Multi-entry arrays\<close>

definition distinct_keys :: "IDBKey list \<Rightarrow> bool" where
  "distinct_keys ks \<longleftrightarrow> sorted_wrt (\<lambda>a b. \<not> IDBKey_isEqual b a) ks"

lemma multiEntryLoop_inv:
  "list_all isValid result \<Longrightarrow> distinct_keys result \<Longrightarrow>
     list_all isValid (multiEntryLoop result array) \<and> distinct_keys (multiEntryLoop result array)"
  by (induction result array rule: multiEntryLoop.induct)
    (auto simp: distinct_keys_def sorted_wrt_append list_ex_iff)

lemma multiEntryLoop_prefix: "\<exists>more. multiEntryLoop result array = result @ more"
  by (induction result array rule: multiEntryLoop.induct) auto

lemma multiEntryLoop_sub: "set (multiEntryLoop result array) \<subseteq> set result \<union> set array"
  by (induction result array rule: multiEntryLoop.induct) auto

lemma multiEntryLoop_covers:
  assumes "k \<in> set array" and "isValid k" and "no_nan k"
  shows "list_ex (IDBKey_isEqual k) (multiEntryLoop result array)"
  using assms
proof (induction result array rule: multiEntryLoop.induct)
  case (2 result a array)
  have self: "IDBKey_isEqual k k" using 2 keys.cmp_refl by (simp add: IDBKey_isEqual_def)
  have keep: "list_ex (IDBKey_isEqual k) (multiEntryLoop r array)" if "list_ex (IDBKey_isEqual k) r" for r
    using multiEntryLoop_prefix [of r array] that by (auto simp: list_ex_iff)
  show ?case
  proof (cases "k = a")
    case True
    with 2(5) keep [of result] keep [of "result @ [a]"] self show ?thesis by auto
  next
    case False
    with 2 show ?thesis by auto
  qed
qed simp

end
