(* ===== verification/IDB_KeyCoding.thy ===== *)
theory IDB_KeyCoding
  imports IDB_Key
begin

text \<open>
  The encoding of an \<open>IDBKey\<close> and of an \<open>IDBKeyPath\<close> (\<open>IDBLevelDBCoding.cpp\<close>): encoding,
  decoding, skipping over an encoded key, and comparing two keys without decoding them.
\<close>

section \<open>Type bytes\<close>

definition IDBKeyNullTypeByte :: byte where "IDBKeyNullTypeByte = 0"
definition IDBKeyStringTypeByte :: byte where "IDBKeyStringTypeByte = 1"
definition IDBKeyDateTypeByte :: byte where "IDBKeyDateTypeByte = 2"
definition IDBKeyNumberTypeByte :: byte where "IDBKeyNumberTypeByte = 3"
definition IDBKeyArrayTypeByte :: byte where "IDBKeyArrayTypeByte = 4"
definition IDBKeyMinKeyTypeByte :: byte where "IDBKeyMinKeyTypeByte = 5"

lemmas typeByte_defs =
  IDBKeyNullTypeByte_def IDBKeyStringTypeByte_def IDBKeyDateTypeByte_def
  IDBKeyNumberTypeByte_def IDBKeyArrayTypeByte_def IDBKeyMinKeyTypeByte_def

definition maxIDBKey :: "byte list" where
  "maxIDBKey = encodeByte IDBKeyNullTypeByte"

definition minIDBKey :: "byte list" where
  "minIDBKey = encodeByte IDBKeyMinKeyTypeByte"

section \<open>Encoding and decoding\<close>

fun encodeIDBKey :: "IDBKey \<Rightarrow> byte list" where
  "encodeIDBKey InvalidKey = encodeByte IDBKeyNullTypeByte"
| "encodeIDBKey MinKey = encodeByte IDBKeyNullTypeByte"
| "encodeIDBKey MaxKey = encodeByte IDBKeyNullTypeByte"
| "encodeIDBKey (ArrayKey ks) =
     encodeByte IDBKeyArrayTypeByte @ encodeVarInt (of_nat (length ks)) @ concat (map encodeIDBKey ks)"
| "encodeIDBKey (StringKey s) = encodeByte IDBKeyStringTypeByte @ encodeStringWithLength s"
| "encodeIDBKey (DateKey d) = encodeByte IDBKeyDateTypeByte @ encodeDouble d"
| "encodeIDBKey (NumberKey d) = encodeByte IDBKeyNumberTypeByte @ encodeDouble d"

text \<open>\<open>decodeIDBKeys n\<close> is the loop \<open>while (length--)\<close> of the array case.\<close>

function decodeIDBKey :: "byte list \<Rightarrow> (IDBKey \<times> byte list) outcome"
  and decodeIDBKeys :: "nat \<Rightarrow> byte list \<Rightarrow> (IDBKey list \<times> byte list) outcome" where
  "decodeIDBKey [] = Null"
| "decodeIDBKey (type # p) =
     (if type = IDBKeyNullTypeByte then Done (InvalidKey, p)
      else if type = IDBKeyArrayTypeByte then
        obind (decodeVarInt p) (\<lambda>(length, p).
          if sint length < 0 then Null
          else obind (decodeIDBKeys (nat (sint length)) p) (\<lambda>(array, p). Done (ArrayKey array, p)))
      else if type = IDBKeyStringTypeByte then
        obind (decodeStringWithLength p) (\<lambda>(s, p). Done (StringKey s, p))
      else if type = IDBKeyDateTypeByte then
        obind (decodeDouble p) (\<lambda>(d, p). Done (DateKey d, p))
      else if type = IDBKeyNumberTypeByte then
        obind (decodeDouble p) (\<lambda>(d, p). Done (NumberKey d, p))
      else Null)"
| "decodeIDBKeys 0 p = Done ([], p)"
| "decodeIDBKeys (Suc n) p =
     obind (decodeIDBKey p) (\<lambda>(key, p).
       obind (decodeIDBKeys n p) (\<lambda>(array, p). Done (key # array, p)))"
  by pat_completeness auto

lemma decodeIDBKey_shrinks_dom:
  "decodeIDBKey_decodeIDBKeys_dom (Inl p) \<Longrightarrow> decodeIDBKey p = Done (k, q) \<Longrightarrow> length q < length p"
  "decodeIDBKey_decodeIDBKeys_dom (Inr (n, p')) \<Longrightarrow> decodeIDBKeys n p' = Done (ks, q') \<Longrightarrow> length q' \<le> length p'"
proof (induction p and n p' arbitrary: k q and ks q' rule: decodeIDBKey_decodeIDBKeys.pinduct)
  case (2 type p)
  show ?case
  proof (cases "type = IDBKeyArrayTypeByte")
    case True
    with 2 obtain n p1 ks where "decodeVarInt p = Done (n, p1)"
      "decodeIDBKeys (nat (sint n)) p1 = Done (ks, q)" "\<not> sint n < 0"
      by (auto simp: decodeIDBKey.psimps obind_Done_iff typeByte_defs split: if_splits)
    then show ?thesis
      using 2(2) [OF _ True] decodeVarInt_shrinks [of p] True by (fastforce simp: typeByte_defs)
  next
    case False
    with 2 show ?thesis
      by (auto simp: decodeIDBKey.psimps obind_Done_iff split: if_splits
          dest: decodeStringWithLength_shrinks decodeDouble_shrinks)
  qed
next
  case (4 n p)
  then show ?case by (fastforce simp: decodeIDBKeys.psimps obind_Done_iff)
qed (auto simp: decodeIDBKey.psimps decodeIDBKeys.psimps)

termination decodeIDBKey
proof (relation "measures [\<lambda>x. case x of Inl p \<Rightarrow> length p | Inr (n, p) \<Rightarrow> length p,
    \<lambda>x. case x of Inl p \<Rightarrow> 0 | Inr (n, p) \<Rightarrow> Suc n]")
qed (auto dest: decodeVarInt_shrinks decodeIDBKey_shrinks_dom(1))

section \<open>Skipping an encoded key\<close>

text \<open>
  \<open>extractIDBKeyPtr\<close> is the pointer that \<open>extractEncodedIDBKey\<close> returns, \<open>extractIDBKeysPtr n\<close> its
  loop over the elements of an array. A type byte that no case names falls out of the
  \<open>switch\<close> and is taken for a key of one byte.
\<close>

function extractIDBKeyPtr :: "byte list \<Rightarrow> byte list outcome"
  and extractIDBKeysPtr :: "nat \<Rightarrow> byte list \<Rightarrow> byte list outcome" where
  "extractIDBKeyPtr [] = Null"
| "extractIDBKeyPtr (type # p) =
     (if type = IDBKeyNullTypeByte \<or> type = IDBKeyMinKeyTypeByte then Done p
      else if type = IDBKeyArrayTypeByte then
        obind (decodeVarInt p) (\<lambda>(length, p).
          if sint length < 0 then Null else extractIDBKeysPtr (nat (sint length)) p)
      else if type = IDBKeyStringTypeByte then
        obind (decodeVarInt p) (\<lambda>(len, p).
          if sint len < 0 then Null
          else if 2 ^ 63 \<le> sint len * 2 then Undef
          else if int (length p) < sint len * 2 then Null
          else Done (drop (nat (sint len * 2)) p))
      else if type = IDBKeyDateTypeByte \<or> type = IDBKeyNumberTypeByte then
        if length p < 8 then Null else Done (drop 8 p)
      else Done p)"
| "extractIDBKeysPtr 0 p = Done p"
| "extractIDBKeysPtr (Suc n) p = obind (extractIDBKeyPtr p) (\<lambda>p. extractIDBKeysPtr n p)"
  by pat_completeness auto

lemma extractIDBKeyPtr_shrinks_dom:
  "extractIDBKeyPtr_extractIDBKeysPtr_dom (Inl p) \<Longrightarrow> extractIDBKeyPtr p = Done q \<Longrightarrow> length q < length p"
  "extractIDBKeyPtr_extractIDBKeysPtr_dom (Inr (n, p')) \<Longrightarrow> extractIDBKeysPtr n p' = Done q' \<Longrightarrow>
     length q' \<le> length p'"
proof (induction p and n p' arbitrary: q and q' rule: extractIDBKeyPtr_extractIDBKeysPtr.pinduct)
  case (2 type p)
  show ?case
  proof (cases "type = IDBKeyArrayTypeByte")
    case True
    with 2 obtain n p1 where "decodeVarInt p = Done (n, p1)"
      "extractIDBKeysPtr (nat (sint n)) p1 = Done q" "\<not> sint n < 0"
      by (auto simp: extractIDBKeyPtr.psimps obind_Done_iff typeByte_defs split: if_splits)
    then show ?thesis
      using 2(2) [OF _ True] decodeVarInt_shrinks [of p] True by (fastforce simp: typeByte_defs)
  next
    case False
    with 2 show ?thesis
      by (auto simp: extractIDBKeyPtr.psimps obind_Done_iff split: if_splits dest!: decodeVarInt_shrinks)
  qed
next
  case (4 n p)
  then show ?case by (fastforce simp: extractIDBKeysPtr.psimps obind_Done_iff)
qed (auto simp: extractIDBKeyPtr.psimps extractIDBKeysPtr.psimps)

termination extractIDBKeyPtr
proof (relation "measures [\<lambda>x. case x of Inl p \<Rightarrow> length p | Inr (n, p) \<Rightarrow> length p,
    \<lambda>x. case x of Inl p \<Rightarrow> 0 | Inr (n, p) \<Rightarrow> Suc n]")
qed (auto dest: decodeVarInt_shrinks extractIDBKeyPtr_shrinks_dom(1))

definition extractEncodedIDBKey :: "byte list \<Rightarrow> (byte list \<times> byte list) outcome" where
  "extractEncodedIDBKey start =
     obind (extractIDBKeyPtr start) (\<lambda>p. Done (take (length start - length p) start, p))"

section \<open>Comparing encoded keys\<close>

definition keyTypeByteToKeyType :: "byte \<Rightarrow> IDBKeyType" where
  "keyTypeByteToKeyType type =
     (if type = IDBKeyNullTypeByte then InvalidType
      else if type = IDBKeyArrayTypeByte then ArrayType
      else if type = IDBKeyStringTypeByte then StringType
      else if type = IDBKeyDateTypeByte then DateType
      else if type = IDBKeyNumberTypeByte then NumberType
      else if type = IDBKeyMinKeyTypeByte then MinType
      else InvalidType)"

text \<open>
  The result, and the two pointers as the call leaves them; \<open>Null\<close> when the call sets \<open>ok\<close> to
  false. The first byte of each key is read with no check against its limit, so an empty
  operand is \<open>Undef\<close>. \<open>compareEncodedIDBKeysLoop n\<close> is the loop over the common elements of two
  arrays.
\<close>

function compareEncodedIDBKeys :: "byte list \<Rightarrow> byte list \<Rightarrow> (int \<times> byte list \<times> byte list) outcome"
  and compareEncodedIDBKeysLoop ::
    "nat \<Rightarrow> byte list \<Rightarrow> byte list \<Rightarrow> (int \<times> byte list \<times> byte list) outcome" where
  "compareEncodedIDBKeys [] b = Undef"
| "compareEncodedIDBKeys (typeA # a) [] = Undef"
| "compareEncodedIDBKeys (typeA # a) (typeB # b) =
     (let x = compareTypes (keyTypeByteToKeyType typeA) (keyTypeByteToKeyType typeB)
      in if x \<noteq> 0 then Done (x, a, b)
         else if typeA = IDBKeyNullTypeByte \<or> typeA = IDBKeyMinKeyTypeByte then Done (0, a, b)
         else if typeA = IDBKeyArrayTypeByte then
           obind (both (decodeVarInt a) (decodeVarInt b)) (\<lambda>((lengthA, a), (lengthB, b)).
             if sint lengthA < 0 \<or> sint lengthB < 0 then Null
             else obind (compareEncodedIDBKeysLoop (nat (min (sint lengthA) (sint lengthB))) a b)
               (\<lambda>(result, a, b).
                  Done (if result \<noteq> 0 then result
                        else if sint lengthA < sint lengthB then -1
                        else if sint lengthB < sint lengthA then 1
                        else 0, a, b)))
         else if typeA = IDBKeyStringTypeByte then compareEncodedStringsWithLength a b
         else if typeA = IDBKeyDateTypeByte \<or> typeA = IDBKeyNumberTypeByte then
           obind (both (decodeDouble a) (decodeDouble b)) (\<lambda>((d, a), (e, b)).
             Done (compareDoubles d e, a, b))
         else Done (0, a, b))"
| "compareEncodedIDBKeysLoop 0 a b = Done (0, a, b)"
| "compareEncodedIDBKeysLoop (Suc n) a b =
     obind (compareEncodedIDBKeys a b) (\<lambda>(result, a, b).
       if result \<noteq> 0 then Done (result, a, b) else compareEncodedIDBKeysLoop n a b)"
  by pat_completeness auto

lemma both_cong_left: "both m n = Done (x, y) \<Longrightarrow> m = Done x \<and> n = Done y"
  by (simp add: both_Done_iff)

lemma compareEncodedIDBKeys_shrinks_dom:
  "compareEncodedIDBKeys_compareEncodedIDBKeysLoop_dom (Inl (a, b)) \<Longrightarrow>
     compareEncodedIDBKeys a b = Done (r, p, q) \<Longrightarrow> length p < length a"
  "compareEncodedIDBKeys_compareEncodedIDBKeysLoop_dom (Inr (n, a', b')) \<Longrightarrow>
     compareEncodedIDBKeysLoop n a' b' = Done (r', p', q') \<Longrightarrow> length p' \<le> length a'"
proof (induction a b and n a' b' arbitrary: r p q and r' p' q'
    rule: compareEncodedIDBKeys_compareEncodedIDBKeysLoop.pinduct)
  case (3 typeA a typeB b)
  show ?case
  proof (cases "typeA = IDBKeyArrayTypeByte \<and>
      compareTypes (keyTypeByteToKeyType typeA) (keyTypeByteToKeyType typeB) = 0")
    case True
    with 3 obtain m a1 n b1 r1 where *: "both (decodeVarInt a) (decodeVarInt b) = Done ((m, a1), (n, b1))"
      "\<not> (sint m < 0 \<or> sint n < 0)"
      "compareEncodedIDBKeysLoop (nat (min (sint m) (sint n))) a1 b1 = Done (r1, p, q)"
      by (auto simp: compareEncodedIDBKeys.psimps obind_Done_iff typeByte_defs Let_def split: if_splits)
    have "length p \<le> length a1"
      using 3(2) [OF refl _ _ _ *(1) refl refl *(2,3)] True by (auto simp: typeByte_defs)
    then show ?thesis using * decodeVarInt_shrinks [of a] by (auto simp: both_Done_iff)
  next
    case False
    with 3 show ?thesis
      by (auto simp: compareEncodedIDBKeys.psimps obind_Done_iff both_Done_iff Let_def split: if_splits
          dest: compareEncodedStrings_shrinks(1) decodeDouble_shrinks)
  qed
next
  case (5 n a b)
  then show ?case
    by (fastforce simp: compareEncodedIDBKeysLoop.psimps obind_Done_iff split: if_splits)
qed (auto simp: compareEncodedIDBKeys.psimps compareEncodedIDBKeysLoop.psimps)

termination compareEncodedIDBKeys
proof (relation "measures [\<lambda>x. case x of Inl (a, b) \<Rightarrow> length a | Inr (n, a, b) \<Rightarrow> length a,
    \<lambda>x. case x of Inl (a, b) \<Rightarrow> 0 | Inr (n, a, b) \<Rightarrow> Suc n]")
qed (auto simp: both_Done_iff dest: decodeVarInt_shrinks compareEncodedIDBKeys_shrinks_dom(1))

section \<open>Key paths\<close>

datatype IDBKeyPath = NullPath | StringPath "uchar list" | ArrayPath "uchar list list"

fun keyPathType :: "IDBKeyPath \<Rightarrow> byte" where
  "keyPathType NullPath = 0"
| "keyPathType (StringPath _) = 1"
| "keyPathType (ArrayPath _) = 2"

definition encodeIDBKeyPath :: "IDBKeyPath \<Rightarrow> byte list" where
  "encodeIDBKeyPath keyPath =
     [0, 0, keyPathType keyPath] @
     (case keyPath of
        NullPath \<Rightarrow> []
      | StringPath s \<Rightarrow> encodeStringWithLength s
      | ArrayPath array \<Rightarrow> encodeVarInt (of_nat (length array)) @ concat (map encodeStringWithLength array))"

text \<open>
  What \<open>decodeVarInt\<close> leaves in \<open>foundInt\<close> when it runs off the end, and the loop of the array
  case. Only assertions look at the pointers there: a failed \<open>decodeVarInt\<close> makes the pointer
  null, and the next read through it is \<open>Undef\<close>. A string that was not decoded stays null (\<open>[]\<close>).
\<close>

fun foundIntAtEnd :: "nat \<Rightarrow> i64 \<Rightarrow> byte list \<Rightarrow> i64" where
  "foundIntAtEnd shift foundInt [] = foundInt"
| "foundIntAtEnd shift foundInt (c # p) =
     foundIntAtEnd (shift + 7) (foundInt OR push_bit shift (ucast (c AND 0x7f))) p"

fun decodeKeyPathStrings :: "nat \<Rightarrow> byte list \<Rightarrow> uchar list list outcome" where
  "decodeKeyPathStrings 0 p = Done []"
| "decodeKeyPathStrings (Suc count) p =
     (case decodeStringWithLength p of
        Done (string, p) \<Rightarrow> obind (decodeKeyPathStrings count p) (\<lambda>array. Done (string # array))
      | Null \<Rightarrow> if count = 0 then Done [[]] else Undef
      | Undef \<Rightarrow> Undef)"

definition decodeIDBKeyPath :: "byte list \<Rightarrow> IDBKeyPath outcome" where
  "decodeIDBKeyPath p =
     (if p = [] \<or> (2 \<le> length p \<and> (p ! 0 \<noteq> 0 \<or> p ! 1 \<noteq> 0)) then Done (StringPath (decodeString p))
      else case drop 2 p of
        [] \<Rightarrow> Undef
      | type # p \<Rightarrow>
          if type = 0 then Done NullPath
          else if type = 1 then
            (case decodeStringWithLength p of
               Done (string, p) \<Rightarrow> Done (StringPath string)
             | Null \<Rightarrow> Done (StringPath [])
             | Undef \<Rightarrow> Undef)
          else if type = 2 then
            (case decodeVarInt p of
               Done (count, p) \<Rightarrow>
                 if sint count < 0 then Undef
                 else obind (decodeKeyPathStrings (nat (sint count)) p) (\<lambda>array. Done (ArrayPath array))
             | Null \<Rightarrow> if foundIntAtEnd 0 0 p = 0 then Done (ArrayPath []) else Undef
             | Undef \<Rightarrow> Undef)
          else Done NullPath)"

section \<open>Encoded keys read back\<close>

text \<open>
  The keys the callers of \<open>encodeIDBKey\<close> have: valid, made by the public constructors (\<open>MinKey\<close>
  and \<open>MaxKey\<close> have none), and of a size that \<open>String\<close> and \<open>Vector\<close> can have, whose lengths are
  \<open>unsigned\<close> (32 bits).
\<close>

fun encodable :: "IDBKey \<Rightarrow> bool" where
  "encodable (NumberKey _) = True"
| "encodable (DateKey _) = True"
| "encodable (StringKey s) = string_ok s"
| "encodable (ArrayKey ks) = (length ks < 2 ^ 32 \<and> list_all encodable ks)"
| "encodable _ = False"

lemma sint_of_nat_u32: "n < 2 ^ 32 \<Longrightarrow> sint (of_nat n :: i64) = int n"
  by (rule sint_of_nat_i64) simp

lemma decodeIDBKey_encode:
  "encodable k \<Longrightarrow> decodeIDBKey (encodeIDBKey k @ rest) = Done (k, rest)"
proof (induction k arbitrary: rest)
  case (ArrayKey ks)
  have "decodeIDBKeys (length ks) (concat (map encodeIDBKey ks) @ rest) = Done (ks, rest)" for rest
    using ArrayKey.IH ArrayKey.prems by (induction ks) auto
  then show ?case
    using ArrayKey.prems by (simp add: encodeByte_def typeByte_defs sint_of_nat_u32)
next
  case (StringKey s)
  then show ?case
    by (simp add: encodeByte_def typeByte_defs decodeStringWithLength_encode)
qed (simp_all add: encodeByte_def typeByte_defs)

interpretation idbKey: codec encodeIDBKey decodeIDBKey encodable
  by unfold_locales (rule decodeIDBKey_encode)

text \<open>A key is read off its bytes.\<close>

lemma decodeIDBKey_reads:
  "decodeIDBKey p = Done (k, q) \<Longrightarrow> \<exists>c. p = c @ q \<and> c \<noteq> [] \<and> readsOff decodeIDBKey c k"
  "decodeIDBKeys n p' = Done (ks, q') \<Longrightarrow> \<exists>c. p' = c @ q' \<and> readsOff (decodeIDBKeys n) c ks"
proof (induction p and n p' arbitrary: k q and ks q' rule: decodeIDBKey_decodeIDBKeys.induct)
  case (2 type p)
  define dec where "dec = (\<lambda>p. decodeIDBKey (type # p))"
  have tail: "\<exists>c. type # p = c @ q \<and> c \<noteq> [] \<and> readsOff decodeIDBKey c k" if "p = c @ q" "readsOff dec c k" for c
    using readsOff_Cons [OF that(2), of decodeIDBKey type] that(1) by (intro exI [of _ "type # c"]) (simp add: dec_def)
  consider "type = IDBKeyNullTypeByte" | "type = IDBKeyArrayTypeByte" | "type = IDBKeyStringTypeByte" | "type = IDBKeyDateTypeByte"
    | "type = IDBKeyNumberTypeByte"
    using 2(2) by (auto split: if_splits)
  then show ?case
  proof cases
    case 1
    then show ?thesis using tail [of "[]"] 2(2) by (simp add: dec_def readsOff_Done)
  next
    case array: 2
    define body where "body = (\<lambda>len p. if sint (len :: i64) < 0 then Null
      else obind (decodeIDBKeys (nat (sint len)) p) (\<lambda>(array, p). Done (ArrayKey array, p)))"
    have dec: "dec = (\<lambda>p. obind (decodeVarInt p) (\<lambda>(len, p). body len p))"
      using array by (simp add: dec_def body_def fun_eq_iff typeByte_defs)
    obtain len p1 ks where len: "decodeVarInt p = Done (len, p1)" "\<not> sint len < 0" "k = ArrayKey ks"
      and ks: "decodeIDBKeys (nat (sint len)) p1 = Done (ks, q)"
      using 2(2) array by (auto simp: obind_Done_iff typeByte_defs split: if_splits)
    obtain c where c: "p = c @ p1" "readsOff decodeVarInt c len" using decodeVarInt_reads [OF len(1)] by blast
    obtain d where d: "p1 = d @ q" "readsOff (decodeIDBKeys (nat (sint len))) d ks"
      using 2(1) [OF _ array _ refl len(2) ks] array len(1) by (fastforce simp: typeByte_defs)
    have "readsOff (body len) d k" using readsOff_map [OF d(2), of ArrayKey] len(2,3) by (simp add: body_def)
    then have "readsOff dec (c @ d) k" unfolding dec by (rule readsOff_bind [OF c(2)])
    then show ?thesis using tail [of "c @ d"] c(1) d(1) by simp
  next
    case 3
    then obtain s where s: "decodeStringWithLength p = Done (s, q)" "k = StringKey s"
      using 2(2) by (auto simp: obind_Done_iff typeByte_defs)
    then obtain c where "p = c @ q" "readsOff decodeStringWithLength c s" using decodeStringWithLength_reads by blast
    then show ?thesis using tail [of c] readsOff_map [of _ c s StringKey] s(2) 3 by (simp add: dec_def typeByte_defs)
  next
    case 4
    then obtain s where s: "decodeDouble p = Done (s, q)" "k = DateKey s"
      using 2(2) by (auto simp: obind_Done_iff typeByte_defs)
    then obtain c where "p = c @ q" "readsOff decodeDouble c s" using decodeDouble_reads by blast
    then show ?thesis using tail [of c] readsOff_map [of _ c s DateKey] s(2) 4 by (simp add: dec_def typeByte_defs)
  next
    case 5
    then obtain s where s: "decodeDouble p = Done (s, q)" "k = NumberKey s"
      using 2(2) by (auto simp: obind_Done_iff typeByte_defs)
    then obtain c where "p = c @ q" "readsOff decodeDouble c s" using decodeDouble_reads by blast
    then show ?thesis using tail [of c] readsOff_map [of _ c s NumberKey] s(2) 5 by (simp add: dec_def typeByte_defs)
  qed
next
  case (3 p)
  then show ?case by (auto simp: readsOff_def)
next
  case (4 n p)
  obtain key p1 ks1 where key: "decodeIDBKey p = Done (key, p1)" and ks1: "decodeIDBKeys n p1 = Done (ks1, q')" "ks = key # ks1"
    using 4(3) by (auto simp: obind_Done_iff)
  obtain c where c: "p = c @ p1" "readsOff decodeIDBKey c key" using 4(1) [OF key] by blast
  obtain d where d: "p1 = d @ q'" "readsOff (decodeIDBKeys n) d ks1" using 4(2) [OF key refl ks1(1)] by blast
  have "readsOff (\<lambda>p. obind (decodeIDBKey p) (\<lambda>(key, p). obind (decodeIDBKeys n p) (\<lambda>(array, p). Done (key # array, p)))) (c @ d) ks"
    by (rule readsOff_bind [OF c(2)]) (use readsOff_map [OF d(2), of "\<lambda>array. key # array"] ks1(2) in simp)
  then have "readsOff (decodeIDBKeys (Suc n)) (c @ d) ks" by (simp add: readsOff_def)
  moreover have "p = (c @ d) @ q'" using c(1) d(1) by simp
  ultimately show ?case by blast
qed simp

lemma extractString_encode:
  "string_ok s \<Longrightarrow> drop (2 * length s) (encodeString s @ rest) = rest"
  by simp

lemma extractIDBKeyPtr_encode: "encodable k \<Longrightarrow> extractIDBKeyPtr (encodeIDBKey k @ rest) = Done rest"
proof (induction k arbitrary: rest)
  case (ArrayKey ks)
  have "extractIDBKeysPtr (length ks) (concat (map encodeIDBKey ks) @ rest) = Done rest" for rest
    using ArrayKey.IH ArrayKey.prems by (induction ks) auto
  then show ?case
    using ArrayKey.prems by (simp add: encodeByte_def typeByte_defs sint_of_nat_u32)
next
  case (StringKey s)
  then show ?case
    by (auto simp: encodeByte_def typeByte_defs encodeStringWithLength_def string_ok_length nat_mult_distrib)
      (simp_all add: string_ok_def)
qed (simp_all add: encodeByte_def typeByte_defs)

lemma extractEncodedIDBKey_encode:
  "encodable k \<Longrightarrow> extractEncodedIDBKey (encodeIDBKey k @ rest) = Done (encodeIDBKey k, rest)"
  by (simp add: extractEncodedIDBKey_def extractIDBKeyPtr_encode)

lemma extractEncodedIDBKey_min_max:
  "extractEncodedIDBKey (minIDBKey @ rest) = Done (minIDBKey, rest)"
  "extractEncodedIDBKey (maxIDBKey @ rest) = Done (maxIDBKey, rest)"
  by (simp_all add: extractEncodedIDBKey_def minIDBKey_def maxIDBKey_def encodeByte_def typeByte_defs)

lemma encodeIDBKey_nonempty [simp]: "encodeIDBKey k \<noteq> []"
  by (cases k) (simp_all add: encodeByte_def)

section \<open>Key paths read back\<close>

definition path_ok :: "IDBKeyPath \<Rightarrow> bool" where
  "path_ok path = (case path of NullPath \<Rightarrow> True | StringPath s \<Rightarrow> string_ok s
     | ArrayPath array \<Rightarrow> length array < 2 ^ 32 \<and> list_all string_ok array)"

lemma decodeKeyPathStrings_encode:
  "list_all string_ok array \<Longrightarrow>
     decodeKeyPathStrings (length array) (concat (map encodeStringWithLength array)) = Done array"
proof (induction array)
  case (Cons s array)
  then show ?case by (simp add: decodeStringWithLength_encode)
qed simp

lemma decodeIDBKeyPath_encode: "path_ok path \<Longrightarrow> decodeIDBKeyPath (encodeIDBKeyPath path) = Done path"
proof (cases path)
  case (StringPath s)
  assume "path_ok path"
  with StringPath show ?thesis
    using str.dec_enc_Nil [of s]
    by (simp add: decodeIDBKeyPath_def encodeIDBKeyPath_def path_ok_def)
next
  case (ArrayPath array)
  assume "path_ok path"
  with ArrayPath show ?thesis
    by (simp add: decodeIDBKeyPath_def encodeIDBKeyPath_def path_ok_def sint_of_nat_u32
        decodeKeyPathStrings_encode)
qed (simp add: decodeIDBKeyPath_def encodeIDBKeyPath_def)

section \<open>Comparing encoded keys compares the keys\<close>

lemma encodable_isValid: "encodable k \<Longrightarrow> isValid k"
  by (induction k) (auto simp: list_all_iff)

lemma take_encodeString:
  "m \<le> length s \<Longrightarrow> take (m * 2) (encodeString s @ rest) = encodeString (take m s)"
proof (induction s arbitrary: m)
  case (Cons c s)
  then show ?case by (cases m) simp_all
qed simp

lemma compareStringBytes_encode:
  "compareStringBytes (int (length s)) (int (length t)) (encodeString s @ p) (encodeString t @ q) =
     codePointCompare s t"
proof -
  define m where m: "m = min (length s) (length t)"
  let ?m = "min (length s) (length t)"
  have m': "nat (min (int (length s)) (int (length t))) = m" "m \<le> length s" "m \<le> length t"
    by (simp_all add: m)
  have "(let x = memcmp (encodeString (take ?m s)) (encodeString (take ?m t))
      in if x \<noteq> 0 then x else if length s = length t then 0 else if length t < length s then 1 else -1)
      = codePointCompare s t"
    unfolding codePointCompare_def
  proof (induction s arbitrary: t)
    case Nil
    then show ?case by (cases t) simp_all
  next
    case (Cons c s)
    show ?case
    proof (cases t)
      case (Cons d t')
      then show ?thesis
        using Cons.IH [of t'] by (auto simp: memcmp_uchar compareUChars_def Let_def simp del: memcmp.simps)
    qed simp
  qed
  then show ?thesis
    unfolding compareStringBytes_def m'(1) Let_def take_encodeString [OF m'(2)] take_encodeString [OF m'(3)]
      m [symmetric] by (auto split: if_splits)
qed

lemma compareEncodedStrings_encode:
  assumes "string_ok s" and "string_ok t"
  shows "compareEncodedStringsWithLength (encodeStringWithLength s @ p) (encodeStringWithLength t @ q) =
     Done (codePointCompare s t, p, q)"
proof -
  have "length s < 2 ^ 32" "length t < 2 ^ 32" using assms by (simp_all add: string_ok_def)
  then show ?thesis
    using assms by (simp add: compareEncodedStringsWithLength_def encodeStringWithLength_def
        string_ok_length compareStringBytes_encode nat_mult_distrib)
qed

text \<open>
  The two keys that only exist encoded: the least, \<open>minIDBKey\<close>, and the greatest, \<open>maxIDBKey\<close>,
  which is the coding of an invalid key. \<open>codeKey\<close> extends \<open>encodeIDBKey\<close> to them.
\<close>

definition codeKey :: "IDBKey \<Rightarrow> byte list" where
  "codeKey k = (case k of MinKey \<Rightarrow> minIDBKey | InvalidKey \<Rightarrow> maxIDBKey | _ \<Rightarrow> encodeIDBKey k)"

definition codable :: "IDBKey \<Rightarrow> bool" where
  "codable k \<longleftrightarrow> encodable k \<or> k = MinKey \<or> k = InvalidKey"

lemma codeKey_encodable: "encodable k \<Longrightarrow> codeKey k = encodeIDBKey k"
  by (cases k) (simp_all add: codeKey_def)

lemma encodable_codable: "encodable k \<Longrightarrow> codable k"
  by (simp add: codable_def)

lemma extractEncodedIDBKey_code:
  "codable k \<Longrightarrow> extractEncodedIDBKey (codeKey k @ rest) = Done (codeKey k, rest)"
  by (auto simp: codable_def codeKey_encodable extractEncodedIDBKey_encode)
    (simp_all add: codeKey_def extractEncodedIDBKey_min_max)

lemma codeKey_Cons:
  assumes "codable k"
  obtains type p where "codeKey k = type # p" "keyTypeByteToKeyType type = keyType k"
    "\<And>r. codeKey k @ r = type # p @ r"
  using assms
  by (cases k) (auto simp: codable_def codeKey_def keyTypeByteToKeyType_def encodeByte_def typeByte_defs
      minIDBKey_def maxIDBKey_def)

definition compares_as :: "(int \<times> byte list \<times> byte list) outcome \<Rightarrow> int \<Rightarrow> byte list \<Rightarrow> byte list \<Rightarrow> bool" where
  "compares_as out c p q \<longleftrightarrow>
     (\<exists>r p' q'. out = Done (r, p', q') \<and> sgn r = sgn c \<and> (r = 0 \<longrightarrow> p' = p \<and> q' = q))"

lemma compares_as_Done: "compares_as (Done (c, p, q)) c p q"
  by (simp add: compares_as_def)

lemma compare_types_differ:
  assumes "codable a" and "codable b" and "keyType a \<noteq> keyType b"
  shows "compares_as (compareEncodedIDBKeys (codeKey a @ p) (codeKey b @ q)) (IDBKey_compare a b) p q"
proof -
  obtain ta pa where a: "keyTypeByteToKeyType ta = keyType a" "codeKey a @ p = ta # pa @ p"
    using codeKey_Cons [OF assms(1)] by metis
  obtain tb pb where b: "keyTypeByteToKeyType tb = keyType b" "codeKey b @ q = tb # pb @ q"
    using codeKey_Cons [OF assms(2)] by metis
  have "typeValue (keyType a) \<noteq> typeValue (keyType b)" using assms(3) by simp
  then have ne: "compareTypes (keyType a) (keyType b) \<noteq> 0" by (simp add: compareTypes_def)
  have "sgn (compareTypes (keyType a) (keyType b)) = sgn (IDBKey_compare a b)"
    using ne by (simp add: IDBKey_compare_types [OF assms(3)] compareTypes_def sgn_if)
  then show ?thesis
    using ne by (simp add: compares_as_def a b)
qed

lemma compareEncodedIDBKeys_encode:
  "encodable a \<Longrightarrow> encodable b \<Longrightarrow>
     compares_as (compareEncodedIDBKeys (encodeIDBKey a @ p) (encodeIDBKey b @ q)) (IDBKey_compare a b) p q"
proof (induction a arbitrary: b p q)
  case (ArrayKey xs)
  show ?case
  proof (cases "keyType b = ArrayType")
    case False
    then show ?thesis
      using compare_types_differ [of "ArrayKey xs" b p q] ArrayKey.prems
      by (simp add: encodable_codable codeKey_encodable)
  next
    case True
    then obtain ys where b: "b = ArrayKey ys" by (cases b) auto
    have loop: "\<exists>r p' q'. compareEncodedIDBKeysLoop (min (length xs) (length ys))
          (concat (map encodeIDBKey xs) @ p) (concat (map encodeIDBKey ys) @ q) = Done (r, p', q') \<and>
        sgn (if r \<noteq> 0 then r else if length xs < length ys then -1 else if length ys < length xs then 1 else 0)
          = sgn (lexCmp IDBKey_compare xs ys) \<and> (r = 0 \<and> length xs = length ys \<longrightarrow> p' = p \<and> q' = q)"
      using ArrayKey.IH ArrayKey.prems unfolding b
    proof (induction xs arbitrary: ys p q)
      case Nil
      then show ?case by (cases ys) simp_all
    next
      case (Cons x xs)
      show ?case
      proof (cases ys)
        case Nil
        then show ?thesis by simp
      next
        case ys: (Cons y ys')
        have "compares_as (compareEncodedIDBKeys
            (encodeIDBKey x @ concat (map encodeIDBKey xs) @ p)
            (encodeIDBKey y @ concat (map encodeIDBKey ys') @ q)) (IDBKey_compare x y)
            (concat (map encodeIDBKey xs) @ p) (concat (map encodeIDBKey ys') @ q)"
          using Cons.prems ys by simp
        then obtain r p1 q1 where r: "compareEncodedIDBKeys
            (encodeIDBKey x @ concat (map encodeIDBKey xs) @ p)
            (encodeIDBKey y @ concat (map encodeIDBKey ys') @ q) = Done (r, p1, q1)"
          "sgn r = sgn (IDBKey_compare x y)"
          "r = 0 \<Longrightarrow> p1 = concat (map encodeIDBKey xs) @ p \<and> q1 = concat (map encodeIDBKey ys') @ q"
          by (auto simp: compares_as_def)
        show ?thesis
        proof (cases "r = 0")
          case False
          then have "IDBKey_compare x y \<noteq> 0" using r(2) by (metis sgn_0_0)
          with False r show ?thesis by (simp add: ys Let_def)
        next
          case True
          then have "IDBKey_compare x y = 0" using r(2) by (metis sgn_0_0)
          moreover obtain r2 p2 q2 where loop: "compareEncodedIDBKeysLoop (min (length xs) (length ys'))
              (concat (map encodeIDBKey xs) @ p) (concat (map encodeIDBKey ys') @ q) = Done (r2, p2, q2)"
            and sgn: "sgn (if r2 \<noteq> 0 then r2 else if length xs < length ys' then -1
                else if length ys' < length xs then 1 else 0) = sgn (lexCmp IDBKey_compare xs ys')"
            and ends: "r2 = 0 \<and> length xs = length ys' \<Longrightarrow> p2 = p \<and> q2 = q"
            using Cons.IH [of ys' p q] Cons.prems ys by auto
          moreover have "compareEncodedIDBKeysLoop (Suc (min (length xs) (length ys')))
              (encodeIDBKey x @ concat (map encodeIDBKey xs) @ p)
              (encodeIDBKey y @ concat (map encodeIDBKey ys') @ q) = Done (r2, p2, q2)"
            using True r loop by simp
          ultimately show ?thesis
            unfolding ys by (rule_tac x = r2 in exI, rule_tac x = p2 in exI, rule_tac x = q2 in exI)
              (auto split: if_splits)
        qed
      qed
    qed
    have "nat (min (sint (of_nat (length xs) :: i64)) (sint (of_nat (length ys) :: i64))) = min (length xs) (length ys)"
      using ArrayKey.prems b by (simp add: sint_of_nat_u32)
    then show ?thesis
      using loop ArrayKey.prems unfolding b
      by (auto simp: compares_as_def encodeByte_def typeByte_defs compareTypes_def sint_of_nat_u32)
  qed
next
  case (StringKey s)
  show ?case
  proof (cases "keyType b = StringType")
    case False
    then show ?thesis
      using compare_types_differ [of "StringKey s" b p q] StringKey
      by (simp add: encodable_codable codeKey_encodable)
  next
    case True
    then obtain t where "b = StringKey t" by (cases b) auto
    then show ?thesis
      using StringKey by (simp add: compares_as_def encodeByte_def typeByte_defs compareTypes_def
          compareEncodedStrings_encode string_keys_compare)
  qed
next
  case (DateKey d)
  show ?case
  proof (cases "keyType b = DateType")
    case False
    then show ?thesis
      using compare_types_differ [of "DateKey d" b p q] DateKey
      by (simp add: encodable_codable codeKey_encodable)
  next
    case True
    then obtain e where "b = DateKey e" by (cases b) auto
    then show ?thesis by (simp add: compares_as_def encodeByte_def typeByte_defs compareTypes_def)
  qed
next
  case (NumberKey d)
  show ?case
  proof (cases "keyType b = NumberType")
    case False
    then show ?thesis
      using compare_types_differ [of "NumberKey d" b p q] NumberKey
      by (simp add: encodable_codable codeKey_encodable)
  next
    case True
    then obtain e where "b = NumberKey e" by (cases b) auto
    then show ?thesis by (simp add: compares_as_def encodeByte_def typeByte_defs compareTypes_def)
  qed
qed simp_all

lemma compareEncodedIDBKeys_code:
  assumes "codable a" and "codable b"
  shows "compares_as (compareEncodedIDBKeys (codeKey a @ p) (codeKey b @ q)) (IDBKey_compare a b) p q"
proof (cases "keyType a = keyType b")
  case False
  then show ?thesis by (rule compare_types_differ [OF assms])
next
  case True
  show ?thesis
  proof (cases "encodable a \<and> encodable b")
    case True
    then show ?thesis by (simp add: codeKey_encodable compareEncodedIDBKeys_encode)
  next
    case False
    with True assms have "a = b \<and> (a = MinKey \<or> a = InvalidKey)"
      by (cases a; cases b) (auto simp: codable_def)
    then show ?thesis
      by (auto simp: compares_as_def codeKey_def minIDBKey_def maxIDBKey_def encodeByte_def typeByte_defs
          compareTypes_def)
  qed
qed

end
