(* ===== verification/LevelDB_Prefix.thy ===== *)
theory LevelDB_Prefix
  imports IDB_KeyCoding
begin

text \<open>
  \<open>KeyPrefix\<close> (\<open>IDBLevelDBCoding.h\<close>, \<open>IDBLevelDBCoding.cpp\<close>): the (database, object store, index)
  triple that every key of the backing store starts with, its encoding, its order and the kind of
  key it announces.
\<close>

record KeyPrefix =
  m_databaseId :: i64
  m_objectStoreId :: i64
  m_indexId :: i64

datatype KeyPrefixType = GlobalMetaData | DatabaseMetaData | ObjectStoreData | ExistsEntry | IndexData | InvalidPrefix

definition MinimumIndexId :: i64 where "MinimumIndexId = 30"
definition ObjectStoreDataIndexId :: i64 where "ObjectStoreDataIndexId = 1"
definition ExistsEntryIndexId :: i64 where "ExistsEntryIndexId = 2"
definition kMaxDatabaseId :: i64 where "kMaxDatabaseId = 2 ^ 63 - 1"
definition kMaxObjectStoreId :: i64 where "kMaxObjectStoreId = 2 ^ 63 - 1"
definition kMaxIndexId :: i64 where "kMaxIndexId = 2 ^ 31 - 1"

definition isValidDatabaseId :: "i64 \<Rightarrow> bool" where
  "isValidDatabaseId databaseId \<longleftrightarrow> 0 < sint databaseId \<and> sint databaseId < sint kMaxDatabaseId"

definition isValidObjectStoreId :: "i64 \<Rightarrow> bool" where
  "isValidObjectStoreId objectStoreId \<longleftrightarrow> 0 < sint objectStoreId \<and> sint objectStoreId < sint kMaxObjectStoreId"

definition isValidIndexId :: "i64 \<Rightarrow> bool" where
  "isValidIndexId indexId \<longleftrightarrow> sint MinimumIndexId \<le> sint indexId \<and> sint indexId < sint kMaxIndexId"

definition keyPrefix1 :: "i64 \<Rightarrow> KeyPrefix" where
  "keyPrefix1 databaseId = \<lparr>m_databaseId = databaseId, m_objectStoreId = 0, m_indexId = 0\<rparr>"

definition keyPrefix3 :: "i64 \<Rightarrow> i64 \<Rightarrow> i64 \<Rightarrow> KeyPrefix" where
  "keyPrefix3 databaseId objectStoreId indexId =
     \<lparr>m_databaseId = databaseId, m_objectStoreId = objectStoreId, m_indexId = indexId\<rparr>"

definition createWithSpecialIndex :: "i64 \<Rightarrow> i64 \<Rightarrow> i64 \<Rightarrow> KeyPrefix" where
  "createWithSpecialIndex databaseId objectStoreId indexId =
     \<lparr>m_databaseId = databaseId, m_objectStoreId = objectStoreId, m_indexId = indexId\<rparr>"

definition KeyPrefix_decode :: "byte list \<Rightarrow> (KeyPrefix \<times> byte list) outcome" where
  "KeyPrefix_decode start =
     (case start of
        [] \<Rightarrow> Null
      | firstByte # start \<Rightarrow>
          let databaseIdBytes = unat (drop_bit 5 firstByte AND 7) + 1;
              objectStoreIdBytes = unat (drop_bit 2 firstByte AND 7) + 1;
              indexIdBytes = unat (firstByte AND 3) + 1
          in if length start < databaseIdBytes + objectStoreIdBytes + indexIdBytes then Null
             else
               obind (decodeInt (take databaseIdBytes start)) (\<lambda>databaseId.
                 let start = drop databaseIdBytes start
                 in obind (decodeInt (take objectStoreIdBytes start)) (\<lambda>objectStoreId.
                      let start = drop objectStoreIdBytes start
                      in obind (decodeInt (take indexIdBytes start)) (\<lambda>indexId.
                           let start = drop indexIdBytes start
                           in Done (\<lparr>m_databaseId = databaseId, m_objectStoreId = objectStoreId,
                                      m_indexId = indexId\<rparr>, start)))))"

definition KeyPrefix_encodeInternal :: "i64 \<Rightarrow> i64 \<Rightarrow> i64 \<Rightarrow> byte list" where
  "KeyPrefix_encodeInternal databaseId objectStoreId indexId =
     (let databaseIdString = encodeInt databaseId;
          objectStoreIdString = encodeInt objectStoreId;
          indexIdString = encodeInt indexId;
          firstByte = push_bit 5 (of_nat (length databaseIdString - 1))
            OR push_bit 2 (of_nat (length objectStoreIdString - 1))
            OR of_nat (length indexIdString - 1)
      in firstByte # databaseIdString @ objectStoreIdString @ indexIdString)"

definition KeyPrefix_encode :: "KeyPrefix \<Rightarrow> byte list" where
  "KeyPrefix_encode prefix =
     KeyPrefix_encodeInternal (m_databaseId prefix) (m_objectStoreId prefix) (m_indexId prefix)"

definition KeyPrefix_encodeEmpty :: "byte list" where
  "KeyPrefix_encodeEmpty = replicate 4 0"

definition KeyPrefix_compare :: "KeyPrefix \<Rightarrow> KeyPrefix \<Rightarrow> int" where
  "KeyPrefix_compare self other =
     (if m_databaseId self \<noteq> m_databaseId other then compareInts (m_databaseId self) (m_databaseId other)
      else if m_objectStoreId self \<noteq> m_objectStoreId other then
        compareInts (m_objectStoreId self) (m_objectStoreId other)
      else if m_indexId self \<noteq> m_indexId other then compareInts (m_indexId self) (m_indexId other)
      else 0)"

definition KeyPrefix_type :: "KeyPrefix \<Rightarrow> KeyPrefixType" where
  "KeyPrefix_type prefix =
     (if m_databaseId prefix = 0 then GlobalMetaData
      else if m_objectStoreId prefix = 0 then DatabaseMetaData
      else if m_indexId prefix = ObjectStoreDataIndexId then ObjectStoreData
      else if m_indexId prefix = ExistsEntryIndexId then ExistsEntry
      else if sint MinimumIndexId \<le> sint (m_indexId prefix) then IndexData
      else InvalidPrefix)"

section \<open>The prefix reads back\<close>

text \<open>The identifiers that fit: the index id in four bytes, since two bits give its length.\<close>

definition prefix_ok :: "KeyPrefix \<Rightarrow> bool" where
  "prefix_ok prefix \<longleftrightarrow> i64_ok (m_databaseId prefix) \<and> i64_ok (m_objectStoreId prefix) \<and>
     0 \<le> sint (m_indexId prefix) \<and> sint (m_indexId prefix) < 2 ^ 32"

lemma three_masked_fields:
  fixes a b c :: byte
  defines "w \<equiv> push_bit 5 (a AND mask 3) OR push_bit 2 (b AND mask 3) OR (c AND mask 2)"
  shows "drop_bit 5 w AND mask 3 = a AND mask 3" and "drop_bit 2 w AND mask 3 = b AND mask 3"
    and "w AND mask 2 = c AND mask 2"
  unfolding w_def by (auto intro!: bit_word_eqI simp: bit_simps)

lemma masked_of_nat: "n < 2 ^ k \<Longrightarrow> (of_nat n :: byte) AND mask k = of_nat n"
  by (metis take_bit_eq_mask take_bit_nat_eq_self take_bit_of_nat)

lemma three_fields:
  fixes a b c :: nat
  assumes "a < 8" and "b < 8" and "c < 4"
  defines "w \<equiv> (push_bit 5 (of_nat a) OR push_bit 2 (of_nat b) OR of_nat c :: byte)"
  shows "unat (drop_bit 5 w AND 7) = a" and "unat (drop_bit 2 w AND 7) = b" and "unat (w AND 3) = c"
proof -
  have m: "(7 :: byte) = mask 3" "(3 :: byte) = mask 2" by (simp_all add: mask_eq_exp_minus_1)
  note f = three_masked_fields [of "of_nat a" "of_nat b" "of_nat c"]
  have id: "(of_nat a :: byte) AND mask 3 = of_nat a" "(of_nat b :: byte) AND mask 3 = of_nat b"
    "(of_nat c :: byte) AND mask 2 = of_nat c"
    using assms by (simp_all add: masked_of_nat)
  have nat: "unat (of_nat n :: byte) = n" if "n < 256" for n
    using that by (simp add: unat_of_nat take_bit_nat_eq_self)
  show "unat (drop_bit 5 w AND 7) = a" and "unat (drop_bit 2 w AND 7) = b" and "unat (w AND 3) = c"
    using f assms(1-3) unfolding w_def m id by (simp_all only: nat)
qed

lemma KeyPrefix_decode_fields:
  assumes "unat (drop_bit 5 f AND 7) + 1 = length ds" "unat (drop_bit 2 f AND 7) + 1 = length os"
    "unat (f AND 3) + 1 = length xs"
    and "decodeInt ds = Done d" "decodeInt os = Done ob" "decodeInt xs = Done x"
  shows "KeyPrefix_decode (f # ds @ os @ xs @ rest) =
     Done (\<lparr>m_databaseId = d, m_objectStoreId = ob, m_indexId = x\<rparr>, rest)"
  unfolding KeyPrefix_decode_def list.case Let_def assms(1-3) by (simp add: assms(4-6))

lemma KeyPrefix_decode_encode:
  assumes "prefix_ok prefix"
  shows "KeyPrefix_decode (KeyPrefix_encode prefix @ rest) = Done (prefix, rest)"
proof -
  let ?d = "encodeInt (m_databaseId prefix)" and ?o = "encodeInt (m_objectStoreId prefix)"
    and ?i = "encodeInt (m_indexId prefix)"
  have "unat (m_indexId prefix) < 256 ^ 4"
    using assms unat_less_i64 [of "m_indexId prefix" 32] by (simp add: prefix_ok_def)
  then have i: "length ?i - 1 < 4" using length_encodeInt [of "m_indexId prefix" 4] by simp
  have d: "length ?d - 1 < 8" and o: "length ?o - 1 < 8"
    using length_encodeInt_8 [of "m_databaseId prefix"] length_encodeInt_8 [of "m_objectStoreId prefix"]
    by simp_all
  note lens = three_fields [OF d o i]
  have pos: "length ?d - 1 + 1 = length ?d" "length ?o - 1 + 1 = length ?o" "length ?i - 1 + 1 = length ?i"
    by (simp_all add: Suc_le_eq)
  have "KeyPrefix_decode ((push_bit 5 (of_nat (length ?d - 1)) OR push_bit 2 (of_nat (length ?o - 1))
      OR of_nat (length ?i - 1)) # ?d @ ?o @ ?i @ rest) =
    Done (\<lparr>m_databaseId = m_databaseId prefix, m_objectStoreId = m_objectStoreId prefix,
      m_indexId = m_indexId prefix\<rparr>, rest)"
    by (rule KeyPrefix_decode_fields) (simp_all only: lens pos decodeInt_encode)
  then show ?thesis
    unfolding KeyPrefix_encode_def KeyPrefix_encodeInternal_def Let_def by simp
qed

interpretation prefix: codec KeyPrefix_encode KeyPrefix_decode prefix_ok
  by unfold_locales (rule KeyPrefix_decode_encode)

lemma KeyPrefix_encodeEmpty: "KeyPrefix_encodeEmpty = KeyPrefix_encode (keyPrefix1 0)"
  by (simp add: KeyPrefix_encodeEmpty_def KeyPrefix_encode_def KeyPrefix_encodeInternal_def keyPrefix1_def
      encodeInt_0 numeral_eq_Suc)

section \<open>The order of prefixes\<close>

lemma KeyPrefix_compare_lex:
  assumes "prefix_ok p" and "prefix_ok q"
  shows "KeyPrefix_compare p q =
     lexCmp compareInts [m_databaseId p, m_objectStoreId p, m_indexId p]
       [m_databaseId q, m_objectStoreId q, m_indexId q]"
  using assms by (simp add: KeyPrefix_compare_def prefix_ok_def i64_ok_def [symmetric] compareInts_eq_0 Let_def)

interpretation prefixes: comparator KeyPrefix_compare prefix_ok
proof -
  have lex: "comparator (lexCmp compareInts) (list_all i64_ok)"
    by (rule comparator_lexCmp) unfold_locales
  let ?f = "\<lambda>p. [m_databaseId p, m_objectStoreId p, m_indexId p]"
  have ok: "list_all i64_ok (?f p)" if "prefix_ok p" for p
    using that by (simp add: prefix_ok_def i64_ok_def)
  show "comparator KeyPrefix_compare prefix_ok"
  proof (rule comparator.intro)
    show "sgn (KeyPrefix_compare y x) = - sgn (KeyPrefix_compare x y)" if "prefix_ok x" "prefix_ok y" for x y
      using comparator.cmp_swap [OF lex ok ok, of x y] that by (simp only: KeyPrefix_compare_lex)
    show "KeyPrefix_compare x z \<le> 0"
      if "prefix_ok x" "prefix_ok y" "prefix_ok z" "KeyPrefix_compare x y \<le> 0" "KeyPrefix_compare y z \<le> 0"
      for x y z
      using comparator.cmp_le_trans [OF lex ok ok ok, of x y z] that by (simp only: KeyPrefix_compare_lex)
  qed
qed

lemma KeyPrefix_compare_eq_0: "prefix_ok p \<Longrightarrow> prefix_ok q \<Longrightarrow> KeyPrefix_compare p q = 0 \<longleftrightarrow> p = q"
  by (auto simp: KeyPrefix_compare_def prefix_ok_def i64_ok_def [symmetric] compareInts_eq_0)

end
