(* ===== verification/LevelDB_Keys.thy ===== *)
theory LevelDB_Keys
  imports LevelDB_Prefix
begin

text \<open>
  The key classes of \<open>IDBLevelDBCoding.h\<close> and \<open>IDBLevelDBCoding.cpp\<close>: for each the object that
  \<open>decode\<close> fills, \<open>encode\<close> with its least and greatest keys, and \<open>compare\<close>.
\<close>

definition INT64_MAX :: i64 where "INT64_MAX = 2 ^ 63 - 1"

definition SchemaVersionTypeByte :: byte where "SchemaVersionTypeByte = 0"
definition MaxDatabaseIdTypeByte :: byte where "MaxDatabaseIdTypeByte = 1"
definition DataVersionTypeByte :: byte where "DataVersionTypeByte = 2"
definition MaxSimpleGlobalMetaDataTypeByte :: byte where "MaxSimpleGlobalMetaDataTypeByte = 3"
definition DatabaseFreeListTypeByte :: byte where "DatabaseFreeListTypeByte = 100"
definition DatabaseNameTypeByte :: byte where "DatabaseNameTypeByte = 201"
definition ObjectStoreMetaDataTypeByte :: byte where "ObjectStoreMetaDataTypeByte = 50"
definition IndexMetaDataTypeByte :: byte where "IndexMetaDataTypeByte = 100"
definition ObjectStoreFreeListTypeByte :: byte where "ObjectStoreFreeListTypeByte = 150"
definition IndexFreeListTypeByte :: byte where "IndexFreeListTypeByte = 151"
definition ObjectStoreNamesTypeByte :: byte where "ObjectStoreNamesTypeByte = 200"
definition IndexNamesKeyTypeByte :: byte where "IndexNamesKeyTypeByte = 201"
definition ObjectMetaDataTypeMaximum :: byte where "ObjectMetaDataTypeMaximum = 255"
definition IndexMetaDataTypeMaximum :: byte where "IndexMetaDataTypeMaximum = 255"
definition MaxSimpleMetaDataType :: byte where "MaxSimpleMetaDataType = 5"

lemmas typeBytes =
  SchemaVersionTypeByte_def MaxDatabaseIdTypeByte_def DataVersionTypeByte_def
  MaxSimpleGlobalMetaDataTypeByte_def DatabaseFreeListTypeByte_def DatabaseNameTypeByte_def
  ObjectStoreMetaDataTypeByte_def IndexMetaDataTypeByte_def ObjectStoreFreeListTypeByte_def
  IndexFreeListTypeByte_def ObjectStoreNamesTypeByte_def IndexNamesKeyTypeByte_def
  MaxSimpleMetaDataType_def

text \<open>
  What every \<open>decode\<close> of a meta-data key does first: it skips the prefix and the type byte, which
  are looked at by assertions only.
\<close>

definition decodeHeader :: "byte list \<Rightarrow> byte list outcome" where
  "decodeHeader start =
     obind (KeyPrefix_decode start) (\<lambda>(prefix, p).
       if p = [] then Null else obind (decodeByte p) (\<lambda>(typeByte, p). Done p))"

section \<open>Global meta-data\<close>

definition SchemaVersionKey_encode :: "byte list" where
  "SchemaVersionKey_encode = KeyPrefix_encodeEmpty @ encodeByte SchemaVersionTypeByte"

definition MaxDatabaseIdKey_encode :: "byte list" where
  "MaxDatabaseIdKey_encode = KeyPrefix_encodeEmpty @ encodeByte MaxDatabaseIdTypeByte"

definition DataVersionKey_encode :: "byte list" where
  "DataVersionKey_encode = KeyPrefix_encodeEmpty @ encodeByte DataVersionTypeByte"

record DatabaseFreeListKey =
  dfl_databaseId :: i64

definition DatabaseFreeListKey_decode :: "byte list \<Rightarrow> (DatabaseFreeListKey \<times> byte list) outcome" where
  "DatabaseFreeListKey_decode start =
     obind (decodeHeader start) (\<lambda>p.
       if p = [] then Null
       else obind (decodeVarInt p) (\<lambda>(databaseId, p). Done (\<lparr>dfl_databaseId = databaseId\<rparr>, p)))"

definition DatabaseFreeListKey_encode :: "i64 \<Rightarrow> byte list" where
  "DatabaseFreeListKey_encode databaseId =
     KeyPrefix_encodeEmpty @ encodeByte DatabaseFreeListTypeByte @ encodeVarInt databaseId"

definition DatabaseFreeListKey_encodeMaxKey :: "byte list" where
  "DatabaseFreeListKey_encodeMaxKey = DatabaseFreeListKey_encode INT64_MAX"

definition DatabaseFreeListKey_compare :: "DatabaseFreeListKey \<Rightarrow> DatabaseFreeListKey \<Rightarrow> int" where
  "DatabaseFreeListKey_compare self other = compareInts (dfl_databaseId self) (dfl_databaseId other)"

record DatabaseNameKey =
  dn_origin :: "uchar list"
  dn_databaseName :: "uchar list"

definition DatabaseNameKey_decode :: "byte list \<Rightarrow> (DatabaseNameKey \<times> byte list) outcome" where
  "DatabaseNameKey_decode start =
     obind (decodeHeader start) (\<lambda>p.
       if p = [] then Null
       else obind (decodeStringWithLength p) (\<lambda>(origin, p).
         obind (decodeStringWithLength p) (\<lambda>(databaseName, p).
           Done (\<lparr>dn_origin = origin, dn_databaseName = databaseName\<rparr>, p))))"

definition DatabaseNameKey_encode :: "uchar list \<Rightarrow> uchar list \<Rightarrow> byte list" where
  "DatabaseNameKey_encode origin databaseName =
     KeyPrefix_encodeEmpty @ encodeByte DatabaseNameTypeByte
       @ encodeStringWithLength origin @ encodeStringWithLength databaseName"

definition DatabaseNameKey_encodeMinKeyForOrigin :: "uchar list \<Rightarrow> byte list" where
  "DatabaseNameKey_encodeMinKeyForOrigin origin = DatabaseNameKey_encode origin []"

definition DatabaseNameKey_encodeStopKeyForOrigin :: "uchar list \<Rightarrow> byte list" where
  "DatabaseNameKey_encodeStopKeyForOrigin origin = DatabaseNameKey_encodeMinKeyForOrigin (origin @ [1])"

definition DatabaseNameKey_compare :: "DatabaseNameKey \<Rightarrow> DatabaseNameKey \<Rightarrow> int" where
  "DatabaseNameKey_compare self other =
     (let x = codePointCompare (dn_origin self) (dn_origin other)
      in if x \<noteq> 0 then x else codePointCompare (dn_databaseName self) (dn_databaseName other))"

section \<open>Meta-data of a database\<close>

definition DatabaseMetaDataKey_encode :: "i64 \<Rightarrow> byte \<Rightarrow> byte list" where
  "DatabaseMetaDataKey_encode databaseId metaDataType =
     KeyPrefix_encode (keyPrefix1 databaseId) @ encodeByte metaDataType"

record ObjectStoreMetaDataKey =
  osm_objectStoreId :: i64
  osm_metaDataType :: byte

definition ObjectStoreMetaDataKey_decode :: "byte list \<Rightarrow> (ObjectStoreMetaDataKey \<times> byte list) outcome" where
  "ObjectStoreMetaDataKey_decode start =
     obind (decodeHeader start) (\<lambda>p.
       if p = [] then Null
       else obind (decodeVarInt p) (\<lambda>(objectStoreId, p).
         if p = [] then Null
         else obind (decodeByte p) (\<lambda>(metaDataType, p).
           Done (\<lparr>osm_objectStoreId = objectStoreId, osm_metaDataType = metaDataType\<rparr>, p))))"

definition ObjectStoreMetaDataKey_encode :: "i64 \<Rightarrow> i64 \<Rightarrow> byte \<Rightarrow> byte list" where
  "ObjectStoreMetaDataKey_encode databaseId objectStoreId metaDataType =
     KeyPrefix_encode (keyPrefix1 databaseId) @ encodeByte ObjectStoreMetaDataTypeByte
       @ encodeVarInt objectStoreId @ encodeByte metaDataType"

definition ObjectStoreMetaDataKey_encodeMaxKey :: "i64 \<Rightarrow> byte list" where
  "ObjectStoreMetaDataKey_encodeMaxKey databaseId =
     ObjectStoreMetaDataKey_encode databaseId INT64_MAX ObjectMetaDataTypeMaximum"

definition ObjectStoreMetaDataKey_encodeMaxKeyOfStore :: "i64 \<Rightarrow> i64 \<Rightarrow> byte list" where
  "ObjectStoreMetaDataKey_encodeMaxKeyOfStore databaseId objectStoreId =
     ObjectStoreMetaDataKey_encode databaseId objectStoreId ObjectMetaDataTypeMaximum"

definition ObjectStoreMetaDataKey_compare :: "ObjectStoreMetaDataKey \<Rightarrow> ObjectStoreMetaDataKey \<Rightarrow> int" where
  "ObjectStoreMetaDataKey_compare self other =
     (let x = compareInts (osm_objectStoreId self) (osm_objectStoreId other)
      in if x \<noteq> 0 then x
         else let result = uint (osm_metaDataType self) - uint (osm_metaDataType other)
              in if result < 0 then -1 else if 0 < result then 1 else result)"

record IndexMetaDataKey =
  im_objectStoreId :: i64
  im_indexId :: i64
  im_metaDataType :: byte

definition IndexMetaDataKey_decode :: "byte list \<Rightarrow> (IndexMetaDataKey \<times> byte list) outcome" where
  "IndexMetaDataKey_decode start =
     obind (decodeHeader start) (\<lambda>p.
       if p = [] then Null
       else obind (decodeVarInt p) (\<lambda>(objectStoreId, p).
         obind (decodeVarInt p) (\<lambda>(indexId, p).
           if p = [] then Null
           else obind (decodeByte p) (\<lambda>(metaDataType, p).
             Done (\<lparr>im_objectStoreId = objectStoreId, im_indexId = indexId,
                     im_metaDataType = metaDataType\<rparr>, p)))))"

definition IndexMetaDataKey_encode :: "i64 \<Rightarrow> i64 \<Rightarrow> i64 \<Rightarrow> byte \<Rightarrow> byte list" where
  "IndexMetaDataKey_encode databaseId objectStoreId indexId metaDataType =
     KeyPrefix_encode (keyPrefix1 databaseId) @ encodeByte IndexMetaDataTypeByte
       @ encodeVarInt objectStoreId @ encodeVarInt indexId @ encodeByte metaDataType"

definition IndexMetaDataKey_encodeMaxKey :: "i64 \<Rightarrow> i64 \<Rightarrow> byte list" where
  "IndexMetaDataKey_encodeMaxKey databaseId objectStoreId =
     IndexMetaDataKey_encode databaseId objectStoreId INT64_MAX IndexMetaDataTypeMaximum"

definition IndexMetaDataKey_encodeMaxKeyOfIndex :: "i64 \<Rightarrow> i64 \<Rightarrow> i64 \<Rightarrow> byte list" where
  "IndexMetaDataKey_encodeMaxKeyOfIndex databaseId objectStoreId indexId =
     IndexMetaDataKey_encode databaseId objectStoreId indexId IndexMetaDataTypeMaximum"

definition IndexMetaDataKey_compare :: "IndexMetaDataKey \<Rightarrow> IndexMetaDataKey \<Rightarrow> int" where
  "IndexMetaDataKey_compare self other =
     (let x = compareInts (im_objectStoreId self) (im_objectStoreId other)
      in if x \<noteq> 0 then x
         else let y = compareInts (im_indexId self) (im_indexId other)
              in if y \<noteq> 0 then y
                 else uint (im_metaDataType self) - uint (im_metaDataType other))"

record ObjectStoreFreeListKey =
  osfl_objectStoreId :: i64

definition ObjectStoreFreeListKey_decode :: "byte list \<Rightarrow> (ObjectStoreFreeListKey \<times> byte list) outcome" where
  "ObjectStoreFreeListKey_decode start =
     obind (decodeHeader start) (\<lambda>p.
       if p = [] then Null
       else obind (decodeVarInt p) (\<lambda>(objectStoreId, p). Done (\<lparr>osfl_objectStoreId = objectStoreId\<rparr>, p)))"

definition ObjectStoreFreeListKey_encode :: "i64 \<Rightarrow> i64 \<Rightarrow> byte list" where
  "ObjectStoreFreeListKey_encode databaseId objectStoreId =
     KeyPrefix_encode (keyPrefix1 databaseId) @ encodeByte ObjectStoreFreeListTypeByte
       @ encodeVarInt objectStoreId"

definition ObjectStoreFreeListKey_encodeMaxKey :: "i64 \<Rightarrow> byte list" where
  "ObjectStoreFreeListKey_encodeMaxKey databaseId = ObjectStoreFreeListKey_encode databaseId INT64_MAX"

definition ObjectStoreFreeListKey_compare :: "ObjectStoreFreeListKey \<Rightarrow> ObjectStoreFreeListKey \<Rightarrow> int" where
  "ObjectStoreFreeListKey_compare self other =
     compareInts (osfl_objectStoreId self) (osfl_objectStoreId other)"

record IndexFreeListKey =
  ifl_objectStoreId :: i64
  ifl_indexId :: i64

definition IndexFreeListKey_decode :: "byte list \<Rightarrow> (IndexFreeListKey \<times> byte list) outcome" where
  "IndexFreeListKey_decode start =
     obind (decodeHeader start) (\<lambda>p.
       if p = [] then Null
       else obind (decodeVarInt p) (\<lambda>(objectStoreId, p).
         obind (decodeVarInt p) (\<lambda>(indexId, p).
           Done (\<lparr>ifl_objectStoreId = objectStoreId, ifl_indexId = indexId\<rparr>, p))))"

definition IndexFreeListKey_encode :: "i64 \<Rightarrow> i64 \<Rightarrow> i64 \<Rightarrow> byte list" where
  "IndexFreeListKey_encode databaseId objectStoreId indexId =
     KeyPrefix_encode (keyPrefix1 databaseId) @ encodeByte IndexFreeListTypeByte
       @ encodeVarInt objectStoreId @ encodeVarInt indexId"

definition IndexFreeListKey_encodeMaxKey :: "i64 \<Rightarrow> i64 \<Rightarrow> byte list" where
  "IndexFreeListKey_encodeMaxKey databaseId objectStoreId =
     IndexFreeListKey_encode databaseId objectStoreId INT64_MAX"

definition IndexFreeListKey_compare :: "IndexFreeListKey \<Rightarrow> IndexFreeListKey \<Rightarrow> int" where
  "IndexFreeListKey_compare self other =
     (let x = compareInts (ifl_objectStoreId self) (ifl_objectStoreId other)
      in if x \<noteq> 0 then x else compareInts (ifl_indexId self) (ifl_indexId other))"

record ObjectStoreNamesKey =
  osn_objectStoreName :: "uchar list"

definition ObjectStoreNamesKey_decode :: "byte list \<Rightarrow> (ObjectStoreNamesKey \<times> byte list) outcome" where
  "ObjectStoreNamesKey_decode start =
     obind (decodeHeader start) (\<lambda>p.
       obind (decodeStringWithLength p) (\<lambda>(name, p). Done (\<lparr>osn_objectStoreName = name\<rparr>, p)))"

definition ObjectStoreNamesKey_encode :: "i64 \<Rightarrow> uchar list \<Rightarrow> byte list" where
  "ObjectStoreNamesKey_encode databaseId objectStoreName =
     KeyPrefix_encode (keyPrefix1 databaseId) @ encodeByte ObjectStoreNamesTypeByte
       @ encodeStringWithLength objectStoreName"

definition ObjectStoreNamesKey_compare :: "ObjectStoreNamesKey \<Rightarrow> ObjectStoreNamesKey \<Rightarrow> int" where
  "ObjectStoreNamesKey_compare self other =
     codePointCompare (osn_objectStoreName self) (osn_objectStoreName other)"

record IndexNamesKey =
  in_objectStoreId :: i64
  in_indexName :: "uchar list"

definition IndexNamesKey_decode :: "byte list \<Rightarrow> (IndexNamesKey \<times> byte list) outcome" where
  "IndexNamesKey_decode start =
     obind (decodeHeader start) (\<lambda>p.
       if p = [] then Null
       else obind (decodeVarInt p) (\<lambda>(objectStoreId, p).
         obind (decodeStringWithLength p) (\<lambda>(indexName, p).
           Done (\<lparr>in_objectStoreId = objectStoreId, in_indexName = indexName\<rparr>, p))))"

definition IndexNamesKey_encode :: "i64 \<Rightarrow> i64 \<Rightarrow> uchar list \<Rightarrow> byte list" where
  "IndexNamesKey_encode databaseId objectStoreId indexName =
     KeyPrefix_encode (keyPrefix1 databaseId) @ encodeByte IndexNamesKeyTypeByte
       @ encodeVarInt objectStoreId @ encodeStringWithLength indexName"

definition IndexNamesKey_compare :: "IndexNamesKey \<Rightarrow> IndexNamesKey \<Rightarrow> int" where
  "IndexNamesKey_compare self other =
     (let x = compareInts (in_objectStoreId self) (in_objectStoreId other)
      in if x \<noteq> 0 then x else codePointCompare (in_indexName self) (in_indexName other))"

section \<open>Records, existence entries and index entries\<close>

text \<open>\<open>encode\<close> of a key given encoded, and the overload that encodes it first.\<close>

record ObjectStoreDataKey =
  osd_encodedUserKey :: "byte list"

definition ObjectStoreDataKey_decode :: "byte list \<Rightarrow> (ObjectStoreDataKey \<times> byte list) outcome" where
  "ObjectStoreDataKey_decode start =
     obind (KeyPrefix_decode start) (\<lambda>(prefix, p).
       if p = [] then Null
       else obind (extractEncodedIDBKey p) (\<lambda>(key, p). Done (\<lparr>osd_encodedUserKey = key\<rparr>, p)))"

definition ObjectStoreDataKey_encode :: "i64 \<Rightarrow> i64 \<Rightarrow> byte list \<Rightarrow> byte list" where
  "ObjectStoreDataKey_encode databaseId objectStoreId encodedUserKey =
     KeyPrefix_encode (createWithSpecialIndex databaseId objectStoreId ObjectStoreDataIndexId) @ encodedUserKey"

definition ObjectStoreDataKey_encodeKey :: "i64 \<Rightarrow> i64 \<Rightarrow> IDBKey \<Rightarrow> byte list" where
  "ObjectStoreDataKey_encodeKey databaseId objectStoreId userKey =
     ObjectStoreDataKey_encode databaseId objectStoreId (encodeIDBKey userKey)"

definition ObjectStoreDataKey_userKey :: "ObjectStoreDataKey \<Rightarrow> IDBKey outcome" where
  "ObjectStoreDataKey_userKey self = obind (decodeIDBKey (osd_encodedUserKey self)) (\<lambda>(key, p). Done key)"

record ExistsEntryKey =
  ee_encodedUserKey :: "byte list"

definition ExistsEntryKey_decode :: "byte list \<Rightarrow> (ExistsEntryKey \<times> byte list) outcome" where
  "ExistsEntryKey_decode start =
     obind (KeyPrefix_decode start) (\<lambda>(prefix, p).
       if p = [] then Null
       else obind (extractEncodedIDBKey p) (\<lambda>(key, p). Done (\<lparr>ee_encodedUserKey = key\<rparr>, p)))"

definition ExistsEntryKey_encode :: "i64 \<Rightarrow> i64 \<Rightarrow> byte list \<Rightarrow> byte list" where
  "ExistsEntryKey_encode databaseId objectStoreId encodedKey =
     KeyPrefix_encode (createWithSpecialIndex databaseId objectStoreId ExistsEntryIndexId) @ encodedKey"

definition ExistsEntryKey_encodeKey :: "i64 \<Rightarrow> i64 \<Rightarrow> IDBKey \<Rightarrow> byte list" where
  "ExistsEntryKey_encodeKey databaseId objectStoreId userKey =
     ExistsEntryKey_encode databaseId objectStoreId (encodeIDBKey userKey)"

definition ExistsEntryKey_userKey :: "ExistsEntryKey \<Rightarrow> IDBKey outcome" where
  "ExistsEntryKey_userKey self = obind (decodeIDBKey (ee_encodedUserKey self)) (\<lambda>(key, p). Done key)"

record IndexDataKey =
  id_databaseId :: i64
  id_objectStoreId :: i64
  id_indexId :: i64
  id_encodedUserKey :: "byte list"
  id_encodedPrimaryKey :: "byte list"
  id_sequenceNumber :: i64

definition IndexDataKey_decode :: "byte list \<Rightarrow> (IndexDataKey \<times> byte list) outcome" where
  "IndexDataKey_decode start =
     obind (KeyPrefix_decode start) (\<lambda>(prefix, p).
       obind (extractEncodedIDBKey p) (\<lambda>(userKey, p).
         let result = \<lparr>id_databaseId = m_databaseId prefix, id_objectStoreId = m_objectStoreId prefix,
                       id_indexId = m_indexId prefix, id_encodedUserKey = userKey,
                       id_encodedPrimaryKey = minIDBKey, id_sequenceNumber = -1\<rparr>
         in if p = [] then Done (result, p)
            else obind (decodeVarInt p) (\<lambda>(sequenceNumber, p).
              let result = result\<lparr>id_sequenceNumber := sequenceNumber\<rparr>
              in if p = [] then Done (result, p)
                 else obind (extractEncodedIDBKey p) (\<lambda>(primaryKey, p).
                   Done (result\<lparr>id_encodedPrimaryKey := primaryKey\<rparr>, p)))))"

definition IndexDataKey_encode :: "i64 \<Rightarrow> i64 \<Rightarrow> i64 \<Rightarrow> byte list \<Rightarrow> byte list \<Rightarrow> i64 \<Rightarrow> byte list" where
  "IndexDataKey_encode databaseId objectStoreId indexId encodedUserKey encodedPrimaryKey sequenceNumber =
     KeyPrefix_encode (keyPrefix3 databaseId objectStoreId indexId)
       @ encodedUserKey @ encodeVarInt sequenceNumber @ encodedPrimaryKey"

definition IndexDataKey_encodeKey :: "i64 \<Rightarrow> i64 \<Rightarrow> i64 \<Rightarrow> IDBKey \<Rightarrow> byte list" where
  "IndexDataKey_encodeKey databaseId objectStoreId indexId userKey =
     IndexDataKey_encode databaseId objectStoreId indexId (encodeIDBKey userKey) minIDBKey 0"

definition IndexDataKey_encodeMinKey :: "i64 \<Rightarrow> i64 \<Rightarrow> i64 \<Rightarrow> byte list" where
  "IndexDataKey_encodeMinKey databaseId objectStoreId indexId =
     IndexDataKey_encode databaseId objectStoreId indexId minIDBKey minIDBKey 0"

definition IndexDataKey_encodeMaxKey :: "i64 \<Rightarrow> i64 \<Rightarrow> i64 \<Rightarrow> byte list" where
  "IndexDataKey_encodeMaxKey databaseId objectStoreId indexId =
     IndexDataKey_encode databaseId objectStoreId indexId maxIDBKey maxIDBKey INT64_MAX"

definition IndexDataKey_userKey :: "IndexDataKey \<Rightarrow> IDBKey outcome" where
  "IndexDataKey_userKey self = obind (decodeIDBKey (id_encodedUserKey self)) (\<lambda>(key, p). Done key)"

definition IndexDataKey_primaryKey :: "IndexDataKey \<Rightarrow> IDBKey outcome" where
  "IndexDataKey_primaryKey self = obind (decodeIDBKey (id_encodedPrimaryKey self)) (\<lambda>(key, p). Done key)"

text \<open>\<open>compareEncodedIDBKeys\<close> on whole vectors, and the \<open>compare\<close> members that use it.\<close>

definition compareEncodedKeyVectors :: "byte list \<Rightarrow> byte list \<Rightarrow> int outcome" where
  "compareEncodedKeyVectors keyA keyB = obind (compareEncodedIDBKeys keyA keyB) (\<lambda>(result, a, b). Done result)"

definition ObjectStoreDataKey_compare :: "ObjectStoreDataKey \<Rightarrow> ObjectStoreDataKey \<Rightarrow> int outcome" where
  "ObjectStoreDataKey_compare self other =
     compareEncodedKeyVectors (osd_encodedUserKey self) (osd_encodedUserKey other)"

definition ExistsEntryKey_compare :: "ExistsEntryKey \<Rightarrow> ExistsEntryKey \<Rightarrow> int outcome" where
  "ExistsEntryKey_compare self other =
     compareEncodedKeyVectors (ee_encodedUserKey self) (ee_encodedUserKey other)"

definition IndexDataKey_compare :: "IndexDataKey \<Rightarrow> IndexDataKey \<Rightarrow> bool \<Rightarrow> int outcome" where
  "IndexDataKey_compare self other ignoreDuplicates =
     obind (compareEncodedKeyVectors (id_encodedUserKey self) (id_encodedUserKey other)) (\<lambda>result.
       if result \<noteq> 0 then Done result
       else if ignoreDuplicates then Done 0
       else obind (compareEncodedKeyVectors (id_encodedPrimaryKey self) (id_encodedPrimaryKey other))
         (\<lambda>result. if result \<noteq> 0 then Done result
                   else Done (compareInts (id_sequenceNumber self) (id_sequenceNumber other))))"

end
