(* ===== verification/LevelDB_Compare.thy ===== *)
theory LevelDB_Compare
  imports LevelDB_Keys
begin

text \<open>
  \<open>compare\<close> of \<open>IDBLevelDBCoding.cpp\<close>, the order that LevelDB keeps its entries in, and its
  specification: the lexicographic order of the fields that a key is made of.
\<close>

section \<open>The comparison of two slices\<close>

text \<open>The template \<open>compare<KeyType>\<close>: decode both keys, then compare the objects.\<close>

definition compareDecoded ::
    "(byte list \<Rightarrow> ('k \<times> byte list) outcome) \<Rightarrow> ('k \<Rightarrow> 'k \<Rightarrow> int) \<Rightarrow> byte list \<Rightarrow> byte list \<Rightarrow> int outcome" where
  "compareDecoded decode cmp a b =
     obind (decode a) (\<lambda>(keyA, ptrA). obind (decode b) (\<lambda>(keyB, ptrB). Done (cmp keyA keyB)))"

text \<open>
  Its specialisations for record keys. The prefixes are only looked at by assertions; a prefix
  that does not decode leaves a null pointer, which is then read.
\<close>

definition compare_ExistsEntryKey :: "byte list \<Rightarrow> byte list \<Rightarrow> int outcome" where
  "compare_ExistsEntryKey a b =
     (case (KeyPrefix_decode a, KeyPrefix_decode b) of
        (Done (prefixA, ptrA), Done (prefixB, ptrB)) \<Rightarrow>
          obind (compareEncodedIDBKeys ptrA ptrB) (\<lambda>(result, ptrA, ptrB). Done result)
      | _ \<Rightarrow> Undef)"

definition compare_ObjectStoreDataKey :: "byte list \<Rightarrow> byte list \<Rightarrow> int outcome" where
  "compare_ObjectStoreDataKey a b =
     (case (KeyPrefix_decode a, KeyPrefix_decode b) of
        (Done (prefixA, ptrA), Done (prefixB, ptrB)) \<Rightarrow>
          obind (compareEncodedIDBKeys ptrA ptrB) (\<lambda>(result, ptrA, ptrB). Done result)
      | _ \<Rightarrow> Undef)"

definition optionalSequenceNumber :: "byte list \<Rightarrow> (i64 \<times> byte list) outcome" where
  "optionalSequenceNumber ptr = (if ptr = [] then Done (-1, ptr) else decodeVarInt ptr)"

definition compare_IndexDataKey :: "byte list \<Rightarrow> byte list \<Rightarrow> bool \<Rightarrow> int outcome" where
  "compare_IndexDataKey a b ignoreDuplicates =
     (case (KeyPrefix_decode a, KeyPrefix_decode b) of
        (Done (prefixA, ptrA), Done (prefixB, ptrB)) \<Rightarrow>
          obind (compareEncodedIDBKeys ptrA ptrB) (\<lambda>(result, ptrA, ptrB).
            if result \<noteq> 0 then Done result
            else if ignoreDuplicates then Done 0
            else case both (optionalSequenceNumber ptrA) (optionalSequenceNumber ptrB) of
                Undef \<Rightarrow> Undef
              | Null \<Rightarrow> Done 0
              | Done ((sequenceNumberA, ptrA), (sequenceNumberB, ptrB)) \<Rightarrow>
                  if ptrA = [] \<and> ptrB = [] then Done 0
                  else if ptrA = [] then Done (-1)
                  else if ptrB = [] then Done 1
                  else obind (compareEncodedIDBKeys ptrA ptrB) (\<lambda>(result, ptrA, ptrB).
                    if result \<noteq> 0 then Done result
                    else Done (compareInts sequenceNumberA sequenceNumberB)))
      | _ \<Rightarrow> Undef)"

text \<open>The user keys of records are compared by \<open>cmp\<close> when both slices have one.\<close>

definition compareAfterPrefix :: "byte list \<Rightarrow> byte list \<Rightarrow> int outcome \<Rightarrow> int outcome" where
  "compareAfterPrefix ptrA ptrB cmp =
     (if ptrA = [] \<and> ptrB = [] then Done 0
      else if ptrA = [] then Done (-1)
      else if ptrB = [] then Done 1
      else cmp)"

definition compareGlobal :: "byte list \<Rightarrow> byte list \<Rightarrow> byte \<Rightarrow> byte \<Rightarrow> int outcome" where
  "compareGlobal a b typeByteA typeByteB =
     (let x = uint typeByteA - uint typeByteB
      in if x \<noteq> 0 then Done x
         else if typeByteA < MaxSimpleGlobalMetaDataTypeByte then Done 0
         else if typeByteA = DatabaseFreeListTypeByte then
           compareDecoded DatabaseFreeListKey_decode DatabaseFreeListKey_compare a b
         else if typeByteA = DatabaseNameTypeByte then
           compareDecoded DatabaseNameKey_decode DatabaseNameKey_compare a b
         else Null)"

definition compareDatabase :: "byte list \<Rightarrow> byte list \<Rightarrow> byte \<Rightarrow> byte \<Rightarrow> int outcome" where
  "compareDatabase a b typeByteA typeByteB =
     (let x = uint typeByteA - uint typeByteB
      in if x \<noteq> 0 then Done x
         else if typeByteA < MaxSimpleMetaDataType then Done 0
         else if typeByteA = ObjectStoreMetaDataTypeByte then
           compareDecoded ObjectStoreMetaDataKey_decode ObjectStoreMetaDataKey_compare a b
         else if typeByteA = IndexMetaDataTypeByte then
           compareDecoded IndexMetaDataKey_decode IndexMetaDataKey_compare a b
         else if typeByteA = ObjectStoreFreeListTypeByte then
           compareDecoded ObjectStoreFreeListKey_decode ObjectStoreFreeListKey_compare a b
         else if typeByteA = IndexFreeListTypeByte then
           compareDecoded IndexFreeListKey_decode IndexFreeListKey_compare a b
         else if typeByteA = ObjectStoreNamesTypeByte then
           compareDecoded ObjectStoreNamesKey_decode ObjectStoreNamesKey_compare a b
         else if typeByteA = IndexNamesKeyTypeByte then
           compareDecoded IndexNamesKey_decode IndexNamesKey_compare a b
         else Null)"

definition compareSlices :: "byte list \<Rightarrow> byte list \<Rightarrow> bool \<Rightarrow> int outcome" where
  "compareSlices a b indexKeys =
     obind (both (KeyPrefix_decode a) (KeyPrefix_decode b)) (\<lambda>((prefixA, ptrA), (prefixB, ptrB)).
       let x = KeyPrefix_compare prefixA prefixB
       in if x \<noteq> 0 then Done x
          else case KeyPrefix_type prefixA of
              GlobalMetaData \<Rightarrow>
                (case (ptrA, ptrB) of
                   (typeByteA # _, typeByteB # _) \<Rightarrow> compareGlobal a b typeByteA typeByteB
                 | _ \<Rightarrow> Undef)
            | DatabaseMetaData \<Rightarrow>
                (case (ptrA, ptrB) of
                   (typeByteA # _, typeByteB # _) \<Rightarrow> compareDatabase a b typeByteA typeByteB
                 | _ \<Rightarrow> Undef)
            | ObjectStoreData \<Rightarrow> compareAfterPrefix ptrA ptrB (compare_ObjectStoreDataKey a b)
            | ExistsEntry \<Rightarrow> compareAfterPrefix ptrA ptrB (compare_ExistsEntryKey a b)
            | IndexData \<Rightarrow> compareAfterPrefix ptrA ptrB (compare_IndexDataKey a b indexKeys)
            | InvalidPrefix \<Rightarrow> Null)"

text \<open>The exported \<open>compare\<close>: 0 when the keys could not be compared.\<close>

definition LevelDB_compare :: "byte list \<Rightarrow> byte list \<Rightarrow> bool \<Rightarrow> int outcome" where
  "LevelDB_compare a b indexKeys =
     (case compareSlices a b indexKeys of Done result \<Rightarrow> Done result | Null \<Rightarrow> Done 0 | Undef \<Rightarrow> Undef)"

section \<open>The keys of the backing store\<close>

text \<open>One constructor per key class, with the arguments of its \<open>encode\<close>.\<close>

datatype LevelDBKey =
    SchemaVersion
  | MaxDatabaseId
  | DataVersion
  | DatabaseFreeList i64
  | DatabaseName "uchar list" "uchar list"
  | DatabaseMeta i64 byte
  | ObjectStoreMeta i64 i64 byte
  | IndexMeta i64 i64 i64 byte
  | ObjectStoreFreeList i64 i64
  | IndexFreeList i64 i64 i64
  | ObjectStoreNames i64 "uchar list"
  | IndexNames i64 i64 "uchar list"
  | ObjectStoreRecord i64 i64 IDBKey
  | ExistsRecord i64 i64 IDBKey
  | IndexRecord i64 i64 i64 IDBKey IDBKey i64

fun encodeKey :: "LevelDBKey \<Rightarrow> byte list" where
  "encodeKey SchemaVersion = SchemaVersionKey_encode"
| "encodeKey MaxDatabaseId = MaxDatabaseIdKey_encode"
| "encodeKey DataVersion = DataVersionKey_encode"
| "encodeKey (DatabaseFreeList d) = DatabaseFreeListKey_encode d"
| "encodeKey (DatabaseName origin name) = DatabaseNameKey_encode origin name"
| "encodeKey (DatabaseMeta d t) = DatabaseMetaDataKey_encode d t"
| "encodeKey (ObjectStoreMeta d os t) = ObjectStoreMetaDataKey_encode d os t"
| "encodeKey (IndexMeta d os ix t) = IndexMetaDataKey_encode d os ix t"
| "encodeKey (ObjectStoreFreeList d os) = ObjectStoreFreeListKey_encode d os"
| "encodeKey (IndexFreeList d os ix) = IndexFreeListKey_encode d os ix"
| "encodeKey (ObjectStoreNames d name) = ObjectStoreNamesKey_encode d name"
| "encodeKey (IndexNames d os name) = IndexNamesKey_encode d os name"
| "encodeKey (ObjectStoreRecord d os k) = ObjectStoreDataKey_encode d os (codeKey k)"
| "encodeKey (ExistsRecord d os k) = ExistsEntryKey_encode d os (codeKey k)"
| "encodeKey (IndexRecord d os ix k pk seq) = IndexDataKey_encode d os ix (codeKey k) (codeKey pk) seq"

text \<open>The arguments the callers may pass: valid identifiers, storable strings and keys.\<close>

fun levelKey_ok :: "LevelDBKey \<Rightarrow> bool" where
  "levelKey_ok SchemaVersion = True"
| "levelKey_ok MaxDatabaseId = True"
| "levelKey_ok DataVersion = True"
| "levelKey_ok (DatabaseFreeList d) = i64_ok d"
| "levelKey_ok (DatabaseName origin name) = (string_ok origin \<and> string_ok name)"
| "levelKey_ok (DatabaseMeta d t) = (isValidDatabaseId d \<and> t < MaxSimpleMetaDataType)"
| "levelKey_ok (ObjectStoreMeta d os t) = (isValidDatabaseId d \<and> i64_ok os)"
| "levelKey_ok (IndexMeta d os ix t) = (isValidDatabaseId d \<and> i64_ok os \<and> i64_ok ix)"
| "levelKey_ok (ObjectStoreFreeList d os) = (isValidDatabaseId d \<and> i64_ok os)"
| "levelKey_ok (IndexFreeList d os ix) = (isValidDatabaseId d \<and> i64_ok os \<and> i64_ok ix)"
| "levelKey_ok (ObjectStoreNames d name) = (isValidDatabaseId d \<and> string_ok name)"
| "levelKey_ok (IndexNames d os name) = (isValidDatabaseId d \<and> i64_ok os \<and> string_ok name)"
| "levelKey_ok (ObjectStoreRecord d os k) = (isValidDatabaseId d \<and> isValidObjectStoreId os \<and> codable k)"
| "levelKey_ok (ExistsRecord d os k) = (isValidDatabaseId d \<and> isValidObjectStoreId os \<and> codable k)"
| "levelKey_ok (IndexRecord d os ix k pk seq) =
     (isValidDatabaseId d \<and> isValidObjectStoreId os \<and> isValidIndexId ix \<and> codable k \<and> codable pk \<and> i64_ok seq)"

section \<open>The order of the keys, field by field\<close>

datatype field = FInt i64 | FByte byte | FString "uchar list" | FKey IDBKey

fun fieldRank :: "field \<Rightarrow> int" where
  "fieldRank (FInt _) = 0"
| "fieldRank (FByte _) = 1"
| "fieldRank (FString _) = 2"
| "fieldRank (FKey _) = 3"

fun fieldCmp :: "field \<Rightarrow> field \<Rightarrow> int" where
  "fieldCmp (FInt a) (FInt b) = compareInts a b"
| "fieldCmp (FByte a) (FByte b) = uint a - uint b"
| "fieldCmp (FString s) (FString t) = codePointCompare s t"
| "fieldCmp (FKey a) (FKey b) = IDBKey_compare a b"
| "fieldCmp f g = fieldRank f - fieldRank g"

fun field_ok :: "field \<Rightarrow> bool" where
  "field_ok (FInt a) = i64_ok a"
| "field_ok (FKey k) = no_nan k"
| "field_ok _ = True"

fun keyPrefixOf :: "LevelDBKey \<Rightarrow> KeyPrefix" where
  "keyPrefixOf (DatabaseMeta d t) = keyPrefix1 d"
| "keyPrefixOf (ObjectStoreMeta d os t) = keyPrefix1 d"
| "keyPrefixOf (IndexMeta d os ix t) = keyPrefix1 d"
| "keyPrefixOf (ObjectStoreFreeList d os) = keyPrefix1 d"
| "keyPrefixOf (IndexFreeList d os ix) = keyPrefix1 d"
| "keyPrefixOf (ObjectStoreNames d name) = keyPrefix1 d"
| "keyPrefixOf (IndexNames d os name) = keyPrefix1 d"
| "keyPrefixOf (ObjectStoreRecord d os k) = createWithSpecialIndex d os ObjectStoreDataIndexId"
| "keyPrefixOf (ExistsRecord d os k) = createWithSpecialIndex d os ExistsEntryIndexId"
| "keyPrefixOf (IndexRecord d os ix k pk seq) = keyPrefix3 d os ix"
| "keyPrefixOf _ = keyPrefix1 0"

text \<open>
  With \<open>indexKeys\<close>, index entries are ordered by their user key alone; otherwise by the user key,
  then the primary key, then the sequence number (which is not the order they are stored in).
\<close>

fun payloadFields :: "bool \<Rightarrow> LevelDBKey \<Rightarrow> field list" where
  "payloadFields _ SchemaVersion = [FByte SchemaVersionTypeByte]"
| "payloadFields _ MaxDatabaseId = [FByte MaxDatabaseIdTypeByte]"
| "payloadFields _ DataVersion = [FByte DataVersionTypeByte]"
| "payloadFields _ (DatabaseFreeList d) = [FByte DatabaseFreeListTypeByte, FInt d]"
| "payloadFields _ (DatabaseName origin name) = [FByte DatabaseNameTypeByte, FString origin, FString name]"
| "payloadFields _ (DatabaseMeta d t) = [FByte t]"
| "payloadFields _ (ObjectStoreMeta d os t) = [FByte ObjectStoreMetaDataTypeByte, FInt os, FByte t]"
| "payloadFields _ (IndexMeta d os ix t) = [FByte IndexMetaDataTypeByte, FInt os, FInt ix, FByte t]"
| "payloadFields _ (ObjectStoreFreeList d os) = [FByte ObjectStoreFreeListTypeByte, FInt os]"
| "payloadFields _ (IndexFreeList d os ix) = [FByte IndexFreeListTypeByte, FInt os, FInt ix]"
| "payloadFields _ (ObjectStoreNames d name) = [FByte ObjectStoreNamesTypeByte, FString name]"
| "payloadFields _ (IndexNames d os name) = [FByte IndexNamesKeyTypeByte, FInt os, FString name]"
| "payloadFields _ (ObjectStoreRecord d os k) = [FKey k]"
| "payloadFields _ (ExistsRecord d os k) = [FKey k]"
| "payloadFields indexKeys (IndexRecord d os ix k pk seq) =
     (if indexKeys then [FKey k] else [FKey k, FKey pk, FInt seq])"

definition prefixFields :: "KeyPrefix \<Rightarrow> field list" where
  "prefixFields p = [FInt (m_databaseId p), FInt (m_objectStoreId p), FInt (m_indexId p)]"

definition keyFields :: "bool \<Rightarrow> LevelDBKey \<Rightarrow> field list" where
  "keyFields indexKeys k = prefixFields (keyPrefixOf k) @ payloadFields indexKeys k"

definition keyOrder :: "bool \<Rightarrow> LevelDBKey \<Rightarrow> LevelDBKey \<Rightarrow> int" where
  "keyOrder indexKeys a b = lexCmp fieldCmp (keyFields indexKeys a) (keyFields indexKeys b)"

interpretation fields: comparator fieldCmp field_ok
proof (rule comparator.intro)
  have bytes: "sgn (uint b - uint a) = - sgn (uint a - uint b)" for a b :: byte
    by (simp add: sgn_if)
  show "sgn (fieldCmp g f) = - sgn (fieldCmp f g)" if "field_ok f" "field_ok g" for f g
    using that by (cases f; cases g) (auto intro: ints.cmp_swap codePoints.cmp_swap keys.cmp_swap bytes)
  show "fieldCmp f h \<le> 0"
    if "field_ok f" "field_ok g" "field_ok h" "fieldCmp f g \<le> 0" "fieldCmp g h \<le> 0" for f g h
    using that
    by (cases f; cases g; cases h; simp)
      (metis ints.cmp_le_trans codePoints.cmp_le_trans keys.cmp_le_trans)+
qed

lemma fieldCmp_comparator: "comparator (lexCmp fieldCmp) (list_all field_ok)"
  by (rule comparator_lexCmp) unfold_locales

section \<open>Encoded keys read back\<close>

lemma prefix_ok_keyPrefix1: "i64_ok d \<Longrightarrow> prefix_ok (keyPrefix1 d)"
  by (simp add: prefix_ok_def keyPrefix1_def i64_ok_def)

lemma isValidDatabaseId_ok: "isValidDatabaseId d \<Longrightarrow> i64_ok d"
  by (simp add: isValidDatabaseId_def i64_ok_def)

lemma isValidObjectStoreId_ok: "isValidObjectStoreId d \<Longrightarrow> i64_ok d"
  by (simp add: isValidObjectStoreId_def i64_ok_def)

lemma isValidIndexId_bounds: "isValidIndexId ix \<Longrightarrow> 0 \<le> sint ix \<and> sint ix < 2 ^ 32"
  by (simp add: isValidIndexId_def MinimumIndexId_def kMaxIndexId_def)

lemma prefix_ok_keyPrefix3:
  "i64_ok d \<Longrightarrow> i64_ok os \<Longrightarrow> 0 \<le> sint ix \<and> sint ix < 2 ^ 32 \<Longrightarrow> prefix_ok (keyPrefix3 d os ix)"
  by (simp add: prefix_ok_def keyPrefix3_def)

lemma createWithSpecialIndex_eq: "createWithSpecialIndex d os ix = keyPrefix3 d os ix"
  by (simp add: createWithSpecialIndex_def keyPrefix3_def)

lemma empty_prefix_ok: "prefix_ok (keyPrefix1 0)"
  by (rule prefix_ok_keyPrefix1) (simp add: i64_ok_def)

lemma levelKey_prefix_ok: "levelKey_ok k \<Longrightarrow> prefix_ok (keyPrefixOf k)"
  by (cases k) (auto simp: empty_prefix_ok createWithSpecialIndex_eq ObjectStoreDataIndexId_def ExistsEntryIndexId_def
      intro!: prefix_ok_keyPrefix1 prefix_ok_keyPrefix3
      dest: isValidDatabaseId_ok isValidObjectStoreId_ok isValidIndexId_bounds)

lemma decodeHeader_encode:
  "prefix_ok p \<Longrightarrow> decodeHeader (KeyPrefix_encode p @ t # rest) = Done rest"
  by (simp add: decodeHeader_def KeyPrefix_decode_encode)

lemma encodeStringWithLength_nonempty [simp]: "encodeStringWithLength s \<noteq> []"
  by (simp add: encodeStringWithLength_def)

lemmas key_encode_defs =
  SchemaVersionKey_encode_def MaxDatabaseIdKey_encode_def DataVersionKey_encode_def
  DatabaseFreeListKey_encode_def DatabaseNameKey_encode_def DatabaseMetaDataKey_encode_def
  ObjectStoreMetaDataKey_encode_def IndexMetaDataKey_encode_def ObjectStoreFreeListKey_encode_def
  IndexFreeListKey_encode_def ObjectStoreNamesKey_encode_def IndexNamesKey_encode_def
  ObjectStoreDataKey_encode_def ExistsEntryKey_encode_def IndexDataKey_encode_def
  KeyPrefix_encodeEmpty encodeByte_def

lemma global_keys_read_back:
  "DatabaseFreeListKey_decode (DatabaseFreeListKey_encode d @ rest) = Done (\<lparr>dfl_databaseId = d\<rparr>, rest)"
  "string_ok origin \<Longrightarrow> string_ok name \<Longrightarrow>
     DatabaseNameKey_decode (DatabaseNameKey_encode origin name @ rest) =
       Done (\<lparr>dn_origin = origin, dn_databaseName = name\<rparr>, rest)"
  by (simp_all add: key_encode_defs DatabaseFreeListKey_decode_def DatabaseNameKey_decode_def
      decodeHeader_encode empty_prefix_ok decodeStringWithLength_encode)

lemma database_keys_read_back:
  assumes "i64_ok d"
  shows "ObjectStoreMetaDataKey_decode (ObjectStoreMetaDataKey_encode d os t @ rest) =
      Done (\<lparr>osm_objectStoreId = os, osm_metaDataType = t\<rparr>, rest)"
    and "IndexMetaDataKey_decode (IndexMetaDataKey_encode d os ix t @ rest) =
      Done (\<lparr>im_objectStoreId = os, im_indexId = ix, im_metaDataType = t\<rparr>, rest)"
    and "ObjectStoreFreeListKey_decode (ObjectStoreFreeListKey_encode d os @ rest) =
      Done (\<lparr>osfl_objectStoreId = os\<rparr>, rest)"
    and "IndexFreeListKey_decode (IndexFreeListKey_encode d os ix @ rest) =
      Done (\<lparr>ifl_objectStoreId = os, ifl_indexId = ix\<rparr>, rest)"
    and "string_ok name \<Longrightarrow> ObjectStoreNamesKey_decode (ObjectStoreNamesKey_encode d name @ rest) =
      Done (\<lparr>osn_objectStoreName = name\<rparr>, rest)"
    and "string_ok name \<Longrightarrow> IndexNamesKey_decode (IndexNamesKey_encode d os name @ rest) =
      Done (\<lparr>in_objectStoreId = os, in_indexName = name\<rparr>, rest)"
  using prefix_ok_keyPrefix1 [OF assms]
  by (simp_all add: key_encode_defs decodeHeader_encode decodeStringWithLength_encode
      ObjectStoreMetaDataKey_decode_def IndexMetaDataKey_decode_def ObjectStoreFreeListKey_decode_def
      IndexFreeListKey_decode_def ObjectStoreNamesKey_decode_def IndexNamesKey_decode_def)

lemma codeKey_nonempty [simp]: "codeKey k \<noteq> []"
  by (cases k) (simp_all add: codeKey_def minIDBKey_def maxIDBKey_def encodeByte_def)

lemma record_keys_read_back:
  assumes "prefix_ok (keyPrefix3 d os ObjectStoreDataIndexId)" "prefix_ok (keyPrefix3 d os ExistsEntryIndexId)"
    and "codable k"
  shows "ObjectStoreDataKey_decode (ObjectStoreDataKey_encode d os (codeKey k) @ rest) =
      Done (\<lparr>osd_encodedUserKey = codeKey k\<rparr>, rest)"
    and "ExistsEntryKey_decode (ExistsEntryKey_encode d os (codeKey k) @ rest) =
      Done (\<lparr>ee_encodedUserKey = codeKey k\<rparr>, rest)"
  using assms
  by (simp_all add: key_encode_defs ObjectStoreDataKey_decode_def ExistsEntryKey_decode_def
      createWithSpecialIndex_def keyPrefix3_def KeyPrefix_decode_encode extractEncodedIDBKey_code)

lemma IndexDataKey_decode_encode:
  assumes "prefix_ok (keyPrefix3 d os ix)" and "codable k" and "codable pk"
  shows "IndexDataKey_decode (IndexDataKey_encode d os ix (codeKey k) (codeKey pk) seq @ rest) =
    Done (\<lparr>id_databaseId = d, id_objectStoreId = os, id_indexId = ix, id_encodedUserKey = codeKey k,
           id_encodedPrimaryKey = codeKey pk, id_sequenceNumber = seq\<rparr>, rest)"
  using assms
  by (simp add: key_encode_defs IndexDataKey_decode_def KeyPrefix_decode_encode extractEncodedIDBKey_code)
    (simp add: keyPrefix3_def)

section \<open>The comparison of encoded keys is the order of the keys\<close>

fun keyTail :: "LevelDBKey \<Rightarrow> byte list" where
  "keyTail SchemaVersion = [SchemaVersionTypeByte]"
| "keyTail MaxDatabaseId = [MaxDatabaseIdTypeByte]"
| "keyTail DataVersion = [DataVersionTypeByte]"
| "keyTail (DatabaseFreeList d) = DatabaseFreeListTypeByte # encodeVarInt d"
| "keyTail (DatabaseName origin name) =
     DatabaseNameTypeByte # encodeStringWithLength origin @ encodeStringWithLength name"
| "keyTail (DatabaseMeta d t) = [t]"
| "keyTail (ObjectStoreMeta d os t) = ObjectStoreMetaDataTypeByte # encodeVarInt os @ [t]"
| "keyTail (IndexMeta d os ix t) = IndexMetaDataTypeByte # encodeVarInt os @ encodeVarInt ix @ [t]"
| "keyTail (ObjectStoreFreeList d os) = ObjectStoreFreeListTypeByte # encodeVarInt os"
| "keyTail (IndexFreeList d os ix) = IndexFreeListTypeByte # encodeVarInt os @ encodeVarInt ix"
| "keyTail (ObjectStoreNames d name) = ObjectStoreNamesTypeByte # encodeStringWithLength name"
| "keyTail (IndexNames d os name) = IndexNamesKeyTypeByte # encodeVarInt os @ encodeStringWithLength name"
| "keyTail (ObjectStoreRecord d os k) = codeKey k"
| "keyTail (ExistsRecord d os k) = codeKey k"
| "keyTail (IndexRecord d os ix k pk seq) = codeKey k @ encodeVarInt seq @ codeKey pk"

lemma encodeKey_split: "encodeKey k = KeyPrefix_encode (keyPrefixOf k) @ keyTail k"
  by (cases k) (simp_all add: key_encode_defs)

lemma KeyPrefix_decode_encodeKey:
  "levelKey_ok k \<Longrightarrow> KeyPrefix_decode (encodeKey k) = Done (keyPrefixOf k, keyTail k)"
  by (simp add: encodeKey_split KeyPrefix_decode_encode levelKey_prefix_ok)

fun levelGroup :: "LevelDBKey \<Rightarrow> KeyPrefixType" where
  "levelGroup (DatabaseMeta d t) = DatabaseMetaData"
| "levelGroup (ObjectStoreMeta d os t) = DatabaseMetaData"
| "levelGroup (IndexMeta d os ix t) = DatabaseMetaData"
| "levelGroup (ObjectStoreFreeList d os) = DatabaseMetaData"
| "levelGroup (IndexFreeList d os ix) = DatabaseMetaData"
| "levelGroup (ObjectStoreNames d name) = DatabaseMetaData"
| "levelGroup (IndexNames d os name) = DatabaseMetaData"
| "levelGroup (ObjectStoreRecord d os k) = ObjectStoreData"
| "levelGroup (ExistsRecord d os k) = ExistsEntry"
| "levelGroup (IndexRecord d os ix k pk seq) = IndexData"
| "levelGroup _ = GlobalMetaData"

lemma isValid_nonzero [simp]:
  "isValidDatabaseId d \<Longrightarrow> d \<noteq> 0" "isValidObjectStoreId os \<Longrightarrow> os \<noteq> 0"
  by (auto simp: isValidDatabaseId_def isValidObjectStoreId_def)

lemma isValidIndexId_special:
  "isValidIndexId ix \<Longrightarrow> ix \<noteq> ObjectStoreDataIndexId \<and> ix \<noteq> ExistsEntryIndexId \<and> sint MinimumIndexId \<le> sint ix"
  by (auto simp: isValidIndexId_def ObjectStoreDataIndexId_def ExistsEntryIndexId_def MinimumIndexId_def)

lemma KeyPrefix_type_of: "levelKey_ok k \<Longrightarrow> KeyPrefix_type (keyPrefixOf k) = levelGroup k"
  by (cases k) (simp_all add: KeyPrefix_type_def keyPrefix1_def keyPrefix3_def createWithSpecialIndex_def
      isValidIndexId_special, simp add: ObjectStoreDataIndexId_def ExistsEntryIndexId_def)

definition agrees :: "int outcome \<Rightarrow> int \<Rightarrow> bool" where
  "agrees out c \<longleftrightarrow> (\<exists>r. out = Done r \<and> sgn r = sgn c)"

lemma agrees_Done: "sgn r = sgn c \<Longrightarrow> agrees (Done r) c"
  by (simp add: agrees_def)

lemmas read_back = global_keys_read_back [where rest = "[]", simplified]
  database_keys_read_back [where rest = "[]", simplified]

lemma compareGlobal_agrees:
  assumes "levelKey_ok a" "levelKey_ok b" "levelGroup a = GlobalMetaData" "levelGroup b = GlobalMetaData"
  shows "agrees (compareGlobal (encodeKey a) (encodeKey b) (hd (keyTail a)) (hd (keyTail b)))
    (lexCmp fieldCmp (payloadFields ik a) (payloadFields ik b))"
  using assms
  by (cases a; cases b)
    (simp_all add: compareGlobal_def typeBytes compareDecoded_def read_back DatabaseFreeListKey_compare_def
      DatabaseNameKey_compare_def agrees_def Let_def)

lemma byte_less_5: "t < (5 :: byte) \<Longrightarrow> uint t < 5"
  by (simp add: word_less_def)

lemma compareDatabase_agrees:
  assumes "levelKey_ok a" "levelKey_ok b" "levelGroup a = DatabaseMetaData" "levelGroup b = DatabaseMetaData"
  shows "agrees (compareDatabase (encodeKey a) (encodeKey b) (hd (keyTail a)) (hd (keyTail b)))
    (lexCmp fieldCmp (payloadFields ik a) (payloadFields ik b))"
  using assms
  by (cases a; cases b)
    (auto simp: compareDatabase_def typeBytes compareDecoded_def read_back isValidDatabaseId_ok
      ObjectStoreMetaDataKey_compare_def IndexMetaDataKey_compare_def ObjectStoreFreeListKey_compare_def
      IndexFreeListKey_compare_def ObjectStoreNamesKey_compare_def IndexNamesKey_compare_def
      agrees_def Let_def sgn_if dest!: byte_less_5)

end
