(* ===== verification/LevelDB_Order.thy ===== *)
theory LevelDB_Order
  imports LevelDB_Compare
begin

text \<open>
  The comparison of two encoded keys is the field-by-field order of the keys
  (\<open>compareSlices_agrees\<close>), encodings are distinct, and the least and greatest keys that the
  backing store scans between enclose exactly the entries they are meant for.
\<close>

section \<open>Records, existence entries and index entries\<close>

lemma compares_as_sgn:
  assumes "compares_as out c p q"
  obtains r p' q' where "out = Done (r, p', q')" "sgn r = sgn c" "c = 0 \<longrightarrow> p' = p \<and> q' = q"
    "r = 0 \<longleftrightarrow> c = 0"
  using assms unfolding compares_as_def by (metis sgn_0_0)

lemma compare_user_keys:
  assumes "codable a" and "codable b"
  obtains r p q where "compareEncodedIDBKeys (codeKey a) (codeKey b) = Done (r, p, q)"
    "sgn r = sgn (IDBKey_compare a b)"
  using compareEncodedIDBKeys_code [OF assms, of "[]" "[]"] by (auto elim: compares_as_sgn)

lemma compare_ObjectStoreDataKey_agrees:
  assumes ok: "levelKey_ok a" "levelKey_ok b"
    and a: "keyTail a = codeKey k" "codable k" and b: "keyTail b = codeKey l" "codable l"
  shows "agrees (compare_ObjectStoreDataKey (encodeKey a) (encodeKey b)) (lexCmp fieldCmp [FKey k] [FKey l])"
    and "agrees (compare_ExistsEntryKey (encodeKey a) (encodeKey b)) (lexCmp fieldCmp [FKey k] [FKey l])"
proof -
  obtain r p q where "compareEncodedIDBKeys (codeKey k) (codeKey l) = Done (r, p, q)"
    "sgn r = sgn (IDBKey_compare k l)"
    by (rule compare_user_keys [OF a(2) b(2)])
  then show "agrees (compare_ObjectStoreDataKey (encodeKey a) (encodeKey b)) (lexCmp fieldCmp [FKey k] [FKey l])"
    and "agrees (compare_ExistsEntryKey (encodeKey a) (encodeKey b)) (lexCmp fieldCmp [FKey k] [FKey l])"
    using a(1) b(1) by (simp_all add: compare_ObjectStoreDataKey_def compare_ExistsEntryKey_def agrees_def Let_def
        KeyPrefix_decode_encodeKey [OF ok(1)] KeyPrefix_decode_encodeKey [OF ok(2)])
qed

lemma compare_IndexDataKey_agrees:
  assumes ok: "levelKey_ok a" "levelKey_ok b"
    and a: "keyTail a = codeKey k @ encodeVarInt m @ codeKey pk" "codable k" "codable pk"
    and b: "keyTail b = codeKey l @ encodeVarInt n @ codeKey pl" "codable l" "codable pl"
  shows "agrees (compare_IndexDataKey (encodeKey a) (encodeKey b) ik)
    (lexCmp fieldCmp (if ik then [FKey k] else [FKey k, FKey pk, FInt m])
      (if ik then [FKey l] else [FKey l, FKey pl, FInt n]))"
proof -
  obtain r p q where user: "compareEncodedIDBKeys (codeKey k @ encodeVarInt m @ codeKey pk)
      (codeKey l @ encodeVarInt n @ codeKey pl) = Done (r, p, q)" "sgn r = sgn (IDBKey_compare k l)"
    "IDBKey_compare k l = 0 \<longrightarrow> p = encodeVarInt m @ codeKey pk \<and> q = encodeVarInt n @ codeKey pl"
    "r = 0 \<longleftrightarrow> IDBKey_compare k l = 0"
    using compareEncodedIDBKeys_code [OF a(2) b(2), of "encodeVarInt m @ codeKey pk" "encodeVarInt n @ codeKey pl"]
    by (rule compares_as_sgn)
  obtain r' p' q' where primary: "compareEncodedIDBKeys (codeKey pk) (codeKey pl) = Done (r', p', q')"
    "sgn r' = sgn (IDBKey_compare pk pl)"
    by (rule compare_user_keys [OF a(3) b(3)])
  have zero: "r' = 0 \<longleftrightarrow> IDBKey_compare pk pl = 0" using primary(2) by (metis sgn_0_0)
  show ?thesis
    using user primary(2) zero
    by (cases "IDBKey_compare k l = 0") (auto simp: compare_IndexDataKey_def agrees_def Let_def a(1) b(1) primary(1)
        optionalSequenceNumber_def KeyPrefix_decode_encodeKey [OF ok(1)] KeyPrefix_decode_encodeKey [OF ok(2)])
qed

section \<open>All keys\<close>

lemma compareAfterPrefix_nonempty: "p \<noteq> [] \<Longrightarrow> q \<noteq> [] \<Longrightarrow> compareAfterPrefix p q c = c"
  by (simp add: compareAfterPrefix_def)

lemma keyTail_Cons: "keyTail k \<noteq> []"
  by (cases k) simp_all

lemma same_prefix_agrees:
  assumes ok: "levelKey_ok a" "levelKey_ok b" and same: "keyPrefixOf a = keyPrefixOf b"
  shows "agrees (compareSlices (encodeKey a) (encodeKey b) ik)
    (lexCmp fieldCmp (payloadFields ik a) (payloadFields ik b))"
proof -
  have group: "levelGroup b = levelGroup a" "KeyPrefix_type (keyPrefixOf b) = levelGroup a"
    using ok same KeyPrefix_type_of by metis+
  have zero: "KeyPrefix_compare (keyPrefixOf b) (keyPrefixOf b) = 0"
    using ok(2) by (simp add: KeyPrefix_compare_eq_0 levelKey_prefix_ok)
  obtain s t p q where tails: "keyTail a = s # p" "keyTail b = t # q"
    using keyTail_Cons by (metis neq_Nil_conv)
  have slices: "compareSlices (encodeKey a) (encodeKey b) ik = (case levelGroup a of
      GlobalMetaData \<Rightarrow> compareGlobal (encodeKey a) (encodeKey b) (hd (keyTail a)) (hd (keyTail b))
    | DatabaseMetaData \<Rightarrow> compareDatabase (encodeKey a) (encodeKey b) (hd (keyTail a)) (hd (keyTail b))
    | ObjectStoreData \<Rightarrow> compare_ObjectStoreDataKey (encodeKey a) (encodeKey b)
    | ExistsEntry \<Rightarrow> compare_ExistsEntryKey (encodeKey a) (encodeKey b)
    | IndexData \<Rightarrow> compare_IndexDataKey (encodeKey a) (encodeKey b) ik
    | InvalidPrefix \<Rightarrow> Null)"
    by (simp add: compareSlices_def KeyPrefix_decode_encodeKey ok same zero group tails Let_def
        compareAfterPrefix_nonempty split: KeyPrefixType.split)
  show ?thesis
  proof (cases "levelGroup a")
    case GlobalMetaData
    then show ?thesis unfolding slices using compareGlobal_agrees [OF ok] group by simp
  next
    case DatabaseMetaData
    then show ?thesis unfolding slices using compareDatabase_agrees [OF ok] group by simp
  next
    case ObjectStoreData
    then obtain d os k e ot l where "a = ObjectStoreRecord d os k" "b = ObjectStoreRecord e ot l"
      using group by (cases a; cases b) auto
    then show ?thesis
      unfolding slices using ok compare_ObjectStoreDataKey_agrees(1) [OF ok, of k l] by simp
  next
    case ExistsEntry
    then obtain d os k e ot l where "a = ExistsRecord d os k" "b = ExistsRecord e ot l"
      using group by (cases a; cases b) auto
    then show ?thesis
      unfolding slices using ok compare_ObjectStoreDataKey_agrees(2) [OF ok, of k l] by simp
  next
    case IndexData
    then obtain d os ix k pk m e ot iy l pl n where
      "a = IndexRecord d os ix k pk m" "b = IndexRecord e ot iy l pl n"
      using group by (cases a; cases b) auto
    then show ?thesis
      unfolding slices using ok compare_IndexDataKey_agrees [OF ok, of k m pk l n pl ik] by simp
  next
    case InvalidPrefix
    then show ?thesis by (cases a) simp_all
  qed
qed

lemma lexCmp_append:
  assumes "length xs = length ys"
  shows "lexCmp f (xs @ us) (ys @ vs) = (let r = lexCmp f xs ys in if r \<noteq> 0 then r else lexCmp f us vs)"
  using assms by (induction xs ys rule: list_induct2) (simp_all add: Let_def)

lemma prefixFields_compare:
  assumes "prefix_ok p" and "prefix_ok q"
  shows "lexCmp fieldCmp (prefixFields p) (prefixFields q) = KeyPrefix_compare p q"
  unfolding prefixFields_def KeyPrefix_compare_lex [OF assms] by (simp add: Let_def)

lemma compareSlices_agrees:
  assumes ok: "levelKey_ok a" "levelKey_ok b"
  shows "agrees (compareSlices (encodeKey a) (encodeKey b) ik) (keyOrder ik a b)"
proof -
  have order: "keyOrder ik a b = (let r = KeyPrefix_compare (keyPrefixOf a) (keyPrefixOf b)
      in if r \<noteq> 0 then r else lexCmp fieldCmp (payloadFields ik a) (payloadFields ik b))"
    unfolding keyOrder_def keyFields_def
    by (subst lexCmp_append) (simp_all add: prefixFields_compare levelKey_prefix_ok ok, simp add: prefixFields_def)
  show ?thesis
  proof (cases "KeyPrefix_compare (keyPrefixOf a) (keyPrefixOf b) = 0")
    case True
    then have "keyPrefixOf a = keyPrefixOf b"
      using KeyPrefix_compare_eq_0 levelKey_prefix_ok ok by blast
    with True show ?thesis
      using same_prefix_agrees [OF ok] by (simp add: order)
  next
    case False
    then show ?thesis
      by (simp add: order agrees_def compareSlices_def KeyPrefix_decode_encodeKey ok Let_def)
  qed
qed

section \<open>Consequences\<close>

lemma field_ok_codable: "encodable k \<Longrightarrow> no_nan k \<Longrightarrow> field_ok (FKey k)"
  by simp

fun level_no_nan :: "LevelDBKey \<Rightarrow> bool" where
  "level_no_nan (ObjectStoreRecord d os k) = no_nan k"
| "level_no_nan (ExistsRecord d os k) = no_nan k"
| "level_no_nan (IndexRecord d os ix k pk seq) = (no_nan k \<and> no_nan pk)"
| "level_no_nan _ = True"

lemma keyFields_ok:
  assumes "levelKey_ok k" and "level_no_nan k"
  shows "list_all field_ok (keyFields ik k)"
proof -
  have "list_all field_ok (prefixFields (keyPrefixOf k))"
    using levelKey_prefix_ok [OF assms(1)] by (simp add: prefixFields_def prefix_ok_def i64_ok_def)
  moreover have "list_all field_ok (payloadFields ik k)"
    using assms by (cases k) simp_all
  ultimately show ?thesis by (simp add: keyFields_def)
qed

interpretation levelKeys: comparator "keyOrder ik" "\<lambda>k. levelKey_ok k \<and> level_no_nan k"
proof (rule comparator.intro)
  note c = fieldCmp_comparator
  show "sgn (keyOrder ik y x) = - sgn (keyOrder ik x y)"
    if "levelKey_ok x \<and> level_no_nan x" "levelKey_ok y \<and> level_no_nan y" for x y
    unfolding keyOrder_def using that by (intro comparator.cmp_swap [OF c] keyFields_ok) simp_all
  show "keyOrder ik x z \<le> 0"
    if "levelKey_ok x \<and> level_no_nan x" "levelKey_ok y \<and> level_no_nan y" "levelKey_ok z \<and> level_no_nan z"
      "keyOrder ik x y \<le> 0" "keyOrder ik y z \<le> 0" for x y z
    using that(4,5) that(1-3) unfolding keyOrder_def
    by (intro comparator.cmp_le_trans [OF c, of "keyFields ik x" "keyFields ik y" "keyFields ik z"] keyFields_ok) simp_all
qed

lemma LevelDB_compare_keyOrder:
  assumes "levelKey_ok a" and "levelKey_ok b"
  obtains r where "LevelDB_compare (encodeKey a) (encodeKey b) ik = Done r" "sgn r = sgn (keyOrder ik a b)"
    "r < 0 \<longleftrightarrow> keyOrder ik a b < 0" "r \<le> 0 \<longleftrightarrow> keyOrder ik a b \<le> 0" "r = 0 \<longleftrightarrow> keyOrder ik a b = 0"
proof -
  obtain r where r: "compareSlices (encodeKey a) (encodeKey b) ik = Done r" "sgn r = sgn (keyOrder ik a b)"
    using compareSlices_agrees [OF assms] by (auto simp: agrees_def)
  show thesis
    by (rule that [of r]) (use r in \<open>auto simp: LevelDB_compare_def sgn_if split: if_splits\<close>)
qed

text \<open>Encoded keys are distinct when the keys are.\<close>

lemma codeKey_min_max:
  "codeKey MinKey = minIDBKey" "codeKey InvalidKey = maxIDBKey" "minIDBKey \<noteq> maxIDBKey"
  by (simp_all add: codeKey_def minIDBKey_def maxIDBKey_def encodeByte_def typeByte_defs)

lemma codeKey_not_min_max: "encodable k \<Longrightarrow> codeKey k \<noteq> minIDBKey \<and> codeKey k \<noteq> maxIDBKey"
  by (cases k) (simp_all add: codeKey_def minIDBKey_def maxIDBKey_def encodeByte_def typeByte_defs)

lemma codeKey_eq: "codable k \<Longrightarrow> codable l \<Longrightarrow> codeKey k = codeKey l \<Longrightarrow> k = l"
  using codeKey_not_min_max [of k] codeKey_not_min_max [of l] codeKey_min_max(3) unfolding codable_def
  by (auto simp: codeKey_min_max(1,2) codeKey_encodable idbKey.enc_inject)

lemma codeKey_append_inject:
  assumes "codable k" and "codable l" and "codeKey k @ r = codeKey l @ s"
  shows "k = l \<and> r = s"
proof -
  have "Done (codeKey k, r) = Done (codeKey l, s)"
    using extractEncodedIDBKey_code [OF assms(1), of r] extractEncodedIDBKey_code [OF assms(2), of s]
    unfolding assms(3) by (rule trans [OF sym])
  then have "codeKey k = codeKey l" and "r = s" by simp_all
  then show ?thesis using codeKey_eq [OF assms(1,2)] by blast
qed

lemma codeKey_append_iff:
  "codable k \<Longrightarrow> codable l \<Longrightarrow> codeKey k @ r = codeKey l @ s \<longleftrightarrow> k = l \<and> r = s"
  using codeKey_append_inject by blast

lemma codeKey_inject: "codable k \<Longrightarrow> codable l \<Longrightarrow> codeKey k = codeKey l \<longleftrightarrow> k = l"
  using codeKey_append_inject [of k l "[]" "[]"] by auto

lemma keyTail_inject:
  assumes "levelKey_ok a" "levelKey_ok b" "keyPrefixOf a = keyPrefixOf b" "keyTail a = keyTail b"
  shows "a = b"
proof -
  have "levelGroup a = levelGroup b"
    using assms(1,2,3) KeyPrefix_type_of by metis
  then show ?thesis
    using assms
    by (cases a; cases b)
      (simp_all add: typeBytes keyPrefix1_def keyPrefix3_def createWithSpecialIndex_def codeKey_inject
        varint.enc_inject str.enc_inject varint.enc_append_inject str.enc_append_inject codeKey_append_iff)
qed

lemma encodeKey_inject:
  assumes "levelKey_ok a" and "levelKey_ok b" and "encodeKey a = encodeKey b"
  shows "a = b"
  using prefix.prefix_free [OF levelKey_prefix_ok levelKey_prefix_ok, of a b "keyTail a" "keyTail b"] assms
    keyTail_inject [of a b] by (simp add: encodeKey_split)

section \<open>The ranges that are scanned\<close>

definition inRange :: "bool \<Rightarrow> byte list \<Rightarrow> byte list \<Rightarrow> byte list \<Rightarrow> bool" where
  "inRange ik low high x \<longleftrightarrow>
     (case both (LevelDB_compare low x ik) (LevelDB_compare x high ik) of
        Done (r, s) \<Rightarrow> r \<le> 0 \<and> s \<le> 0 | _ \<Rightarrow> False)"

lemma inRange_keyOrder:
  assumes "levelKey_ok low" "levelKey_ok high" "levelKey_ok x"
  shows "inRange ik (encodeKey low) (encodeKey high) (encodeKey x) \<longleftrightarrow>
    keyOrder ik low x \<le> 0 \<and> keyOrder ik x high \<le> 0"
proof -
  obtain r s where "LevelDB_compare (encodeKey low) (encodeKey x) ik = Done r" "r \<le> 0 \<longleftrightarrow> keyOrder ik low x \<le> 0"
    "LevelDB_compare (encodeKey x) (encodeKey high) ik = Done s" "s \<le> 0 \<longleftrightarrow> keyOrder ik x high \<le> 0"
    using LevelDB_compare_keyOrder assms by metis
  then show ?thesis by (simp add: inRange_def)
qed

lemma between_Cons:
  assumes "field_ok f" and "field_ok g" and exact: "fieldCmp f g = 0 \<Longrightarrow> f = g"
  shows "lexCmp fieldCmp (f # us) (g # gs) \<le> 0 \<and> lexCmp fieldCmp (g # gs) (f # vs) \<le> 0 \<longleftrightarrow>
    g = f \<and> lexCmp fieldCmp us gs \<le> 0 \<and> lexCmp fieldCmp gs vs \<le> 0"
  using fields.cmp_refl [OF assms(1)] fields.cmp_swap_le [OF assms(1,2)] fields.cmp_sym0 [OF assms(1,2)] exact
  by (auto simp: Let_def split: if_splits)

lemma between_simps:
  "i64_ok m \<Longrightarrow> i64_ok n \<Longrightarrow>
     lexCmp fieldCmp (FInt m # us) (FInt n # gs) \<le> 0 \<and> lexCmp fieldCmp (FInt n # gs) (FInt m # vs) \<le> 0 \<longleftrightarrow>
     n = m \<and> lexCmp fieldCmp us gs \<le> 0 \<and> lexCmp fieldCmp gs vs \<le> 0"
  "lexCmp fieldCmp (FByte s # us) (FByte t # gs) \<le> 0 \<and> lexCmp fieldCmp (FByte t # gs) (FByte s # vs) \<le> 0 \<longleftrightarrow>
     t = s \<and> lexCmp fieldCmp us gs \<le> 0 \<and> lexCmp fieldCmp gs vs \<le> 0"
  by (subst between_Cons; auto simp: compareInts_eq_0 word_uint_eq_iff)+

lemma i64_least: "i64_ok n \<Longrightarrow> compareInts 0 n \<le> 0"
  by (simp add: compareInts_sgn i64_ok_def sgn_if)

lemma i64_greatest: "i64_ok n \<Longrightarrow> compareInts n INT64_MAX \<le> 0"
  using sint_lt [of n] by (simp add: compareInts_sgn i64_ok_def sgn_if INT64_MAX_def)

lemma i64_ok_consts [simp]: "i64_ok 0" "i64_ok INT64_MAX"
  by (simp_all add: i64_ok_def INT64_MAX_def)

lemma key_least: "k \<noteq> MinKey \<Longrightarrow> IDBKey_compare MinKey k = -1"
  by (cases k) (simp_all add: IDBKey_compare_types)

lemma key_greatest: "k \<noteq> InvalidKey \<Longrightarrow> k \<noteq> MaxKey \<Longrightarrow> IDBKey_compare k InvalidKey = -1"
  by (cases k) (simp_all add: IDBKey_compare_types)

lemma index_entries_between:
  assumes "codable k" "codable pk" "i64_ok n"
  shows "lexCmp fieldCmp (payloadFields ik (IndexRecord d os ix MinKey MinKey 0))
      (payloadFields ik (IndexRecord d os ix k pk n)) \<le> 0"
    and "lexCmp fieldCmp (payloadFields ik (IndexRecord d os ix k pk n))
      (payloadFields ik (IndexRecord d os ix InvalidKey InvalidKey INT64_MAX)) \<le> 0"
proof -
  have "k \<noteq> MaxKey" "pk \<noteq> MaxKey" using assms by (auto simp: codable_def)
  then show "lexCmp fieldCmp (payloadFields ik (IndexRecord d os ix MinKey MinKey 0))
      (payloadFields ik (IndexRecord d os ix k pk n)) \<le> 0"
    and "lexCmp fieldCmp (payloadFields ik (IndexRecord d os ix k pk n))
      (payloadFields ik (IndexRecord d os ix InvalidKey InvalidKey INT64_MAX)) \<le> 0"
    using assms(3)
    by (cases "k = MinKey"; cases "pk = MinKey"; cases "k = InvalidKey"; cases "pk = InvalidKey";
        simp add: key_least key_greatest i64_least i64_greatest Let_def)+
qed

lemma range_payload:
  assumes ok: "levelKey_ok low" "levelKey_ok high" "levelKey_ok x" and same: "keyPrefixOf high = keyPrefixOf low"
  shows "inRange ik (encodeKey low) (encodeKey high) (encodeKey x) \<longleftrightarrow>
    keyPrefixOf x = keyPrefixOf low \<and>
    lexCmp fieldCmp (payloadFields ik low) (payloadFields ik x) \<le> 0 \<and>
    lexCmp fieldCmp (payloadFields ik x) (payloadFields ik high) \<le> 0"
proof -
  have "prefix_ok (keyPrefixOf low)" "prefix_ok (keyPrefixOf x)"
    using levelKey_prefix_ok ok by simp_all
  then show ?thesis
    unfolding inRange_keyOrder [OF ok] keyOrder_def keyFields_def prefixFields_def same
    by (cases "keyPrefixOf x"; cases "keyPrefixOf low")
      (auto simp: between_simps prefix_ok_def i64_ok_def [symmetric] simp del: lexCmp.simps payloadFields.simps)
qed

lemma range_group:
  "levelKey_ok x \<Longrightarrow> levelKey_ok y \<Longrightarrow> keyPrefixOf x = keyPrefixOf y \<Longrightarrow> levelGroup x = levelGroup y"
  using KeyPrefix_type_of by metis

lemma index_range:
  assumes ok: "isValidDatabaseId d" "isValidObjectStoreId os" "isValidIndexId ix" and x: "levelKey_ok x"
  shows "inRange ik (IndexDataKey_encodeMinKey d os ix) (IndexDataKey_encodeMaxKey d os ix) (encodeKey x) \<longleftrightarrow>
    (\<exists>k pk n. x = IndexRecord d os ix k pk n)"
proof -
  let ?low = "IndexRecord d os ix MinKey MinKey 0" and ?high = "IndexRecord d os ix InvalidKey InvalidKey INT64_MAX"
  have enc: "IndexDataKey_encodeMinKey d os ix = encodeKey ?low" "IndexDataKey_encodeMaxKey d os ix = encodeKey ?high"
    by (simp_all add: IndexDataKey_encodeMinKey_def IndexDataKey_encodeMaxKey_def codeKey_min_max)
  have lo: "levelKey_ok ?low" and hi: "levelKey_ok ?high" using ok by (simp_all add: codable_def)
  have "keyPrefixOf x = keyPrefixOf ?low \<longleftrightarrow> (\<exists>k pk n. x = IndexRecord d os ix k pk n)"
    using range_group [OF x lo] by (cases x) (auto simp: keyPrefix3_def)
  moreover have "keyPrefixOf ?high = keyPrefixOf ?low" by simp
  ultimately show ?thesis
    unfolding enc using range_payload [OF lo hi x, of ik] x index_entries_between [of _ _ _ ik d os ix]
    by (metis levelKey_ok.simps(15))
qed

text \<open>The meta-data entries of an object store or an index, from the least type byte to \<open>encodeMaxKey\<close>.\<close>

lemma byte_greatest: "uint (t :: byte) \<le> 255"
  using uint_lt2p [of t] by simp

lemma lexCmp_singleton: "lexCmp f [x] [y] \<le> 0 \<longleftrightarrow> f x y \<le> 0"
  by (simp add: Let_def)

lemma keyPrefix1_inject [simp]: "keyPrefix1 d = keyPrefix1 e \<longleftrightarrow> d = e"
  by (simp add: keyPrefix1_def)

lemmas metadata_max_defs = ObjectStoreMetaDataKey_encodeMaxKeyOfStore_def ObjectStoreMetaDataKey_encodeMaxKey_def
  IndexMetaDataKey_encodeMaxKeyOfIndex_def IndexMetaDataKey_encodeMaxKey_def
  ObjectStoreFreeListKey_encodeMaxKey_def IndexFreeListKey_encodeMaxKey_def
  ObjectMetaDataTypeMaximum_def IndexMetaDataTypeMaximum_def

lemma least_pair: "i64_ok n \<Longrightarrow> lexCmp fieldCmp [FInt 0, FByte 0] [FInt n, FByte t] \<le> 0"
  using i64_least [of n] by (simp add: Let_def)

lemma greatest_pair: "i64_ok n \<Longrightarrow> lexCmp fieldCmp [FInt n, FByte t] [FInt INT64_MAX, FByte 255] \<le> 0"
  using i64_greatest [of n] byte_greatest [of t] by (simp add: Let_def)

lemmas between_all = between_simps least_pair greatest_pair lexCmp_singleton lexCmp.simps(3,4) i64_least i64_greatest byte_greatest

lemma metadata_range:
  assumes d: "isValidDatabaseId d" and x: "levelKey_ok x"
    and bounds: "levelKey_ok low" "levelKey_ok high"
    and prefixes: "keyPrefixOf low = keyPrefix1 d" "keyPrefixOf high = keyPrefix1 d"
  shows "inRange ik (encodeKey low) (encodeKey high) (encodeKey x) \<longleftrightarrow>
    keyPrefixOf x = keyPrefix1 d \<and> levelGroup x = DatabaseMetaData \<and>
    lexCmp fieldCmp (payloadFields ik low) (payloadFields ik x) \<le> 0 \<and>
    lexCmp fieldCmp (payloadFields ik x) (payloadFields ik high) \<le> 0"
  using range_payload [OF bounds x, of ik] prefixes range_group [OF x, of "ObjectStoreFreeList d 0"] d
  by auto

lemma metadata_ranges:
  assumes d: "isValidDatabaseId d" and os: "i64_ok os" and ix: "i64_ok ix" and x: "levelKey_ok x"
  shows "inRange ik (encodeKey (ObjectStoreMeta d os 0)) (ObjectStoreMetaDataKey_encodeMaxKeyOfStore d os) (encodeKey x)
      \<longleftrightarrow> (\<exists>t. x = ObjectStoreMeta d os t)"
    and "inRange ik (encodeKey (ObjectStoreMeta d 0 0)) (ObjectStoreMetaDataKey_encodeMaxKey d) (encodeKey x)
      \<longleftrightarrow> (\<exists>os t. x = ObjectStoreMeta d os t)"
    and "inRange ik (encodeKey (IndexMeta d os ix 0)) (IndexMetaDataKey_encodeMaxKeyOfIndex d os ix) (encodeKey x)
      \<longleftrightarrow> (\<exists>t. x = IndexMeta d os ix t)"
    and "inRange ik (encodeKey (IndexMeta d os 0 0)) (IndexMetaDataKey_encodeMaxKey d os) (encodeKey x)
      \<longleftrightarrow> (\<exists>ix t. x = IndexMeta d os ix t)"
    and "inRange ik (encodeKey (ObjectStoreFreeList d 0)) (ObjectStoreFreeListKey_encodeMaxKey d) (encodeKey x)
      \<longleftrightarrow> (\<exists>os. x = ObjectStoreFreeList d os)"
    and "inRange ik (encodeKey (IndexFreeList d os 0)) (IndexFreeListKey_encodeMaxKey d os) (encodeKey x)
      \<longleftrightarrow> (\<exists>ix. x = IndexFreeList d os ix)"
proof -
  note range = metadata_range [OF d x]
  show "inRange ik (encodeKey (ObjectStoreMeta d os 0)) (ObjectStoreMetaDataKey_encodeMaxKeyOfStore d os) (encodeKey x)
      \<longleftrightarrow> (\<exists>t. x = ObjectStoreMeta d os t)"
    using d os ix x range [of "ObjectStoreMeta d os 0" "ObjectStoreMeta d os 255" ik]
    by (cases x) (simp_all add: metadata_max_defs between_all typeBytes del: lexCmp.simps(1))
  show "inRange ik (encodeKey (ObjectStoreMeta d 0 0)) (ObjectStoreMetaDataKey_encodeMaxKey d) (encodeKey x)
      \<longleftrightarrow> (\<exists>os t. x = ObjectStoreMeta d os t)"
    using d os ix x range [of "ObjectStoreMeta d 0 0" "ObjectStoreMeta d INT64_MAX 255" ik]
    by (cases x) (simp_all add: metadata_max_defs between_all typeBytes del: lexCmp.simps(1))
  show "inRange ik (encodeKey (IndexMeta d os ix 0)) (IndexMetaDataKey_encodeMaxKeyOfIndex d os ix) (encodeKey x)
      \<longleftrightarrow> (\<exists>t. x = IndexMeta d os ix t)"
    using d os ix x range [of "IndexMeta d os ix 0" "IndexMeta d os ix 255" ik]
    by (cases x) (simp_all add: metadata_max_defs between_all typeBytes del: lexCmp.simps(1))
  show "inRange ik (encodeKey (IndexMeta d os 0 0)) (IndexMetaDataKey_encodeMaxKey d os) (encodeKey x)
      \<longleftrightarrow> (\<exists>ix t. x = IndexMeta d os ix t)"
    using d os ix x range [of "IndexMeta d os 0 0" "IndexMeta d os INT64_MAX 255" ik]
    by (cases x) (simp_all add: metadata_max_defs between_all typeBytes del: lexCmp.simps(1))
  show "inRange ik (encodeKey (ObjectStoreFreeList d 0)) (ObjectStoreFreeListKey_encodeMaxKey d) (encodeKey x)
      \<longleftrightarrow> (\<exists>os. x = ObjectStoreFreeList d os)"
    using d os ix x range [of "ObjectStoreFreeList d 0" "ObjectStoreFreeList d INT64_MAX" ik]
    by (cases x) (simp_all add: metadata_max_defs between_all typeBytes del: lexCmp.simps(1))
  show "inRange ik (encodeKey (IndexFreeList d os 0)) (IndexFreeListKey_encodeMaxKey d os) (encodeKey x)
      \<longleftrightarrow> (\<exists>ix. x = IndexFreeList d os ix)"
    using d os ix x range [of "IndexFreeList d os 0" "IndexFreeList d os INT64_MAX" ik]
    by (cases x) (simp_all add: metadata_max_defs between_all typeBytes del: lexCmp.simps(1))
qed


section \<open>The databases of an origin\<close>

text \<open>A scan visits the keys from \<open>start\<close> up to, and without, \<open>stop\<close>.\<close>

definition inScan :: "byte list \<Rightarrow> byte list \<Rightarrow> byte list \<Rightarrow> bool" where
  "inScan start stop x \<longleftrightarrow>
     (case both (LevelDB_compare start x False) (LevelDB_compare x stop False) of
        Done (r, s) \<Rightarrow> r \<le> 0 \<and> s < 0 | _ \<Rightarrow> False)"

lemma inScan_keyOrder:
  assumes "levelKey_ok start" "levelKey_ok stop" "levelKey_ok x"
  shows "inScan (encodeKey start) (encodeKey stop) (encodeKey x) \<longleftrightarrow>
    keyOrder False start x \<le> 0 \<and> keyOrder False x stop < 0"
proof -
  obtain r s where "LevelDB_compare (encodeKey start) (encodeKey x) False = Done r" "r \<le> 0 \<longleftrightarrow> keyOrder False start x \<le> 0"
    "LevelDB_compare (encodeKey x) (encodeKey stop) False = Done s" "s < 0 \<longleftrightarrow> keyOrder False x stop < 0"
    using LevelDB_compare_keyOrder assms by metis
  then show ?thesis by (simp add: inScan_def)
qed

lemma uchar_less_1: "(c :: uchar) < 1 \<longleftrightarrow> c = 0"
  by (metis word_gt_0 word_less_1 less_irrefl)

lemma origin_strings:
  "codePointCompare s u \<le> 0 \<and> codePointCompare u (s @ [1]) < 0 \<longleftrightarrow> u = s \<or> (\<exists>w. u = s @ 0 # w)"
  unfolding codePointCompare_def
proof (induction s arbitrary: u)
  case Nil
  show ?case
  proof (cases u)
    case (Cons c w)
    have "\<not> lexCmp compareUChars w [] < 0" by (cases w) simp_all
    moreover have "compareUChars c 1 = (if c = 1 then 0 else if c = 0 then -1 else 1)"
      using uchar_less_1 [of c] by (auto simp: compareUChars_def not_less le_less)
    ultimately show ?thesis using Cons by (simp add: Let_def)
  qed simp
next
  case (Cons c s)
  show ?case
  proof (cases u)
    case (Cons c' v)
    then show ?thesis using Cons.IH [of v] by (auto simp: Let_def compareUChars_def split: if_splits)
  qed simp
qed

lemma origin_scan:
  assumes ok: "string_ok (origin @ [1])" and x: "levelKey_ok x"
  shows "inScan (DatabaseNameKey_encodeMinKeyForOrigin origin) (DatabaseNameKey_encodeStopKeyForOrigin origin)
      (encodeKey x) \<longleftrightarrow>
    (\<exists>origin' name. x = DatabaseName origin' name \<and> (origin' = origin \<or> (\<exists>s. origin' = origin @ 0 # s)))"
proof -
  let ?start = "DatabaseName origin []" and ?stop = "DatabaseName (origin @ [1]) []"
  have lo: "levelKey_ok ?start" and hi: "levelKey_ok ?stop" using ok by (simp_all add: string_ok_def)
  have enc: "DatabaseNameKey_encodeMinKeyForOrigin origin = encodeKey ?start"
    "DatabaseNameKey_encodeStopKeyForOrigin origin = encodeKey ?stop"
    by (simp_all add: DatabaseNameKey_encodeMinKeyForOrigin_def DatabaseNameKey_encodeStopKeyForOrigin_def)
  show ?thesis
  proof (cases "\<exists>origin' name. x = DatabaseName origin' name")
    case True
    then obtain origin' name where x': "x = DatabaseName origin' name" by blast
    have nil: "codePointCompare [] s \<le> 0" "\<not> codePointCompare s [] < 0" for s
      by (cases s; simp add: codePointCompare_def)+
    have "keyOrder False ?start x \<le> 0 \<longleftrightarrow> codePointCompare origin origin' \<le> 0"
      using nil by (auto simp: keyOrder_def keyFields_def prefixFields_def keyPrefix1_def compareInts_def x' Let_def)
    moreover have "keyOrder False x ?stop < 0 \<longleftrightarrow> codePointCompare origin' (origin @ [1]) < 0"
      using nil by (auto simp: keyOrder_def keyFields_def prefixFields_def keyPrefix1_def compareInts_def x' Let_def)
    ultimately show ?thesis
      unfolding enc inScan_keyOrder [OF lo hi x] using origin_strings x' by simp
  next
    case False
    have "\<not> inRange False (encodeKey ?start) (encodeKey ?stop) (encodeKey x)"
      using False x range_payload [OF lo hi x, of False] range_group [OF x lo]
      by (cases x) (auto simp: between_simps typeBytes simp del: lexCmp.simps(1))
    then have "\<not> inScan (encodeKey ?start) (encodeKey ?stop) (encodeKey x)"
      unfolding inScan_keyOrder [OF lo hi x] inRange_keyOrder [OF lo hi x] by auto
    with False show ?thesis unfolding enc by blast
  qed
qed

end
