(* ===== verification/LevelDB_Theorems.thy ===== *)
theory LevelDB_Theorems
  imports LevelDB_Order
begin

text \<open>
  The properties of the LevelDB key coding, each with a concrete instance where it has
  hypotheses.
\<close>

section \<open>The order of the encoded keys\<close>

text \<open>
  C1. The bytes are compared as the keys are: for two keys of any of the fifteen classes, with
  arguments the callers may pass, \<open>compareSlices\<close> decides (it neither fails nor reads out of
  bounds), and its result has the sign of the lexicographic order of the keys' fields, prefix
  first, whatever the lengths of the encodings.
\<close>

theorem compareSlices_refines_keyOrder:
  assumes "levelKey_ok a" and "levelKey_ok b"
  shows "\<exists>r. compareSlices (encodeKey a) (encodeKey b) indexKeys = Done r \<and> sgn r = sgn (keyOrder indexKeys a b)"
  using compareSlices_agrees [OF assms] by (simp add: agrees_def)

theorem compareSlices_refines_keyOrder_witness:
  "\<exists>r. compareSlices (encodeKey (IndexRecord 1 1 30 (StringKey [65]) (NumberKey 0) 7))
      (encodeKey (IndexRecord 1 1 30 (StringKey [65, 66]) MinKey 3)) False = Done r \<and> r < 0"
proof -
  have "keyOrder False (IndexRecord 1 1 30 (StringKey [65]) (NumberKey 0) 7)
      (IndexRecord 1 1 30 (StringKey [65, 66]) MinKey 3) = -1"
    by (simp add: keyOrder_def keyFields_def prefixFields_def keyPrefix3_def compareInts_def
        codePointCompare_def compareUChars_def)
  then show ?thesis
    using compareSlices_refines_keyOrder
      [of "IndexRecord 1 1 30 (StringKey [65]) (NumberKey 0) 7" "IndexRecord 1 1 30 (StringKey [65, 66]) MinKey 3" False]
    by (auto simp: isValidDatabaseId_def isValidObjectStoreId_def isValidIndexId_def kMaxDatabaseId_def
        kMaxObjectStoreId_def kMaxIndexId_def MinimumIndexId_def codable_def string_ok_def i64_ok_def sgn_if
        split: if_splits)
qed

text \<open>
  C2. What LevelDB demands of a comparator: on the encoded keys of which no number is a NaN, the
  comparison is reflexive, antisymmetric in sign, and transitive.
\<close>

theorem LevelDB_compare_total_preorder:
  assumes "levelKey_ok a \<and> level_no_nan a" "levelKey_ok b \<and> level_no_nan b" "levelKey_ok c \<and> level_no_nan c"
  shows "\<exists>aa ab ba bc ac.
      LevelDB_compare (encodeKey a) (encodeKey a) ik = Done aa \<and> aa = 0 \<and>
      LevelDB_compare (encodeKey a) (encodeKey b) ik = Done ab \<and>
      LevelDB_compare (encodeKey b) (encodeKey a) ik = Done ba \<and> sgn ba = - sgn ab \<and>
      LevelDB_compare (encodeKey b) (encodeKey c) ik = Done bc \<and>
      LevelDB_compare (encodeKey a) (encodeKey c) ik = Done ac \<and> (ab \<le> 0 \<and> bc \<le> 0 \<longrightarrow> ac \<le> 0)"
proof -
  note ok = assms [THEN conjunct1]
  obtain aa where aa: "LevelDB_compare (encodeKey a) (encodeKey a) ik = Done aa" "aa = 0 \<longleftrightarrow> keyOrder ik a a = 0"
    by (rule LevelDB_compare_keyOrder [OF ok(1,1)])
  obtain ab where ab: "LevelDB_compare (encodeKey a) (encodeKey b) ik = Done ab" "ab \<le> 0 \<longleftrightarrow> keyOrder ik a b \<le> 0"
      "sgn ab = sgn (keyOrder ik a b)"
    by (rule LevelDB_compare_keyOrder [OF ok(1,2)])
  obtain ba where ba: "LevelDB_compare (encodeKey b) (encodeKey a) ik = Done ba" "sgn ba = sgn (keyOrder ik b a)"
    by (rule LevelDB_compare_keyOrder [OF ok(2,1)])
  obtain bc where bc: "LevelDB_compare (encodeKey b) (encodeKey c) ik = Done bc" "bc \<le> 0 \<longleftrightarrow> keyOrder ik b c \<le> 0"
    by (rule LevelDB_compare_keyOrder [OF ok(2,3)])
  obtain ac where ac: "LevelDB_compare (encodeKey a) (encodeKey c) ik = Done ac" "ac \<le> 0 \<longleftrightarrow> keyOrder ik a c \<le> 0"
    by (rule LevelDB_compare_keyOrder [OF ok(1,3)])
  show ?thesis
    using aa ab ba bc ac levelKeys.cmp_refl [OF assms(1)] levelKeys.cmp_swap [OF assms(1,2)]
      levelKeys.cmp_le_trans [OF assms] by auto
qed

theorem LevelDB_compare_total_preorder_witness:
  "\<exists>r. LevelDB_compare (encodeKey DataVersion) (encodeKey DataVersion) True = Done r \<and> r = 0"
  using LevelDB_compare_total_preorder [of DataVersion DataVersion DataVersion True] by auto

text \<open>C3. Different keys have different encodings.\<close>

theorem encodeKey_injective:
  assumes "levelKey_ok a" and "levelKey_ok b" and "a \<noteq> b"
  shows "encodeKey a \<noteq> encodeKey b"
  using encodeKey_inject [OF assms(1,2)] assms(3) by blast

theorem encodeKey_injective_witness:
  "encodeKey (ObjectStoreFreeList 1 2) \<noteq> encodeKey (IndexFreeList 1 2 0)"
  by (rule encodeKey_injective) (simp_all add: isValidDatabaseId_def kMaxDatabaseId_def i64_ok_def)

section \<open>The ranges the backing store scans\<close>

text \<open>
  C4. Between the least and the greatest key of an index lie exactly the entries of that index,
  both for the comparator of the database and for the one that looks at the user key only.
\<close>

theorem index_range_exact:
  assumes "isValidDatabaseId d" "isValidObjectStoreId os" "isValidIndexId ix" and "levelKey_ok x"
  shows "inRange ik (IndexDataKey_encodeMinKey d os ix) (IndexDataKey_encodeMaxKey d os ix) (encodeKey x) \<longleftrightarrow>
    (\<exists>k pk n. x = IndexRecord d os ix k pk n)"
  by (rule index_range [OF assms])

theorem index_range_exact_witness:
  "inRange True (IndexDataKey_encodeMinKey 1 1 30) (IndexDataKey_encodeMaxKey 1 1 30)
     (encodeKey (IndexRecord 1 1 30 (NumberKey 5) (NumberKey 6) 7)) \<and>
   \<not> inRange True (IndexDataKey_encodeMinKey 1 1 30) (IndexDataKey_encodeMaxKey 1 1 30)
     (encodeKey (IndexRecord 1 1 31 (NumberKey 5) (NumberKey 6) 7))"
  using index_range_exact [of 1 1 30 "IndexRecord 1 1 30 (NumberKey 5) (NumberKey 6) 7" True]
    index_range_exact [of 1 1 30 "IndexRecord 1 1 31 (NumberKey 5) (NumberKey 6) 7" True]
  by (simp add: isValidDatabaseId_def isValidObjectStoreId_def isValidIndexId_def kMaxDatabaseId_def
      kMaxObjectStoreId_def kMaxIndexId_def MinimumIndexId_def codable_def i64_ok_def)

text \<open>
  The ranges of meta-data that are read or deleted hold exactly their entries: those of one
  object store, of all object stores, of one index, of all indexes of a store, and the two free
  lists.
\<close>

theorem metadata_ranges_exact:
  assumes "isValidDatabaseId d" and "i64_ok os" and "i64_ok ix" and "levelKey_ok x"
  shows "(inRange ik (encodeKey (ObjectStoreMeta d os 0)) (ObjectStoreMetaDataKey_encodeMaxKeyOfStore d os) (encodeKey x)
      \<longleftrightarrow> (\<exists>t. x = ObjectStoreMeta d os t)) \<and>
    (inRange ik (encodeKey (ObjectStoreMeta d 0 0)) (ObjectStoreMetaDataKey_encodeMaxKey d) (encodeKey x)
      \<longleftrightarrow> (\<exists>os t. x = ObjectStoreMeta d os t)) \<and>
    (inRange ik (encodeKey (IndexMeta d os ix 0)) (IndexMetaDataKey_encodeMaxKeyOfIndex d os ix) (encodeKey x)
      \<longleftrightarrow> (\<exists>t. x = IndexMeta d os ix t)) \<and>
    (inRange ik (encodeKey (IndexMeta d os 0 0)) (IndexMetaDataKey_encodeMaxKey d os) (encodeKey x)
      \<longleftrightarrow> (\<exists>ix t. x = IndexMeta d os ix t)) \<and>
    (inRange ik (encodeKey (ObjectStoreFreeList d 0)) (ObjectStoreFreeListKey_encodeMaxKey d) (encodeKey x)
      \<longleftrightarrow> (\<exists>os. x = ObjectStoreFreeList d os)) \<and>
    (inRange ik (encodeKey (IndexFreeList d os 0)) (IndexFreeListKey_encodeMaxKey d os) (encodeKey x)
      \<longleftrightarrow> (\<exists>ix. x = IndexFreeList d os ix))"
  using metadata_ranges [OF assms] by blast

theorem metadata_ranges_exact_witness:
  "inRange False (encodeKey (IndexMeta 1 2 0 0)) (IndexMetaDataKey_encodeMaxKey 1 2) (encodeKey (IndexMeta 1 2 30 5))"
  using metadata_ranges_exact [of 1 2 0 "IndexMeta 1 2 30 5" False]
  by (simp add: isValidDatabaseId_def kMaxDatabaseId_def i64_ok_def)

text \<open>
  C5. The scan for the databases of an origin visits exactly the names stored for the origin and
  for those that extend it by U+0000: the stop key, the origin followed by U+0001, is not the
  next one in collation order.
\<close>

theorem origin_scan_exact:
  assumes "string_ok (origin @ [1])" and "levelKey_ok x"
  shows "inScan (DatabaseNameKey_encodeMinKeyForOrigin origin) (DatabaseNameKey_encodeStopKeyForOrigin origin)
      (encodeKey x) \<longleftrightarrow>
    (\<exists>origin' name. x = DatabaseName origin' name \<and> (origin' = origin \<or> (\<exists>s. origin' = origin @ 0 # s)))"
  by (rule origin_scan [OF assms])

theorem origin_scan_exact_witness:
  "inScan (DatabaseNameKey_encodeMinKeyForOrigin [97]) (DatabaseNameKey_encodeStopKeyForOrigin [97])
     (encodeKey (DatabaseName [97, 0, 98] [99]))"
  using origin_scan_exact [of "[97]" "DatabaseName [97, 0, 98] [99]"] by (simp add: string_ok_def)

section \<open>Keys and their coding\<close>

text \<open>
  C6. Comparing two encoded keys is comparing the keys with \<open>IDBKey::compare\<close>, and when they are
  equal both pointers stand right after the key, which the comparison of index entries goes on
  from.
\<close>

theorem compareEncodedIDBKeys_correct:
  assumes "encodable a" and "encodable b"
  shows "\<exists>r p' q'. compareEncodedIDBKeys (encodeIDBKey a @ p) (encodeIDBKey b @ q) = Done (r, p', q') \<and>
    sgn r = sgn (IDBKey_compare a b) \<and> (r = 0 \<longrightarrow> p' = p \<and> q' = q)"
  using compareEncodedIDBKeys_encode [OF assms] by (simp add: compares_as_def)

theorem compareEncodedIDBKeys_correct_witness:
  "\<exists>r p' q'. compareEncodedIDBKeys (encodeIDBKey (ArrayKey [StringKey [1], NumberKey 0]) @ [9])
      (encodeIDBKey (ArrayKey [StringKey [1], DateKey 0]) @ [8]) = Done (r, p', q') \<and> r < 0"
  using compareEncodedIDBKeys_correct [of "ArrayKey [StringKey [1], NumberKey 0]" "ArrayKey [StringKey [1], DateKey 0]" "[9]" "[8]"]
  by (force simp: string_ok_def IDBKey_compare_types codePointCompare_def compareUChars_def sgn_if split: if_splits)

text \<open>C7. \<open>decodeIDBKey\<close> reads back what \<open>encodeIDBKey\<close> wrote and nothing after it.\<close>

theorem IDBKey_roundtrip:
  assumes "encodable k"
  shows "decodeIDBKey (encodeIDBKey k @ rest) = Done (k, rest)"
  by (rule decodeIDBKey_encode [OF assms])

theorem IDBKey_roundtrip_witness:
  "decodeIDBKey (encodeIDBKey (ArrayKey [StringKey [97, 98], ArrayKey [], DateKey 5]) @ [1, 2]) =
     Done (ArrayKey [StringKey [97, 98], ArrayKey [], DateKey 5], [1, 2])"
  by (rule IDBKey_roundtrip) (simp add: string_ok_def)

text \<open>
  C8. \<open>extractEncodedIDBKey\<close>, which skips over a key without decoding it, cuts off exactly the
  encoding, for the least and the greatest key too.
\<close>

theorem extractEncodedIDBKey_exact:
  assumes "codable k"
  shows "extractEncodedIDBKey (codeKey k @ rest) = Done (codeKey k, rest)"
  by (rule extractEncodedIDBKey_code [OF assms])

theorem extractEncodedIDBKey_exact_witness:
  "extractEncodedIDBKey (codeKey (StringKey [5]) @ [7, 7]) = Done (codeKey (StringKey [5]), [7, 7])"
  by (rule extractEncodedIDBKey_exact) (simp add: codable_def string_ok_def)

text \<open>
  C9. \<open>IDBKey::compare\<close> orders the keys without NaN: exactly one of less, equal, greater holds,
  and being less or equal is transitive.
\<close>

theorem IDBKey_order:
  assumes "no_nan a" and "no_nan b" and "no_nan c"
  shows "(IDBKey_isLessThan a b \<longleftrightarrow> \<not> IDBKey_isEqual a b \<and> \<not> IDBKey_isLessThan b a) \<and>
    (IDBKey_isEqual a b \<longleftrightarrow> IDBKey_isEqual b a) \<and> IDBKey_isEqual a a \<and>
    (\<not> IDBKey_isLessThan b a \<and> \<not> IDBKey_isLessThan c b \<longrightarrow> \<not> IDBKey_isLessThan c a)"
proof -
  have less: "IDBKey_isLessThan x y \<longleftrightarrow> IDBKey_compare x y < 0" for x y
    using IDBKey_compare_range [of x y] by (auto simp: IDBKey_isLessThan_def)
  have le: "\<not> IDBKey_isLessThan y x \<longleftrightarrow> IDBKey_compare x y \<le> 0" if "no_nan x" "no_nan y" for x y
    using keys.cmp_swap_le [OF that] by (simp add: less not_less)
  show ?thesis
    using keys.cmp_refl [OF assms(1)] keys.cmp_le_trans [OF assms] le assms keys.cmp_sym0 [OF assms(1,2)]
      keys.cmp_swap_less [OF assms(1,2)]
    unfolding IDBKey_isEqual_def less by auto
qed

theorem IDBKey_order_witness:
  "\<not> IDBKey_isLessThan (StringKey [1]) (NumberKey 0) \<and> IDBKey_isEqual MinKey MinKey"
  using IDBKey_order [of "NumberKey 0" "StringKey [1]" MinKey] IDBKey_order [of MinKey MinKey MinKey]
  by (simp add: dbl_nan_def IDBKey_isLessThan_def IDBKey_isEqual_def IDBKey_compare_types)

text \<open>
  C10. A multi-entry array key holds valid keys of the array only, no two of which are equal, and
  for each valid key of the array (without NaN) one that is equal to it.
\<close>

theorem multiEntryArray_correct:
  "\<exists>ks. createMultiEntryArray array = ArrayKey ks \<and> set ks \<subseteq> set array \<and> list_all isValid ks \<and>
     sorted_wrt (\<lambda>a b. \<not> IDBKey_isEqual b a) ks \<and>
     (\<forall>k \<in> set array. isValid k \<and> no_nan k \<longrightarrow> list_ex (IDBKey_isEqual k) ks)"
  using multiEntryLoop_inv [of "[]" array] multiEntryLoop_sub [of "[]" array] multiEntryLoop_covers
  unfolding createMultiEntryArray_def by (auto simp: distinct_keys_def)

theorem multiEntryArray_correct_witness:
  "\<exists>ks. createMultiEntryArray [NumberKey 1, InvalidKey, NumberKey 1] = ArrayKey ks \<and>
     list_ex (IDBKey_isEqual (NumberKey 1)) ks"
  using multiEntryArray_correct [of "[NumberKey 1, InvalidKey, NumberKey 1]"] by (auto simp: dbl_nan_def)

section \<open>Prefixes, key paths and integers\<close>

text \<open>
  C11. A key prefix reads back when its index identifier fits in 32 bits, and no encoded prefix is
  the beginning of another.
\<close>

theorem KeyPrefix_roundtrip:
  assumes "prefix_ok prefix"
  shows "KeyPrefix_decode (KeyPrefix_encode prefix @ rest) = Done (prefix, rest)"
  by (rule KeyPrefix_decode_encode [OF assms])

theorem KeyPrefix_roundtrip_witness:
  "KeyPrefix_decode (KeyPrefix_encode (keyPrefix3 300 (2 ^ 62) 30) @ [7]) = Done (keyPrefix3 300 (2 ^ 62) 30, [7])"
  by (rule KeyPrefix_roundtrip) (simp add: prefix_ok_def keyPrefix3_def i64_ok_def)

text \<open>A key path reads back.\<close>

theorem IDBKeyPath_roundtrip:
  assumes "path_ok path"
  shows "decodeIDBKeyPath (encodeIDBKeyPath path) = Done path"
  by (rule decodeIDBKeyPath_encode [OF assms])

theorem IDBKeyPath_roundtrip_witness:
  "decodeIDBKeyPath (encodeIDBKeyPath (ArrayPath [[97], []])) = Done (ArrayPath [[97], []])"
  by (rule IDBKeyPath_roundtrip) (simp add: path_ok_def string_ok_def)

text \<open>
  Every variable-length integer reads back, negative ones included, from a buffer that goes
  on behind it.
\<close>

theorem varInt_roundtrip: "decodeVarInt (encodeVarInt n @ rest) = Done (n, rest)"
  by (rule decodeVarInt_encode)

text \<open>
  C12. On any buffer \<open>decodeVarInt\<close> leaves the defined part of the language (a shift by 64 or
  more) exactly when the first ten bytes all have the continuation bit and another one follows.
\<close>

theorem decodeVarInt_undefined_shift:
  "decodeVarInt p = Undef \<longleftrightarrow> 10 < length p \<and> (\<forall>c \<in> set (take 10 p). c AND 0x80 \<noteq> 0)"
  by (rule decodeVarInt_Undef)

theorem decodeVarInt_undefined_shift_witness: "decodeVarInt (replicate 11 0xff) = Undef"
  using decodeVarInt_undefined_shift [of "replicate 11 0xff"] by simp

text \<open>
  C13. Whatever the buffer, a key that \<open>decodeIDBKey\<close> answers is read off exactly the bytes it has
  advanced over: at least one; they alone decide about the answer, whatever follows them; and on a
  buffer that ends among them, within a length, a character, a double or the elements of an array at
  any depth, it fails instead of reading past the limit.
\<close>

theorem decodeIDBKey_within_limit:
  assumes "decodeIDBKey p = Done (k, q)"
  shows "\<exists>c. p = c @ q \<and> c \<noteq> [] \<and> (\<forall>r. decodeIDBKey (c @ r) = Done (k, r)) \<and> (\<forall>n<length c. decodeIDBKey (take n c) = Null)"
  using decodeIDBKey_reads(1) [OF assms] by (simp add: readsOff_def)

theorem decodeIDBKey_within_limit_witness:
  "decodeIDBKey ((IDBKeyArrayTypeByte # encodeVarInt 2 @ encodeIDBKey (NumberKey 7) @ encodeIDBKey (StringKey [0x41])) @ [9]) =
     Done (ArrayKey [NumberKey 7, StringKey [0x41]], [9]) \<and>
   decodeIDBKey (take 6 (IDBKeyArrayTypeByte # encodeVarInt 2 @ encodeIDBKey (NumberKey 7) @ encodeIDBKey (StringKey [0x41]))) = Null"
proof -
  let ?k = "ArrayKey [NumberKey 7, StringKey [0x41]]"
  let ?p = "IDBKeyArrayTypeByte # encodeVarInt 2 @ encodeIDBKey (NumberKey 7) @ encodeIDBKey (StringKey [0x41])"
  have code: "encodeIDBKey ?k = ?p" by (simp add: encodeByte_def)
  have "encodable ?k" by (simp add: string_ok_def)
  then have dec: "decodeIDBKey (?p @ [9]) = Done (?k, [9])" using decodeIDBKey_encode [of ?k "[9]"] unfolding code by simp
  obtain c where c: "?p @ [9] = c @ [9]" "\<forall>n<length c. decodeIDBKey (take n c) = Null"
    using decodeIDBKey_within_limit [OF dec] by blast
  have "c = ?p" using c(1) by simp
  moreover have "6 < length ?p" by (simp add: encodeByte_def)
  ultimately show ?thesis using dec c(2) by blast
qed

text \<open>
  C14. \<open>compareEncodedIDBKeys\<close> does read past the limit on truncated input: two array keys that
  announce elements and end there.
\<close>

theorem compare_truncated_arrays:
  assumes "0 < sint m" and "0 < sint n"
  shows "compareEncodedIDBKeys (IDBKeyArrayTypeByte # encodeVarInt m) (IDBKeyArrayTypeByte # encodeVarInt n) = Undef"
proof -
  obtain j where "nat (min (sint m) (sint n)) = Suc j"
    using assms by (cases "nat (min (sint m) (sint n))") auto
  then show ?thesis
    using assms varint.dec_enc_Nil [of m] varint.dec_enc_Nil [of n] by (simp add: compareTypes_def typeByte_defs)
qed

theorem compare_truncated_arrays_witness:
  "compareEncodedIDBKeys (IDBKeyArrayTypeByte # encodeVarInt 2) (IDBKeyArrayTypeByte # encodeVarInt 1) = Undef"
  by (rule compare_truncated_arrays) simp_all

end
