(* ===== verification/Segmented_String.thy ===== *)
theory Segmented_String
  imports Prelude
begin

text \<open>
  \<open>SegmentedSubstring\<close> and \<open>SegmentedString\<close> (\<open>platform/text/SegmentedString.h\<close>,
  \<open>SegmentedString.cpp\<close>): the input of the tokenizer, a queue of strings with two slots for pushed
  characters and an advance operation chosen by two function pointers. Both \<open>LChar\<close> and \<open>UChar\<close>
  strings are lists of code units here, told apart by \<open>m_is8Bit\<close>. The counters are \<open>int\<close>s
  (they would wrap after 2^31 characters only).
\<close>

section \<open>Substrings\<close>

text \<open>\<open>m_ptr\<close> is the pointer into the string, as an index; \<open>None\<close> is the null pointer.\<close>

record SegmentedSubstring =
  m_ptr :: "nat option"
  m_length :: nat
  m_doNotExcludeLineNumbers :: bool
  m_is8Bit :: bool
  m_string :: "uchar list"

definition emptySubstring :: SegmentedSubstring where
  "emptySubstring = \<lparr>m_ptr = None, m_length = 0, m_doNotExcludeLineNumbers = True, m_is8Bit = False, m_string = []\<rparr>"

definition substringOf :: "bool \<Rightarrow> uchar list \<Rightarrow> SegmentedSubstring" where
  "substringOf is8Bit str =
     \<lparr>m_ptr = (if str = [] then None else Some 0), m_length = length str, m_doNotExcludeLineNumbers = True,
      m_is8Bit = (str \<noteq> [] \<and> is8Bit), m_string = str\<rparr>"

definition clearSubstring :: "SegmentedSubstring \<Rightarrow> SegmentedSubstring" where
  "clearSubstring s = s\<lparr>m_length := 0, m_ptr := None, m_is8Bit := False\<rparr>"

definition substringConsumed :: "SegmentedSubstring \<Rightarrow> int" where
  "substringConsumed s = int (length (m_string s)) - int (m_length s)"

definition substringToString :: "SegmentedSubstring \<Rightarrow> uchar list" where
  "substringToString s = (let offset = length (m_string s) - m_length s
     in if offset = 0 then (if m_length s \<noteq> 0 then m_string s else [])
        else take (m_length s) (drop offset (m_string s)))"

definition currentSubString :: "SegmentedSubstring \<Rightarrow> nat \<Rightarrow> uchar list" where
  "currentSubString s len = take len (drop (length (m_string s) - m_length s) (m_string s))"

text \<open>A read beyond the string never happens on well-formed substrings; it yields 0 here.\<close>

definition getCurrentChar :: "SegmentedSubstring \<Rightarrow> uchar" where
  "getCurrentChar s = (case m_ptr s of None \<Rightarrow> 0
     | Some i \<Rightarrow> if i < length (m_string s) then m_string s ! i else 0)"

definition incrementPointer :: "SegmentedSubstring \<Rightarrow> SegmentedSubstring" where
  "incrementPointer s = s\<lparr>m_ptr := map_option Suc (m_ptr s)\<rparr>"

section \<open>The stream\<close>

datatype AdvanceFunction =
    AdvanceEmpty
  | Advance8
  | Advance16
  | AdvanceSlowCase
  | AdvanceAndUpdateLineNumber8
  | AdvanceAndUpdateLineNumber16
  | AdvanceAndUpdateLineNumberSlowCase

text \<open>The two bits of \<open>m_fastPathFlags\<close> are two fields.\<close>

record SegmentedString =
  m_pushedChar1 :: uchar
  m_pushedChar2 :: uchar
  m_currentString :: SegmentedSubstring
  m_currentChar :: uchar
  m_consumedPriorToCurrentString :: int
  m_consumedPriorToCurrentLine :: int
  m_currentLine :: int
  m_substrings :: "SegmentedSubstring list"
  m_closed :: bool
  m_empty :: bool
  m_use8BitAdvance :: bool
  m_use8BitAdvanceAndUpdateLineNumbers :: bool
  m_advanceFunc :: AdvanceFunction
  m_advanceAndUpdateLineNumberFunc :: AdvanceFunction

definition emptyString :: SegmentedString where
  "emptyString =
     \<lparr>m_pushedChar1 = 0, m_pushedChar2 = 0, m_currentString = emptySubstring, m_currentChar = 0,
      m_consumedPriorToCurrentString = 0, m_consumedPriorToCurrentLine = 0, m_currentLine = 0,
      m_substrings = [], m_closed = False, m_empty = True,
      m_use8BitAdvance = False, m_use8BitAdvanceAndUpdateLineNumbers = False,
      m_advanceFunc = AdvanceEmpty, m_advanceAndUpdateLineNumberFunc = AdvanceEmpty\<rparr>"

definition isComposite :: "SegmentedString \<Rightarrow> bool" where
  "isComposite s \<longleftrightarrow> m_substrings s \<noteq> []"

definition updateSlowCaseFunctionPointers :: "SegmentedString \<Rightarrow> SegmentedString" where
  "updateSlowCaseFunctionPointers s =
     s\<lparr>m_use8BitAdvance := False, m_use8BitAdvanceAndUpdateLineNumbers := False,
       m_advanceFunc := AdvanceSlowCase, m_advanceAndUpdateLineNumberFunc := AdvanceAndUpdateLineNumberSlowCase\<rparr>"

definition useEmptyFunctionPointers :: "SegmentedString \<Rightarrow> SegmentedString" where
  "useEmptyFunctionPointers s =
     s\<lparr>m_use8BitAdvance := False, m_use8BitAdvanceAndUpdateLineNumbers := False,
       m_advanceFunc := AdvanceEmpty, m_advanceAndUpdateLineNumberFunc := AdvanceEmpty\<rparr>"

text \<open>There is no return after the empty case, so its settings are overwritten.\<close>

definition updateAdvanceFunctionPointers :: "SegmentedString \<Rightarrow> SegmentedString" where
  "updateAdvanceFunctionPointers s =
     (if 1 < m_length (m_currentString s) \<and> m_pushedChar1 s = 0 then
        if m_is8Bit (m_currentString s) then
          (let s = s\<lparr>m_advanceFunc := Advance8, m_use8BitAdvance := True,
                     m_use8BitAdvanceAndUpdateLineNumbers := False\<rparr>
           in if m_doNotExcludeLineNumbers (m_currentString s)
              then s\<lparr>m_advanceAndUpdateLineNumberFunc := AdvanceAndUpdateLineNumber8,
                     m_use8BitAdvanceAndUpdateLineNumbers := True\<rparr>
              else s\<lparr>m_advanceAndUpdateLineNumberFunc := Advance8\<rparr>)
        else
          (let s = s\<lparr>m_advanceFunc := Advance16, m_use8BitAdvance := False,
                     m_use8BitAdvanceAndUpdateLineNumbers := False\<rparr>
           in if m_doNotExcludeLineNumbers (m_currentString s)
              then s\<lparr>m_advanceAndUpdateLineNumberFunc := AdvanceAndUpdateLineNumber16\<rparr>
              else s\<lparr>m_advanceAndUpdateLineNumberFunc := Advance16\<rparr>)
      else
        let s = (if m_length (m_currentString s) = 0 \<and> \<not> isComposite s then useEmptyFunctionPointers s else s)
        in updateSlowCaseFunctionPointers s)"

definition SegmentedString_of :: "bool \<Rightarrow> uchar list \<Rightarrow> SegmentedString" where
  "SegmentedString_of is8Bit str =
     (let s = emptyString\<lparr>m_currentString := substringOf is8Bit str, m_empty := (str = [])\<rparr>;
          s = (if m_length (m_currentString s) \<noteq> 0
               then s\<lparr>m_currentChar := getCurrentChar (m_currentString s)\<rparr> else s)
      in updateAdvanceFunctionPointers s)"

text \<open>The copy constructor and the assignment, which recompute the current character.\<close>

definition currentStringChar :: "SegmentedString \<Rightarrow> uchar" where
  "currentStringChar s =
     (if m_length (m_currentString s) \<noteq> 0 then getCurrentChar (m_currentString s) else 0)"

definition copySegmentedString :: "SegmentedString \<Rightarrow> SegmentedString" where
  "copySegmentedString other =
     other\<lparr>m_currentChar :=
       (if m_pushedChar2 other \<noteq> 0 then m_pushedChar2 other
        else if m_pushedChar1 other \<noteq> 0 then m_pushedChar1 other
        else currentStringChar other)\<rparr>"

definition SegmentedString_length :: "SegmentedString \<Rightarrow> nat" where
  "SegmentedString_length s =
     m_length (m_currentString s)
       + (if m_pushedChar1 s \<noteq> 0 then 1 + (if m_pushedChar2 s \<noteq> 0 then 1 else 0) else 0)
       + (if isComposite s then sum_list (map m_length (m_substrings s)) else 0)"

definition numberOfCharactersConsumed :: "SegmentedString \<Rightarrow> int" where
  "numberOfCharactersConsumed s =
     m_consumedPriorToCurrentString s + substringConsumed (m_currentString s)
       - (if m_pushedChar1 s \<noteq> 0 then 1 + (if m_pushedChar2 s \<noteq> 0 then 1 else 0) else 0)"

definition setExcludeLineNumbers :: "SegmentedString \<Rightarrow> SegmentedString" where
  "setExcludeLineNumbers s =
     s\<lparr>m_currentString := (m_currentString s)\<lparr>m_doNotExcludeLineNumbers := False\<rparr>,
       m_substrings := map (\<lambda>t. t\<lparr>m_doNotExcludeLineNumbers := False\<rparr>) (m_substrings s)\<rparr>"

definition clearSegmentedString :: "SegmentedString \<Rightarrow> SegmentedString" where
  "clearSegmentedString s =
     s\<lparr>m_pushedChar1 := 0, m_pushedChar2 := 0, m_currentChar := 0,
       m_currentString := clearSubstring (m_currentString s),
       m_consumedPriorToCurrentString := 0, m_consumedPriorToCurrentLine := 0, m_currentLine := 0,
       m_substrings := [], m_closed := False, m_empty := True,
       m_use8BitAdvance := False, m_use8BitAdvanceAndUpdateLineNumbers := False,
       m_advanceFunc := AdvanceEmpty, m_advanceAndUpdateLineNumberFunc := AdvanceEmpty\<rparr>"

definition closeSegmentedString :: "SegmentedString \<Rightarrow> SegmentedString" where
  "closeSegmentedString s = s\<lparr>m_closed := True\<rparr>"

definition appendSubstring :: "SegmentedString \<Rightarrow> SegmentedSubstring \<Rightarrow> SegmentedString" where
  "appendSubstring self s =
     (if m_length s = 0 then self
      else
        let self =
          (if m_length (m_currentString self) = 0 then
             updateAdvanceFunctionPointers
               (self\<lparr>m_consumedPriorToCurrentString :=
                        m_consumedPriorToCurrentString self + substringConsumed (m_currentString self),
                      m_currentString := s\<rparr>)
           else self\<lparr>m_substrings := m_substrings self @ [s]\<rparr>)
        in self\<lparr>m_empty := False\<rparr>)"

definition prependSubstring :: "SegmentedString \<Rightarrow> SegmentedSubstring \<Rightarrow> SegmentedString" where
  "prependSubstring self s =
     (if m_length s = 0 then self
      else
        let self = self\<lparr>m_consumedPriorToCurrentString :=
              m_consumedPriorToCurrentString self + substringConsumed (m_currentString self) - int (m_length s)\<rparr>;
            self = (if m_length (m_currentString self) = 0 then self
                    else self\<lparr>m_substrings := m_currentString self # m_substrings self\<rparr>);
            self = updateAdvanceFunctionPointers (self\<lparr>m_currentString := s\<rparr>)
        in self\<lparr>m_empty := False\<rparr>)"

definition refreshCurrentChar :: "SegmentedString \<Rightarrow> SegmentedString" where
  "refreshCurrentChar s =
     s\<lparr>m_currentChar := (if m_pushedChar1 s \<noteq> 0 then m_pushedChar1 s else currentStringChar s)\<rparr>"

definition appendSegmentedString :: "SegmentedString \<Rightarrow> SegmentedString \<Rightarrow> SegmentedString" where
  "appendSegmentedString self s =
     (let self = appendSubstring self (m_currentString s);
          self = (if isComposite s then foldl appendSubstring self (m_substrings s) else self)
      in refreshCurrentChar self)"

definition prependSegmentedString :: "SegmentedString \<Rightarrow> SegmentedString \<Rightarrow> SegmentedString" where
  "prependSegmentedString self s =
     (let self = (if isComposite s then foldl prependSubstring self (rev (m_substrings s)) else self);
          self = prependSubstring self (m_currentString s)
      in refreshCurrentChar self)"

definition advanceSubstring :: "SegmentedString \<Rightarrow> SegmentedString" where
  "advanceSubstring s =
     (case m_substrings s of
        next # rest \<Rightarrow>
          updateAdvanceFunctionPointers
            (s\<lparr>m_consumedPriorToCurrentString :=
                 m_consumedPriorToCurrentString s + substringConsumed (m_currentString s) - substringConsumed next,
               m_currentString := next, m_substrings := rest\<rparr>)
      | [] \<Rightarrow> useEmptyFunctionPointers (s\<lparr>m_currentString := clearSubstring (m_currentString s), m_empty := True\<rparr>))"

definition SegmentedString_toString :: "SegmentedString \<Rightarrow> uchar list" where
  "SegmentedString_toString s =
     (if m_pushedChar1 s \<noteq> 0 then m_pushedChar1 s # (if m_pushedChar2 s \<noteq> 0 then [m_pushedChar2 s] else []) else [])
       @ substringToString (m_currentString s)
       @ (if isComposite s then concat (map substringToString (m_substrings s)) else [])"

section \<open>Advancing\<close>

definition decrementAndCheckLength :: "SegmentedString \<Rightarrow> SegmentedString" where
  "decrementAndCheckLength s =
     (let s = s\<lparr>m_currentString := (m_currentString s)\<lparr>m_length := m_length (m_currentString s) - 1\<rparr>\<rparr>
      in if m_length (m_currentString s) = 1 then updateSlowCaseFunctionPointers s else s)"

text \<open>\<open>m_currentChar = m_currentString.incrementAndGetCurrentChar()\<close>, in all its variants.\<close>

definition stepPointer :: "SegmentedString \<Rightarrow> SegmentedString" where
  "stepPointer s =
     (let t = incrementPointer (m_currentString s)
      in s\<lparr>m_currentString := t, m_currentChar := getCurrentChar t\<rparr>)"

definition advance8 :: "SegmentedString \<Rightarrow> SegmentedString" where
  "advance8 s = stepPointer (decrementAndCheckLength s)"

definition advance16 :: "SegmentedString \<Rightarrow> SegmentedString" where
  "advance16 s = stepPointer (decrementAndCheckLength s)"

definition countNewline :: "SegmentedString \<Rightarrow> SegmentedString" where
  "countNewline s =
     s\<lparr>m_currentLine := m_currentLine s + 1, m_consumedPriorToCurrentLine := numberOfCharactersConsumed s + 1\<rparr>"

definition advanceAndUpdateLineNumber8 :: "SegmentedString \<Rightarrow> SegmentedString" where
  "advanceAndUpdateLineNumber8 s =
     (let s = (if m_currentChar s = 0x0A then countNewline s else s)
      in stepPointer (decrementAndCheckLength s))"

definition advanceAndUpdateLineNumber16 :: "SegmentedString \<Rightarrow> SegmentedString" where
  "advanceAndUpdateLineNumber16 s =
     (let s = (if m_currentChar s = 0x0A then countNewline s else s)
      in stepPointer (decrementAndCheckLength s))"

definition decrementLength :: "SegmentedString \<Rightarrow> SegmentedString" where
  "decrementLength s = s\<lparr>m_currentString := (m_currentString s)\<lparr>m_length := m_length (m_currentString s) - 1\<rparr>\<rparr>"

definition exhausted :: "SegmentedString \<Rightarrow> SegmentedString" where
  "exhausted s = useEmptyFunctionPointers (s\<lparr>m_currentString := clearSubstring (m_currentString s), m_empty := True\<rparr>)"

text \<open>With more than one character left the pointer is not moved along; see the invariant.\<close>

definition advanceSlowCase :: "SegmentedString \<Rightarrow> SegmentedString" where
  "advanceSlowCase s =
     (if m_pushedChar1 s \<noteq> 0 then
        let s = s\<lparr>m_pushedChar1 := m_pushedChar2 s, m_pushedChar2 := 0\<rparr>
        in if m_pushedChar1 s \<noteq> 0 then s\<lparr>m_currentChar := m_pushedChar1 s\<rparr>
           else let s = updateAdvanceFunctionPointers s in s\<lparr>m_currentChar := currentStringChar s\<rparr>
      else
        let s =
          (if m_length (m_currentString s) \<noteq> 0 then
             let s = decrementLength s
             in if m_length (m_currentString s) = 0 then advanceSubstring s else s
           else if \<not> isComposite s then exhausted s
           else s)
        in s\<lparr>m_currentChar := currentStringChar s\<rparr>)"

definition advanceAndUpdateLineNumberSlowCase :: "SegmentedString \<Rightarrow> SegmentedString" where
  "advanceAndUpdateLineNumberSlowCase s =
     (if m_pushedChar1 s \<noteq> 0 then
        let s = s\<lparr>m_pushedChar1 := m_pushedChar2 s, m_pushedChar2 := 0\<rparr>
        in if m_pushedChar1 s \<noteq> 0 then s\<lparr>m_currentChar := m_pushedChar1 s\<rparr>
           else let s = updateAdvanceFunctionPointers s in s\<lparr>m_currentChar := currentStringChar s\<rparr>
      else
        let s =
          (if m_length (m_currentString s) \<noteq> 0 then
             let s = (if getCurrentChar (m_currentString s) = 0x0A \<and> m_doNotExcludeLineNumbers (m_currentString s)
                      then countNewline s else s);
                 s = decrementLength s
             in if m_length (m_currentString s) = 0 then advanceSubstring s
                else s\<lparr>m_currentString := incrementPointer (m_currentString s)\<rparr>
           else if \<not> isComposite s then exhausted s
           else s)
        in s\<lparr>m_currentChar := currentStringChar s\<rparr>)"

definition advanceEmpty :: "SegmentedString \<Rightarrow> SegmentedString" where
  "advanceEmpty s = s\<lparr>m_currentChar := 0\<rparr>"

fun callAdvance :: "AdvanceFunction \<Rightarrow> SegmentedString \<Rightarrow> SegmentedString" where
  "callAdvance AdvanceEmpty s = advanceEmpty s"
| "callAdvance Advance8 s = advance8 s"
| "callAdvance Advance16 s = advance16 s"
| "callAdvance AdvanceSlowCase s = advanceSlowCase s"
| "callAdvance AdvanceAndUpdateLineNumber8 s = advanceAndUpdateLineNumber8 s"
| "callAdvance AdvanceAndUpdateLineNumber16 s = advanceAndUpdateLineNumber16 s"
| "callAdvance AdvanceAndUpdateLineNumberSlowCase s = advanceAndUpdateLineNumberSlowCase s"

definition advance :: "SegmentedString \<Rightarrow> SegmentedString" where
  "advance s =
     (if m_use8BitAdvance s then
        let s = decrementLength s;
            haveOneCharacterLeft = (m_length (m_currentString s) = 1);
            s = stepPointer s
        in if \<not> haveOneCharacterLeft then s else updateSlowCaseFunctionPointers s
      else callAdvance (m_advanceFunc s) s)"

definition advanceAndUpdateLineNumber :: "SegmentedString \<Rightarrow> SegmentedString" where
  "advanceAndUpdateLineNumber s =
     (if m_use8BitAdvance s then
        let haveNewLine = (m_currentChar s = 0x0A \<and> m_use8BitAdvanceAndUpdateLineNumbers s);
            s = decrementLength s;
            haveOneCharacterLeft = (m_length (m_currentString s) = 1);
            s = stepPointer s
        in if \<not> (haveNewLine \<or> haveOneCharacterLeft) then s
           else
             let s = (if haveNewLine then
                   s\<lparr>m_currentLine := m_currentLine s + 1,
                     m_consumedPriorToCurrentLine :=
                       m_consumedPriorToCurrentString s + substringConsumed (m_currentString s)\<rparr>
                   else s)
             in if haveOneCharacterLeft then updateSlowCaseFunctionPointers s else s
      else callAdvance (m_advanceAndUpdateLineNumberFunc s) s)"

definition advancePastNonNewline :: "SegmentedString \<Rightarrow> SegmentedString" where
  "advancePastNonNewline s = advance s"

definition advancePastNewlineAndUpdateLineNumber :: "SegmentedString \<Rightarrow> SegmentedString" where
  "advancePastNewlineAndUpdateLineNumber s =
     (if m_pushedChar1 s = 0 \<and> 1 < m_length (m_currentString s) then
        let newLineFlag = m_doNotExcludeLineNumbers (m_currentString s);
            s = (if newLineFlag then countNewline s else s)
        in stepPointer (decrementAndCheckLength s)
      else advanceAndUpdateLineNumberSlowCase s)"

text \<open>\<open>advance(count, consumedCharacters)\<close>.\<close>

fun advanceCount :: "nat \<Rightarrow> SegmentedString \<Rightarrow> uchar list \<times> SegmentedString" where
  "advanceCount 0 s = ([], s)"
| "advanceCount (Suc n) s =
     (let c = m_currentChar s; (cs, s) = advanceCount n (advance s) in (c # cs, s))"

definition push :: "SegmentedString \<Rightarrow> uchar \<Rightarrow> SegmentedString" where
  "push s c =
     (if m_pushedChar1 s = 0 then
        let s = s\<lparr>m_pushedChar1 := c\<rparr>;
            s = s\<lparr>m_currentChar := (if m_pushedChar1 s \<noteq> 0 then m_pushedChar1 s else getCurrentChar (m_currentString s))\<rparr>
        in updateSlowCaseFunctionPointers s
      else s\<lparr>m_pushedChar2 := c\<rparr>)"

section \<open>Looking ahead\<close>

datatype LookAheadResult = DidNotMatch | DidMatch | NotEnoughCharacters

text \<open>
  \<open>String::startsWith\<close>; without case sensitivity it compares by ICU's simple case folding
  (\<open>foldCase\<close> of \<open>Prelude\<close>).
\<close>

definition startsWith :: "bool \<Rightarrow> uchar list \<Rightarrow> uchar list \<Rightarrow> bool" where
  "startsWith caseSensitive str prefix \<longleftrightarrow>
     length prefix \<le> length str \<and>
     (if caseSensitive then take (length prefix) str = prefix
      else map foldCase (take (length prefix) str) = map foldCase prefix)"

definition lookAheadSlowCase :: "SegmentedString \<Rightarrow> uchar list \<Rightarrow> bool \<Rightarrow> LookAheadResult \<times> SegmentedString" where
  "lookAheadSlowCase s str caseSensitive =
     (let count = length str
      in if SegmentedString_length s < count then (NotEnoughCharacters, s)
         else
           let (consumedString, s) = advanceCount count s;
               result = (if startsWith caseSensitive consumedString str then DidMatch else DidNotMatch)
           in (result, prependSegmentedString s (SegmentedString_of False consumedString)))"

definition lookAheadInline :: "SegmentedString \<Rightarrow> uchar list \<Rightarrow> bool \<Rightarrow> LookAheadResult \<times> SegmentedString" where
  "lookAheadInline s str caseSensitive =
     (if m_pushedChar1 s = 0 \<and> length str \<le> m_length (m_currentString s) then
        (if startsWith caseSensitive (currentSubString (m_currentString s) (length str)) str
         then DidMatch else DidNotMatch, s)
      else lookAheadSlowCase s str caseSensitive)"

definition lookAhead :: "SegmentedString \<Rightarrow> uchar list \<Rightarrow> LookAheadResult \<times> SegmentedString" where
  "lookAhead s str = lookAheadInline s str True"

definition lookAheadIgnoringCase :: "SegmentedString \<Rightarrow> uchar list \<Rightarrow> LookAheadResult \<times> SegmentedString" where
  "lookAheadIgnoringCase s str = lookAheadInline s str False"

text \<open>\<open>advanceStringAndASSERT\<close> and \<open>advanceStringAndASSERTIgnoringCase\<close> of \<open>MarkupTokenizerInlines.h\<close>.\<close>

fun advanceString :: "SegmentedString \<Rightarrow> uchar list \<Rightarrow> SegmentedString" where
  "advanceString s [] = s"
| "advanceString s (c # cs) = advanceString (advance s) cs"

section \<open>Position\<close>

definition currentColumn :: "SegmentedString \<Rightarrow> int" where
  "currentColumn s = numberOfCharactersConsumed s - m_consumedPriorToCurrentLine s"

definition setCurrentPosition :: "SegmentedString \<Rightarrow> int \<Rightarrow> int \<Rightarrow> int \<Rightarrow> SegmentedString" where
  "setCurrentPosition s line columnAfterProlog prologLength =
     s\<lparr>m_currentLine := line,
       m_consumedPriorToCurrentLine := numberOfCharactersConsumed s + prologLength - columnAfterProlog\<rparr>"

end
