(* ===== verification/Stream_View.thy ===== *)
theory Stream_View
  imports Segmented_String
begin

text \<open>
  What a \<open>SegmentedString\<close> stands for: the characters still to be read, with the pushed ones told
  apart, and the number of characters consumed. Each operation of the string is shown to be the
  obvious operation on this view, whatever its segments, its character widths and the advance
  functions selected; \<open>string_invar\<close> says when they are selected rightly.
\<close>

section \<open>The abstract stream\<close>

record Stream =
  v_pushed1 :: uchar
  v_pushed2 :: uchar
  v_rest :: "uchar list"
  v_closed :: bool
  v_consumed :: int

definition v_current :: "Stream \<Rightarrow> uchar" where
  "v_current v = (if v_pushed1 v \<noteq> 0 then v_pushed1 v else case v_rest v of [] \<Rightarrow> 0 | c # _ \<Rightarrow> c)"

definition v_advance :: "Stream \<Rightarrow> Stream" where
  "v_advance v =
     (if v_pushed1 v \<noteq> 0 then v\<lparr>v_pushed1 := v_pushed2 v, v_pushed2 := 0\<rparr>
      else case v_rest v of [] \<Rightarrow> v | c # w \<Rightarrow> v\<lparr>v_rest := w, v_consumed := v_consumed v + 1\<rparr>)"

definition v_push :: "Stream \<Rightarrow> uchar \<Rightarrow> Stream" where
  "v_push v c = (if v_pushed1 v = 0 then v\<lparr>v_pushed1 := c\<rparr> else v\<lparr>v_pushed2 := c\<rparr>)"

definition v_prepend :: "Stream \<Rightarrow> uchar list \<Rightarrow> Stream" where
  "v_prepend v w = v\<lparr>v_rest := w @ v_rest v, v_consumed := v_consumed v - int (length w)\<rparr>"

definition v_append :: "Stream \<Rightarrow> uchar list \<Rightarrow> Stream" where
  "v_append v w = v\<lparr>v_rest := v_rest v @ w\<rparr>"

definition v_chars :: "Stream \<Rightarrow> uchar list" where
  "v_chars v = (if v_pushed1 v \<noteq> 0 then v_pushed1 v # (if v_pushed2 v \<noteq> 0 then [v_pushed2 v] else []) else []) @ v_rest v"

section \<open>Well-formed strings and their abstraction\<close>

definition substring_ok :: "SegmentedSubstring \<Rightarrow> bool" where
  "substring_ok s \<longleftrightarrow> m_length s \<le> length (m_string s) \<and>
     (m_length s \<noteq> 0 \<longrightarrow> m_ptr s = Some (length (m_string s) - m_length s))"

definition remaining :: "SegmentedSubstring \<Rightarrow> uchar list" where
  "remaining s = drop (length (m_string s) - m_length s) (m_string s)"

definition viewOf :: "SegmentedString \<Rightarrow> Stream" where
  "viewOf s =
     \<lparr>v_pushed1 = m_pushedChar1 s, v_pushed2 = m_pushedChar2 s,
      v_rest = remaining (m_currentString s) @ concat (map remaining (m_substrings s)),
      v_closed = m_closed s,
      v_consumed = m_consumedPriorToCurrentString s + substringConsumed (m_currentString s)\<rparr>"

definition pointers :: "SegmentedString \<Rightarrow> bool \<times> AdvanceFunction \<times> AdvanceFunction" where
  "pointers s = (m_use8BitAdvance s, m_advanceFunc s, m_advanceAndUpdateLineNumberFunc s)"

definition slow :: "bool \<times> AdvanceFunction \<times> AdvanceFunction" where
  "slow = (False, AdvanceSlowCase, AdvanceAndUpdateLineNumberSlowCase)"

definition advance_functions :: "SegmentedString \<Rightarrow> (bool \<times> AdvanceFunction \<times> AdvanceFunction) set" where
  "advance_functions s =
     (if 1 < m_length (m_currentString s) \<and> m_pushedChar1 s = 0 then
        if m_is8Bit (m_currentString s)
        then {(True, Advance8, Advance8), (True, Advance8, AdvanceAndUpdateLineNumber8)}
        else {(False, Advance16, Advance16), (False, Advance16, AdvanceAndUpdateLineNumber16)}
      else if m_length (m_currentString s) = 0 \<and> m_pushedChar1 s = 0 then
        {(False, AdvanceEmpty, AdvanceEmpty), slow}
      else {slow})"

definition string_invar :: "SegmentedString \<Rightarrow> bool" where
  "string_invar s \<longleftrightarrow>
     substring_ok (m_currentString s) \<and>
     list_all (\<lambda>t. substring_ok t \<and> m_length t \<noteq> 0) (m_substrings s) \<and>
     (m_length (m_currentString s) = 0 \<longrightarrow> m_substrings s = []) \<and>
     (m_pushedChar1 s = 0 \<longrightarrow> m_pushedChar2 s = 0) \<and>
     m_empty s = (m_length (m_currentString s) = 0) \<and>
     m_currentChar s = (if m_pushedChar1 s \<noteq> 0 then m_pushedChar1 s else currentStringChar s) \<and>
     pointers s \<in> advance_functions s"

lemma remaining_length [simp]: "substring_ok s \<Longrightarrow> length (remaining s) = m_length s"
  by (auto simp: remaining_def substring_ok_def)

lemma remaining_Nil: "substring_ok s \<Longrightarrow> remaining s = [] \<longleftrightarrow> m_length s = 0"
  by (metis remaining_length length_0_conv)

lemma remaining_0 [simp]: "m_length s = 0 \<Longrightarrow> remaining s = []"
  by (simp add: remaining_def)

lemma getCurrentChar_remaining:
  "substring_ok s \<Longrightarrow> m_length s \<noteq> 0 \<Longrightarrow> remaining s = getCurrentChar s # tl (remaining s)"
  by (auto simp: substring_ok_def remaining_def getCurrentChar_def Cons_nth_drop_Suc [symmetric])

lemma updateAdvanceFunctionPointers_simps [simp]:
  "m_pushedChar1 (updateAdvanceFunctionPointers s) = m_pushedChar1 s"
  "m_pushedChar2 (updateAdvanceFunctionPointers s) = m_pushedChar2 s"
  "m_currentString (updateAdvanceFunctionPointers s) = m_currentString s"
  "m_currentChar (updateAdvanceFunctionPointers s) = m_currentChar s"
  "m_substrings (updateAdvanceFunctionPointers s) = m_substrings s"
  "m_closed (updateAdvanceFunctionPointers s) = m_closed s"
  "m_empty (updateAdvanceFunctionPointers s) = m_empty s"
  "m_consumedPriorToCurrentString (updateAdvanceFunctionPointers s) = m_consumedPriorToCurrentString s"
  by (simp_all add: updateAdvanceFunctionPointers_def updateSlowCaseFunctionPointers_def
      useEmptyFunctionPointers_def Let_def)

lemma updateAdvanceFunctionPointers_functions:
  "pointers (updateAdvanceFunctionPointers s) \<in> advance_functions s"
  by (simp add: updateAdvanceFunctionPointers_def updateSlowCaseFunctionPointers_def pointers_def slow_def
      useEmptyFunctionPointers_def advance_functions_def Let_def)

lemma advance_functions_cong:
  "m_currentString s = m_currentString t \<Longrightarrow> m_pushedChar1 s = m_pushedChar1 t \<Longrightarrow>
     advance_functions s = advance_functions t"
  by (simp add: advance_functions_def)

lemma viewOf_update [simp]: "viewOf (updateAdvanceFunctionPointers s) = viewOf s"
  by (simp add: viewOf_def)

text \<open>The observations.\<close>

lemma current_view: "string_invar s \<Longrightarrow> m_currentChar s = v_current (viewOf s)"
proof (cases "m_length (m_currentString s) = 0")
  case True
  then show "string_invar s \<Longrightarrow> ?thesis"
    by (auto simp: string_invar_def v_current_def viewOf_def currentStringChar_def)
next
  case False
  assume inv: "string_invar s"
  with False obtain w where "remaining (m_currentString s) = getCurrentChar (m_currentString s) # w"
    using getCurrentChar_remaining by (auto simp: string_invar_def)
  then show ?thesis
    using False inv by (auto simp: string_invar_def v_current_def viewOf_def currentStringChar_def)
qed

lemma isEmpty_view: "string_invar s \<Longrightarrow> m_empty s \<longleftrightarrow> v_rest (viewOf s) = []"
  by (auto simp: string_invar_def viewOf_def remaining_Nil)

lemma length_concat_remaining:
  "list_all substring_ok ts \<Longrightarrow> length (concat (map remaining ts)) = sum_list (map m_length ts)"
  by (induction ts) simp_all

lemma length_view: "string_invar s \<Longrightarrow> SegmentedString_length s = length (v_chars (viewOf s))"
proof -
  assume inv: "string_invar s"
  then have "list_all substring_ok (m_substrings s)"
    by (auto simp: string_invar_def list_all_iff)
  then show ?thesis
    using inv length_concat_remaining [of "m_substrings s"]
    by (auto simp: SegmentedString_length_def v_chars_def viewOf_def isComposite_def string_invar_def)
qed

lemma consumed_view:
  "numberOfCharactersConsumed s = v_consumed (viewOf s)
     - (if v_pushed1 (viewOf s) \<noteq> 0 then 1 + (if v_pushed2 (viewOf s) \<noteq> 0 then 1 else 0) else 0)"
  by (simp add: numberOfCharactersConsumed_def viewOf_def)

section \<open>Advancing refines taking the next character\<close>

definition core :: "SegmentedString \<Rightarrow> uchar \<times> uchar \<times> SegmentedSubstring \<times> uchar \<times> int \<times>
    SegmentedSubstring list \<times> bool \<times> bool" where
  "core s = (m_pushedChar1 s, m_pushedChar2 s, m_currentString s, m_currentChar s,
     m_consumedPriorToCurrentString s, m_substrings s, m_closed s, m_empty s)"

lemma fast_step:
  assumes inv: "string_invar s" and len: "1 < m_length (m_currentString s)" and p: "m_pushedChar1 s = 0"
    and core: "core t = core (stepPointer (decrementLength s))"
    and funs: "pointers t = (if m_length (m_currentString s) = 2 then slow else pointers s)"
  shows "string_invar t \<and> viewOf t = v_advance (viewOf s)"
proof -
  let ?c = "m_currentString s" and ?d = "m_currentString t"
  have d: "?d = incrementPointer (?c\<lparr>m_length := m_length ?c - 1\<rparr>)" and cc: "m_currentChar t = getCurrentChar ?d"
    and rest: "m_pushedChar1 t = 0" "m_pushedChar2 t = m_pushedChar2 s" "m_substrings t = m_substrings s"
      "m_closed t = m_closed s" "m_empty t = m_empty s"
      "m_consumedPriorToCurrentString t = m_consumedPriorToCurrentString s"
    using core p by (simp_all add: core_def stepPointer_def decrementLength_def Let_def)
  have ok: "substring_ok ?c" using inv by (simp add: string_invar_def)
  then have ok': "substring_ok ?d" using len by (auto simp: d substring_ok_def incrementPointer_def)
  have rem: "remaining ?d = tl (remaining ?c)"
    using ok len by (auto simp: d remaining_def incrementPointer_def substring_ok_def tl_drop Suc_diff_le drop_Suc [symmetric])
  have len': "m_length ?d = m_length ?c - 1" and is8: "m_is8Bit ?d = m_is8Bit ?c"
    by (simp_all add: d incrementPointer_def)
  have "pointers t \<in> advance_functions t"
  proof (cases "m_length ?c = 2")
    case True
    then show ?thesis using funs len' by (simp add: advance_functions_def)
  next
    case False
    then have "advance_functions t = advance_functions s"
      using len p by (auto simp: advance_functions_def len' is8 rest)
    then show ?thesis using False inv funs by (simp add: string_invar_def)
  qed
  then have "string_invar t"
    using inv ok' len len' p by (simp add: string_invar_def rest cc currentStringChar_def)
  moreover have "remaining ?c = getCurrentChar ?c # remaining ?d"
    using getCurrentChar_remaining [OF ok] len rem by simp
  then have "viewOf t = v_advance (viewOf s)"
    using ok len p by (simp add: viewOf_def v_advance_def rest substringConsumed_def)
      (simp add: d incrementPointer_def)
  ultimately show ?thesis by simp
qed


text \<open>The view and the invariant look at the core and the function pointers only.\<close>

lemma invar_cong:
  assumes "core s = core t" and "pointers s = pointers t"
  shows "string_invar s = string_invar t" and "viewOf s = viewOf t"
  using assms advance_functions_cong [of s t]
  by (simp_all add: core_def string_invar_def viewOf_def currentStringChar_def)

lemma core_simps [simp]:
  "core (updateSlowCaseFunctionPointers s) = core s" "pointers (updateSlowCaseFunctionPointers s) = slow"
  "core (useEmptyFunctionPointers s) = core s" "pointers (useEmptyFunctionPointers s) = (False, AdvanceEmpty, AdvanceEmpty)"
  "core (countNewline s) = core s" "pointers (countNewline s) = pointers s"
  "core (s\<lparr>m_currentLine := l, m_consumedPriorToCurrentLine := n\<rparr>) = core s"
  "pointers (s\<lparr>m_currentLine := l, m_consumedPriorToCurrentLine := n\<rparr>) = pointers s"
  by (simp_all add: core_def pointers_def slow_def updateSlowCaseFunctionPointers_def useEmptyFunctionPointers_def
      countNewline_def)

lemma stepPointer_cong: "core s = core t \<Longrightarrow> core (stepPointer s) = core (stepPointer t)"
  by (simp add: core_def stepPointer_def Let_def)

lemma decrementLength_cong: "core s = core t \<Longrightarrow> core (decrementLength s) = core (decrementLength t)"
  by (simp add: core_def decrementLength_def)

lemma pointers_step [simp]: "pointers (stepPointer s) = pointers s" "pointers (decrementLength s) = pointers s"
  by (simp_all add: pointers_def stepPointer_def decrementLength_def Let_def)

lemma decrementAndCheckLength_eq:
  "decrementAndCheckLength s =
     (if m_length (m_currentString s) = 2 then updateSlowCaseFunctionPointers (decrementLength s)
      else decrementLength s)"
  by (auto simp: decrementAndCheckLength_def decrementLength_def Let_def)

lemma core_stepPointer_check:
  "core s = core t \<Longrightarrow> core (stepPointer (decrementAndCheckLength s)) = core (stepPointer (decrementLength t))"
  unfolding decrementAndCheckLength_eq
  by (cases "m_length (m_currentString s) = 2") (auto intro!: stepPointer_cong decrementLength_cong)

lemma pointers_check:
  "pointers (decrementAndCheckLength s) = (if m_length (m_currentString s) = 2 then slow else pointers s)"
  unfolding decrementAndCheckLength_eq by (cases "m_length (m_currentString s) = 2") simp_all

lemma refreshed_functions:
  "pointers ((updateAdvanceFunctionPointers s)\<lparr>m_currentChar := c\<rparr>) \<in>
     advance_functions ((updateAdvanceFunctionPointers s)\<lparr>m_currentChar := c\<rparr>)"
proof -
  let ?t = "(updateAdvanceFunctionPointers s)\<lparr>m_currentChar := c\<rparr>"
  have "advance_functions ?t = advance_functions s" by (rule advance_functions_cong) simp_all
  moreover have "pointers ?t = pointers (updateAdvanceFunctionPointers s)" by (simp add: pointers_def)
  ultimately show ?thesis using updateAdvanceFunctionPointers_functions by simp
qed

lemma pushed_step:
  assumes inv: "string_invar s" and p: "m_pushedChar1 s \<noteq> 0"
  shows "string_invar (advanceSlowCase s) \<and> viewOf (advanceSlowCase s) = v_advance (viewOf s)"
proof (cases "m_pushedChar2 s = 0")
  case True
  let ?u = "updateAdvanceFunctionPointers (s\<lparr>m_pushedChar1 := 0, m_pushedChar2 := 0\<rparr>)"
  have t: "advanceSlowCase s = ?u\<lparr>m_currentChar := currentStringChar ?u\<rparr>"
    using p True by (simp add: advanceSlowCase_def Let_def)
  have "pointers (advanceSlowCase s) \<in> advance_functions (advanceSlowCase s)"
    unfolding t by (rule refreshed_functions)
  then show ?thesis
    using inv p True by (simp add: string_invar_def t currentStringChar_def viewOf_def v_advance_def)
next
  case False
  then have t: "advanceSlowCase s = s\<lparr>m_pushedChar1 := m_pushedChar2 s, m_pushedChar2 := 0, m_currentChar := m_pushedChar2 s\<rparr>"
    using p by (simp add: advanceSlowCase_def Let_def)
  show ?thesis
    using inv p False by (simp add: t string_invar_def viewOf_def v_advance_def advance_functions_def pointers_def)
qed

lemma last_step:
  assumes inv: "string_invar s" and p: "m_pushedChar1 s = 0" and len: "m_length (m_currentString s) = 1"
  shows "string_invar (advanceSlowCase s) \<and> viewOf (advanceSlowCase s) = v_advance (viewOf s)"
proof -
  let ?c = "m_currentString s" and ?s = "decrementLength s"
  have ok: "substring_ok ?c" using inv by (simp add: string_invar_def)
  have rem: "remaining ?c = [getCurrentChar ?c]"
    using getCurrentChar_remaining [OF ok] remaining_length [OF ok] len by (cases "tl (remaining ?c)") auto
  show ?thesis
  proof (cases "m_substrings s")
    case Nil
    then have t: "core (advanceSlowCase s) = core (s\<lparr>m_currentString := clearSubstring (?c\<lparr>m_length := 0\<rparr>),
        m_empty := True, m_currentChar := 0\<rparr>)" "pointers (advanceSlowCase s) = (False, AdvanceEmpty, AdvanceEmpty)"
      using p len by (simp_all add: advanceSlowCase_def decrementLength_def advanceSubstring_def clearSubstring_def
          currentStringChar_def core_def pointers_def useEmptyFunctionPointers_def Let_def)
    show ?thesis
      using inv p t ok rem len Nil
      by (simp add: string_invar_def viewOf_def v_advance_def core_def advance_functions_def clearSubstring_def
          substring_ok_def currentStringChar_def substringConsumed_def)
  next
    case (Cons hd_string others)
    let ?u = "updateAdvanceFunctionPointers (?s\<lparr>m_consumedPriorToCurrentString :=
        m_consumedPriorToCurrentString s + substringConsumed (m_currentString ?s) - substringConsumed hd_string,
        m_currentString := hd_string, m_substrings := others\<rparr>)"
    have t: "advanceSlowCase s = ?u\<lparr>m_currentChar := currentStringChar ?u\<rparr>"
      using p len Cons by (simp add: advanceSlowCase_def decrementLength_def advanceSubstring_def Let_def)
    have "pointers (advanceSlowCase s) \<in> advance_functions (advanceSlowCase s)"
      unfolding t by (rule refreshed_functions)
    then show ?thesis
      using inv p len Cons rem
      by (simp add: string_invar_def t currentStringChar_def viewOf_def v_advance_def decrementLength_def
          substringConsumed_def)
  qed
qed

lemma empty_step:
  assumes inv: "string_invar s" and p: "m_pushedChar1 s = 0" and len: "m_length (m_currentString s) = 0"
  shows "string_invar (advanceSlowCase s) \<and> viewOf (advanceSlowCase s) = v_advance (viewOf s)"
    and "string_invar (advanceEmpty s) \<and> viewOf (advanceEmpty s) = v_advance (viewOf s)"
proof -
  have none: "m_substrings s = []" using inv len by (simp add: string_invar_def)
  have t: "core (advanceSlowCase s) = core (s\<lparr>m_currentString := clearSubstring (m_currentString s),
      m_empty := True, m_currentChar := 0\<rparr>)" "pointers (advanceSlowCase s) = (False, AdvanceEmpty, AdvanceEmpty)"
    using p len none by (simp_all add: advanceSlowCase_def exhausted_def isComposite_def clearSubstring_def
        currentStringChar_def core_def pointers_def useEmptyFunctionPointers_def Let_def)
  show "string_invar (advanceSlowCase s) \<and> viewOf (advanceSlowCase s) = v_advance (viewOf s)"
    using inv p t len none
    by (simp add: string_invar_def viewOf_def v_advance_def core_def advance_functions_def clearSubstring_def
        substring_ok_def currentStringChar_def substringConsumed_def)
  show "string_invar (advanceEmpty s) \<and> viewOf (advanceEmpty s) = v_advance (viewOf s)"
    using inv p len none
    by (simp add: advanceEmpty_def string_invar_def viewOf_def v_advance_def advance_functions_def
        currentStringChar_def pointers_def)
qed

lemma slow_step:
  assumes "string_invar s" and "m_pushedChar1 s \<noteq> 0 \<or> m_length (m_currentString s) \<le> 1"
  shows "string_invar (advanceSlowCase s) \<and> viewOf (advanceSlowCase s) = v_advance (viewOf s)"
  using assms pushed_step [of s] last_step [of s] empty_step(1) [of s] by (auto simp: le_Suc_eq)

lemma advanceSubstring_cong:
  assumes "core s = core t"
  shows "core (advanceSubstring s) = core (advanceSubstring t)"
    and "pointers (advanceSubstring s) = pointers (advanceSubstring t)"
  using assms
  by (cases "m_substrings t"; simp add: advanceSubstring_def core_def pointers_def updateAdvanceFunctionPointers_def
      updateSlowCaseFunctionPointers_def useEmptyFunctionPointers_def isComposite_def Let_def)+

lemma slow_line_step:
  assumes "m_pushedChar1 s \<noteq> 0 \<or> m_length (m_currentString s) \<le> 1"
  shows "core (advanceAndUpdateLineNumberSlowCase s) = core (advanceSlowCase s)"
    and "pointers (advanceAndUpdateLineNumberSlowCase s) = pointers (advanceSlowCase s)"
proof -
  have refresh: "core (u\<lparr>m_currentChar := currentStringChar u\<rparr>) = core (v\<lparr>m_currentChar := currentStringChar v\<rparr>)"
    "pointers (u\<lparr>m_currentChar := currentStringChar u\<rparr>) = pointers (v\<lparr>m_currentChar := currentStringChar v\<rparr>)"
    if "core u = core v" "pointers u = pointers v" for u v
    using that by (simp_all add: core_def pointers_def currentStringChar_def)
  have count: "core (decrementLength (countNewline s)) = core (decrementLength s)"
    by (rule decrementLength_cong) simp
  have "core (advanceAndUpdateLineNumberSlowCase s) = core (advanceSlowCase s) \<and>
    pointers (advanceAndUpdateLineNumberSlowCase s) = pointers (advanceSlowCase s)"
  proof (cases "m_pushedChar1 s \<noteq> 0 \<or> m_length (m_currentString s) = 0")
    case True
    then show ?thesis
      by (auto simp: advanceAndUpdateLineNumberSlowCase_def advanceSlowCase_def Let_def)
  next
    case False
    then have len: "m_length (m_currentString s) = 1" using assms by simp
    show ?thesis
      using False len refresh [OF advanceSubstring_cong(1) [OF count] advanceSubstring_cong(2) [OF count]]
      by (simp add: advanceAndUpdateLineNumberSlowCase_def advanceSlowCase_def Let_def)
        (simp add: decrementLength_def countNewline_def)
  qed
  then show "core (advanceAndUpdateLineNumberSlowCase s) = core (advanceSlowCase s)"
    and "pointers (advanceAndUpdateLineNumberSlowCase s) = pointers (advanceSlowCase s)" by simp_all
qed

lemma fast_functions:
  assumes inv: "string_invar s" and len: "1 < m_length (m_currentString s)" and p: "m_pushedChar1 s = 0"
    and f: "f \<in> {Advance8, Advance16, AdvanceAndUpdateLineNumber8, AdvanceAndUpdateLineNumber16}"
  shows "string_invar (callAdvance f s) \<and> viewOf (callAdvance f s) = v_advance (viewOf s)"
proof (rule fast_step [OF inv len p])
  have cs: "m_currentString (countNewline s) = m_currentString s" by (simp add: countNewline_def)
  show "core (callAdvance f s) = core (stepPointer (decrementLength s))"
    using f by (auto simp: advance8_def advance16_def advanceAndUpdateLineNumber8_def
        advanceAndUpdateLineNumber16_def Let_def intro!: core_stepPointer_check)
  show "pointers (callAdvance f s) = (if m_length (m_currentString s) = 2 then slow else pointers s)"
    using f by (auto simp: advance8_def advance16_def advanceAndUpdateLineNumber8_def
        advanceAndUpdateLineNumber16_def pointers_check cs Let_def)
qed

lemma inline_advance:
  assumes inv: "string_invar s" and len: "1 < m_length (m_currentString s)" and p: "m_pushedChar1 s = 0"
    and u: "m_use8BitAdvance s"
  shows "string_invar (advance s) \<and> viewOf (advance s) = v_advance (viewOf s)"
    and "string_invar (advanceAndUpdateLineNumber s) \<and> viewOf (advanceAndUpdateLineNumber s) = v_advance (viewOf s)"
proof -
  have l: "m_length (m_currentString (decrementLength s)) = 1 \<longleftrightarrow> m_length (m_currentString s) = 2"
    by (auto simp: decrementLength_def)
  show "string_invar (advance s) \<and> viewOf (advance s) = v_advance (viewOf s)"
    by (rule fast_step [OF inv len p]) (use u l in \<open>simp_all add: advance_def Let_def\<close>)
  show "string_invar (advanceAndUpdateLineNumber s) \<and> viewOf (advanceAndUpdateLineNumber s) = v_advance (viewOf s)"
    by (rule fast_step [OF inv len p])
      (use u l in \<open>auto simp: advanceAndUpdateLineNumber_def Let_def\<close>)
qed

lemma advance_view:
  assumes inv: "string_invar s"
  shows "string_invar (advance s) \<and> viewOf (advance s) = v_advance (viewOf s)"
    and "string_invar (advanceAndUpdateLineNumber s) \<and> viewOf (advanceAndUpdateLineNumber s) = v_advance (viewOf s)"
proof -
  have funs: "pointers s \<in> advance_functions s" using inv by (simp add: string_invar_def)
  have "(string_invar (advance s) \<and> viewOf (advance s) = v_advance (viewOf s)) \<and>
    (string_invar (advanceAndUpdateLineNumber s) \<and> viewOf (advanceAndUpdateLineNumber s) = v_advance (viewOf s))"
  proof (cases "1 < m_length (m_currentString s) \<and> m_pushedChar1 s = 0")
    case True
    show ?thesis
    proof (cases "m_use8BitAdvance s")
      case u: True
      then show ?thesis using inline_advance [OF inv] True by blast
    next
      case False
      define f where "f = m_advanceAndUpdateLineNumberFunc s"
      have "m_advanceFunc s = Advance16" "f = Advance16 \<or> f = AdvanceAndUpdateLineNumber16"
        using False funs True by (auto simp: f_def advance_functions_def pointers_def split: if_splits)
      moreover have "advance s = callAdvance (m_advanceFunc s) s" "advanceAndUpdateLineNumber s = callAdvance f s"
        using False by (simp_all add: advance_def advanceAndUpdateLineNumber_def f_def)
      ultimately show ?thesis
        using fast_functions [OF inv, of Advance16] fast_functions [OF inv, of f] True by auto
    qed
  next
    case False
    then have small: "m_pushedChar1 s \<noteq> 0 \<or> m_length (m_currentString s) \<le> 1" by auto
    have line: "string_invar (advanceAndUpdateLineNumberSlowCase s) \<and>
        viewOf (advanceAndUpdateLineNumberSlowCase s) = v_advance (viewOf s)"
      using slow_step [OF inv small] invar_cong [OF slow_line_step [OF small]] by simp
    show ?thesis
    proof (cases "pointers s = slow")
      case True
      then show ?thesis
        using slow_step [OF inv small] line by (simp add: advance_def advanceAndUpdateLineNumber_def pointers_def slow_def)
    next
      case other: False
      then have "pointers s = (False, AdvanceEmpty, AdvanceEmpty)" "m_pushedChar1 s = 0" "m_length (m_currentString s) = 0"
        using funs False by (auto simp: advance_functions_def split: if_splits)
      then show ?thesis
        using empty_step(2) [OF inv] by (simp add: advance_def advanceAndUpdateLineNumber_def pointers_def)
    qed
  qed
  then show "string_invar (advance s) \<and> viewOf (advance s) = v_advance (viewOf s)"
    and "string_invar (advanceAndUpdateLineNumber s) \<and> viewOf (advanceAndUpdateLineNumber s) = v_advance (viewOf s)"
    by blast+
qed

lemma advancePastNewline_view:
  assumes inv: "string_invar s"
  shows "string_invar (advancePastNewlineAndUpdateLineNumber s) \<and>
    viewOf (advancePastNewlineAndUpdateLineNumber s) = v_advance (viewOf s)"
proof (cases "m_pushedChar1 s = 0 \<and> 1 < m_length (m_currentString s)")
  case True
  have cs: "m_currentString (countNewline s) = m_currentString s" by (simp add: countNewline_def)
  show ?thesis
    by (rule fast_step [OF inv])
      (use True in \<open>auto simp: advancePastNewlineAndUpdateLineNumber_def pointers_check cs Let_def
        intro!: core_stepPointer_check\<close>)
next
  case False
  then have "m_pushedChar1 s \<noteq> 0 \<or> m_length (m_currentString s) \<le> 1" by auto
  moreover have "advancePastNewlineAndUpdateLineNumber s = advanceAndUpdateLineNumberSlowCase s"
    using False by (simp only: advancePastNewlineAndUpdateLineNumber_def if_False)
  ultimately show ?thesis
    using slow_step [OF inv] invar_cong [OF slow_line_step, of s] by simp
qed

lemma push_view:
  assumes inv: "string_invar s" and c: "c \<noteq> 0"
  shows "string_invar (push s c) \<and> viewOf (push s c) = v_push (viewOf s) c"
proof (cases "m_pushedChar1 s = 0")
  case True
  then have "pointers (push s c) = slow" by (simp add: push_def Let_def)
  then have "pointers (push s c) \<in> advance_functions (push s c)"
    using True c by (simp add: advance_functions_def push_def Let_def updateSlowCaseFunctionPointers_def)
  then show ?thesis
    using inv True c by (simp add: string_invar_def push_def updateSlowCaseFunctionPointers_def viewOf_def v_push_def Let_def
        currentStringChar_def)
next
  case False
  then show ?thesis
    using inv c by (simp add: string_invar_def push_def viewOf_def v_push_def advance_functions_def pointers_def)
qed


section \<open>Appending and prepending\<close>

definition fresh :: "SegmentedSubstring \<Rightarrow> bool" where
  "fresh t \<longleftrightarrow> substring_ok t \<and> m_length t = length (m_string t)"

lemma refresh_refresh [simp]: "refreshCurrentChar (refreshCurrentChar s) = refreshCurrentChar s"
  by (simp add: refreshCurrentChar_def currentStringChar_def)

lemma viewOf_refresh [simp]: "viewOf (refreshCurrentChar s) = viewOf s"
  by (simp add: refreshCurrentChar_def viewOf_def)

lemma refresh_id: "string_invar s \<Longrightarrow> refreshCurrentChar s = s"
  by (simp add: refreshCurrentChar_def string_invar_def)

text \<open>
  A substring that is already read in part may be appended too: the characters come to the end, and
  when it becomes the current one its count of consumed characters is added.
\<close>

lemma appendSubstring_view:
  assumes inv: "string_invar (refreshCurrentChar s)" and t: "substring_ok t"
  shows "string_invar (refreshCurrentChar (appendSubstring s t)) \<and>
    viewOf (appendSubstring s t) = (v_append (viewOf s) (remaining t))
      \<lparr>v_consumed := v_consumed (viewOf s) +
         (if m_length t \<noteq> 0 \<and> m_length (m_currentString s) = 0 then substringConsumed t else 0)\<rparr>"
proof (cases "m_length t = 0 \<or> m_length (m_currentString s) \<noteq> 0")
  case True
  show ?thesis
  proof (cases "m_length t = 0")
    case False
    with True have a: "appendSubstring s t = s\<lparr>m_substrings := m_substrings s @ [t], m_empty := False\<rparr>"
      by (simp add: appendSubstring_def)
    have "pointers (refreshCurrentChar (appendSubstring s t)) = pointers (refreshCurrentChar s)"
      "advance_functions (refreshCurrentChar (appendSubstring s t)) = advance_functions (refreshCurrentChar s)"
      by (simp_all add: a refreshCurrentChar_def pointers_def advance_functions_def)
    then show ?thesis
      using inv t True False by (simp add: string_invar_def)
        (simp add: a refreshCurrentChar_def currentStringChar_def viewOf_def v_append_def)
  qed (use inv in \<open>simp add: appendSubstring_def v_append_def\<close>)
next
  case False
  let ?u = "s\<lparr>m_consumedPriorToCurrentString := m_consumedPriorToCurrentString s + substringConsumed (m_currentString s),
      m_currentString := t\<rparr>"
  have a: "appendSubstring s t = (updateAdvanceFunctionPointers ?u)\<lparr>m_empty := False\<rparr>"
    using False by (simp add: appendSubstring_def Let_def)
  have "pointers (refreshCurrentChar (appendSubstring s t)) = pointers (updateAdvanceFunctionPointers ?u)"
    "advance_functions (refreshCurrentChar (appendSubstring s t)) = advance_functions ?u"
    by (simp_all add: a refreshCurrentChar_def pointers_def advance_functions_def)
  then have "pointers (refreshCurrentChar (appendSubstring s t)) \<in> advance_functions (refreshCurrentChar (appendSubstring s t))"
    using updateAdvanceFunctionPointers_functions [of ?u] by simp
  then show ?thesis
    using inv t False by (simp add: string_invar_def)
      (simp add: a refreshCurrentChar_def currentStringChar_def viewOf_def v_append_def substringConsumed_def)
qed

lemma prependSubstring_view:
  assumes inv: "string_invar (refreshCurrentChar s)" and t: "fresh t"
  shows "string_invar (refreshCurrentChar (prependSubstring s t)) \<and>
    viewOf (prependSubstring s t) = v_prepend (viewOf s) (remaining t)"
proof (cases "m_length t = 0")
  case True
  then show ?thesis
    using inv t by (simp add: prependSubstring_def v_prepend_def)
next
  case False
  define u where "u = (let self = s\<lparr>m_consumedPriorToCurrentString :=
        m_consumedPriorToCurrentString s + substringConsumed (m_currentString s) - int (m_length t)\<rparr>
      in (if m_length (m_currentString self) = 0 then self
          else self\<lparr>m_substrings := m_currentString self # m_substrings self\<rparr>)\<lparr>m_currentString := t\<rparr>)"
  have a: "prependSubstring s t = (updateAdvanceFunctionPointers u)\<lparr>m_empty := False\<rparr>"
    using False by (simp add: prependSubstring_def u_def Let_def)
  have "pointers (refreshCurrentChar (prependSubstring s t)) = pointers (updateAdvanceFunctionPointers u)"
    "advance_functions (refreshCurrentChar (prependSubstring s t)) = advance_functions u"
    by (simp_all add: a refreshCurrentChar_def pointers_def advance_functions_def)
  then have "pointers (refreshCurrentChar (prependSubstring s t)) \<in> advance_functions (refreshCurrentChar (prependSubstring s t))"
    using updateAdvanceFunctionPointers_functions [of u] by simp
  then show ?thesis
    using inv t False by (simp add: string_invar_def fresh_def)
      (auto simp: a u_def refreshCurrentChar_def currentStringChar_def viewOf_def v_prepend_def substringConsumed_def)
qed

lemma fresh_substringOf: "fresh (substringOf b w)" "remaining (substringOf b w) = w"
  by (simp_all add: fresh_def substringOf_def substring_ok_def remaining_def)

definition emptyView :: Stream where
  "emptyView = \<lparr>v_pushed1 = 0, v_pushed2 = 0, v_rest = [], v_closed = False, v_consumed = 0\<rparr>"

lemma SegmentedString_of_view:
  "string_invar (SegmentedString_of b w) \<and> viewOf (SegmentedString_of b w) = emptyView\<lparr>v_rest := w\<rparr>"
proof -
  have cur: "m_currentString (SegmentedString_of b w) = substringOf b w" "m_substrings (SegmentedString_of b w) = []"
    by (simp_all add: SegmentedString_of_def emptyString_def Let_def)
  have "pointers (SegmentedString_of b w) \<in> advance_functions (SegmentedString_of b w)"
    unfolding SegmentedString_of_def Let_def
    using updateAdvanceFunctionPointers_functions
    by (subst advance_functions_cong) (auto simp only: updateAdvanceFunctionPointers_simps)
  then show ?thesis
    using fresh_substringOf [of b w]
    by (simp add: string_invar_def cur fresh_def viewOf_def emptyView_def)
      (auto simp: SegmentedString_of_def emptyString_def Let_def currentStringChar_def substringOf_def substringConsumed_def)
qed

lemma appendSegmentedString_view:
  assumes inv: "string_invar s"
  shows "string_invar (appendSegmentedString s (SegmentedString_of b w)) \<and>
    viewOf (appendSegmentedString s (SegmentedString_of b w)) = v_append (viewOf s) w"
proof -
  have "appendSegmentedString s (SegmentedString_of b w) = refreshCurrentChar (appendSubstring s (substringOf b w))"
    by (simp add: appendSegmentedString_def SegmentedString_of_def emptyString_def isComposite_def Let_def)
  then show ?thesis
    using appendSubstring_view [of s "substringOf b w"] fresh_substringOf [of b w] inv refresh_id
    by (simp add: fresh_def substringConsumed_def v_append_def)
qed

text \<open>Any string with nothing pushed back may be appended; only the count of what is consumed may differ.\<close>

lemma foldl_appendSubstring_view:
  assumes "string_invar (refreshCurrentChar s)" "list_all substring_ok ts"
  shows "string_invar (refreshCurrentChar (foldl appendSubstring s ts)) \<and>
    (viewOf (foldl appendSubstring s ts))\<lparr>v_consumed := 0\<rparr> =
      (v_append (viewOf s) (concat (map remaining ts)))\<lparr>v_consumed := 0\<rparr>"
  using assms
proof (induction ts arbitrary: s)
  case (Cons t ts)
  obtain k where "string_invar (refreshCurrentChar (appendSubstring s t))"
    "viewOf (appendSubstring s t) = (v_append (viewOf s) (remaining t))\<lparr>v_consumed := k\<rparr>"
    using appendSubstring_view [of s t] Cons.prems by auto
  then show ?case using Cons.IH [of "appendSubstring s t"] Cons.prems by (simp add: v_append_def)
qed (simp add: v_append_def)

lemma appendSegmentedString_any:
  assumes inv: "string_invar s" "string_invar t" and pushed: "m_pushedChar1 t = 0"
  shows "string_invar (appendSegmentedString s t) \<and>
    (viewOf (appendSegmentedString s t))\<lparr>v_consumed := 0\<rparr> = (v_append (viewOf s) (v_chars (viewOf t)))\<lparr>v_consumed := 0\<rparr>"
proof -
  have "appendSegmentedString s t = refreshCurrentChar (foldl appendSubstring s (m_currentString t # m_substrings t))"
    by (simp add: appendSegmentedString_def isComposite_def Let_def)
  moreover have "list_all substring_ok (m_currentString t # m_substrings t)"
    using inv(2) by (auto simp: string_invar_def list_all_iff)
  moreover have "v_chars (viewOf t) = concat (map remaining (m_currentString t # m_substrings t))"
    using pushed by (simp add: v_chars_def viewOf_def)
  ultimately show ?thesis
    using foldl_appendSubstring_view [of s "m_currentString t # m_substrings t"] refresh_id [OF inv(1)] inv(1) by simp
qed

lemma prependSegmentedString_view:
  assumes inv: "string_invar s"
  shows "string_invar (prependSegmentedString s (SegmentedString_of b w)) \<and>
    viewOf (prependSegmentedString s (SegmentedString_of b w)) = v_prepend (viewOf s) w"
proof -
  have "prependSegmentedString s (SegmentedString_of b w) = refreshCurrentChar (prependSubstring s (substringOf b w))"
    by (simp add: prependSegmentedString_def SegmentedString_of_def emptyString_def isComposite_def Let_def)
  then show ?thesis
    using prependSubstring_view [of s "substringOf b w"] fresh_substringOf inv refresh_id by simp
qed

lemma close_view:
  "string_invar s \<Longrightarrow> string_invar (closeSegmentedString s) \<and> viewOf (closeSegmentedString s) = (viewOf s)\<lparr>v_closed := True\<rparr>"
  using advance_functions_cong [of "closeSegmentedString s" s]
  by (simp add: closeSegmentedString_def string_invar_def viewOf_def currentStringChar_def)
    (simp add: pointers_def)

section \<open>Reading a stream\<close>

text \<open>
  What a reader of the stream may rely on, whichever advance operation it uses; the two lemmas
  are what reading several characters in a row gives.
\<close>

locale character_stream =
  fixes invar :: "'s \<Rightarrow> bool"
    and view :: "'s \<Rightarrow> Stream"
    and current :: "'s \<Rightarrow> uchar"
    and step :: "'s \<Rightarrow> 's"
  assumes current: "invar s \<Longrightarrow> current s = v_current (view s)"
    and step: "invar s \<Longrightarrow> invar (step s) \<and> view (step s) = v_advance (view s)"
begin

lemma steps: "invar s \<Longrightarrow> invar ((step ^^ n) s) \<and> view ((step ^^ n) s) = (v_advance ^^ n) (view s)"
  by (induction n) (simp_all add: step)

lemma steps_invar: "invar s \<Longrightarrow> invar ((step ^^ n) s)"
  using steps by blast

lemma steps_view: "invar s \<Longrightarrow> view ((step ^^ n) s) = (v_advance ^^ n) (view s)"
  using steps by blast

end

interpretation plain: character_stream string_invar viewOf m_currentChar advance
  using current_view advance_view(1) by unfold_locales

interpretation counting: character_stream string_invar viewOf m_currentChar advanceAndUpdateLineNumber
  using current_view advance_view(2) by unfold_locales

interpretation newline: character_stream string_invar viewOf m_currentChar advancePastNewlineAndUpdateLineNumber
  using current_view advancePastNewline_view by unfold_locales

definition view_ok :: "Stream \<Rightarrow> bool" where
  "view_ok v \<longleftrightarrow> (v_pushed1 v = 0 \<longrightarrow> v_pushed2 v = 0)"

lemma view_ok: "string_invar s \<Longrightarrow> view_ok (viewOf s)"
  by (simp add: view_ok_def viewOf_def string_invar_def)

lemma v_advance_chars: "view_ok v \<Longrightarrow> v_chars (v_advance v) = tl (v_chars v) \<and> view_ok (v_advance v)"
  by (auto simp: v_chars_def v_advance_def view_ok_def split: list.split)

lemma v_current_chars: "v_current v = (case v_chars v of [] \<Rightarrow> 0 | c # _ \<Rightarrow> c)"
  by (auto simp: v_chars_def v_current_def split: list.split)

lemma advances_chars: "view_ok v \<Longrightarrow> v_chars ((v_advance ^^ n) v) = drop n (v_chars v) \<and> view_ok ((v_advance ^^ n) v)"
  by (induction n) (simp_all add: v_advance_chars drop_Suc tl_drop)

lemma advances_closed [simp]: "v_closed ((v_advance ^^ n) v) = v_closed v"
  by (induction n) (auto simp: v_advance_def split: list.split)

lemma advanceCount_view:
  "string_invar s \<Longrightarrow> n \<le> length (v_chars (viewOf s)) \<Longrightarrow>
     advanceCount n s = (take n (v_chars (viewOf s)), (advance ^^ n) s)"
proof (induction n arbitrary: s)
  case (Suc n)
  note chars = v_advance_chars [OF view_ok [OF Suc.prems(1)]]
  obtain c w where w: "v_chars (viewOf s) = c # w" using Suc.prems(2) by (cases "v_chars (viewOf s)") auto
  have "advanceCount n (advance s) = (take n w, (advance ^^ n) (advance s))"
    using Suc.IH [of "advance s"] Suc.prems plain.step [OF Suc.prems(1)] chars w by simp
  then show ?case
    using plain.current [OF Suc.prems(1)] w by (simp add: v_current_chars funpow_swap1)
qed simp

lemma advanceString_funpow: "advanceString s w = (advance ^^ length w) s"
  by (induction w arbitrary: s) (simp_all add: funpow_swap1)

text \<open>
  Looking ahead reads the same answer off both paths, and leaves the same characters to read. The
  slow path prepends what it consumed, which an escaped string would put behind its pushed
  characters; those are consumed first, as the strings looked for have at least two characters.
\<close>

definition v_lookAhead :: "Stream \<Rightarrow> uchar list \<Rightarrow> bool \<Rightarrow> LookAheadResult" where
  "v_lookAhead v str caseSensitive =
     (if length (v_chars v) < length str then NotEnoughCharacters
      else if startsWith caseSensitive (v_chars v) str then DidMatch else DidNotMatch)"

lemma startsWith_take: "length w \<le> length cs \<Longrightarrow> startsWith b (take (length w) cs) w = startsWith b cs w"
  by (simp add: startsWith_def min_def)

definition v_unescape :: "Stream \<Rightarrow> Stream" where
  "v_unescape v = v\<lparr>v_pushed1 := 0, v_pushed2 := 0, v_rest := v_chars v,
     v_consumed := v_consumed v - (if v_pushed1 v \<noteq> 0 then 1 + (if v_pushed2 v \<noteq> 0 then 1 else 0) else 0)\<rparr>"

lemma advances_prepend:
  assumes ok: "view_ok v" and n: "2 \<le> n" "n \<le> length (v_chars v)"
  shows "v_prepend ((v_advance ^^ n) v) (take n (v_chars v)) = v_unescape v"
proof -
  have plain: "(v_advance ^^ m) u = u\<lparr>v_rest := drop m (v_rest u), v_consumed := v_consumed u + int m\<rparr>"
    if "v_pushed1 u = 0" "m \<le> length (v_rest u)" for m and u :: Stream
    using that
  proof (induction m)
    case (Suc m)
    then obtain c w where "drop m (v_rest u) = c # w" by (cases "drop m (v_rest u)") auto
    then show ?case using Suc by (simp add: v_advance_def drop_Suc tl_drop [symmetric])
  qed simp
  show ?thesis
  proof (cases "v_pushed1 v = 0")
    case True
    then show ?thesis
      using plain [OF True, of n] n ok by (simp add: v_prepend_def v_unescape_def v_chars_def view_ok_def)
  next
    case False
    obtain m where m: "n = Suc (Suc m)" using n(1) by (metis Suc_le_D numeral_2_eq_2 Suc_le_mono)
    show ?thesis
    proof (cases "v_pushed2 v = 0")
      case True
      have "(v_advance ^^ n) v = (v_advance ^^ Suc m) (v_advance v)" by (simp add: m funpow_swap1)
      also have "v_advance v = v\<lparr>v_pushed1 := 0\<rparr>" using False True by (simp add: v_advance_def)
      finally show ?thesis
        using plain [of "v\<lparr>v_pushed1 := 0\<rparr>" "Suc m"] n False True
        by (simp add: v_prepend_def v_unescape_def v_chars_def m)
    next
      case p2: False
      have "(v_advance ^^ n) v = (v_advance ^^ m) (v_advance (v_advance v))" by (simp add: m funpow_swap1)
      also have "v_advance (v_advance v) = v\<lparr>v_pushed1 := 0, v_pushed2 := 0\<rparr>"
        using False p2 by (simp add: v_advance_def)
      finally show ?thesis
        using plain [of "v\<lparr>v_pushed1 := 0, v_pushed2 := 0\<rparr>" m] n False p2
        by (simp add: v_prepend_def v_unescape_def v_chars_def m)
    qed
  qed
qed

lemma lookAhead_view:
  assumes inv: "string_invar s" and n: "2 \<le> length str"
  obtains t where "lookAheadInline s str b = (v_lookAhead (viewOf s) str b, t)" "string_invar t"
    "viewOf t = (if m_pushedChar1 s = 0 \<or> length (v_chars (viewOf s)) < length str then viewOf s
       else v_unescape (viewOf s))"
proof (cases "m_pushedChar1 s = 0 \<and> length str \<le> m_length (m_currentString s)")
  case True
  let ?c = "m_currentString s"
  have ok: "substring_ok ?c" using inv by (simp add: string_invar_def)
  have sub: "currentSubString ?c (length str) = take (length str) (remaining ?c)"
    by (simp add: currentSubString_def remaining_def)
  have chars: "v_chars (viewOf s) = remaining ?c @ concat (map remaining (m_substrings s))"
    using True inv by (simp add: v_chars_def viewOf_def string_invar_def)
  have "lookAheadInline s str b = (v_lookAhead (viewOf s) str b, s)"
    using True ok by (simp add: lookAheadInline_def v_lookAhead_def sub chars startsWith_def min_def)
  then show ?thesis using that inv True by simp
next
  case False
  then have slow: "lookAheadInline s str b = lookAheadSlowCase s str b" by (simp only: lookAheadInline_def if_False)
  show ?thesis
  proof (cases "length (v_chars (viewOf s)) < length str")
    case True
    then have "lookAheadInline s str b = (v_lookAhead (viewOf s) str b, s)"
      by (simp add: slow lookAheadSlowCase_def length_view [OF inv] v_lookAhead_def)
    then show ?thesis using that inv True by simp
  next
    case enough: False
    let ?w = "take (length str) (v_chars (viewOf s))"
    let ?t = "prependSegmentedString ((advance ^^ length str) s) (SegmentedString_of False ?w)"
    have "lookAheadInline s str b = (v_lookAhead (viewOf s) str b, ?t)"
      using enough by (simp add: slow lookAheadSlowCase_def length_view [OF inv] v_lookAhead_def
          advanceCount_view [OF inv] startsWith_take Let_def)
    moreover have "string_invar ?t" "viewOf ?t = v_prepend ((v_advance ^^ length str) (viewOf s)) ?w"
      using prependSegmentedString_view [OF plain.steps_invar [OF inv]] plain.steps_view [OF inv] by simp_all
    moreover have "v_prepend ((v_advance ^^ length str) (viewOf s)) ?w = v_unescape (viewOf s)"
      by (rule advances_prepend [OF view_ok [OF inv] n]) (use enough in simp)
    moreover have "v_unescape (viewOf s) = viewOf s" if "m_pushedChar1 s = 0"
      using that by (simp add: v_unescape_def v_chars_def viewOf_def)
        (use inv that in \<open>simp add: string_invar_def\<close>)
    ultimately show ?thesis using that enough by (metis (full_types))
  qed
qed

lemma v_unescape_chars: "v_chars (v_unescape v) = v_chars v"
  by (simp add: v_unescape_def v_chars_def)


section \<open>The other operations\<close>

lemma substringToString_remaining: "substring_ok t \<Longrightarrow> substringToString t = remaining t"
  by (auto simp: substringToString_def remaining_def substring_ok_def Let_def)

lemma toString_view:
  assumes "string_invar s"
  shows "SegmentedString_toString s = v_chars (viewOf s)"
proof -
  have "map substringToString (m_substrings s) = map remaining (m_substrings s)"
    using assms by (auto simp: string_invar_def list_all_iff substringToString_remaining)
  then have "concat (map substringToString (m_substrings s)) = concat (map remaining (m_substrings s))" by (rule arg_cong)
  then show ?thesis
    using assms by (auto simp: SegmentedString_toString_def v_chars_def viewOf_def string_invar_def
        substringToString_remaining isComposite_def)
qed

lemma clear_view: "string_invar (clearSegmentedString s) \<and> v_chars (viewOf (clearSegmentedString s)) = []"
  by (simp add: clearSegmentedString_def clearSubstring_def string_invar_def substring_ok_def currentStringChar_def
      pointers_def advance_functions_def viewOf_def v_chars_def)

lemma copy_view: "string_invar s \<Longrightarrow> m_pushedChar2 s = 0 \<Longrightarrow> copySegmentedString s = s"
  by (simp add: copySegmentedString_def string_invar_def)

lemma copy_two_pushed:
  "string_invar s \<Longrightarrow> m_pushedChar2 s \<noteq> 0 \<Longrightarrow>
     m_currentChar s = m_pushedChar1 s \<and> m_currentChar (copySegmentedString s) = m_pushedChar2 s"
  by (auto simp: copySegmentedString_def string_invar_def)

lemma setExcludeLineNumbers_view:
  assumes "string_invar s"
  shows "string_invar (setExcludeLineNumbers s) \<and> viewOf (setExcludeLineNumbers s) = viewOf s"
proof -
  have sub: "substring_ok (t\<lparr>m_doNotExcludeLineNumbers := False\<rparr>) = substring_ok t"
    "remaining (t\<lparr>m_doNotExcludeLineNumbers := False\<rparr>) = remaining t"
    "getCurrentChar (t\<lparr>m_doNotExcludeLineNumbers := False\<rparr>) = getCurrentChar t" for t
    by (simp_all add: substring_ok_def remaining_def getCurrentChar_def split: option.split)
  have "pointers (setExcludeLineNumbers s) = pointers s"
    "advance_functions (setExcludeLineNumbers s) = advance_functions s"
    by (simp_all add: setExcludeLineNumbers_def pointers_def advance_functions_def)
  then show ?thesis
    using assms by (simp add: string_invar_def)
      (simp add: setExcludeLineNumbers_def sub currentStringChar_def list.pred_map comp_def viewOf_def substringConsumed_def)
qed

end
