(* ===== verification/HTML_Entities.thy ===== *)
theory HTML_Entities
  imports Stream_View
begin

text \<open>
  Character references: \<open>HTMLEntitySearch\<close>, \<open>HTMLEntityParser.cpp\<close> and the template
  \<open>consumeCharacterReference\<close> (\<open>CharacterReferenceParserInlines.h\<close>). The table of entities is
  generated by the build from \<open>HTMLEntityNames.in\<close>: it is a parameter, the list of its entries;
  the two lookup functions by first letter follow the generator. A pointer to an entry is its
  index. \<open>UChar32\<close> is a 32-bit signed integer; its overflow wraps around here.
\<close>

unbundle bit_operations_syntax

type_synonym uchar32 = "32 word"

record HTMLEntityTableEntry =
  entity :: "uchar list"
  firstValue :: uchar32
  secondValue :: uchar32

definition lastCharacter :: "HTMLEntityTableEntry \<Rightarrow> uchar" where
  "lastCharacter e = last (entity e)"

section \<open>The generated table\<close>

definition entryIndex :: "HTMLEntityTableEntry list \<Rightarrow> uchar \<Rightarrow> nat" where
  "entryIndex table letter = length (takeWhile (\<lambda>e. hd (entity e) \<noteq> letter) table)"

definition uppercaseOffset :: "HTMLEntityTableEntry list \<Rightarrow> nat \<Rightarrow> nat" where
  "uppercaseOffset table i = (if i < 26 then entryIndex table (0x41 + of_nat i) else entryIndex table 0x61)"

definition lowercaseOffset :: "HTMLEntityTableEntry list \<Rightarrow> nat \<Rightarrow> nat" where
  "lowercaseOffset table i = (if i < 26 then entryIndex table (0x61 + of_nat i) else length table)"

definition firstEntryStartingWith :: "HTMLEntityTableEntry list \<Rightarrow> uchar \<Rightarrow> nat option" where
  "firstEntryStartingWith table c =
     (if 0x41 \<le> c \<and> c \<le> 0x5A then Some (uppercaseOffset table (unat (c - 0x41)))
      else if 0x61 \<le> c \<and> c \<le> 0x7A then Some (lowercaseOffset table (unat (c - 0x61)))
      else None)"

definition lastEntryStartingWith :: "HTMLEntityTableEntry list \<Rightarrow> uchar \<Rightarrow> nat option" where
  "lastEntryStartingWith table c =
     (if 0x41 \<le> c \<and> c \<le> 0x5A then Some (uppercaseOffset table (unat (c - 0x41) + 1) - 1)
      else if 0x61 \<le> c \<and> c \<le> 0x7A then Some (lowercaseOffset table (unat (c - 0x61) + 1) - 1)
      else None)"

section \<open>The search\<close>

datatype CompareResult = Before | Prefix | After

record HTMLEntitySearch =
  m_currentLength :: nat
  m_mostRecentMatch :: "nat option"
  m_first :: "nat option"
  m_last :: "nat option"

definition newSearch :: "HTMLEntityTableEntry list \<Rightarrow> HTMLEntitySearch" where
  "newSearch table = \<lparr>m_currentLength = 0, m_mostRecentMatch = None, m_first = Some 0, m_last = Some (length table - 1)\<rparr>"

definition isEntityPrefix :: "HTMLEntitySearch \<Rightarrow> bool" where
  "isEntityPrefix s \<longleftrightarrow> m_first s \<noteq> None"

definition compareEntry :: "HTMLEntityTableEntry list \<Rightarrow> nat \<Rightarrow> nat \<Rightarrow> uchar \<Rightarrow> CompareResult" where
  "compareEntry table len entry nextCharacter =
     (let e = entity (table ! entry)
      in if length e < len + 1 then Before
         else if e ! len = nextCharacter then Prefix
         else if e ! len < nextCharacter then Before else After)"

definition halfway :: "nat \<Rightarrow> nat \<Rightarrow> nat" where
  "halfway left right = left + (right - left) div 2"

lemma halfway_between: "left + 1 < right \<Longrightarrow> left < halfway left right \<and> halfway left right < right"
  by (auto simp: halfway_def)

function findFirstLoop :: "HTMLEntityTableEntry list \<Rightarrow> nat \<Rightarrow> uchar \<Rightarrow> nat \<Rightarrow> nat \<Rightarrow> nat" where
  "findFirstLoop table len c left right =
     (if left + 1 < right then
        let probe = halfway left right
        in if compareEntry table len probe c = Before then findFirstLoop table len c probe right
           else findFirstLoop table len c left probe
      else right)"
  by pat_completeness auto
termination
  by (relation "measure (\<lambda>(_, _, _, left, right). right - left)")
    (use halfway_between in \<open>fastforce intro: diff_less_mono2 diff_less_mono\<close>)+

function findLastLoop :: "HTMLEntityTableEntry list \<Rightarrow> nat \<Rightarrow> uchar \<Rightarrow> nat \<Rightarrow> nat \<Rightarrow> nat" where
  "findLastLoop table len c left right =
     (if left + 1 < right then
        let probe = halfway left right
        in if compareEntry table len probe c = After then findLastLoop table len c left probe
           else findLastLoop table len c probe right
      else left)"
  by pat_completeness auto
termination
  by (relation "measure (\<lambda>(_, _, _, left, right). right - left)")
    (use halfway_between in \<open>fastforce intro: diff_less_mono2 diff_less_mono\<close>)+

declare findFirstLoop.simps [simp del] findLastLoop.simps [simp del]

definition findFirst :: "HTMLEntityTableEntry list \<Rightarrow> nat \<Rightarrow> uchar \<Rightarrow> nat \<Rightarrow> nat \<Rightarrow> nat" where
  "findFirst table len c left right =
     (if left = right then left
      else case compareEntry table len left c of
          Prefix \<Rightarrow> left
        | After \<Rightarrow> right
        | Before \<Rightarrow> findFirstLoop table len c left right)"

definition findLast :: "HTMLEntityTableEntry list \<Rightarrow> nat \<Rightarrow> uchar \<Rightarrow> nat \<Rightarrow> nat \<Rightarrow> nat" where
  "findLast table len c left right =
     (if left = right then right
      else case compareEntry table len right c of
          Prefix \<Rightarrow> right
        | Before \<Rightarrow> left
        | After \<Rightarrow> findLastLoop table len c left right)"

definition failSearch :: "HTMLEntitySearch \<Rightarrow> HTMLEntitySearch" where
  "failSearch s = s\<lparr>m_first := None, m_last := None\<rparr>"

text \<open>The second search starts from the first entry that the first one found.\<close>

definition advanceSearch :: "HTMLEntityTableEntry list \<Rightarrow> HTMLEntitySearch \<Rightarrow> uchar \<Rightarrow> HTMLEntitySearch" where
  "advanceSearch table s c =
     (let s =
        (if m_currentLength s = 0 then
           let s = s\<lparr>m_first := firstEntryStartingWith table c, m_last := lastEntryStartingWith table c\<rparr>
           in if m_first s = None \<or> m_last s = None then failSearch s else s
         else case (m_first s, m_last s) of
             (Some left, Some right) \<Rightarrow>
               let first = findFirst table (m_currentLength s) c left right;
                   last = findLast table (m_currentLength s) c first right;
                   s = s\<lparr>m_first := Some first, m_last := Some last\<rparr>
               in if first = last \<and> compareEntry table (m_currentLength s) first c \<noteq> Prefix then failSearch s else s
           | _ \<Rightarrow> failSearch s)
      in case m_first s of
           None \<Rightarrow> s
         | Some first \<Rightarrow>
             let s = s\<lparr>m_currentLength := m_currentLength s + 1\<rparr>
             in if length (entity (table ! first)) \<noteq> m_currentLength s then s
                else s\<lparr>m_mostRecentMatch := Some first\<rparr>)"

section \<open>Consuming a reference\<close>

definition isHexDigit :: "uchar \<Rightarrow> bool" where
  "isHexDigit cc \<longleftrightarrow> (0x30 \<le> cc \<and> cc \<le> 0x39) \<or> (0x61 \<le> cc \<and> cc \<le> 0x66) \<or> (0x41 \<le> cc \<and> cc \<le> 0x46)"

definition isAlphaNumeric :: "uchar \<Rightarrow> bool" where
  "isAlphaNumeric cc \<longleftrightarrow> (0x30 \<le> cc \<and> cc \<le> 0x39) \<or> (0x61 \<le> cc \<and> cc \<le> 0x7A) \<or> (0x41 \<le> cc \<and> cc \<le> 0x5A)"

definition unconsumeCharacters :: "SegmentedString \<Rightarrow> uchar list \<Rightarrow> SegmentedString" where
  "unconsumeCharacters source consumed =
     (if length consumed = 1 then push source (consumed ! 0)
      else if length consumed = 2 then push (push source (consumed ! 0)) (consumed ! 1)
      else prependSegmentedString source (SegmentedString_of False consumed))"

definition windowsLatin1ExtensionArray :: "uchar list" where
  "windowsLatin1ExtensionArray =
     [0x20AC, 0x0081, 0x201A, 0x0192, 0x201E, 0x2026, 0x2020, 0x2021,
      0x02C6, 0x2030, 0x0160, 0x2039, 0x0152, 0x008D, 0x017D, 0x008F,
      0x0090, 0x2018, 0x2019, 0x201C, 0x201D, 0x2022, 0x2013, 0x2014,
      0x02DC, 0x2122, 0x0161, 0x203A, 0x0153, 0x009D, 0x017E, 0x0178]"

definition adjustEntity :: "uchar32 \<Rightarrow> uchar" where
  "adjustEntity value =
     (if value AND NOT 0x1F \<noteq> 0x80 then ucast value else windowsLatin1ExtensionArray ! unat (value - 0x80))"

definition U_IS_BMP :: "uchar32 \<Rightarrow> bool" where
  "U_IS_BMP c \<longleftrightarrow> c \<le> 0xFFFF"

definition legalEntityFor :: "uchar32 \<Rightarrow> uchar32" where
  "legalEntityFor value =
     (if value = 0 \<or> 0x10FFFF < sint value \<or> (0xD800 \<le> sint value \<and> sint value \<le> 0xDFFF) then 0xFFFD
      else if U_IS_BMP value then ucast (adjustEntity value)
      else value)"

text \<open>\<open>StringBuilder::append(UChar32)\<close>, with \<open>U16_LEAD\<close> (an arithmetic shift) and \<open>U16_TRAIL\<close>.\<close>

definition appendUChar32 :: "uchar list \<Rightarrow> uchar32 \<Rightarrow> uchar list" where
  "appendUChar32 builder c =
     (if U_IS_BMP c then builder @ [ucast c]
      else builder @ [of_int (sint c div 1024 + 0xD7C0), ucast ((c AND 0x3FF) OR 0xDC00)])"

text \<open>The result of a parse: success, the decoded characters, \<open>notEnoughCharacters\<close>, the source.\<close>

type_synonym entity_result = "bool \<times> uchar list \<times> bool \<times> SegmentedString"

text \<open>The first loop of \<open>consumeNamedEntity\<close>; each round consumes a character.\<close>

fun namedEntityLoop :: "HTMLEntityTableEntry list \<Rightarrow> nat \<Rightarrow> HTMLEntitySearch \<Rightarrow> uchar list \<Rightarrow> uchar \<Rightarrow>
    SegmentedString \<Rightarrow> HTMLEntitySearch \<times> uchar list \<times> uchar \<times> SegmentedString" where
  "namedEntityLoop table 0 search consumed cc source = (search, consumed, cc, source)"
| "namedEntityLoop table (Suc n) search consumed cc source =
     (if m_empty source then (search, consumed, cc, source)
      else
        let cc = m_currentChar source;
            search = advanceSearch table search cc
        in if \<not> isEntityPrefix search then (search, consumed, cc, source)
           else namedEntityLoop table n search (consumed @ [cc]) cc (advance source))"

text \<open>The loop that consumes the matched entity again is \<open>advanceCount\<close>.\<close>

definition consumeNamedEntity ::
    "HTMLEntityTableEntry list \<Rightarrow> SegmentedString \<Rightarrow> uchar \<Rightarrow> uchar \<Rightarrow> entity_result" where
  "consumeNamedEntity table source additionalAllowedCharacter cc =
     (let (search, consumed, cc, source) =
        namedEntityLoop table (SegmentedString_length source) (newSearch table) [] cc source
      in if m_empty source then (False, [], True, unconsumeCharacters source consumed)
         else case m_mostRecentMatch search of
             None \<Rightarrow> (False, [], False, unconsumeCharacters source consumed)
           | Some match \<Rightarrow>
               let e = table ! match;
                   (consumed, cc, source) =
                     (if length (entity e) \<noteq> m_currentLength search then
                        let source = unconsumeCharacters source consumed;
                            (consumed, source) = advanceCount (length (entity e)) source
                        in (consumed, m_currentChar source, source)
                      else (consumed, cc, source))
               in if lastCharacter e = 0x3B \<or> additionalAllowedCharacter = 0 \<or> \<not> (isAlphaNumeric cc \<or> cc = 0x3D) then
                    let decoded = appendUChar32 [] (firstValue e);
                        decoded = (if secondValue e \<noteq> 0 then appendUChar32 decoded (secondValue e) else decoded)
                    in (True, decoded, False, source)
                  else (False, [], False, unconsumeCharacters source consumed))"

datatype EntityState = Initial | Number | MaybeHexLowerCaseX | MaybeHexUpperCaseX | Hex | Decimal | Named

definition hexValue :: "uchar \<Rightarrow> uchar32" where
  "hexValue cc =
     (if 0x30 \<le> cc \<and> cc \<le> 0x39 then ucast cc - 0x30
      else if 0x61 \<le> cc \<and> cc \<le> 0x66 then 10 + ucast cc - 0x61
      else 10 + ucast cc - 0x41)"

text \<open>
  The loop of \<open>consumeCharacterReference\<close>; \<open>acceptMalformed\<close> is true for HTML. A round either
  changes the state (\<open>continue\<close>) or consumes a character.
\<close>

fun characterReferenceLoop :: "HTMLEntityTableEntry list \<Rightarrow> uchar \<Rightarrow> nat \<Rightarrow> EntityState \<Rightarrow> uchar32 \<Rightarrow> uchar list \<Rightarrow>
    SegmentedString \<Rightarrow> entity_result" where
  "characterReferenceLoop table additional 0 st result consumed source =
     (False, [], True, unconsumeCharacters source consumed)"
| "characterReferenceLoop table additional (Suc n) st result consumed source =
     (if m_empty source then (False, [], True, unconsumeCharacters source consumed)
      else
        let cc = m_currentChar source;
            consume = (\<lambda>st result. characterReferenceLoop table additional n st result (consumed @ [cc]) (advance source));
            continue = (\<lambda>st. characterReferenceLoop table additional n st result consumed source);
            finish = (\<lambda>source. (True, appendUChar32 [] (legalEntityFor result), False, source))
        in case st of
            Initial \<Rightarrow>
              if cc \<in> {0x09, 0x0A, 0x0C, 0x20, 0x3C, 0x26} then (False, [], False, source)
              else if additional \<noteq> 0 \<and> cc = additional then (False, [], False, source)
              else if cc = 0x23 then consume Number result
              else if (0x61 \<le> cc \<and> cc \<le> 0x7A) \<or> (0x41 \<le> cc \<and> cc \<le> 0x5A) then continue Named
              else (False, [], False, source)
          | Number \<Rightarrow>
              if cc = 0x78 then consume MaybeHexLowerCaseX result
              else if cc = 0x58 then consume MaybeHexUpperCaseX result
              else if 0x30 \<le> cc \<and> cc \<le> 0x39 then continue Decimal
              else (False, [], False, push source 0x23)
          | MaybeHexLowerCaseX \<Rightarrow>
              if isHexDigit cc then continue Hex
              else (False, [], False, push (push source 0x23) 0x78)
          | MaybeHexUpperCaseX \<Rightarrow>
              if isHexDigit cc then continue Hex
              else (False, [], False, push (push source 0x23) 0x58)
          | Hex \<Rightarrow>
              if isHexDigit cc then consume Hex (result * 16 + hexValue cc)
              else if cc = 0x3B then finish (advance source)
              else finish source
          | Decimal \<Rightarrow>
              if 0x30 \<le> cc \<and> cc \<le> 0x39 then consume Decimal (result * 10 + ucast cc - 0x30)
              else if cc = 0x3B then finish (advance source)
              else finish source
          | Named \<Rightarrow> consumeNamedEntity table source additional cc)"

definition consumeHTMLEntity :: "HTMLEntityTableEntry list \<Rightarrow> SegmentedString \<Rightarrow> uchar \<Rightarrow> entity_result" where
  "consumeHTMLEntity table source additionalAllowedCharacter =
     characterReferenceLoop table additionalAllowedCharacter (SegmentedString_length source + 3) Initial 0 [] source"

section \<open>Decoding a name\<close>

definition appendUChar32ToUCharArray :: "uchar32 \<Rightarrow> uchar list" where
  "appendUChar32ToUCharArray value =
     (if U_IS_BMP value then [ucast value]
      else [of_int (sint value div 1024 + 0xD7C0), ucast ((value AND 0x3FF) OR 0xDC00)])"

fun searchName :: "HTMLEntityTableEntry list \<Rightarrow> HTMLEntitySearch \<Rightarrow> byte list \<Rightarrow> HTMLEntitySearch option" where
  "searchName table search [] = Some search"
| "searchName table search (c # name) =
     (let search = advanceSearch table search (scast c)
      in if \<not> isEntityPrefix search then None else searchName table search name)"

text \<open>
  The characters written to \<open>result\<close>; \<open>Undef\<close> when there is no match to read them from.
\<close>

definition decodeNamedEntityToUCharArray :: "HTMLEntityTableEntry list \<Rightarrow> byte list \<Rightarrow> uchar list outcome" where
  "decodeNamedEntityToUCharArray table name =
     (case searchName table (newSearch table) name of
        None \<Rightarrow> Done []
      | Some search \<Rightarrow>
          let search = advanceSearch table search 0x3B
          in if \<not> isEntityPrefix search then Done []
             else case m_mostRecentMatch search of
                 None \<Rightarrow> Undef
               | Some match \<Rightarrow>
                   let e = table ! match
                   in Done (appendUChar32ToUCharArray (firstValue e)
                        @ (if secondValue e = 0 then [] else appendUChar32ToUCharArray (secondValue e))))"

end
