(* ===== verification/HTML_Token.thy ===== *)
theory HTML_Token
  imports HTML_Entities
begin

text \<open>
  \<open>HTMLToken\<close> (\<open>html/parser/HTMLToken.h\<close>), the token under construction. Its methods assert the type
  of the token and that the character they append is not null, and they follow \<open>m_currentAttribute\<close> and
  \<open>m_doctypeData\<close>; \<open>m_checks\<close> is not a field of the class: it records whether the assertions held and no
  null pointer was followed. Two assertions are left out, both of \<open>appendToAttributeValue\<close>, to which
  character references are decoded: \<open>ASSERT(character)\<close>, which does fail there (lemma
  \<open>null_in_attribute_value\<close> of \<open>HTML_Theorems\<close>), and \<open>ASSERT(m_currentAttribute->valueRange.start)\<close>.
\<close>

datatype TokenType = Uninitialized | DOCTYPE | StartTag | EndTag | Comment | Character | EndOfFile

record Attribute =
  nameRange :: "int \<times> int"
  valueRange :: "int \<times> int"
  attr_name :: "uchar list"
  attr_value :: "uchar list"

record DoctypeData =
  m_hasPublicIdentifier :: bool
  m_hasSystemIdentifier :: bool
  m_publicIdentifier :: "uchar list"
  m_systemIdentifier :: "uchar list"
  m_forceQuirks :: bool

text \<open>\<open>m_currentAttribute\<close> points into \<open>m_attributes\<close>: it is an index.\<close>

record HTMLToken =
  m_type :: TokenType
  m_range :: "int \<times> int"
  m_baseOffset :: int
  m_data :: "uchar list"
  m_orAllData :: uchar
  m_selfClosing :: bool
  m_attributes :: "Attribute list"
  m_currentAttribute :: "nat option"
  m_doctypeData :: "DoctypeData option"
  m_checks :: bool

definition check :: "bool \<Rightarrow> HTMLToken \<Rightarrow> HTMLToken" where
  "check b t = t\<lparr>m_checks := (m_checks t \<and> b)\<rparr>"

definition clearToken :: "HTMLToken \<Rightarrow> HTMLToken" where
  "clearToken t = t\<lparr>m_type := Uninitialized, m_range := (0, 0), m_baseOffset := 0, m_data := [], m_orAllData := 0\<rparr>"

definition newToken :: HTMLToken where
  "newToken =
     \<lparr>m_type = Uninitialized, m_range = (0, 0), m_baseOffset = 0, m_data = [], m_orAllData = 0,
      m_selfClosing = False, m_attributes = [], m_currentAttribute = None, m_doctypeData = None, m_checks = True\<rparr>"

definition makeEndOfFile :: "HTMLToken \<Rightarrow> HTMLToken" where
  "makeEndOfFile t = (let t = check (m_type t = Uninitialized) t in t\<lparr>m_type := EndOfFile\<rparr>)"

definition setBaseOffset :: "HTMLToken \<Rightarrow> int \<Rightarrow> HTMLToken" where
  "setBaseOffset t offset = t\<lparr>m_baseOffset := offset\<rparr>"

definition endToken :: "HTMLToken \<Rightarrow> int \<Rightarrow> HTMLToken" where
  "endToken t endOffset = t\<lparr>m_range := (fst (m_range t), endOffset - m_baseOffset t)\<rparr>"

definition isAll8BitData :: "HTMLToken \<Rightarrow> bool" where
  "isAll8BitData t \<longleftrightarrow> m_orAllData t \<le> 0xFF"

definition isTag :: "HTMLToken \<Rightarrow> bool" where
  "isTag t \<longleftrightarrow> m_type t = StartTag \<or> m_type t = EndTag"

definition appendData :: "HTMLToken \<Rightarrow> uchar \<Rightarrow> HTMLToken" where
  "appendData t c = t\<lparr>m_data := m_data t @ [c], m_orAllData := m_orAllData t OR c\<rparr>"

definition appendToName :: "HTMLToken \<Rightarrow> uchar \<Rightarrow> HTMLToken" where
  "appendToName t c = appendData (check ((isTag t \<or> m_type t = DOCTYPE) \<and> c \<noteq> 0) t) c"

section \<open>DOCTYPE tokens\<close>

definition onDoctype :: "(DoctypeData \<Rightarrow> DoctypeData) \<Rightarrow> HTMLToken \<Rightarrow> HTMLToken" where
  "onDoctype f t =
     (let t = check (m_type t = DOCTYPE) t
      in case m_doctypeData t of None \<Rightarrow> check False t | Some d \<Rightarrow> t\<lparr>m_doctypeData := Some (f d)\<rparr>)"

definition setForceQuirks :: "HTMLToken \<Rightarrow> HTMLToken" where
  "setForceQuirks t = onDoctype (\<lambda>d. d\<lparr>m_forceQuirks := True\<rparr>) t"

definition newDoctypeData :: DoctypeData where
  "newDoctypeData =
     \<lparr>m_hasPublicIdentifier = False, m_hasSystemIdentifier = False, m_publicIdentifier = [],
      m_systemIdentifier = [], m_forceQuirks = False\<rparr>"

definition beginDOCTYPE :: "HTMLToken \<Rightarrow> HTMLToken" where
  "beginDOCTYPE t =
     (let t = check (m_type t = Uninitialized) t
      in t\<lparr>m_type := DOCTYPE, m_doctypeData := Some newDoctypeData\<rparr>)"

definition beginDOCTYPEWith :: "HTMLToken \<Rightarrow> uchar \<Rightarrow> HTMLToken" where
  "beginDOCTYPEWith t c = appendData (beginDOCTYPE (check (c \<noteq> 0) t)) c"

definition setPublicIdentifierToEmptyString :: "HTMLToken \<Rightarrow> HTMLToken" where
  "setPublicIdentifierToEmptyString t =
     onDoctype (\<lambda>d. d\<lparr>m_hasPublicIdentifier := True, m_publicIdentifier := []\<rparr>) t"

definition setSystemIdentifierToEmptyString :: "HTMLToken \<Rightarrow> HTMLToken" where
  "setSystemIdentifierToEmptyString t =
     onDoctype (\<lambda>d. d\<lparr>m_hasSystemIdentifier := True, m_systemIdentifier := []\<rparr>) t"

definition appendToPublicIdentifier :: "HTMLToken \<Rightarrow> uchar \<Rightarrow> HTMLToken" where
  "appendToPublicIdentifier t c =
     (let t = check (c \<noteq> 0 \<and> (case m_doctypeData t of None \<Rightarrow> False | Some d \<Rightarrow> m_hasPublicIdentifier d)) t
      in onDoctype (\<lambda>d. d\<lparr>m_publicIdentifier := m_publicIdentifier d @ [c]\<rparr>) t)"

definition appendToSystemIdentifier :: "HTMLToken \<Rightarrow> uchar \<Rightarrow> HTMLToken" where
  "appendToSystemIdentifier t c =
     (let t = check (c \<noteq> 0 \<and> (case m_doctypeData t of None \<Rightarrow> False | Some d \<Rightarrow> m_hasSystemIdentifier d)) t
      in onDoctype (\<lambda>d. d\<lparr>m_systemIdentifier := m_systemIdentifier d @ [c]\<rparr>) t)"

definition releaseDoctypeData :: "HTMLToken \<Rightarrow> DoctypeData option \<times> HTMLToken" where
  "releaseDoctypeData t = (m_doctypeData t, t\<lparr>m_doctypeData := None\<rparr>)"

section \<open>Tag tokens\<close>

definition setSelfClosing :: "HTMLToken \<Rightarrow> HTMLToken" where
  "setSelfClosing t = (let t = check (isTag t) t in t\<lparr>m_selfClosing := True\<rparr>)"

definition beginStartTag :: "HTMLToken \<Rightarrow> uchar \<Rightarrow> HTMLToken" where
  "beginStartTag t c =
     (let t = check (c \<noteq> 0 \<and> m_type t = Uninitialized) t;
          t = t\<lparr>m_type := StartTag, m_selfClosing := False, m_currentAttribute := None, m_attributes := []\<rparr>
      in appendData t c)"

text \<open>Both overloads of \<open>beginEndTag\<close>; they leave \<open>m_orAllData\<close> alone, the name being 8-bit.\<close>

definition beginEndTag :: "HTMLToken \<Rightarrow> byte list \<Rightarrow> HTMLToken" where
  "beginEndTag t cs =
     (let t = check (m_type t = Uninitialized) t;
          t = t\<lparr>m_type := EndTag, m_selfClosing := False, m_currentAttribute := None, m_attributes := []\<rparr>
      in t\<lparr>m_data := m_data t @ map ucast cs\<rparr>)"

definition emptyAttribute :: Attribute where
  "emptyAttribute = \<lparr>nameRange = (0, 0), valueRange = (0, 0), attr_name = [], attr_value = []\<rparr>"

definition addNewAttribute :: "HTMLToken \<Rightarrow> HTMLToken" where
  "addNewAttribute t =
     (let t = check (isTag t) t
      in t\<lparr>m_attributes := m_attributes t @ [emptyAttribute], m_currentAttribute := Some (length (m_attributes t))\<rparr>)"

definition onCurrentAttribute :: "(Attribute \<Rightarrow> Attribute) \<Rightarrow> HTMLToken \<Rightarrow> HTMLToken" where
  "onCurrentAttribute f t =
     (case m_currentAttribute t of
        None \<Rightarrow> check False t
      | Some i \<Rightarrow>
          if i < length (m_attributes t) then t\<lparr>m_attributes := (m_attributes t)[i := f (m_attributes t ! i)]\<rparr>
          else check False t)"

definition beginAttributeName :: "HTMLToken \<Rightarrow> int \<Rightarrow> HTMLToken" where
  "beginAttributeName t offset =
     onCurrentAttribute (\<lambda>a. a\<lparr>nameRange := (offset - m_baseOffset t, snd (nameRange a))\<rparr>) t"

definition endAttributeName :: "HTMLToken \<Rightarrow> int \<Rightarrow> HTMLToken" where
  "endAttributeName t offset =
     (let index = offset - m_baseOffset t
      in onCurrentAttribute (\<lambda>a. a\<lparr>nameRange := (fst (nameRange a), index), valueRange := (index, index)\<rparr>) t)"

definition beginAttributeValue :: "HTMLToken \<Rightarrow> int \<Rightarrow> HTMLToken" where
  "beginAttributeValue t offset =
     onCurrentAttribute (\<lambda>a. a\<lparr>valueRange := (offset - m_baseOffset t, snd (valueRange a))\<rparr>) t"

definition endAttributeValue :: "HTMLToken \<Rightarrow> int \<Rightarrow> HTMLToken" where
  "endAttributeValue t offset =
     onCurrentAttribute (\<lambda>a. a\<lparr>valueRange := (fst (valueRange a), offset - m_baseOffset t)\<rparr>) t"

definition appendToAttributeName :: "HTMLToken \<Rightarrow> uchar \<Rightarrow> HTMLToken" where
  "appendToAttributeName t c =
     onCurrentAttribute (\<lambda>a. a\<lparr>attr_name := attr_name a @ [c]\<rparr>) (check (c \<noteq> 0 \<and> isTag t) t)"

definition appendToAttributeValue :: "HTMLToken \<Rightarrow> uchar \<Rightarrow> HTMLToken" where
  "appendToAttributeValue t c =
     onCurrentAttribute (\<lambda>a. a\<lparr>attr_value := attr_value a @ [c]\<rparr>) (check (isTag t) t)"

definition appendToAttributeValueAt :: "HTMLToken \<Rightarrow> nat \<Rightarrow> uchar list \<Rightarrow> HTMLToken" where
  "appendToAttributeValueAt t i value =
     (let t = check (value \<noteq> [] \<and> isTag t \<and> i < length (m_attributes t)) t
      in t\<lparr>m_attributes := (m_attributes t)[i := (m_attributes t ! i)\<lparr>attr_value := attr_value (m_attributes t ! i) @ value\<rparr>]\<rparr>)"

definition getAttributeItem :: "HTMLToken \<Rightarrow> uchar list \<Rightarrow> Attribute option" where
  "getAttributeItem t name = find (\<lambda>a. attr_name a = name) (m_attributes t)"

definition eraseValueOfAttribute :: "HTMLToken \<Rightarrow> nat \<Rightarrow> HTMLToken" where
  "eraseValueOfAttribute t i =
     (let t = check (isTag t \<and> i < length (m_attributes t)) t
      in t\<lparr>m_attributes := (m_attributes t)[i := (m_attributes t ! i)\<lparr>attr_value := []\<rparr>]\<rparr>)"

section \<open>Character and comment tokens\<close>

definition ensureIsCharacterToken :: "HTMLToken \<Rightarrow> HTMLToken" where
  "ensureIsCharacterToken t =
     (let t = check (m_type t = Uninitialized \<or> m_type t = Character) t in t\<lparr>m_type := Character\<rparr>)"

definition appendToCharacter :: "HTMLToken \<Rightarrow> uchar \<Rightarrow> HTMLToken" where
  "appendToCharacter t c = appendData (check (m_type t = Character) t) c"

text \<open>The overloads for 8-bit characters leave \<open>m_orAllData\<close> alone; a \<open>char\<close> is signed.\<close>

definition appendToCharacter8 :: "HTMLToken \<Rightarrow> byte \<Rightarrow> HTMLToken" where
  "appendToCharacter8 t c = (let t = check (m_type t = Character) t in t\<lparr>m_data := m_data t @ [scast c]\<rparr>)"

definition appendCharacters :: "HTMLToken \<Rightarrow> byte list \<Rightarrow> HTMLToken" where
  "appendCharacters t cs =
     (let t = check (m_type t = Character) t in t\<lparr>m_data := m_data t @ map ucast cs\<rparr>)"

definition beginComment :: "HTMLToken \<Rightarrow> HTMLToken" where
  "beginComment t = (let t = check (m_type t = Uninitialized) t in t\<lparr>m_type := Comment\<rparr>)"

definition appendToComment :: "HTMLToken \<Rightarrow> uchar \<Rightarrow> HTMLToken" where
  "appendToComment t c = appendData (check (c \<noteq> 0 \<and> m_type t = Comment) t) c"

definition eraseCharacters :: "HTMLToken \<Rightarrow> HTMLToken" where
  "eraseCharacters t = (let t = check (m_type t = Character) t in t\<lparr>m_data := [], m_orAllData := 0\<rparr>)"

end
