(* ===== verification/HTML_Tokenizer.thy ===== *)
theory HTML_Tokenizer
  imports HTML_Token
begin

text \<open>
  \<open>HTMLTokenizer\<close> (\<open>html/parser/HTMLTokenizer.h\<close>, \<open>HTMLTokenizer.cpp\<close>): its state, the input stream
  preprocessor (\<open>InputStreamPreprocessor.h\<close>) and the helpers of the state machine. A \<open>Machine\<close> is the
  tokenizer together with the token and the source that \<open>nextToken\<close> is called with. \<open>parseError\<close>
  does nothing in the code and is left out.
\<close>

section \<open>The state of the tokenizer\<close>

datatype State =
    DataState | CharacterReferenceInDataState | RCDATAState | CharacterReferenceInRCDATAState | RAWTEXTState
  | ScriptDataState | PLAINTEXTState | TagOpenState | EndTagOpenState | TagNameState
  | RCDATALessThanSignState | RCDATAEndTagOpenState | RCDATAEndTagNameState
  | RAWTEXTLessThanSignState | RAWTEXTEndTagOpenState | RAWTEXTEndTagNameState
  | ScriptDataLessThanSignState | ScriptDataEndTagOpenState | ScriptDataEndTagNameState
  | ScriptDataEscapeStartState | ScriptDataEscapeStartDashState | ScriptDataEscapedState
  | ScriptDataEscapedDashState | ScriptDataEscapedDashDashState | ScriptDataEscapedLessThanSignState
  | ScriptDataEscapedEndTagOpenState | ScriptDataEscapedEndTagNameState
  | ScriptDataDoubleEscapeStartState | ScriptDataDoubleEscapedState | ScriptDataDoubleEscapedDashState
  | ScriptDataDoubleEscapedDashDashState | ScriptDataDoubleEscapedLessThanSignState
  | ScriptDataDoubleEscapeEndState | BeforeAttributeNameState | AttributeNameState
  | AfterAttributeNameState | BeforeAttributeValueState | AttributeValueDoubleQuotedState
  | AttributeValueSingleQuotedState | AttributeValueUnquotedState | CharacterReferenceInAttributeValueState
  | AfterAttributeValueQuotedState | SelfClosingStartTagState | BogusCommentState | ContinueBogusCommentState
  | MarkupDeclarationOpenState | CommentStartState | CommentStartDashState | CommentState
  | CommentEndDashState | CommentEndState | CommentEndBangState | DOCTYPEState | BeforeDOCTYPENameState
  | DOCTYPENameState | AfterDOCTYPENameState | AfterDOCTYPEPublicKeywordState
  | BeforeDOCTYPEPublicIdentifierState | DOCTYPEPublicIdentifierDoubleQuotedState
  | DOCTYPEPublicIdentifierSingleQuotedState | AfterDOCTYPEPublicIdentifierState
  | BetweenDOCTYPEPublicAndSystemIdentifiersState | AfterDOCTYPESystemKeywordState
  | BeforeDOCTYPESystemIdentifierState | DOCTYPESystemIdentifierDoubleQuotedState
  | DOCTYPESystemIdentifierSingleQuotedState | AfterDOCTYPESystemIdentifierState | BogusDOCTYPEState
  | CDATASectionState | CDATASectionRightSquareBracketState | CDATASectionDoubleRightSquareBracketState

record Machine =
  m_state :: State
  m_forceNullCharacterReplacement :: bool
  m_shouldAllowCDATA :: bool
  m_additionalAllowedCharacter :: uchar
  m_nextInputCharacter :: uchar
  m_skipNextNewLine :: bool
  m_appropriateEndTagName :: "uchar list"
  m_temporaryBuffer :: "byte list"
  m_bufferedEndTagName :: "byte list"
  m_usePreHTML5ParserQuirks :: bool
  m_scriptEnabled :: bool
  m_pluginsEnabled :: bool
  token :: HTMLToken
  source :: SegmentedString

text \<open>\<open>reset\<close> leaves the buffers and the preprocessor as they are.\<close>

definition resetTokenizer :: "Machine \<Rightarrow> Machine" where
  "resetTokenizer m =
     m\<lparr>m_state := DataState, m_forceNullCharacterReplacement := False, m_shouldAllowCDATA := False,
       m_additionalAllowedCharacter := 0\<rparr>"

definition setState :: "Machine \<Rightarrow> State \<Rightarrow> Machine" where
  "setState m st = m\<lparr>m_state := st\<rparr>"

definition setForceNullCharacterReplacement :: "Machine \<Rightarrow> bool \<Rightarrow> Machine" where
  "setForceNullCharacterReplacement m value = m\<lparr>m_forceNullCharacterReplacement := value\<rparr>"

definition setShouldAllowCDATA :: "Machine \<Rightarrow> bool \<Rightarrow> Machine" where
  "setShouldAllowCDATA m value = m\<lparr>m_shouldAllowCDATA := value\<rparr>"

definition newTokenizer :: "bool \<Rightarrow> bool \<Rightarrow> bool \<Rightarrow> HTMLToken \<Rightarrow> SegmentedString \<Rightarrow> Machine" where
  "newTokenizer quirks scripts plugins t s =
     \<lparr>m_state = DataState, m_forceNullCharacterReplacement = False, m_shouldAllowCDATA = False,
      m_additionalAllowedCharacter = 0, m_nextInputCharacter = 0, m_skipNextNewLine = False,
      m_appropriateEndTagName = [], m_temporaryBuffer = [], m_bufferedEndTagName = [],
      m_usePreHTML5ParserQuirks = quirks, m_scriptEnabled = scripts, m_pluginsEnabled = plugins,
      token = t, source = s\<rparr>"

definition resetPreprocessor :: "Machine \<Rightarrow> bool \<Rightarrow> Machine" where
  "resetPreprocessor m skipNextNewLine = m\<lparr>m_nextInputCharacter := 0, m_skipNextNewLine := skipNextNewLine\<rparr>"

section \<open>The input stream preprocessor\<close>

abbreviation kEndOfFileMarker :: uchar where "kEndOfFileMarker \<equiv> 0"

definition shouldSkipNullCharacters :: "Machine \<Rightarrow> bool" where
  "shouldSkipNullCharacters m \<longleftrightarrow>
     \<not> m_forceNullCharacterReplacement m \<and>
     (m_state m = DataState \<or> m_state m = RCDATAState \<or> m_state m = RAWTEXTState)"

definition shouldTreatNullAsEndOfFileMarker :: "SegmentedString \<Rightarrow> bool" where
  "shouldTreatNullAsEndOfFileMarker s \<longleftrightarrow> m_closed s \<and> SegmentedString_length s = 1"

text \<open>
  The loop \<open>ProcessAgain\<close>; \<open>None\<close> when the rounds given run out. Each further round has consumed a
  character.
\<close>

fun processNextInputCharacter :: "nat \<Rightarrow> Machine \<Rightarrow> (bool \<times> Machine) option" where
  "processNextInputCharacter 0 m = None"
| "processNextInputCharacter (Suc n) m =
     (let (ended, m) =
        (if m_nextInputCharacter m = 0x0A \<and> m_skipNextNewLine m then
           let m = m\<lparr>m_skipNextNewLine := False, source := advancePastNewlineAndUpdateLineNumber (source m)\<rparr>
           in if m_empty (source m) then (True, m)
              else (False, m\<lparr>m_nextInputCharacter := m_currentChar (source m)\<rparr>)
         else (False, m))
      in if ended then Some (False, m)
         else if m_nextInputCharacter m = 0x0D then
           Some (True, m\<lparr>m_nextInputCharacter := 0x0A, m_skipNextNewLine := True\<rparr>)
         else
           let m = m\<lparr>m_skipNextNewLine := False\<rparr>
           in if m_nextInputCharacter m = 0 \<and> \<not> shouldTreatNullAsEndOfFileMarker (source m) then
                if shouldSkipNullCharacters m then
                  let m = m\<lparr>source := advancePastNonNewline (source m)\<rparr>
                  in if m_empty (source m) then Some (False, m)
                     else processNextInputCharacter n (m\<lparr>m_nextInputCharacter := m_currentChar (source m)\<rparr>)
                else Some (True, m\<lparr>m_nextInputCharacter := 0xFFFD\<rparr>)
              else Some (True, m))"

definition specialCharacterMask :: uchar where
  "specialCharacterMask = 0x0A OR 0x0D OR 0"

definition peek :: "Machine \<Rightarrow> (bool \<times> Machine) option" where
  "peek m =
     (let m = m\<lparr>m_nextInputCharacter := m_currentChar (source m)\<rparr>
      in if m_nextInputCharacter m AND NOT specialCharacterMask \<noteq> 0
         then Some (True, m\<lparr>m_skipNextNewLine := False\<rparr>)
         else processNextInputCharacter (Suc (SegmentedString_length (source m))) m)"

definition advanceInput :: "Machine \<Rightarrow> (bool \<times> Machine) option" where
  "advanceInput m =
     (let m = m\<lparr>source := advanceAndUpdateLineNumber (source m)\<rparr>
      in if m_empty (source m) then Some (False, m) else peek m)"

section \<open>Helpers of the state machine\<close>

definition isTokenizerWhitespace :: "uchar \<Rightarrow> bool" where
  "isTokenizerWhitespace cc \<longleftrightarrow> cc = 0x20 \<or> cc = 0x0A \<or> cc = 0x09 \<or> cc = 0x0C"

definition isASCIIUpper :: "uchar \<Rightarrow> bool" where
  "isASCIIUpper cc \<longleftrightarrow> 0x41 \<le> cc \<and> cc \<le> 0x5A"

definition isASCIILower :: "uchar \<Rightarrow> bool" where
  "isASCIILower cc \<longleftrightarrow> 0x61 \<le> cc \<and> cc \<le> 0x7A"

definition toLowerCase :: "uchar \<Rightarrow> uchar" where
  "toLowerCase cc = cc + 0x20"

definition isEndTagBufferingState :: "State \<Rightarrow> bool" where
  "isEndTagBufferingState st \<longleftrightarrow>
     st \<in> {RCDATAEndTagOpenState, RCDATAEndTagNameState, RAWTEXTEndTagOpenState, RAWTEXTEndTagNameState,
           ScriptDataEndTagOpenState, ScriptDataEndTagNameState, ScriptDataEscapedEndTagOpenState,
           ScriptDataEscapedEndTagNameState}"

definition onToken :: "(HTMLToken \<Rightarrow> HTMLToken) \<Rightarrow> Machine \<Rightarrow> Machine" where
  "onToken f m = m\<lparr>token := f (token m)\<rparr>"

definition bufferCharacter :: "uchar \<Rightarrow> Machine \<Rightarrow> Machine" where
  "bufferCharacter c m = onToken (\<lambda>t. appendToCharacter (ensureIsCharacterToken t) c) m"

definition haveBufferedCharacterToken :: "Machine \<Rightarrow> bool" where
  "haveBufferedCharacterToken m \<longleftrightarrow> m_type (token m) = Character"

definition saveEndTagNameIfNeeded :: "Machine \<Rightarrow> Machine" where
  "saveEndTagNameIfNeeded m =
     (let m = onToken (check (m_type (token m) \<noteq> Uninitialized)) m
      in if m_type (token m) = StartTag then m\<lparr>m_appropriateEndTagName := m_data (token m)\<rparr> else m)"

text \<open>The assertion that the end tag buffer is empty.\<close>

definition assertNoBufferedEndTag :: "Machine \<Rightarrow> Machine" where
  "assertNoBufferedEndTag m = onToken (check (m_bufferedEndTagName m = [])) m"

text \<open>
  What a state does next: advance to, switch to or reconsume in a state, or return from
  \<open>nextToken\<close>.
\<close>

datatype Control = AdvanceTo State | SwitchTo State | ReconsumeIn State | Return bool

definition emitAndResumeIn :: "State \<Rightarrow> Machine \<Rightarrow> Control \<times> Machine" where
  "emitAndResumeIn st m =
     (let m = saveEndTagNameIfNeeded m
      in (Return True, m\<lparr>m_state := st, source := advanceAndUpdateLineNumber (source m)\<rparr>))"

definition emitAndReconsumeIn :: "State \<Rightarrow> Machine \<Rightarrow> Control \<times> Machine" where
  "emitAndReconsumeIn st m = (let m = saveEndTagNameIfNeeded m in (Return True, m\<lparr>m_state := st\<rparr>))"

definition emitEndOfFile :: "Machine \<Rightarrow> Control \<times> Machine" where
  "emitEndOfFile m =
     (if haveBufferedCharacterToken m then (Return True, m)
      else
        let m = m\<lparr>m_state := DataState, source := advanceAndUpdateLineNumber (source m)\<rparr>
        in (Return True, onToken (\<lambda>t. makeEndOfFile (clearToken t)) m))"

definition flushBufferedEndTag :: "Machine \<Rightarrow> bool \<times> Machine" where
  "flushBufferedEndTag m =
     (let m = onToken (check (m_type (token m) = Character \<or> m_type (token m) = Uninitialized)) m;
          m = m\<lparr>source := advanceAndUpdateLineNumber (source m)\<rparr>
      in if m_type (token m) = Character then (True, m)
         else
           let m = onToken (\<lambda>t. beginEndTag t (m_bufferedEndTagName m)) m
           in (False, m\<lparr>m_bufferedEndTagName := [], m_appropriateEndTagName := [], m_temporaryBuffer := []\<rparr>))"

text \<open>The macro \<open>FLUSH_AND_ADVANCE_TO\<close>.\<close>

definition flushAndAdvanceTo :: "State \<Rightarrow> Machine \<Rightarrow> Control \<times> Machine" where
  "flushAndAdvanceTo st m =
     (let (done, m) = flushBufferedEndTag (m\<lparr>m_state := st\<rparr>)
      in if done then (Return True, m) else (SwitchTo st, m))"

definition flushEmitAndResumeIn :: "State \<Rightarrow> Machine \<Rightarrow> Control \<times> Machine" where
  "flushEmitAndResumeIn st m = (let (done, m) = flushBufferedEndTag (m\<lparr>m_state := st\<rparr>) in (Return True, m))"

definition temporaryBufferIs :: "Machine \<Rightarrow> byte list \<Rightarrow> bool" where
  "temporaryBufferIs m expected \<longleftrightarrow> m_temporaryBuffer m = expected"

definition addToPossibleEndTag :: "uchar \<Rightarrow> Machine \<Rightarrow> Machine" where
  "addToPossibleEndTag cc m =
     (let m = onToken (check (isEndTagBufferingState (m_state m))) m
      in m\<lparr>m_bufferedEndTagName := m_bufferedEndTagName m @ [ucast cc]\<rparr>)"

definition appendToTemporaryBuffer :: "uchar \<Rightarrow> Machine \<Rightarrow> Machine" where
  "appendToTemporaryBuffer cc m = m\<lparr>m_temporaryBuffer := m_temporaryBuffer m @ [ucast cc]\<rparr>"

definition clearTemporaryBuffer :: "Machine \<Rightarrow> Machine" where
  "clearTemporaryBuffer m = m\<lparr>m_temporaryBuffer := []\<rparr>"

definition isAppropriateEndTag :: "Machine \<Rightarrow> bool" where
  "isAppropriateEndTag m \<longleftrightarrow>
     length (m_bufferedEndTagName m) = length (m_appropriateEndTagName m) \<and>
     (\<forall>i < length (m_bufferedEndTagName m). ucast (m_bufferedEndTagName m ! i) = m_appropriateEndTagName m ! i)"

definition numberOfBufferedCharacters :: "Machine \<Rightarrow> nat" where
  "numberOfBufferedCharacters m =
     (if m_temporaryBuffer m \<noteq> [] then length (m_temporaryBuffer m) + 2 else 0)"

definition bufferedCharacters :: "Machine \<Rightarrow> uchar list" where
  "bufferedCharacters m = 0x3C # 0x2F # map ucast (m_temporaryBuffer m)"

text \<open>\<open>processEntity\<close>: false when there are not enough characters.\<close>

definition processEntity :: "HTMLEntityTableEntry list \<Rightarrow> Machine \<Rightarrow> bool \<times> Machine" where
  "processEntity table m =
     (let (success, decoded, notEnough, src) = consumeHTMLEntity table (source m) 0;
          m = m\<lparr>source := src\<rparr>
      in if notEnough then (False, m)
         else if \<not> success then (True, bufferCharacter 0x26 m)
         else (True, fold bufferCharacter decoded m))"

text \<open>\<open>updateStateFor\<close> a tag name.\<close>

definition asciiName :: "string \<Rightarrow> uchar list" where
  "asciiName s = map (of_nat \<circ> of_char) s"

definition updateStateFor :: "uchar list \<Rightarrow> Machine \<Rightarrow> Machine" where
  "updateStateFor tagName m =
     (if tagName = asciiName ''textarea'' \<or> tagName = asciiName ''title'' then m\<lparr>m_state := RCDATAState\<rparr>
      else if tagName = asciiName ''plaintext'' then m\<lparr>m_state := PLAINTEXTState\<rparr>
      else if tagName = asciiName ''script'' then m\<lparr>m_state := ScriptDataState\<rparr>
      else if tagName = asciiName ''style'' \<or> tagName = asciiName ''iframe'' \<or> tagName = asciiName ''xmp''
           \<or> (tagName = asciiName ''noembed'' \<and> m_pluginsEnabled m) \<or> tagName = asciiName ''noframes''
           \<or> (tagName = asciiName ''noscript'' \<and> m_scriptEnabled m)
      then m\<lparr>m_state := RAWTEXTState\<rparr>
      else m)"

end
