(* ===== verification/HTML_States.thy ===== *)
theory HTML_States
  imports HTML_Tokenizer
begin

text \<open>
  The state machine of \<open>HTMLTokenizer::nextToken\<close> (\<open>HTMLTokenizer.cpp\<close>), a definition per state, in the
  order of the source: from the next input character and the machine, what to do next and the machine
  as the state leaves it. \<open>dispatch\<close> is the \<open>switch\<close>, \<open>runStates\<close> the jumps between the states
  (the macros of \<open>xml/parser/MarkupTokenizerInlines.h\<close>), \<open>nextToken\<close> the whole function.
\<close>

abbreviation c_bang :: uchar where "c_bang \<equiv> 0x21"
abbreviation c_quote :: uchar where "c_quote \<equiv> 0x22"
abbreviation c_ampersand :: uchar where "c_ampersand \<equiv> 0x26"
abbreviation c_apostrophe :: uchar where "c_apostrophe \<equiv> 0x27"
abbreviation c_dash :: uchar where "c_dash \<equiv> 0x2D"
abbreviation c_slash :: uchar where "c_slash \<equiv> 0x2F"
abbreviation c_less :: uchar where "c_less \<equiv> 0x3C"
abbreviation c_equals :: uchar where "c_equals \<equiv> 0x3D"
abbreviation c_greater :: uchar where "c_greater \<equiv> 0x3E"
abbreviation c_question :: uchar where "c_question \<equiv> 0x3F"
abbreviation c_leftBracket :: uchar where "c_leftBracket \<equiv> 0x5B"
abbreviation c_rightBracket :: uchar where "c_rightBracket \<equiv> 0x5D"

type_synonym handler = "uchar \<Rightarrow> Machine \<Rightarrow> Control \<times> Machine"

section \<open>Text\<close>

definition inDataState :: handler where
  "inDataState cc m =
     (if cc = c_ampersand then (AdvanceTo CharacterReferenceInDataState, m)
      else if cc = c_less then
        if m_type (token m) = Character then (Return True, m) else (AdvanceTo TagOpenState, m)
      else if cc = kEndOfFileMarker then emitEndOfFile m
      else (AdvanceTo DataState, bufferCharacter cc m))"

text \<open>\<open>CharacterReferenceInDataState\<close> and \<open>CharacterReferenceInRCDATAState\<close> differ in where they go.\<close>

definition characterReferenceIn :: "State \<Rightarrow> HTMLEntityTableEntry list \<Rightarrow> handler" where
  "characterReferenceIn st table cc m =
     (let (enough, m) = processEntity table m
      in if \<not> enough then (Return (haveBufferedCharacterToken m), m) else (SwitchTo st, m))"

definition inCharacterReferenceInDataState :: "HTMLEntityTableEntry list \<Rightarrow> handler" where
  "inCharacterReferenceInDataState = characterReferenceIn DataState"

definition inRCDATAState :: handler where
  "inRCDATAState cc m =
     (if cc = c_ampersand then (AdvanceTo CharacterReferenceInRCDATAState, m)
      else if cc = c_less then (AdvanceTo RCDATALessThanSignState, m)
      else if cc = kEndOfFileMarker then emitEndOfFile m
      else (AdvanceTo RCDATAState, bufferCharacter cc m))"

definition inCharacterReferenceInRCDATAState :: "HTMLEntityTableEntry list \<Rightarrow> handler" where
  "inCharacterReferenceInRCDATAState = characterReferenceIn RCDATAState"

definition inRAWTEXTState :: handler where
  "inRAWTEXTState cc m =
     (if cc = c_less then (AdvanceTo RAWTEXTLessThanSignState, m)
      else if cc = kEndOfFileMarker then emitEndOfFile m
      else (AdvanceTo RAWTEXTState, bufferCharacter cc m))"

definition inScriptDataState :: handler where
  "inScriptDataState cc m =
     (if cc = c_less then (AdvanceTo ScriptDataLessThanSignState, m)
      else if cc = kEndOfFileMarker then emitEndOfFile m
      else (AdvanceTo ScriptDataState, bufferCharacter cc m))"

definition inPLAINTEXTState :: handler where
  "inPLAINTEXTState cc m =
     (if cc = kEndOfFileMarker then emitEndOfFile m
      else (AdvanceTo PLAINTEXTState, bufferCharacter cc m))"

section \<open>Tags\<close>

definition inTagOpenState :: handler where
  "inTagOpenState cc m =
     (if cc = c_bang then (AdvanceTo MarkupDeclarationOpenState, m)
      else if cc = c_slash then (AdvanceTo EndTagOpenState, m)
      else if isASCIIUpper cc then (AdvanceTo TagNameState, onToken (\<lambda>t. beginStartTag t (toLowerCase cc)) m)
      else if isASCIILower cc then (AdvanceTo TagNameState, onToken (\<lambda>t. beginStartTag t cc) m)
      else if cc = c_question then (ReconsumeIn BogusCommentState, m)
      else (ReconsumeIn DataState, bufferCharacter c_less m))"

definition inEndTagOpenState :: handler where
  "inEndTagOpenState cc m =
     (if isASCIIUpper cc then
        let m = onToken (\<lambda>t. beginEndTag t [ucast (toLowerCase cc)]) m
        in (AdvanceTo TagNameState, m\<lparr>m_appropriateEndTagName := []\<rparr>)
      else if isASCIILower cc then
        let m = onToken (\<lambda>t. beginEndTag t [ucast cc]) m
        in (AdvanceTo TagNameState, m\<lparr>m_appropriateEndTagName := []\<rparr>)
      else if cc = c_greater then (AdvanceTo DataState, m)
      else if cc = kEndOfFileMarker then
        (ReconsumeIn DataState, bufferCharacter c_slash (bufferCharacter c_less m))
      else (ReconsumeIn BogusCommentState, m))"

definition inTagNameState :: handler where
  "inTagNameState cc m =
     (if isTokenizerWhitespace cc then (AdvanceTo BeforeAttributeNameState, m)
      else if cc = c_slash then (AdvanceTo SelfClosingStartTagState, m)
      else if cc = c_greater then emitAndResumeIn DataState m
      else if m_usePreHTML5ParserQuirks m \<and> cc = c_less then emitAndReconsumeIn DataState m
      else if isASCIIUpper cc then (AdvanceTo TagNameState, onToken (\<lambda>t. appendToName t (toLowerCase cc)) m)
      else if cc = kEndOfFileMarker then (ReconsumeIn DataState, m)
      else (AdvanceTo TagNameState, onToken (\<lambda>t. appendToName t cc) m))"

section \<open>End tags within text\<close>

text \<open>
  The states for RCDATA, RAWTEXT, script data and escaped script data repeat the same code with
  other target states; it is written once here.
\<close>

definition endTagOpenIn :: "State \<Rightarrow> State \<Rightarrow> handler" where
  "endTagOpenIn nameState textState cc m =
     (if isASCIIUpper cc then
        (AdvanceTo nameState, addToPossibleEndTag (toLowerCase cc) (appendToTemporaryBuffer cc m))
      else if isASCIILower cc then
        (AdvanceTo nameState, addToPossibleEndTag cc (appendToTemporaryBuffer cc m))
      else (ReconsumeIn textState, bufferCharacter c_slash (bufferCharacter c_less m)))"

definition rejectEndTag :: "State \<Rightarrow> Machine \<Rightarrow> Control \<times> Machine" where
  "rejectEndTag textState m =
     (let m = bufferCharacter c_slash (bufferCharacter c_less m);
          m = onToken (\<lambda>t. appendCharacters t (m_temporaryBuffer m)) m;
          m = m\<lparr>m_bufferedEndTagName := [], m_temporaryBuffer := []\<rparr>
      in (ReconsumeIn textState, m))"

definition endTagNameIn :: "State \<Rightarrow> State \<Rightarrow> handler" where
  "endTagNameIn nameState textState cc m =
     (if isASCIIUpper cc then
        (AdvanceTo nameState, addToPossibleEndTag (toLowerCase cc) (appendToTemporaryBuffer cc m))
      else if isASCIILower cc then
        (AdvanceTo nameState, addToPossibleEndTag cc (appendToTemporaryBuffer cc m))
      else if isTokenizerWhitespace cc \<and> isAppropriateEndTag m then
        flushAndAdvanceTo BeforeAttributeNameState (appendToTemporaryBuffer cc m)
      else if cc = c_slash \<and> isAppropriateEndTag m then
        flushAndAdvanceTo SelfClosingStartTagState (appendToTemporaryBuffer cc m)
      else if cc = c_greater \<and> isAppropriateEndTag m then
        flushEmitAndResumeIn DataState (appendToTemporaryBuffer cc m)
      else rejectEndTag textState m)"

definition inRCDATALessThanSignState :: handler where
  "inRCDATALessThanSignState cc m =
     (if cc = c_slash then
        (AdvanceTo RCDATAEndTagOpenState, assertNoBufferedEndTag (clearTemporaryBuffer m))
      else (ReconsumeIn RCDATAState, bufferCharacter c_less m))"

definition inRCDATAEndTagOpenState :: handler where
  "inRCDATAEndTagOpenState = endTagOpenIn RCDATAEndTagNameState RCDATAState"

definition inRCDATAEndTagNameState :: handler where
  "inRCDATAEndTagNameState = endTagNameIn RCDATAEndTagNameState RCDATAState"

definition inRAWTEXTLessThanSignState :: handler where
  "inRAWTEXTLessThanSignState cc m =
     (if cc = c_slash then
        (AdvanceTo RAWTEXTEndTagOpenState, assertNoBufferedEndTag (clearTemporaryBuffer m))
      else (ReconsumeIn RAWTEXTState, bufferCharacter c_less m))"

definition inRAWTEXTEndTagOpenState :: handler where
  "inRAWTEXTEndTagOpenState = endTagOpenIn RAWTEXTEndTagNameState RAWTEXTState"

definition inRAWTEXTEndTagNameState :: handler where
  "inRAWTEXTEndTagNameState = endTagNameIn RAWTEXTEndTagNameState RAWTEXTState"

section \<open>Script data\<close>

definition inScriptDataLessThanSignState :: handler where
  "inScriptDataLessThanSignState cc m =
     (if cc = c_slash then
        (AdvanceTo ScriptDataEndTagOpenState, assertNoBufferedEndTag (clearTemporaryBuffer m))
      else if cc = c_bang then
        (AdvanceTo ScriptDataEscapeStartState, bufferCharacter c_bang (bufferCharacter c_less m))
      else (ReconsumeIn ScriptDataState, bufferCharacter c_less m))"

definition inScriptDataEndTagOpenState :: handler where
  "inScriptDataEndTagOpenState = endTagOpenIn ScriptDataEndTagNameState ScriptDataState"

definition inScriptDataEndTagNameState :: handler where
  "inScriptDataEndTagNameState = endTagNameIn ScriptDataEndTagNameState ScriptDataState"

definition inScriptDataEscapeStartState :: handler where
  "inScriptDataEscapeStartState cc m =
     (if cc = c_dash then (AdvanceTo ScriptDataEscapeStartDashState, bufferCharacter cc m)
      else (ReconsumeIn ScriptDataState, m))"

definition inScriptDataEscapeStartDashState :: handler where
  "inScriptDataEscapeStartDashState cc m =
     (if cc = c_dash then (AdvanceTo ScriptDataEscapedDashDashState, bufferCharacter cc m)
      else (ReconsumeIn ScriptDataState, m))"

definition inScriptDataEscapedState :: handler where
  "inScriptDataEscapedState cc m =
     (if cc = c_dash then (AdvanceTo ScriptDataEscapedDashState, bufferCharacter cc m)
      else if cc = c_less then (AdvanceTo ScriptDataEscapedLessThanSignState, m)
      else if cc = kEndOfFileMarker then (ReconsumeIn DataState, m)
      else (AdvanceTo ScriptDataEscapedState, bufferCharacter cc m))"

definition inScriptDataEscapedDashState :: handler where
  "inScriptDataEscapedDashState cc m =
     (if cc = c_dash then (AdvanceTo ScriptDataEscapedDashDashState, bufferCharacter cc m)
      else if cc = c_less then (AdvanceTo ScriptDataEscapedLessThanSignState, m)
      else if cc = kEndOfFileMarker then (ReconsumeIn DataState, m)
      else (AdvanceTo ScriptDataEscapedState, bufferCharacter cc m))"

definition inScriptDataEscapedDashDashState :: handler where
  "inScriptDataEscapedDashDashState cc m =
     (if cc = c_dash then (AdvanceTo ScriptDataEscapedDashDashState, bufferCharacter cc m)
      else if cc = c_less then (AdvanceTo ScriptDataEscapedLessThanSignState, m)
      else if cc = c_greater then (AdvanceTo ScriptDataState, bufferCharacter cc m)
      else if cc = kEndOfFileMarker then (ReconsumeIn DataState, m)
      else (AdvanceTo ScriptDataEscapedState, bufferCharacter cc m))"

definition inScriptDataEscapedLessThanSignState :: handler where
  "inScriptDataEscapedLessThanSignState cc m =
     (if cc = c_slash then
        (AdvanceTo ScriptDataEscapedEndTagOpenState, assertNoBufferedEndTag (clearTemporaryBuffer m))
      else if isASCIIUpper cc then
        let m = clearTemporaryBuffer (bufferCharacter cc (bufferCharacter c_less m))
        in (AdvanceTo ScriptDataDoubleEscapeStartState, appendToTemporaryBuffer (toLowerCase cc) m)
      else if isASCIILower cc then
        let m = clearTemporaryBuffer (bufferCharacter cc (bufferCharacter c_less m))
        in (AdvanceTo ScriptDataDoubleEscapeStartState, appendToTemporaryBuffer cc m)
      else (ReconsumeIn ScriptDataEscapedState, bufferCharacter c_less m))"

definition inScriptDataEscapedEndTagOpenState :: handler where
  "inScriptDataEscapedEndTagOpenState = endTagOpenIn ScriptDataEscapedEndTagNameState ScriptDataEscapedState"

definition inScriptDataEscapedEndTagNameState :: handler where
  "inScriptDataEscapedEndTagNameState = endTagNameIn ScriptDataEscapedEndTagNameState ScriptDataEscapedState"

definition scriptName :: "byte list" where
  "scriptName = map (of_nat \<circ> of_char) ''script''"

definition inScriptDataDoubleEscapeStartState :: handler where
  "inScriptDataDoubleEscapeStartState cc m =
     (if isTokenizerWhitespace cc \<or> cc = c_slash \<or> cc = c_greater then
        let m = bufferCharacter cc m
        in if temporaryBufferIs m scriptName then (AdvanceTo ScriptDataDoubleEscapedState, m)
           else (AdvanceTo ScriptDataEscapedState, m)
      else if isASCIIUpper cc then
        (AdvanceTo ScriptDataDoubleEscapeStartState, appendToTemporaryBuffer (toLowerCase cc) (bufferCharacter cc m))
      else if isASCIILower cc then
        (AdvanceTo ScriptDataDoubleEscapeStartState, appendToTemporaryBuffer cc (bufferCharacter cc m))
      else (ReconsumeIn ScriptDataEscapedState, m))"

definition inScriptDataDoubleEscapedState :: handler where
  "inScriptDataDoubleEscapedState cc m =
     (if cc = c_dash then (AdvanceTo ScriptDataDoubleEscapedDashState, bufferCharacter cc m)
      else if cc = c_less then (AdvanceTo ScriptDataDoubleEscapedLessThanSignState, bufferCharacter cc m)
      else if cc = kEndOfFileMarker then (ReconsumeIn DataState, m)
      else (AdvanceTo ScriptDataDoubleEscapedState, bufferCharacter cc m))"

definition inScriptDataDoubleEscapedDashState :: handler where
  "inScriptDataDoubleEscapedDashState cc m =
     (if cc = c_dash then (AdvanceTo ScriptDataDoubleEscapedDashDashState, bufferCharacter cc m)
      else if cc = c_less then (AdvanceTo ScriptDataDoubleEscapedLessThanSignState, bufferCharacter cc m)
      else if cc = kEndOfFileMarker then (ReconsumeIn DataState, m)
      else (AdvanceTo ScriptDataDoubleEscapedState, bufferCharacter cc m))"

definition inScriptDataDoubleEscapedDashDashState :: handler where
  "inScriptDataDoubleEscapedDashDashState cc m =
     (if cc = c_dash then (AdvanceTo ScriptDataDoubleEscapedDashDashState, bufferCharacter cc m)
      else if cc = c_less then (AdvanceTo ScriptDataDoubleEscapedLessThanSignState, bufferCharacter cc m)
      else if cc = c_greater then (AdvanceTo ScriptDataState, bufferCharacter cc m)
      else if cc = kEndOfFileMarker then (ReconsumeIn DataState, m)
      else (AdvanceTo ScriptDataDoubleEscapedState, bufferCharacter cc m))"

definition inScriptDataDoubleEscapedLessThanSignState :: handler where
  "inScriptDataDoubleEscapedLessThanSignState cc m =
     (if cc = c_slash then
        (AdvanceTo ScriptDataDoubleEscapeEndState, clearTemporaryBuffer (bufferCharacter cc m))
      else (ReconsumeIn ScriptDataDoubleEscapedState, m))"

definition inScriptDataDoubleEscapeEndState :: handler where
  "inScriptDataDoubleEscapeEndState cc m =
     (if isTokenizerWhitespace cc \<or> cc = c_slash \<or> cc = c_greater then
        let m = bufferCharacter cc m
        in if temporaryBufferIs m scriptName then (AdvanceTo ScriptDataEscapedState, m)
           else (AdvanceTo ScriptDataDoubleEscapedState, m)
      else if isASCIIUpper cc then
        (AdvanceTo ScriptDataDoubleEscapeEndState, appendToTemporaryBuffer (toLowerCase cc) (bufferCharacter cc m))
      else if isASCIILower cc then
        (AdvanceTo ScriptDataDoubleEscapeEndState, appendToTemporaryBuffer cc (bufferCharacter cc m))
      else (ReconsumeIn ScriptDataDoubleEscapedState, m))"

section \<open>Attributes\<close>

abbreviation consumedSoFar :: "Machine \<Rightarrow> int" where
  "consumedSoFar m \<equiv> numberOfCharactersConsumed (source m)"

definition beginAttribute :: "uchar \<Rightarrow> Machine \<Rightarrow> Machine" where
  "beginAttribute c m =
     (let m = onToken addNewAttribute m;
          m = onToken (\<lambda>t. beginAttributeName t (consumedSoFar m)) m
      in onToken (\<lambda>t. appendToAttributeName t c) m)"

definition endName :: "Machine \<Rightarrow> Machine" where
  "endName m = onToken (\<lambda>t. endAttributeName t (consumedSoFar m)) m"

definition beginValue :: "int \<Rightarrow> Machine \<Rightarrow> Machine" where
  "beginValue skip m = onToken (\<lambda>t. beginAttributeValue t (consumedSoFar m + skip)) m"

definition endValue :: "Machine \<Rightarrow> Machine" where
  "endValue m = onToken (\<lambda>t. endAttributeValue t (consumedSoFar m)) m"

definition appendToValue :: "uchar \<Rightarrow> Machine \<Rightarrow> Machine" where
  "appendToValue c m = onToken (\<lambda>t. appendToAttributeValue t c) m"

definition inBeforeAttributeNameState :: handler where
  "inBeforeAttributeNameState cc m =
     (if isTokenizerWhitespace cc then (AdvanceTo BeforeAttributeNameState, m)
      else if cc = c_slash then (AdvanceTo SelfClosingStartTagState, m)
      else if cc = c_greater then emitAndResumeIn DataState m
      else if m_usePreHTML5ParserQuirks m \<and> cc = c_less then emitAndReconsumeIn DataState m
      else if isASCIIUpper cc then (AdvanceTo AttributeNameState, beginAttribute (toLowerCase cc) m)
      else if cc = kEndOfFileMarker then (ReconsumeIn DataState, m)
      else (AdvanceTo AttributeNameState, beginAttribute cc m))"

definition inAttributeNameState :: handler where
  "inAttributeNameState cc m =
     (if isTokenizerWhitespace cc then (AdvanceTo AfterAttributeNameState, endName m)
      else if cc = c_slash then (AdvanceTo SelfClosingStartTagState, endName m)
      else if cc = c_equals then (AdvanceTo BeforeAttributeValueState, endName m)
      else if cc = c_greater then emitAndResumeIn DataState (endName m)
      else if m_usePreHTML5ParserQuirks m \<and> cc = c_less then emitAndReconsumeIn DataState (endName m)
      else if isASCIIUpper cc then
        (AdvanceTo AttributeNameState, onToken (\<lambda>t. appendToAttributeName t (toLowerCase cc)) m)
      else if cc = kEndOfFileMarker then (ReconsumeIn DataState, endName m)
      else (AdvanceTo AttributeNameState, onToken (\<lambda>t. appendToAttributeName t cc) m))"

definition inAfterAttributeNameState :: handler where
  "inAfterAttributeNameState cc m =
     (if isTokenizerWhitespace cc then (AdvanceTo AfterAttributeNameState, m)
      else if cc = c_slash then (AdvanceTo SelfClosingStartTagState, m)
      else if cc = c_equals then (AdvanceTo BeforeAttributeValueState, m)
      else if cc = c_greater then emitAndResumeIn DataState m
      else if m_usePreHTML5ParserQuirks m \<and> cc = c_less then emitAndReconsumeIn DataState m
      else if isASCIIUpper cc then (AdvanceTo AttributeNameState, beginAttribute (toLowerCase cc) m)
      else if cc = kEndOfFileMarker then (ReconsumeIn DataState, m)
      else (AdvanceTo AttributeNameState, beginAttribute cc m))"

definition inBeforeAttributeValueState :: handler where
  "inBeforeAttributeValueState cc m =
     (if isTokenizerWhitespace cc then (AdvanceTo BeforeAttributeValueState, m)
      else if cc = c_quote then (AdvanceTo AttributeValueDoubleQuotedState, beginValue 1 m)
      else if cc = c_ampersand then (ReconsumeIn AttributeValueUnquotedState, beginValue 0 m)
      else if cc = c_apostrophe then (AdvanceTo AttributeValueSingleQuotedState, beginValue 1 m)
      else if cc = c_greater then emitAndResumeIn DataState m
      else if cc = kEndOfFileMarker then (ReconsumeIn DataState, m)
      else (AdvanceTo AttributeValueUnquotedState, appendToValue cc (beginValue 0 m)))"

definition inAttributeValueDoubleQuotedState :: handler where
  "inAttributeValueDoubleQuotedState cc m =
     (if cc = c_quote then (AdvanceTo AfterAttributeValueQuotedState, endValue m)
      else if cc = c_ampersand then
        (AdvanceTo CharacterReferenceInAttributeValueState, m\<lparr>m_additionalAllowedCharacter := c_quote\<rparr>)
      else if cc = kEndOfFileMarker then (ReconsumeIn DataState, endValue m)
      else (AdvanceTo AttributeValueDoubleQuotedState, appendToValue cc m))"

definition inAttributeValueSingleQuotedState :: handler where
  "inAttributeValueSingleQuotedState cc m =
     (if cc = c_apostrophe then (AdvanceTo AfterAttributeValueQuotedState, endValue m)
      else if cc = c_ampersand then
        (AdvanceTo CharacterReferenceInAttributeValueState, m\<lparr>m_additionalAllowedCharacter := c_apostrophe\<rparr>)
      else if cc = kEndOfFileMarker then (ReconsumeIn DataState, endValue m)
      else (AdvanceTo AttributeValueSingleQuotedState, appendToValue cc m))"

definition inAttributeValueUnquotedState :: handler where
  "inAttributeValueUnquotedState cc m =
     (if isTokenizerWhitespace cc then (AdvanceTo BeforeAttributeNameState, endValue m)
      else if cc = c_ampersand then
        (AdvanceTo CharacterReferenceInAttributeValueState, m\<lparr>m_additionalAllowedCharacter := c_greater\<rparr>)
      else if cc = c_greater then emitAndResumeIn DataState (endValue m)
      else if cc = kEndOfFileMarker then (ReconsumeIn DataState, endValue m)
      else (AdvanceTo AttributeValueUnquotedState, appendToValue cc m))"

text \<open>Past \<open>ASSERT_NOT_REACHED\<close> the function leaves the \<open>switch\<close> and returns false.\<close>

definition notReached :: "Machine \<Rightarrow> Control \<times> Machine" where
  "notReached m = (Return False, onToken (check False) m)"

definition inCharacterReferenceInAttributeValueState :: "HTMLEntityTableEntry list \<Rightarrow> handler" where
  "inCharacterReferenceInAttributeValueState table cc m =
     (let (success, decoded, notEnough, src) = consumeHTMLEntity table (source m) (m_additionalAllowedCharacter m);
          m = m\<lparr>source := src\<rparr>
      in if notEnough then (Return (haveBufferedCharacterToken m), m)
         else
           let m = (if \<not> success then appendToValue c_ampersand m else fold appendToValue decoded m)
           in if m_additionalAllowedCharacter m = c_quote then (SwitchTo AttributeValueDoubleQuotedState, m)
              else if m_additionalAllowedCharacter m = c_apostrophe then (SwitchTo AttributeValueSingleQuotedState, m)
              else if m_additionalAllowedCharacter m = c_greater then (SwitchTo AttributeValueUnquotedState, m)
              else notReached m)"

definition inAfterAttributeValueQuotedState :: handler where
  "inAfterAttributeValueQuotedState cc m =
     (if isTokenizerWhitespace cc then (AdvanceTo BeforeAttributeNameState, m)
      else if cc = c_slash then (AdvanceTo SelfClosingStartTagState, m)
      else if cc = c_greater then emitAndResumeIn DataState m
      else if m_usePreHTML5ParserQuirks m \<and> cc = c_less then emitAndReconsumeIn DataState m
      else if cc = kEndOfFileMarker then (ReconsumeIn DataState, m)
      else (ReconsumeIn BeforeAttributeNameState, m))"

definition inSelfClosingStartTagState :: handler where
  "inSelfClosingStartTagState cc m =
     (if cc = c_greater then emitAndResumeIn DataState (onToken setSelfClosing m)
      else if cc = kEndOfFileMarker then (ReconsumeIn DataState, m)
      else (ReconsumeIn BeforeAttributeNameState, m))"

section \<open>Comments\<close>

definition appendComment :: "uchar list \<Rightarrow> Machine \<Rightarrow> Machine" where
  "appendComment cs m = onToken (\<lambda>t. foldl appendToComment t cs) m"

definition inBogusCommentState :: handler where
  "inBogusCommentState cc m = (ReconsumeIn ContinueBogusCommentState, onToken beginComment m)"

definition inContinueBogusCommentState :: handler where
  "inContinueBogusCommentState cc m =
     (if cc = c_greater then emitAndResumeIn DataState m
      else if cc = kEndOfFileMarker then emitAndReconsumeIn DataState m
      else (AdvanceTo ContinueBogusCommentState, appendComment [cc] m))"

definition inMarkupDeclarationOpenState :: handler where
  "inMarkupDeclarationOpenState cc m =
     (let bogus = (\<lambda>m. (ReconsumeIn BogusCommentState, m));
          continue = (\<lambda>(result, src) expected whenMatched.
             let m = m\<lparr>source := src\<rparr>
             in case result of
                  DidMatch \<Rightarrow> whenMatched (m\<lparr>source := advanceString src expected\<rparr>)
                | NotEnoughCharacters \<Rightarrow> (Return (haveBufferedCharacterToken m), m)
                | DidNotMatch \<Rightarrow> bogus m)
      in if cc = c_dash then
           continue (lookAhead (source m) (asciiName ''--'')) (asciiName ''--'')
             (\<lambda>m. (SwitchTo CommentStartState, onToken beginComment m))
         else if cc = 0x44 \<or> cc = 0x64 then
           continue (lookAheadIgnoringCase (source m) (asciiName ''doctype'')) (asciiName ''doctype'')
             (\<lambda>m. (SwitchTo DOCTYPEState, m))
         else if cc = c_leftBracket \<and> m_shouldAllowCDATA m then
           continue (lookAhead (source m) (asciiName ''[CDATA['')) (asciiName ''[CDATA['')
             (\<lambda>m. (SwitchTo CDATASectionState, m))
         else bogus m)"

definition inCommentStartState :: handler where
  "inCommentStartState cc m =
     (if cc = c_dash then (AdvanceTo CommentStartDashState, m)
      else if cc = c_greater then emitAndResumeIn DataState m
      else if cc = kEndOfFileMarker then emitAndReconsumeIn DataState m
      else (AdvanceTo CommentState, appendComment [cc] m))"

definition inCommentStartDashState :: handler where
  "inCommentStartDashState cc m =
     (if cc = c_dash then (AdvanceTo CommentEndState, m)
      else if cc = c_greater then emitAndResumeIn DataState m
      else if cc = kEndOfFileMarker then emitAndReconsumeIn DataState m
      else (AdvanceTo CommentState, appendComment [c_dash, cc] m))"

definition inCommentState :: handler where
  "inCommentState cc m =
     (if cc = c_dash then (AdvanceTo CommentEndDashState, m)
      else if cc = kEndOfFileMarker then emitAndReconsumeIn DataState m
      else (AdvanceTo CommentState, appendComment [cc] m))"

definition inCommentEndDashState :: handler where
  "inCommentEndDashState cc m =
     (if cc = c_dash then (AdvanceTo CommentEndState, m)
      else if cc = kEndOfFileMarker then emitAndReconsumeIn DataState m
      else (AdvanceTo CommentState, appendComment [c_dash, cc] m))"

definition inCommentEndState :: handler where
  "inCommentEndState cc m =
     (if cc = c_greater then emitAndResumeIn DataState m
      else if cc = c_bang then (AdvanceTo CommentEndBangState, m)
      else if cc = c_dash then (AdvanceTo CommentEndState, appendComment [c_dash] m)
      else if cc = kEndOfFileMarker then emitAndReconsumeIn DataState m
      else (AdvanceTo CommentState, appendComment [c_dash, c_dash, cc] m))"

definition inCommentEndBangState :: handler where
  "inCommentEndBangState cc m =
     (if cc = c_dash then (AdvanceTo CommentEndDashState, appendComment [c_dash, c_dash, c_bang] m)
      else if cc = c_greater then emitAndResumeIn DataState m
      else if cc = kEndOfFileMarker then emitAndReconsumeIn DataState m
      else (AdvanceTo CommentState, appendComment [c_dash, c_dash, c_bang, cc] m))"

section \<open>DOCTYPE\<close>

abbreviation forceQuirks :: "Machine \<Rightarrow> Machine" where
  "forceQuirks m \<equiv> onToken setForceQuirks m"

definition inDOCTYPEState :: handler where
  "inDOCTYPEState cc m =
     (if isTokenizerWhitespace cc then (AdvanceTo BeforeDOCTYPENameState, m)
      else if cc = kEndOfFileMarker then emitAndReconsumeIn DataState (forceQuirks (onToken beginDOCTYPE m))
      else (ReconsumeIn BeforeDOCTYPENameState, m))"

definition inBeforeDOCTYPENameState :: handler where
  "inBeforeDOCTYPENameState cc m =
     (if isTokenizerWhitespace cc then (AdvanceTo BeforeDOCTYPENameState, m)
      else if isASCIIUpper cc then (AdvanceTo DOCTYPENameState, onToken (\<lambda>t. beginDOCTYPEWith t (toLowerCase cc)) m)
      else if cc = c_greater then emitAndResumeIn DataState (forceQuirks (onToken beginDOCTYPE m))
      else if cc = kEndOfFileMarker then emitAndReconsumeIn DataState (forceQuirks (onToken beginDOCTYPE m))
      else (AdvanceTo DOCTYPENameState, onToken (\<lambda>t. beginDOCTYPEWith t cc) m))"

definition inDOCTYPENameState :: handler where
  "inDOCTYPENameState cc m =
     (if isTokenizerWhitespace cc then (AdvanceTo AfterDOCTYPENameState, m)
      else if cc = c_greater then emitAndResumeIn DataState m
      else if isASCIIUpper cc then (AdvanceTo DOCTYPENameState, onToken (\<lambda>t. appendToName t (toLowerCase cc)) m)
      else if cc = kEndOfFileMarker then emitAndReconsumeIn DataState (forceQuirks m)
      else (AdvanceTo DOCTYPENameState, onToken (\<lambda>t. appendToName t cc) m))"

definition inAfterDOCTYPENameState :: handler where
  "inAfterDOCTYPENameState cc m =
     (let bogus = (\<lambda>m. (AdvanceTo BogusDOCTYPEState, forceQuirks m));
          keyword = (\<lambda>expected st.
             let (result, src) = lookAheadIgnoringCase (source m) expected;
                 m = m\<lparr>source := src\<rparr>
             in case result of
                  DidMatch \<Rightarrow> (SwitchTo st, m\<lparr>source := advanceString src expected\<rparr>)
                | NotEnoughCharacters \<Rightarrow> (Return (haveBufferedCharacterToken m), m)
                | DidNotMatch \<Rightarrow> bogus m)
      in if isTokenizerWhitespace cc then (AdvanceTo AfterDOCTYPENameState, m)
         else if cc = c_greater then emitAndResumeIn DataState m
         else if cc = kEndOfFileMarker then emitAndReconsumeIn DataState (forceQuirks m)
         else if cc = 0x50 \<or> cc = 0x70 then keyword (asciiName ''public'') AfterDOCTYPEPublicKeywordState
         else if cc = 0x53 \<or> cc = 0x73 then keyword (asciiName ''system'') AfterDOCTYPESystemKeywordState
         else bogus m)"

definition inAfterDOCTYPEPublicKeywordState :: handler where
  "inAfterDOCTYPEPublicKeywordState cc m =
     (if isTokenizerWhitespace cc then (AdvanceTo BeforeDOCTYPEPublicIdentifierState, m)
      else if cc = c_quote then
        (AdvanceTo DOCTYPEPublicIdentifierDoubleQuotedState, onToken setPublicIdentifierToEmptyString m)
      else if cc = c_apostrophe then
        (AdvanceTo DOCTYPEPublicIdentifierSingleQuotedState, onToken setPublicIdentifierToEmptyString m)
      else if cc = c_greater then emitAndResumeIn DataState (forceQuirks m)
      else if cc = kEndOfFileMarker then emitAndReconsumeIn DataState (forceQuirks m)
      else (AdvanceTo BogusDOCTYPEState, forceQuirks m))"

definition inBeforeDOCTYPEPublicIdentifierState :: handler where
  "inBeforeDOCTYPEPublicIdentifierState cc m =
     (if isTokenizerWhitespace cc then (AdvanceTo BeforeDOCTYPEPublicIdentifierState, m)
      else if cc = c_quote then
        (AdvanceTo DOCTYPEPublicIdentifierDoubleQuotedState, onToken setPublicIdentifierToEmptyString m)
      else if cc = c_apostrophe then
        (AdvanceTo DOCTYPEPublicIdentifierSingleQuotedState, onToken setPublicIdentifierToEmptyString m)
      else if cc = c_greater then emitAndResumeIn DataState (forceQuirks m)
      else if cc = kEndOfFileMarker then emitAndReconsumeIn DataState (forceQuirks m)
      else (AdvanceTo BogusDOCTYPEState, forceQuirks m))"

definition inDOCTYPEPublicIdentifierDoubleQuotedState :: handler where
  "inDOCTYPEPublicIdentifierDoubleQuotedState cc m =
     (if cc = c_quote then (AdvanceTo AfterDOCTYPEPublicIdentifierState, m)
      else if cc = c_greater then emitAndResumeIn DataState (forceQuirks m)
      else if cc = kEndOfFileMarker then emitAndReconsumeIn DataState (forceQuirks m)
      else (AdvanceTo DOCTYPEPublicIdentifierDoubleQuotedState, onToken (\<lambda>t. appendToPublicIdentifier t cc) m))"

definition inDOCTYPEPublicIdentifierSingleQuotedState :: handler where
  "inDOCTYPEPublicIdentifierSingleQuotedState cc m =
     (if cc = c_apostrophe then (AdvanceTo AfterDOCTYPEPublicIdentifierState, m)
      else if cc = c_greater then emitAndResumeIn DataState (forceQuirks m)
      else if cc = kEndOfFileMarker then emitAndReconsumeIn DataState (forceQuirks m)
      else (AdvanceTo DOCTYPEPublicIdentifierSingleQuotedState, onToken (\<lambda>t. appendToPublicIdentifier t cc) m))"

definition inAfterDOCTYPEPublicIdentifierState :: handler where
  "inAfterDOCTYPEPublicIdentifierState cc m =
     (if isTokenizerWhitespace cc then (AdvanceTo BetweenDOCTYPEPublicAndSystemIdentifiersState, m)
      else if cc = c_greater then emitAndResumeIn DataState m
      else if cc = c_quote then
        (AdvanceTo DOCTYPESystemIdentifierDoubleQuotedState, onToken setSystemIdentifierToEmptyString m)
      else if cc = c_apostrophe then
        (AdvanceTo DOCTYPESystemIdentifierSingleQuotedState, onToken setSystemIdentifierToEmptyString m)
      else if cc = kEndOfFileMarker then emitAndReconsumeIn DataState (forceQuirks m)
      else (AdvanceTo BogusDOCTYPEState, forceQuirks m))"

definition inBetweenDOCTYPEPublicAndSystemIdentifiersState :: handler where
  "inBetweenDOCTYPEPublicAndSystemIdentifiersState cc m =
     (if isTokenizerWhitespace cc then (AdvanceTo BetweenDOCTYPEPublicAndSystemIdentifiersState, m)
      else if cc = c_greater then emitAndResumeIn DataState m
      else if cc = c_quote then
        (AdvanceTo DOCTYPESystemIdentifierDoubleQuotedState, onToken setSystemIdentifierToEmptyString m)
      else if cc = c_apostrophe then
        (AdvanceTo DOCTYPESystemIdentifierSingleQuotedState, onToken setSystemIdentifierToEmptyString m)
      else if cc = kEndOfFileMarker then emitAndReconsumeIn DataState (forceQuirks m)
      else (AdvanceTo BogusDOCTYPEState, forceQuirks m))"

definition inAfterDOCTYPESystemKeywordState :: handler where
  "inAfterDOCTYPESystemKeywordState cc m =
     (if isTokenizerWhitespace cc then (AdvanceTo BeforeDOCTYPESystemIdentifierState, m)
      else if cc = c_quote then
        (AdvanceTo DOCTYPESystemIdentifierDoubleQuotedState, onToken setSystemIdentifierToEmptyString m)
      else if cc = c_apostrophe then
        (AdvanceTo DOCTYPESystemIdentifierSingleQuotedState, onToken setSystemIdentifierToEmptyString m)
      else if cc = c_greater then emitAndResumeIn DataState (forceQuirks m)
      else if cc = kEndOfFileMarker then emitAndReconsumeIn DataState (forceQuirks m)
      else (AdvanceTo BogusDOCTYPEState, forceQuirks m))"

text \<open>
  \<open>BeforeDOCTYPESystemIdentifierState\<close> tests for white space with no \<open>else\<close>, as
  \<open>AfterDOCTYPENameState\<close> does; the macro jumps or returns, so the rest is not run.
\<close>

definition inBeforeDOCTYPESystemIdentifierState :: handler where
  "inBeforeDOCTYPESystemIdentifierState cc m =
     (if isTokenizerWhitespace cc then (AdvanceTo BeforeDOCTYPESystemIdentifierState, m)
      else if cc = c_quote then
        (AdvanceTo DOCTYPESystemIdentifierDoubleQuotedState, onToken setSystemIdentifierToEmptyString m)
      else if cc = c_apostrophe then
        (AdvanceTo DOCTYPESystemIdentifierSingleQuotedState, onToken setSystemIdentifierToEmptyString m)
      else if cc = c_greater then emitAndResumeIn DataState (forceQuirks m)
      else if cc = kEndOfFileMarker then emitAndReconsumeIn DataState (forceQuirks m)
      else (AdvanceTo BogusDOCTYPEState, forceQuirks m))"

definition inDOCTYPESystemIdentifierDoubleQuotedState :: handler where
  "inDOCTYPESystemIdentifierDoubleQuotedState cc m =
     (if cc = c_quote then (AdvanceTo AfterDOCTYPESystemIdentifierState, m)
      else if cc = c_greater then emitAndResumeIn DataState (forceQuirks m)
      else if cc = kEndOfFileMarker then emitAndReconsumeIn DataState (forceQuirks m)
      else (AdvanceTo DOCTYPESystemIdentifierDoubleQuotedState, onToken (\<lambda>t. appendToSystemIdentifier t cc) m))"

definition inDOCTYPESystemIdentifierSingleQuotedState :: handler where
  "inDOCTYPESystemIdentifierSingleQuotedState cc m =
     (if cc = c_apostrophe then (AdvanceTo AfterDOCTYPESystemIdentifierState, m)
      else if cc = c_greater then emitAndResumeIn DataState (forceQuirks m)
      else if cc = kEndOfFileMarker then emitAndReconsumeIn DataState (forceQuirks m)
      else (AdvanceTo DOCTYPESystemIdentifierSingleQuotedState, onToken (\<lambda>t. appendToSystemIdentifier t cc) m))"

definition inAfterDOCTYPESystemIdentifierState :: handler where
  "inAfterDOCTYPESystemIdentifierState cc m =
     (if isTokenizerWhitespace cc then (AdvanceTo AfterDOCTYPESystemIdentifierState, m)
      else if cc = c_greater then emitAndResumeIn DataState m
      else if cc = kEndOfFileMarker then emitAndReconsumeIn DataState (forceQuirks m)
      else (AdvanceTo BogusDOCTYPEState, m))"

definition inBogusDOCTYPEState :: handler where
  "inBogusDOCTYPEState cc m =
     (if cc = c_greater then emitAndResumeIn DataState m
      else if cc = kEndOfFileMarker then emitAndReconsumeIn DataState m
      else (AdvanceTo BogusDOCTYPEState, m))"

section \<open>CDATA sections\<close>

definition inCDATASectionState :: handler where
  "inCDATASectionState cc m =
     (if cc = c_rightBracket then (AdvanceTo CDATASectionRightSquareBracketState, m)
      else if cc = kEndOfFileMarker then (ReconsumeIn DataState, m)
      else (AdvanceTo CDATASectionState, bufferCharacter cc m))"

definition inCDATASectionRightSquareBracketState :: handler where
  "inCDATASectionRightSquareBracketState cc m =
     (if cc = c_rightBracket then (AdvanceTo CDATASectionDoubleRightSquareBracketState, m)
      else (ReconsumeIn CDATASectionState, bufferCharacter c_rightBracket m))"

definition inCDATASectionDoubleRightSquareBracketState :: handler where
  "inCDATASectionDoubleRightSquareBracketState cc m =
     (if cc = c_greater then (AdvanceTo DataState, m)
      else (ReconsumeIn CDATASectionState,
            bufferCharacter c_rightBracket (bufferCharacter c_rightBracket m)))"

section \<open>The machine\<close>

definition dispatch :: "HTMLEntityTableEntry list \<Rightarrow> State \<Rightarrow> handler" where
  "dispatch table st =
     (case st of
        DataState \<Rightarrow> inDataState
      | CharacterReferenceInDataState \<Rightarrow> inCharacterReferenceInDataState table
      | RCDATAState \<Rightarrow> inRCDATAState
      | CharacterReferenceInRCDATAState \<Rightarrow> inCharacterReferenceInRCDATAState table
      | RAWTEXTState \<Rightarrow> inRAWTEXTState
      | ScriptDataState \<Rightarrow> inScriptDataState
      | PLAINTEXTState \<Rightarrow> inPLAINTEXTState
      | TagOpenState \<Rightarrow> inTagOpenState
      | EndTagOpenState \<Rightarrow> inEndTagOpenState
      | TagNameState \<Rightarrow> inTagNameState
      | RCDATALessThanSignState \<Rightarrow> inRCDATALessThanSignState
      | RCDATAEndTagOpenState \<Rightarrow> inRCDATAEndTagOpenState
      | RCDATAEndTagNameState \<Rightarrow> inRCDATAEndTagNameState
      | RAWTEXTLessThanSignState \<Rightarrow> inRAWTEXTLessThanSignState
      | RAWTEXTEndTagOpenState \<Rightarrow> inRAWTEXTEndTagOpenState
      | RAWTEXTEndTagNameState \<Rightarrow> inRAWTEXTEndTagNameState
      | ScriptDataLessThanSignState \<Rightarrow> inScriptDataLessThanSignState
      | ScriptDataEndTagOpenState \<Rightarrow> inScriptDataEndTagOpenState
      | ScriptDataEndTagNameState \<Rightarrow> inScriptDataEndTagNameState
      | ScriptDataEscapeStartState \<Rightarrow> inScriptDataEscapeStartState
      | ScriptDataEscapeStartDashState \<Rightarrow> inScriptDataEscapeStartDashState
      | ScriptDataEscapedState \<Rightarrow> inScriptDataEscapedState
      | ScriptDataEscapedDashState \<Rightarrow> inScriptDataEscapedDashState
      | ScriptDataEscapedDashDashState \<Rightarrow> inScriptDataEscapedDashDashState
      | ScriptDataEscapedLessThanSignState \<Rightarrow> inScriptDataEscapedLessThanSignState
      | ScriptDataEscapedEndTagOpenState \<Rightarrow> inScriptDataEscapedEndTagOpenState
      | ScriptDataEscapedEndTagNameState \<Rightarrow> inScriptDataEscapedEndTagNameState
      | ScriptDataDoubleEscapeStartState \<Rightarrow> inScriptDataDoubleEscapeStartState
      | ScriptDataDoubleEscapedState \<Rightarrow> inScriptDataDoubleEscapedState
      | ScriptDataDoubleEscapedDashState \<Rightarrow> inScriptDataDoubleEscapedDashState
      | ScriptDataDoubleEscapedDashDashState \<Rightarrow> inScriptDataDoubleEscapedDashDashState
      | ScriptDataDoubleEscapedLessThanSignState \<Rightarrow> inScriptDataDoubleEscapedLessThanSignState
      | ScriptDataDoubleEscapeEndState \<Rightarrow> inScriptDataDoubleEscapeEndState
      | BeforeAttributeNameState \<Rightarrow> inBeforeAttributeNameState
      | AttributeNameState \<Rightarrow> inAttributeNameState
      | AfterAttributeNameState \<Rightarrow> inAfterAttributeNameState
      | BeforeAttributeValueState \<Rightarrow> inBeforeAttributeValueState
      | AttributeValueDoubleQuotedState \<Rightarrow> inAttributeValueDoubleQuotedState
      | AttributeValueSingleQuotedState \<Rightarrow> inAttributeValueSingleQuotedState
      | AttributeValueUnquotedState \<Rightarrow> inAttributeValueUnquotedState
      | CharacterReferenceInAttributeValueState \<Rightarrow> inCharacterReferenceInAttributeValueState table
      | AfterAttributeValueQuotedState \<Rightarrow> inAfterAttributeValueQuotedState
      | SelfClosingStartTagState \<Rightarrow> inSelfClosingStartTagState
      | BogusCommentState \<Rightarrow> inBogusCommentState
      | ContinueBogusCommentState \<Rightarrow> inContinueBogusCommentState
      | MarkupDeclarationOpenState \<Rightarrow> inMarkupDeclarationOpenState
      | CommentStartState \<Rightarrow> inCommentStartState
      | CommentStartDashState \<Rightarrow> inCommentStartDashState
      | CommentState \<Rightarrow> inCommentState
      | CommentEndDashState \<Rightarrow> inCommentEndDashState
      | CommentEndState \<Rightarrow> inCommentEndState
      | CommentEndBangState \<Rightarrow> inCommentEndBangState
      | DOCTYPEState \<Rightarrow> inDOCTYPEState
      | BeforeDOCTYPENameState \<Rightarrow> inBeforeDOCTYPENameState
      | DOCTYPENameState \<Rightarrow> inDOCTYPENameState
      | AfterDOCTYPENameState \<Rightarrow> inAfterDOCTYPENameState
      | AfterDOCTYPEPublicKeywordState \<Rightarrow> inAfterDOCTYPEPublicKeywordState
      | BeforeDOCTYPEPublicIdentifierState \<Rightarrow> inBeforeDOCTYPEPublicIdentifierState
      | DOCTYPEPublicIdentifierDoubleQuotedState \<Rightarrow> inDOCTYPEPublicIdentifierDoubleQuotedState
      | DOCTYPEPublicIdentifierSingleQuotedState \<Rightarrow> inDOCTYPEPublicIdentifierSingleQuotedState
      | AfterDOCTYPEPublicIdentifierState \<Rightarrow> inAfterDOCTYPEPublicIdentifierState
      | BetweenDOCTYPEPublicAndSystemIdentifiersState \<Rightarrow> inBetweenDOCTYPEPublicAndSystemIdentifiersState
      | AfterDOCTYPESystemKeywordState \<Rightarrow> inAfterDOCTYPESystemKeywordState
      | BeforeDOCTYPESystemIdentifierState \<Rightarrow> inBeforeDOCTYPESystemIdentifierState
      | DOCTYPESystemIdentifierDoubleQuotedState \<Rightarrow> inDOCTYPESystemIdentifierDoubleQuotedState
      | DOCTYPESystemIdentifierSingleQuotedState \<Rightarrow> inDOCTYPESystemIdentifierSingleQuotedState
      | AfterDOCTYPESystemIdentifierState \<Rightarrow> inAfterDOCTYPESystemIdentifierState
      | BogusDOCTYPEState \<Rightarrow> inBogusDOCTYPEState
      | CDATASectionState \<Rightarrow> inCDATASectionState
      | CDATASectionRightSquareBracketState \<Rightarrow> inCDATASectionRightSquareBracketState
      | CDATASectionDoubleRightSquareBracketState \<Rightarrow> inCDATASectionDoubleRightSquareBracketState)"

text \<open>
  \<open>runStates\<close> follows the jumps from the current state with the character \<open>cc\<close>; \<open>None\<close> when the rounds
  run out. \<open>enterState\<close> is the tail of \<open>SWITCH_TO\<close> and the start of \<open>nextToken\<close>.
\<close>

fun runStates :: "HTMLEntityTableEntry list \<Rightarrow> nat \<Rightarrow> uchar \<Rightarrow> Machine \<Rightarrow> (bool \<times> Machine) option" where
  "runStates table 0 cc m = None"
| "runStates table (Suc n) cc m =
     (let (control, m) = dispatch table (m_state m) cc m;
          jump = (\<lambda>r. case r of
              None \<Rightarrow> None
            | Some (ok, m) \<Rightarrow>
                if \<not> ok then Some (haveBufferedCharacterToken m, m)
                else runStates table n (m_nextInputCharacter m) m)
      in case control of
          Return b \<Rightarrow> Some (b, m)
        | ReconsumeIn st \<Rightarrow> runStates table n cc (m\<lparr>m_state := st\<rparr>)
        | AdvanceTo st \<Rightarrow> jump (advanceInput (m\<lparr>m_state := st\<rparr>))
        | SwitchTo st \<Rightarrow>
            let m = m\<lparr>m_state := st\<rparr>
            in jump (if m_empty (source m) then Some (False, m) else peek m))"

text \<open>A character takes at most eight rounds.\<close>

definition enoughRounds :: "Machine \<Rightarrow> nat" where
  "enoughRounds m = 8 * SegmentedString_length (source m) + 8"

definition beginBufferedEndTag :: "Machine \<Rightarrow> Machine" where
  "beginBufferedEndTag m =
     (let m = onToken (\<lambda>t. beginEndTag t (m_bufferedEndTagName m)) m
      in m\<lparr>m_bufferedEndTagName := [], m_appropriateEndTagName := [], m_temporaryBuffer := []\<rparr>)"

definition continueToken :: "HTMLEntityTableEntry list \<Rightarrow> Machine \<Rightarrow> (bool \<times> Machine) option" where
  "continueToken table m =
     (if m_empty (source m) then Some (haveBufferedCharacterToken m, m)
      else case peek m of
          None \<Rightarrow> None
        | Some (ok, m) \<Rightarrow>
            if \<not> ok then Some (haveBufferedCharacterToken m, m)
            else runStates table (enoughRounds m) (m_nextInputCharacter m) m)"

definition nextToken :: "HTMLEntityTableEntry list \<Rightarrow> Machine \<Rightarrow> (bool \<times> Machine) option" where
  "nextToken table m =
     (if m_bufferedEndTagName m \<noteq> [] \<and> \<not> isEndTagBufferingState (m_state m) then
        let m = beginBufferedEndTag m
        in if m_state m = DataState then Some (True, m) else continueToken table m
      else continueToken table m)"

end
