(* ===== verification/Entity_Search.thy ===== *)
theory Entity_Search
  imports HTML_Entities "HOL-Library.Sublist" "HOL-Library.List_Lexorder"
begin

text \<open>
  What \<open>HTMLEntitySearch\<close> computes, for a table as the generator writes it (\<open>table_ok\<close>): its two binary
  searches keep \<open>m_first\<close> and \<open>m_last\<close> at the ends of the interval of the entries that start with the
  characters read, and \<open>m_mostRecentMatch\<close> at the longest entry among the beginnings of them.
\<close>

section \<open>Comparison results are ordered\<close>

instantiation CompareResult :: linorder
begin

fun compareRank :: "CompareResult \<Rightarrow> nat" where
  "compareRank Before = 0"
| "compareRank Prefix = 1"
| "compareRank After = 2"

definition less_eq_CompareResult :: "CompareResult \<Rightarrow> CompareResult \<Rightarrow> bool" where
  "less_eq_CompareResult a b \<longleftrightarrow> compareRank a \<le> compareRank b"

definition less_CompareResult :: "CompareResult \<Rightarrow> CompareResult \<Rightarrow> bool" where
  "less_CompareResult a b \<longleftrightarrow> compareRank a < compareRank b"

instance
proof
  fix a b :: CompareResult
  show "a \<le> b \<Longrightarrow> b \<le> a \<Longrightarrow> a = b"
    by (cases a; cases b) (simp_all add: less_eq_CompareResult_def)
qed (auto simp: less_eq_CompareResult_def less_CompareResult_def)

end

lemma CompareResult_order [simp]:
  "Before \<le> r" "r \<le> Before \<longleftrightarrow> r = Before" "After \<le> r \<longleftrightarrow> r = After" "r \<le> After"
  "Before < r \<longleftrightarrow> r \<noteq> Before" "r < After \<longleftrightarrow> r \<noteq> After"
  by (cases r; simp add: less_eq_CompareResult_def less_CompareResult_def)+

section \<open>The binary searches\<close>

text \<open>Over the entries from \<open>low\<close> to \<open>high\<close> the comparison with \<open>c\<close> goes up.\<close>

definition probes :: "HTMLEntityTableEntry list \<Rightarrow> nat \<Rightarrow> uchar \<Rightarrow> nat \<Rightarrow> nat \<Rightarrow> bool" where
  "probes table len c low high \<longleftrightarrow>
     (\<forall>i j. low \<le> i \<longrightarrow> i \<le> j \<longrightarrow> j \<le> high \<longrightarrow> compareEntry table len i c \<le> compareEntry table len j c)"

lemma probes_le:
  "probes table len c low high \<Longrightarrow> low \<le> i \<Longrightarrow> i \<le> j \<Longrightarrow> j \<le> high \<Longrightarrow>
     compareEntry table len i c \<le> compareEntry table len j c"
  by (simp add: probes_def)

lemma Before_below:
  "probes table len c low high \<Longrightarrow> low \<le> i \<Longrightarrow> i \<le> j \<Longrightarrow> j \<le> high \<Longrightarrow>
     compareEntry table len j c = Before \<Longrightarrow> compareEntry table len i c = Before"
  using probes_le [of table len c low high i j] by simp

lemma After_above:
  "probes table len c low high \<Longrightarrow> low \<le> i \<Longrightarrow> i \<le> j \<Longrightarrow> j \<le> high \<Longrightarrow>
     compareEntry table len i c = After \<Longrightarrow> compareEntry table len j c = After"
  using probes_le [of table len c low high i j] by simp

lemma Prefix_between:
  "probes table len c low high \<Longrightarrow> low \<le> i \<Longrightarrow> i \<le> j \<Longrightarrow> j \<le> k \<Longrightarrow> k \<le> high \<Longrightarrow>
     compareEntry table len i c = Prefix \<Longrightarrow> compareEntry table len k c = Prefix \<Longrightarrow>
     compareEntry table len j c = Prefix"
  using probes_le [of table len c low high i j] probes_le [of table len c low high j k]
  by (simp add: order.antisym)

lemma findFirstLoop_spec:
  assumes "probes table len c low high" "low \<le> left" "left < right" "right \<le> high"
    and "compareEntry table len left c = Before"
  shows "left < findFirstLoop table len c left right \<and> findFirstLoop table len c left right \<le> right \<and>
    (\<forall>i. low \<le> i \<and> i < findFirstLoop table len c left right \<longrightarrow> compareEntry table len i c = Before) \<and>
    (findFirstLoop table len c left right = right \<or>
      compareEntry table len (findFirstLoop table len c left right) c \<noteq> Before)"
  using assms
proof (induction table len c left right rule: findFirstLoop.induct)
  case (1 table len c left right)
  let ?p = "halfway left right"
  show ?case
  proof (cases "left + 1 < right")
    case False
    then have r: "right = left + 1" using "1.prems"(3) by simp
    have "compareEntry table len i c = Before" if "low \<le> i" "i < right" for i
      using Before_below [OF "1.prems"(1), of i left] "1.prems" that r by simp
    moreover have "findFirstLoop table len c left right = right"
      using False by (simp add: findFirstLoop.simps [of table len c left right])
    ultimately show ?thesis using r by simp
  next
    case True
    note p = halfway_between [OF True]
    show ?thesis
    proof (cases "compareEntry table len ?p c = Before")
      case b: True
      have eq: "findFirstLoop table len c left right = findFirstLoop table len c ?p right"
        using True b by (simp add: findFirstLoop.simps [of table len c left right])
      show ?thesis
        unfolding eq using "1.IH"(1) [OF True refl b "1.prems"(1)] p "1.prems" b by auto
    next
      case b: False
      have eq: "findFirstLoop table len c left right = findFirstLoop table len c left ?p"
        using True b by (simp add: findFirstLoop.simps [of table len c left right])
      show ?thesis
        unfolding eq using "1.IH"(2) [OF True refl b "1.prems"(1)] p "1.prems" b by auto
    qed
  qed
qed

lemma findLastLoop_spec:
  assumes "probes table len c low high" "low \<le> left" "left < right" "right \<le> high"
    and "compareEntry table len right c = After"
  shows "left \<le> findLastLoop table len c left right \<and> findLastLoop table len c left right < right \<and>
    (\<forall>i. findLastLoop table len c left right < i \<and> i \<le> high \<longrightarrow> compareEntry table len i c = After) \<and>
    (findLastLoop table len c left right = left \<or>
      compareEntry table len (findLastLoop table len c left right) c \<noteq> After)"
  using assms
proof (induction table len c left right rule: findLastLoop.induct)
  case (1 table len c left right)
  let ?p = "halfway left right"
  show ?case
  proof (cases "left + 1 < right")
    case False
    then have r: "right = left + 1" using "1.prems"(3) by simp
    have "compareEntry table len i c = After" if "left < i" "i \<le> high" for i
      using After_above [OF "1.prems"(1), of right i] "1.prems" that r by simp
    moreover have "findLastLoop table len c left right = left"
      using False by (simp add: findLastLoop.simps [of table len c left right])
    ultimately show ?thesis using r by simp
  next
    case True
    note p = halfway_between [OF True]
    show ?thesis
    proof (cases "compareEntry table len ?p c = After")
      case b: True
      have eq: "findLastLoop table len c left right = findLastLoop table len c left ?p"
        using True b by (simp add: findLastLoop.simps [of table len c left right])
      show ?thesis
        unfolding eq using "1.IH"(1) [OF True refl b "1.prems"(1)] p "1.prems" b by auto
    next
      case b: False
      have eq: "findLastLoop table len c left right = findLastLoop table len c ?p right"
        using True b by (simp add: findLastLoop.simps [of table len c left right])
      show ?thesis
        unfolding eq using "1.IH"(2) [OF True refl b "1.prems"(1)] p "1.prems" b by auto
    qed
  qed
qed


lemma findFirst_spec:
  assumes P: "probes table len c left right" and le: "left \<le> right"
  defines "f \<equiv> findFirst table len c left right"
  shows "left \<le> f" "f \<le> right"
    and "left \<le> i \<Longrightarrow> i < f \<Longrightarrow> compareEntry table len i c \<noteq> Prefix"
    and "f = right \<or> compareEntry table len f c \<noteq> Before"
    and "compareEntry table len f c = After \<Longrightarrow> i \<in> {left..right} \<Longrightarrow> compareEntry table len i c \<noteq> Prefix"
proof -
  let ?cmp = "\<lambda>i. compareEntry table len i c"
  have after: "?cmp j = After" if "?cmp left = After" "j \<in> {left..right}" for j
    using After_above [OF P, of left j] that by simp
  have "left \<le> f \<and> f \<le> right \<and> (\<forall>i. left \<le> i \<and> i < f \<longrightarrow> ?cmp i \<noteq> Prefix) \<and> (f = right \<or> ?cmp f \<noteq> Before) \<and>
      (?cmp f = After \<longrightarrow> (\<forall>i \<in> {left..right}. ?cmp i \<noteq> Prefix))"
  proof (cases "left = right")
    case False
    show ?thesis
    proof (cases "?cmp left")
      case Before
      then have "f = findFirstLoop table len c left right" using False by (simp add: f_def findFirst_def)
      then have s: "left < f" "f \<le> right" "\<And>i. left \<le> i \<Longrightarrow> i < f \<Longrightarrow> ?cmp i = Before" "f = right \<or> ?cmp f \<noteq> Before"
        using findFirstLoop_spec [OF P order_refl _ order_refl Before] False le by auto
      have "?cmp i \<noteq> Prefix" if "?cmp f = After" "i \<in> {left..right}" for i
        using After_above [OF P, of f i] s that by (cases "i < f") auto
      then show ?thesis using s by auto
    next
      case After
      then have "f = right" using False by (simp add: f_def findFirst_def)
      then show ?thesis using le after [OF After] by auto
    qed (use False le in \<open>auto simp: f_def findFirst_def\<close>)
  qed (auto simp: f_def findFirst_def)
  then show "left \<le> f" "f \<le> right" "left \<le> i \<Longrightarrow> i < f \<Longrightarrow> ?cmp i \<noteq> Prefix" "f = right \<or> ?cmp f \<noteq> Before"
    "?cmp f = After \<Longrightarrow> i \<in> {left..right} \<Longrightarrow> ?cmp i \<noteq> Prefix" by blast+
qed

lemma findLast_spec:
  assumes P: "probes table len c left right" and le: "left \<le> right"
  defines "l \<equiv> findLast table len c left right"
  shows "left \<le> l" "l \<le> right"
    and "l < i \<Longrightarrow> i \<le> right \<Longrightarrow> compareEntry table len left c = Prefix \<Longrightarrow> compareEntry table len i c \<noteq> Prefix"
    and "compareEntry table len left c = Prefix \<Longrightarrow> compareEntry table len l c = Prefix"
    and "compareEntry table len left c = After \<Longrightarrow> l = left"
proof -
  let ?cmp = "\<lambda>i. compareEntry table len i c"
  have "left \<le> l \<and> l \<le> right \<and> (?cmp left = Prefix \<longrightarrow> (\<forall>i. l < i \<and> i \<le> right \<longrightarrow> ?cmp i \<noteq> Prefix) \<and> ?cmp l = Prefix) \<and>
      (?cmp left = After \<longrightarrow> l = left)"
  proof (cases "left = right")
    case False
    show ?thesis
    proof (cases "?cmp right")
      case After
      then have "l = findLastLoop table len c left right" using False by (simp add: l_def findLast_def)
      then have s: "left \<le> l" "l < right" "\<And>i. l < i \<Longrightarrow> i \<le> right \<Longrightarrow> ?cmp i = After" "l = left \<or> ?cmp l \<noteq> After"
        using findLastLoop_spec [OF P order_refl _ order_refl After] False le by auto
      have 1: "?cmp l = Prefix" if "?cmp left = Prefix"
        using s that Before_below [OF P, of left l] by (cases "?cmp l") auto
      have "l = left" if "?cmp left = After"
        using s that After_above [OF P, of left l] by auto
      then show ?thesis using s 1 by auto
    next
      case Before
      then have "l = left" using False by (simp add: l_def findLast_def)
      moreover have "?cmp left = Before"
        using Before_below [OF P, of left right] Before le by simp
      ultimately show ?thesis using le by auto
    next
      case Prefix
      then have "l = right" using False by (simp add: l_def findLast_def)
      then show ?thesis using le Prefix After_above [OF P, of left right] by auto
    qed
  qed (auto simp: l_def findLast_def)
  then show "left \<le> l" "l \<le> right" "l < i \<Longrightarrow> i \<le> right \<Longrightarrow> ?cmp left = Prefix \<Longrightarrow> ?cmp i \<noteq> Prefix"
    "?cmp left = Prefix \<Longrightarrow> ?cmp l = Prefix" "?cmp left = After \<Longrightarrow> l = left" by blast+
qed

text \<open>
  Together the two searches find the entries that go on with \<open>c\<close>: when there are any, their first
  and last; when there are none, one entry that does not.
\<close>

lemma searches_find:
  assumes P: "probes table len c left right" and le: "left \<le> right"
    and f: "f = findFirst table len c left right" and l: "l = findLast table len c f right"
  shows "left \<le> f \<and> f \<le> l \<and> l \<le> right \<and>
    (if f = l \<and> compareEntry table len f c \<noteq> Prefix
     then \<forall>i \<in> {left..right}. compareEntry table len i c \<noteq> Prefix
     else {i \<in> {left..right}. compareEntry table len i c = Prefix} = {f..l})"
proof -
  let ?cmp = "\<lambda>i. compareEntry table len i c"
  note first = findFirst_spec [OF P le, folded f]
  have P': "probes table len c f right"
    using P first(1) by (auto simp: probes_def)
  note last = findLast_spec [OF P' first(2), folded l]
  have range: "left \<le> f \<and> f \<le> l \<and> l \<le> right" using first last by blast
  show ?thesis
  proof (cases "?cmp f")
    case Prefix
    have "?cmp i = Prefix" if "f \<le> i" "i \<le> l" for i
      using Prefix_between [OF P, of f i l] that range last(4) Prefix by simp
    then have "{i \<in> {left..right}. ?cmp i = Prefix} = {f..l}"
      using range first(3) last(3) [OF _ _ Prefix] by (auto simp: not_less [symmetric])
    then show ?thesis using range Prefix by simp
  next
    case Before
    then have "f = right" using first(4) by simp
    then have "f = l" "\<forall>i \<in> {left..right}. ?cmp i \<noteq> Prefix"
      using range Before first(3) by (auto simp: le_less)
    then show ?thesis using range Before by simp
  next
    case After
    then have "f = l" using last(5) by simp
    then show ?thesis using range After first(5) by simp
  qed
qed


section \<open>The table\<close>

text \<open>
  What the generator makes of the list of names (\<open>HTMLEntityNames.in\<close>): sorted, without duplicates,
  every name at least two characters long and starting with a letter, every letter starting a name.
\<close>

definition isLetter :: "uchar \<Rightarrow> bool" where
  "isLetter c \<longleftrightarrow> (0x41 \<le> c \<and> c \<le> 0x5A) \<or> (0x61 \<le> c \<and> c \<le> 0x7A)"

definition table_ok :: "HTMLEntityTableEntry list \<Rightarrow> bool" where
  "table_ok table \<longleftrightarrow>
     sorted_wrt (<) (map entity table) \<and>
     (\<forall>e \<in> set table. entity e \<noteq> [] \<and> length (entity e) \<noteq> 1 \<and> isLetter (hd (entity e)) \<and> 0 \<notin> set (entity e)) \<and>
     (\<forall>c. isLetter c \<longrightarrow> (\<exists>e \<in> set table. hd (entity e) = c))"

definition matching :: "HTMLEntityTableEntry list \<Rightarrow> uchar list \<Rightarrow> nat set" where
  "matching table w = {i. i < length table \<and> prefix w (entity (table ! i))}"

lemma table_sorted:
  "table_ok table \<Longrightarrow> i < j \<Longrightarrow> j < length table \<Longrightarrow> entity (table ! i) < entity (table ! j)"
  by (auto simp: table_ok_def sorted_wrt_iff_nth_less)

lemma append_less_iff [simp]: "w @ u < w @ (v :: 'a :: linorder list) \<longleftrightarrow> u < v"
  by (induction w) simp_all

lemma append_le_iff [simp]: "w @ u \<le> w @ (v :: 'a :: linorder list) \<longleftrightarrow> u \<le> v"
  by (induction w) simp_all

lemma compareEntry_append:
  "entity (table ! i) = w @ u \<Longrightarrow> compareEntry table (length w) i c =
     (case u of [] \<Rightarrow> Before | d # _ \<Rightarrow> if d = c then Prefix else if d < c then Before else After)"
  by (auto simp: compareEntry_def nth_append split: list.split)

lemma matching_probes:
  assumes ok: "table_ok table" and m: "matching table w = {l..r}"
  shows "probes table (length w) c l r"
  unfolding probes_def
proof (intro allI impI)
  fix i j assume ij: "l \<le> i" "i \<le> j" "j \<le> r"
  then have "i \<in> matching table w" "j \<in> matching table w" using m by auto
  then obtain u v where uv: "entity (table ! i) = w @ u" "entity (table ! j) = w @ v" "j < length table"
    by (auto simp: matching_def prefix_def)
  then have "u \<le> v"
    using table_sorted [OF ok, of i j] ij by (cases "i = j") (auto simp: le_less)
  then show "compareEntry table (length w) i c \<le> compareEntry table (length w) j c"
    using uv by (cases u; cases v) (auto simp: compareEntry_append less_eq_CompareResult_def)
qed

lemma matching_snoc:
  "matching table (w @ [c]) = {i \<in> matching table w. compareEntry table (length w) i c = Prefix}"
  by (auto simp: matching_def prefix_def compareEntry_append split: list.splits if_splits)

text \<open>The first of the entries that match is the shortest.\<close>

lemma matching_first:
  assumes ok: "table_ok table" and m: "matching table w = {l..r}" and i: "i < length table" "entity (table ! i) = w"
  shows "i = l"
proof -
  have "i \<in> matching table w" using i by (simp add: matching_def)
  then have "i \<in> {l..r}" using m by simp
  moreover have "\<not> l < i"
  proof
    assume less: "l < i"
    have "l \<in> matching table w" using m \<open>i \<in> {l..r}\<close> by auto
    then obtain u where u: "entity (table ! l) = w @ u" by (auto simp: matching_def prefix_def)
    have "w @ u < w @ []"
      using table_sorted [OF ok less i(1)] unfolding u i(2) by (simp only: append_Nil2)
    then show False by (simp only: append_less_iff not_less_Nil)
  qed
  ultimately show ?thesis by simp
qed

section \<open>The first letter\<close>

lemma entryIndex_less:
  assumes ok: "table_ok table" and c: "isLetter c"
  shows "i < entryIndex table c \<longleftrightarrow> i < length table \<and> hd (entity (table ! i)) < c"
proof -
  let ?n = "entryIndex table c"
  have mono: "hd (entity (table ! i)) \<le> hd (entity (table ! j))" if "i \<le> j" "j < length table" for i j
    using table_sorted [OF ok, of i j] that ok
    by (cases "i = j"; cases "entity (table ! i)"; cases "entity (table ! j)") (auto simp: table_ok_def)
  have "\<exists>e \<in> set table. hd (entity e) = c" using ok c by (simp add: table_ok_def)
  then have n: "?n < length table" "hd (entity (table ! ?n)) = c"
    using nth_length_takeWhile [of "\<lambda>e. hd (entity e) \<noteq> c" table]
      length_takeWhile_le [of "\<lambda>e. hd (entity e) \<noteq> c" table]
      takeWhile_eq_take [of "\<lambda>e. hd (entity e) \<noteq> c" table]
    by (force simp: entryIndex_def le_less takeWhile_eq_all_conv)+
  have below: "hd (entity (table ! i)) \<noteq> c" if "i < ?n" for i
    using that nth_mem [of i "takeWhile (\<lambda>e. hd (entity e) \<noteq> c) table"]
    by (auto simp: entryIndex_def takeWhile_nth dest: set_takeWhileD)
  show ?thesis
    using n below mono [of i ?n] mono [of ?n i] by (cases "i < ?n") (force simp: not_less)+
qed


lemma letter_le: "isLetter x \<Longrightarrow> x \<le> 0x7A"
  unfolding isLetter_def by (elim disjE conjE) (auto intro: order.trans)

lemma firstEntry_letter: "firstEntryStartingWith table c \<noteq> None \<longleftrightarrow> isLetter c"
  by (auto simp: firstEntryStartingWith_def isLetter_def)

lemma letter_bounds:
  assumes ok: "table_ok table" and c: "isLetter c"
  obtains f l where "firstEntryStartingWith table c = Some f" "lastEntryStartingWith table c = Some l"
    "f \<le> l" "matching table [c] = {f..l}"
proof -
  note goal = that
  have letters: "isLetter (hd (entity (table ! i))) \<and> entity (table ! i) \<noteq> []" if "i < length table" for i
    using ok that by (simp add: table_ok_def)
  have match: "matching table [c] = {i. i < length table \<and> hd (entity (table ! i)) = c}"
    using letters by (auto simp: matching_def prefix_def neq_Nil_conv) (metis list.collapse list.sel(1))
  have found: "\<exists>i. i < length table \<and> hd (entity (table ! i)) = c"
    using ok c by (force simp: table_ok_def in_set_conv_nth)
  have result: thesis
    if f: "firstEntryStartingWith table c = Some (entryIndex table c)"
      and l: "lastEntryStartingWith table c = Some (n - 1)"
      and n: "\<And>i. i < n \<longleftrightarrow> i < length table \<and> hd (entity (table ! i)) \<le> c" for n
  proof -
    obtain j where j: "j < length table" "hd (entity (table ! j)) = c" using found by blast
    then have "entryIndex table c \<le> j" "j < n" using entryIndex_less [OF ok c, of j] n [of j] by auto
    moreover have "i \<in> matching table [c] \<longleftrightarrow> i \<in> {entryIndex table c..n - 1}" for i
    proof -
      have "i \<in> {entryIndex table c..n - 1} \<longleftrightarrow> \<not> i < entryIndex table c \<and> i < n"
        using \<open>j < n\<close> by auto
      then show ?thesis
        unfolding entryIndex_less [OF ok c] n match by auto
    qed
    ultimately have "entryIndex table c \<le> n - 1" "matching table [c] = {entryIndex table c..n - 1}"
      by (linarith, blast)
    then show thesis by (rule goal [OF f l])
  qed
  have between: "hd (entity (table ! i)) < d \<longleftrightarrow> hd (entity (table ! i)) \<le> c"
    if "i < length table" "c < d" "\<forall>x. isLetter x \<longrightarrow> x < d \<longrightarrow> x \<le> c" for i d
  proof
    assume "hd (entity (table ! i)) < d"
    then show "hd (entity (table ! i)) \<le> c" using letters [OF that(1)] that(3) by blast
  next
    assume "hd (entity (table ! i)) \<le> c"
    then show "hd (entity (table ! i)) < d" using that(2) by (rule le_less_trans)
  qed
  have upto: "i < entryIndex table d \<longleftrightarrow> i < length table \<and> hd (entity (table ! i)) \<le> c"
    if "isLetter d" "c < d" "\<forall>x. isLetter x \<longrightarrow> x < d \<longrightarrow> x \<le> c" for i d
    using between [of i d] that by (auto simp: entryIndex_less [OF ok that(1)])
  consider "0x41 \<le> c" "c < 0x5A" | "c = 0x5A" | "0x61 \<le> c" "c < 0x7A" | "c = 0x7A"
    using c by (auto simp: isLetter_def le_less)
  then show thesis
  proof cases
    case 1
    have n: "unat (c - 0x41) = unat c - 65" "65 \<le> unat c" "unat c < 90"
      using 1 by (simp_all add: unat_sub word_le_nat_alt word_less_nat_alt)
    then have u: "unat (c - 0x41) < 25" "unat (c - 0x41) < 26" by linarith+
    have "c \<le> 0x5A" using 1 by simp
    moreover from this have "c \<le> 0x7A" by (rule order.trans) simp
    ultimately have v: "c \<le> 0x5A" "c \<le> 0x7A" by (simp_all add: add.commute)
    have "c < 1 + c" "isLetter (1 + c)" "\<forall>x. isLetter x \<longrightarrow> x < 1 + c \<longrightarrow> x \<le> c"
      using 1 by (auto simp: isLetter_def word_le_nat_alt word_less_nat_alt unat_word_ariths)
    then show ?thesis
      by (intro result [of "entryIndex table (1 + c)"] upto)
        (use 1 u v in \<open>simp_all add: firstEntryStartingWith_def lastEntryStartingWith_def uppercaseOffset_def\<close>)
  next
    case 2
    have "i < entryIndex table 0x61 \<longleftrightarrow> i < length table \<and> hd (entity (table ! i)) \<le> c" for i
      by (rule upto) (use 2 in \<open>auto simp: isLetter_def\<close>)
    then show ?thesis
      by (rule result [rotated 2])
        (use 2 in \<open>simp_all add: firstEntryStartingWith_def lastEntryStartingWith_def uppercaseOffset_def\<close>)
  next
    case 3
    have n: "unat (c - 0x61) = unat c - 97" "97 \<le> unat c" "unat c < 122"
      using 3 by (simp_all add: unat_sub word_le_nat_alt word_less_nat_alt)
    then have u: "unat (c - 0x61) < 25" "unat (c - 0x61) < 26" by linarith+
    have "0x5A < c" by (rule less_le_trans [OF _ 3(1)]) simp
    then have v: "\<not> c \<le> 0x5A" "c \<le> 0x7A"
      using 3(2) by (simp_all add: not_le add.commute)
    have "c < 1 + c" "isLetter (1 + c)" "\<forall>x. isLetter x \<longrightarrow> x < 1 + c \<longrightarrow> x \<le> c"
      using 3 by (auto simp: isLetter_def word_le_nat_alt word_less_nat_alt unat_word_ariths)
    then show ?thesis
      by (intro result [of "entryIndex table (1 + c)"] upto)
        (use 3 u v in \<open>simp_all add: firstEntryStartingWith_def lastEntryStartingWith_def lowercaseOffset_def\<close>)
  next
    case 4
    have "i < length table \<longleftrightarrow> i < length table \<and> hd (entity (table ! i)) \<le> c" for i
      using letters [of i] letter_le 4 by auto
    then show ?thesis
      by (rule result [rotated 2])
        (use 4 in \<open>simp_all add: firstEntryStartingWith_def lastEntryStartingWith_def lowercaseOffset_def\<close>)
  qed
qed


section \<open>What the search knows\<close>

text \<open>After reading \<open>w\<close>: the entries that start with \<open>w\<close>, and the longest entry that \<open>w\<close> starts with.\<close>

definition longestMatch :: "HTMLEntityTableEntry list \<Rightarrow> uchar list \<Rightarrow> nat option \<Rightarrow> bool" where
  "longestMatch table w found \<longleftrightarrow>
     (case found of
        None \<Rightarrow> \<forall>i < length table. \<not> prefix (entity (table ! i)) w
      | Some i \<Rightarrow> i < length table \<and> prefix (entity (table ! i)) w \<and>
          (\<forall>j < length table. prefix (entity (table ! j)) w \<longrightarrow> length (entity (table ! j)) \<le> length (entity (table ! i))))"

definition searchedFor :: "HTMLEntityTableEntry list \<Rightarrow> uchar list \<Rightarrow> HTMLEntitySearch \<Rightarrow> bool" where
  "searchedFor table w s \<longleftrightarrow>
     m_currentLength s = length w \<and> longestMatch table w (m_mostRecentMatch s) \<and>
     (if w = [] then m_first s \<noteq> None
      else \<exists>f l. m_first s = Some f \<and> m_last s = Some l \<and> f \<le> l \<and> matching table w = {f..l})"

lemma newSearch_searched: "table_ok table \<Longrightarrow> searchedFor table [] (newSearch table)"
  by (auto simp: searchedFor_def newSearch_def longestMatch_def table_ok_def)

lemma longestMatch_snoc:
  assumes ok: "table_ok table" and old: "longestMatch table w found" and m: "matching table (w @ [c]) = {f..l}" "f \<le> l"
  shows "longestMatch table (w @ [c]) (if length (entity (table ! f)) \<noteq> length w + 1 then found else Some f)"
proof (cases "length (entity (table ! f)) = length w + 1")
  case True
  have "f \<in> matching table (w @ [c])" using m by simp
  then obtain u where u: "f < length table" "entity (table ! f) = (w @ [c]) @ u" by (auto simp: matching_def prefix_def)
  then have "u = []" using True by simp
  then have "entity (table ! f) = w @ [c]" using u by simp
  then show ?thesis using u(1) by (auto simp: longestMatch_def dest: prefix_length_le)
next
  case False
  have "entity (table ! i) \<noteq> w @ [c]" if "i < length table" for i
    using matching_first [OF ok m(1) that] False by auto
  then have same: "prefix (entity (table ! i)) (w @ [c]) \<longleftrightarrow> prefix (entity (table ! i)) w" if "i < length table" for i
    using that by simp
  show ?thesis
    using False old same by (auto simp: longestMatch_def split: option.splits)
qed

text \<open>A step goes on exactly when some entry does.\<close>

lemma advanceSearch_step:
  assumes ok: "table_ok table" and s: "searchedFor table w s"
  shows "isEntityPrefix (advanceSearch table s c) \<longleftrightarrow> matching table (w @ [c]) \<noteq> {}"
    and "isEntityPrefix (advanceSearch table s c) \<Longrightarrow> searchedFor table (w @ [c]) (advanceSearch table s c)"
    and "\<not> isEntityPrefix (advanceSearch table s c) \<Longrightarrow>
      m_currentLength (advanceSearch table s c) = m_currentLength s \<and>
      m_mostRecentMatch (advanceSearch table s c) = m_mostRecentMatch s"
proof -
  let ?t = "advanceSearch table s c"
  have none: "isEntityPrefix ?t \<longleftrightarrow> matching table (w @ [c]) \<noteq> {}" "\<not> isEntityPrefix ?t"
    "m_currentLength ?t = m_currentLength s \<and> m_mostRecentMatch ?t = m_mostRecentMatch s"
    if "?t = failSearch s'" "m_currentLength s' = m_currentLength s" "m_mostRecentMatch s' = m_mostRecentMatch s"
      "matching table (w @ [c]) = {}" for s'
    using that by (auto simp: isEntityPrefix_def failSearch_def)
  have some: "isEntityPrefix ?t \<longleftrightarrow> matching table (w @ [c]) \<noteq> {}" "isEntityPrefix ?t" "searchedFor table (w @ [c]) ?t"
    if m: "matching table (w @ [c]) = {f..l}" "f \<le> l"
      and t: "?t = (if length (entity (table ! f)) \<noteq> length w + 1 then s' else s'\<lparr>m_mostRecentMatch := Some f\<rparr>)"
      and s': "m_first s' = Some f" "m_last s' = Some l" "m_currentLength s' = length w + 1"
        "m_mostRecentMatch s' = m_mostRecentMatch s" for f l s'
    using longestMatch_snoc [OF ok _ m] s m s' t
    by (auto simp: isEntityPrefix_def searchedFor_def)
  have "(isEntityPrefix ?t \<longleftrightarrow> matching table (w @ [c]) \<noteq> {}) \<and>
      (isEntityPrefix ?t \<longrightarrow> searchedFor table (w @ [c]) ?t) \<and>
      (\<not> isEntityPrefix ?t \<longrightarrow> m_currentLength ?t = m_currentLength s \<and> m_mostRecentMatch ?t = m_mostRecentMatch s)"
  proof (cases "w = []")
    case w: True
    then have len: "m_currentLength s = 0" using s by (simp add: searchedFor_def)
    show ?thesis
    proof (cases "isLetter c")
      case True
      then obtain f l where fl: "firstEntryStartingWith table c = Some f" "lastEntryStartingWith table c = Some l"
        "f \<le> l" "matching table [c] = {f..l}" by (rule letter_bounds [OF ok])
      show ?thesis
        using some [of f l "s\<lparr>m_first := Some f, m_last := Some l, m_currentLength := 1\<rparr>"] fl len w
        by (simp add: advanceSearch_def)
    next
      case False
      then have "matching table (w @ [c]) = {}"
        using ok w nth_mem by (fastforce simp: matching_def prefix_def table_ok_def)
      moreover have "firstEntryStartingWith table c = None" using False firstEntry_letter by blast
      ultimately show ?thesis
        using none [of "s\<lparr>m_first := None, m_last := lastEntryStartingWith table c\<rparr>"] len
        by (simp add: advanceSearch_def failSearch_def)
    qed
  next
    case w: False
    then obtain f l where fl: "m_first s = Some f" "m_last s = Some l" "f \<le> l" "matching table w = {f..l}"
      and len: "m_currentLength s = length w" using s by (auto simp: searchedFor_def)
    let ?f = "findFirst table (length w) c f l" and ?l = "findLast table (length w) c (findFirst table (length w) c f l) l"
    note found = searches_find [OF matching_probes [OF ok fl(4)] fl(3) refl refl, of c, folded fl(4)]
    show ?thesis
    proof (cases "?f = ?l \<and> compareEntry table (length w) ?f c \<noteq> Prefix")
      case True
      then have "matching table (w @ [c]) = {}" using found by (auto simp: matching_snoc)
      then show ?thesis
        using True none [of "s\<lparr>m_first := Some ?f, m_last := Some ?l\<rparr>"] fl len w
        by (simp add: advanceSearch_def Let_def failSearch_def)
    next
      case False
      then have "matching table (w @ [c]) = {?f..?l}" "?f \<le> ?l" using found by (auto simp: matching_snoc)
      then show ?thesis
        using False some [of ?f ?l "s\<lparr>m_first := Some ?f, m_last := Some ?l, m_currentLength := length w + 1\<rparr>"] fl len w
        by (auto simp: advanceSearch_def Let_def)
    qed
  qed
  then show "isEntityPrefix ?t \<longleftrightarrow> matching table (w @ [c]) \<noteq> {}"
    and "isEntityPrefix ?t \<Longrightarrow> searchedFor table (w @ [c]) ?t"
    and "\<not> isEntityPrefix ?t \<Longrightarrow> m_currentLength ?t = m_currentLength s \<and> m_mostRecentMatch ?t = m_mostRecentMatch s"
    by blast+
qed


section \<open>Searching a list of characters\<close>

fun accepted :: "HTMLEntityTableEntry list \<Rightarrow> HTMLEntitySearch \<Rightarrow> uchar list \<Rightarrow> nat" where
  "accepted table s [] = 0"
| "accepted table s (c # cs) =
     (if isEntityPrefix (advanceSearch table s c) then Suc (accepted table (advanceSearch table s c) cs) else 0)"

lemma accepted_le: "accepted table s cs \<le> length cs"
  by (induction cs arbitrary: s) auto

definition searched :: "HTMLEntityTableEntry list \<Rightarrow> HTMLEntitySearch \<Rightarrow> uchar list \<Rightarrow> HTMLEntitySearch" where
  "searched table s cs = foldl (advanceSearch table) s (take (Suc (accepted table s cs)) cs)"

lemma matching_append: "matching table (w @ v) \<subseteq> matching table w"
  by (auto simp: matching_def dest: append_prefixD)

lemma longestMatch_append:
  assumes "longestMatch table w found" "matching table (w @ [c]) = {}"
  shows "longestMatch table (w @ c # cs) found"
proof -
  have "prefix (entity (table ! i)) (w @ c # cs) \<longleftrightarrow> prefix (entity (table ! i)) w" if "i < length table" for i
  proof
    assume "prefix (entity (table ! i)) (w @ c # cs)"
    moreover have "\<not> prefix (w @ [c]) (entity (table ! i))" using assms(2) that by (auto simp: matching_def)
    moreover have "prefix (w @ [c]) (w @ c # cs)" by simp
    ultimately have "prefix (entity (table ! i)) (w @ [c])" using prefix_same_cases by blast
    then show "prefix (entity (table ! i)) w"
      using \<open>\<not> prefix (w @ [c]) (entity (table ! i))\<close> by auto
  qed (auto simp: prefix_def)
  then show ?thesis using assms(1) by (auto simp: longestMatch_def split: option.splits)
qed

lemma search_from:
  assumes ok: "table_ok table" and s: "searchedFor table w s"
  shows "m_currentLength (searched table s cs) = length w + accepted table s cs \<and>
    longestMatch table (w @ cs) (m_mostRecentMatch (searched table s cs)) \<and>
    (\<forall>j \<le> length cs. 0 < j \<longrightarrow> (j \<le> accepted table s cs \<longleftrightarrow> matching table (w @ take j cs) \<noteq> {}))"
  using s
proof (induction cs arbitrary: w s)
  case Nil
  then show ?case by (simp add: searched_def searchedFor_def)
next
  case (Cons c cs)
  note step = advanceSearch_step [OF ok Cons.prems, of c]
  show ?case
  proof (cases "isEntityPrefix (advanceSearch table s c)")
    case True
    note IH = Cons.IH [OF step(2) [OF True]]
    have "j \<le> Suc (accepted table (advanceSearch table s c) cs) \<longleftrightarrow> matching table (w @ take j (c # cs)) \<noteq> {}"
      if "j \<le> Suc (length cs)" "0 < j" for j
    proof (cases j)
      case (Suc i)
      then show ?thesis using IH that step(1) True by (cases i) auto
    qed (use that in simp)
    then show ?thesis using True IH by (simp add: searched_def)
  next
    case False
    then have none: "matching table (w @ [c]) = {}" using step(1) by simp
    have "matching table (w @ take j (c # cs)) = {}" if "0 < j" for j
      using none that matching_append [of table "w @ [c]" "take (j - 1) cs"] by (cases j) auto
    then show ?thesis
      using False step(3) Cons.prems longestMatch_append [OF _ none]
      by (simp add: searched_def searchedFor_def)
  qed
qed

text \<open>
  Searching \<open>cs\<close> accepts the longest beginning of \<open>cs\<close> that some entry starts with, and finds the
  longest entry that \<open>cs\<close> starts with.
\<close>

lemma search_spec:
  fixes cs :: "uchar list"
  assumes ok: "table_ok table"
  defines "k \<equiv> accepted table (newSearch table) cs" and "s \<equiv> searched table (newSearch table) cs"
  shows "m_currentLength s = k" "longestMatch table cs (m_mostRecentMatch s)"
    and "0 < j \<Longrightarrow> j \<le> length cs \<Longrightarrow> j \<le> k \<longleftrightarrow> matching table (take j cs) \<noteq> {}"
  using search_from [OF ok newSearch_searched [OF ok], of cs] by (simp_all add: k_def s_def)

lemma longestMatch_unique:
  assumes "table_ok table" "longestMatch table cs (Some i)" "longestMatch table cs (Some j)"
  shows "i = j"
proof -
  have "prefix (entity (table ! i)) cs" "prefix (entity (table ! j)) cs" "i < length table" "j < length table"
    "length (entity (table ! i)) = length (entity (table ! j))"
    using assms(2,3) by (auto simp: longestMatch_def intro: order.antisym)
  then have "entity (table ! i) = entity (table ! j)" "i < length table" "j < length table"
    by (auto simp: prefix_def append_eq_append_conv)
  then show ?thesis using table_sorted [OF assms(1)] by (metis less_irrefl linorder_neqE_nat)
qed

lemma accepted_nonzero:
  assumes ok: "table_ok table"
  shows "0 \<notin> set (take (accepted table (newSearch table) cs) cs)"
proof (cases "accepted table (newSearch table) cs = 0")
  case False
  then have "matching table (take (accepted table (newSearch table) cs) cs) \<noteq> {}"
    using search_spec(3) [OF ok, of "accepted table (newSearch table) cs" cs] accepted_le by auto
  then show ?thesis using ok set_mono_prefix by (fastforce simp: matching_def table_ok_def)
qed simp

end
