(* ===== verification/Entity_Parsing.thy ===== *)
theory Entity_Parsing
  imports Entity_Search
begin

text \<open>
  What \<open>consumeHTMLEntity\<close> does to the source: \<open>len\<close> is the number of characters left, \<open>putBack s k\<close> the
  source after \<open>k\<close> characters were read and pushed back. A named reference is described by what is
  readable alone (\<open>consumeNamedEntity_eq\<close>); no reference leaves more characters than it found.
\<close>

section \<open>What a source operation may do\<close>

definition len :: "SegmentedString \<Rightarrow> nat" where
  "len s = length (v_chars (viewOf s))"

definition shrinks :: "nat \<Rightarrow> SegmentedString \<Rightarrow> SegmentedString \<Rightarrow> bool" where
  "shrinks n s t \<longleftrightarrow> string_invar t \<and> len t \<le> len s + n \<and> m_closed t = m_closed s"

lemma shrinks_refl: "string_invar s \<Longrightarrow> shrinks n s s"
  by (simp add: shrinks_def)

lemma shrinks_trans: "shrinks n s t \<Longrightarrow> shrinks m t u \<Longrightarrow> shrinks (n + m) s u"
  by (simp add: shrinks_def)

lemma closed_view: "m_closed s = v_closed (viewOf s)"
  by (simp add: viewOf_def)

lemma v_advance_closed [simp]: "v_closed (v_advance v) = v_closed v"
  by (auto simp: v_advance_def split: list.split)

lemma len_advance:
  assumes "string_invar s"
  shows "len (advance s) = len s - 1" "len (advanceAndUpdateLineNumber s) = len s - 1"
    "len (advancePastNewlineAndUpdateLineNumber s) = len s - 1"
  using assms advance_view [OF assms] advancePastNewline_view [OF assms] v_advance_chars [OF view_ok [OF assms]]
  by (simp_all add: len_def)

lemma shrinks_advance:
  assumes "string_invar s"
  shows "shrinks 0 s (advance s)" "shrinks 0 s (advanceAndUpdateLineNumber s)"
    "shrinks 0 s (advancePastNewlineAndUpdateLineNumber s)"
  using assms advance_view [OF assms] advancePastNewline_view [OF assms] len_advance [OF assms]
  by (simp_all add: shrinks_def closed_view)

lemma len_empty: "string_invar s \<Longrightarrow> \<not> m_empty s \<Longrightarrow> 0 < len s"
  by (auto simp: isEmpty_view len_def v_chars_def)

lemma push_view':
  assumes "string_invar s" "c \<noteq> 0 \<or> m_pushedChar1 s \<noteq> 0"
  shows "string_invar (push s c) \<and> viewOf (push s c) = v_push (viewOf s) c"
proof (cases "c = 0")
  case True
  then have p: "m_pushedChar1 s \<noteq> 0" using assms by simp
  then have "pointers (push s 0) = pointers s" "advance_functions (push s 0) = advance_functions s"
    by (simp_all add: push_def pointers_def advance_functions_def)
  then show ?thesis
    using p assms(1) True
    by (simp add: string_invar_def) (simp add: push_def currentStringChar_def viewOf_def v_push_def)
qed (use push_view assms in blast)

definition v_unconsume :: "Stream \<Rightarrow> uchar list \<Rightarrow> Stream" where
  "v_unconsume v consumed =
     (if length consumed = 1 then v_push v (consumed ! 0)
      else if length consumed = 2 then v_push (v_push v (consumed ! 0)) (consumed ! 1)
      else v_prepend v consumed)"

definition pushable :: "SegmentedString \<Rightarrow> uchar list \<Rightarrow> bool" where
  "pushable s consumed \<longleftrightarrow> consumed = [] \<or> hd consumed \<noteq> 0 \<or> m_pushedChar1 s \<noteq> 0"

lemma unconsume_view:
  assumes "string_invar s" "pushable s consumed"
  shows "string_invar (unconsumeCharacters s consumed) \<and>
    viewOf (unconsumeCharacters s consumed) = v_unconsume (viewOf s) consumed"
proof -
  consider c where "consumed = [c]" | c d where "consumed = [c, d]" | "length consumed \<noteq> 1" "length consumed \<noteq> 2"
    by (cases consumed rule: remdups_adj.cases) auto
  then show ?thesis
  proof cases
    case 1
    then show ?thesis
      using assms push_view' [of s c] by (auto simp: unconsumeCharacters_def v_unconsume_def pushable_def)
  next
    case 2
    then have 1: "string_invar (push s c)" "viewOf (push s c) = v_push (viewOf s) c"
      using assms push_view' [of s c] by (auto simp: pushable_def)
    have "m_pushedChar1 (push s c) \<noteq> 0"
      using 2 assms by (auto simp: pushable_def push_def Let_def updateSlowCaseFunctionPointers_def)
    then show ?thesis
      using 1 2 push_view' [of "push s c" d] by (simp add: unconsumeCharacters_def v_unconsume_def)
  next
    case 3
    then show ?thesis
      using assms prependSegmentedString_view by (simp add: unconsumeCharacters_def v_unconsume_def)
  qed
qed

lemma v_push_length: "view_ok v \<Longrightarrow> length (v_chars (v_push v c)) \<le> length (v_chars v) + 1 \<and> view_ok (v_push v c)"
  by (auto simp: v_chars_def v_push_def view_ok_def)

lemma v_unconsume_length: "view_ok v \<Longrightarrow> length (v_chars (v_unconsume v w)) \<le> length (v_chars v) + length w"
  using v_push_length [of v "w ! 0"] v_push_length [of "v_push v (w ! 0)" "w ! 1"]
  by (auto simp: v_unconsume_def v_prepend_def v_chars_def)

lemma v_push_closed [simp]: "v_closed (v_push v c) = v_closed v" "v_closed (v_unconsume v w) = v_closed v"
  by (simp_all add: v_push_def v_unconsume_def v_prepend_def)

lemma shrinks_unconsume:
  "string_invar s \<Longrightarrow> pushable s w \<Longrightarrow> shrinks (length w) s (unconsumeCharacters s w)"
  using unconsume_view [of s w] v_unconsume_length [OF view_ok, of s w] by (simp add: shrinks_def len_def closed_view)

lemma shrinks_push: "string_invar s \<Longrightarrow> c \<noteq> 0 \<Longrightarrow> shrinks 1 s (push s c)"
  using push_view [of s c] v_push_length [OF view_ok, of s c] by (simp add: shrinks_def len_def closed_view)

section \<open>Character references consume\<close>

lemma advanceSearch_letter:
  "m_currentLength s = 0 \<Longrightarrow> isEntityPrefix (advanceSearch table s c) \<Longrightarrow> c \<noteq> 0"
  by (auto simp: advanceSearch_def isEntityPrefix_def failSearch_def firstEntryStartingWith_def Let_def
      split: option.splits if_splits)


section \<open>What a loop over the source reads\<close>

text \<open>The characters that can be read before \<open>isEmpty\<close> says stop.\<close>

definition readable :: "SegmentedString \<Rightarrow> uchar list" where
  "readable s = (if v_rest (viewOf s) = [] then [] else v_chars (viewOf s))"

lemma readable_empty: "string_invar s \<Longrightarrow> m_empty s \<longleftrightarrow> readable s = []"
  by (auto simp: readable_def isEmpty_view v_chars_def)

lemma readable_current: "string_invar s \<Longrightarrow> readable s = c # cs \<Longrightarrow> m_currentChar s = c"
  by (auto simp: readable_def current_view v_current_chars split: if_splits)

lemma readable_advance:
  assumes "string_invar s" "readable s \<noteq> []"
  shows "readable (advance s) = tl (readable s)"
proof -
  have "view_ok (viewOf s)" using assms view_ok by blast
  then show ?thesis
    using assms advance_view(1) [OF assms(1)] v_advance_chars [of "viewOf s"]
    by (auto simp: readable_def) (auto simp: v_advance_def v_chars_def view_ok_def split: list.splits if_splits)
qed

lemma readable_length: "length (readable s) \<le> len s"
  by (simp add: readable_def len_def)

lemma namedEntityLoop_eq:
  assumes "string_invar s" "length (readable s) \<le> n"
  shows "namedEntityLoop table n search consumed cc s =
    (let cs = readable s; k = accepted table search cs
     in (searched table search cs, consumed @ take k cs,
         last (cc # take (Suc k) cs), (advance ^^ k) s))"
  using assms
proof (induction table n search consumed cc s rule: namedEntityLoop.induct)
  case (1 table search consumed cc s)
  then show ?case by (simp add: searched_def)
next
  case (2 table n search consumed cc s)
  show ?case
  proof (cases "readable s")
    case Nil
    then show ?thesis using 2 readable_empty by (simp add: searched_def)
  next
    case (Cons c cs)
    then have c: "m_currentChar s = c" "\<not> m_empty s" using 2 readable_current readable_empty by auto
    show ?thesis
    proof (cases "isEntityPrefix (advanceSearch table search c)")
      case False
      then show ?thesis using Cons c by (simp add: searched_def)
    next
      case True
      have r: "readable (advance s) = cs" using readable_advance 2 Cons by simp
      have "namedEntityLoop table n (advanceSearch table search c) (consumed @ [c]) c (advance s) =
        (let cs = readable (advance s); k = accepted table (advanceSearch table search c) cs
         in (searched table (advanceSearch table search c) cs, (consumed @ [c]) @ take k cs,
           last (c # take (Suc k) cs), (advance ^^ k) (advance s)))"
        by (rule "2.IH" [OF c(2) refl refl, unfolded c(1)]) (use True Cons c "2.prems" r plain.step in auto)
      then show ?thesis
        using True Cons c by (simp add: Let_def r funpow_swap1 searched_def)
    qed
  qed
qed


section \<open>Putting characters pb\<close>

lemma readable_take: "k \<le> length (readable s) \<Longrightarrow> take k (readable s) = take k (v_chars (viewOf s))"
  by (auto simp: readable_def split: if_splits)

lemma advances_view:
  "string_invar s \<Longrightarrow> string_invar ((advance ^^ k) s) \<and> v_chars (viewOf ((advance ^^ k) s)) = drop k (v_chars (viewOf s)) \<and>
     m_closed ((advance ^^ k) s) = m_closed s"
  using plain.steps [of s k] advances_chars [OF view_ok, of s k] by (simp add: closed_view)

definition putBack :: "SegmentedString \<Rightarrow> nat \<Rightarrow> SegmentedString" where
  "putBack s k = unconsumeCharacters ((advance ^^ k) s) (take k (v_chars (viewOf s)))"

lemma putBack_0: "string_invar s \<Longrightarrow> string_invar (putBack s 0) \<and> viewOf (putBack s 0) = viewOf s"
  using prependSegmentedString_view [of s False "[]"]
  by (simp add: putBack_def unconsumeCharacters_def v_prepend_def)

lemma v_advance_twice:
  "view_ok v \<Longrightarrow> v_chars v = c # d # w \<Longrightarrow>
     v_pushed1 (v_advance (v_advance v)) = 0 \<and> v_pushed2 (v_advance (v_advance v)) = 0 \<and> v_rest (v_advance (v_advance v)) = w"
  by (auto simp: v_chars_def v_advance_def view_ok_def split: list.splits if_splits)

lemma v_putBack:
  assumes ok: "view_ok v" and n: "k \<le> length (v_chars v)" "k \<noteq> 1 \<or> v_pushed2 v = 0" "0 \<notin> set (take k (v_chars v))"
  shows "v_chars (v_unconsume ((v_advance ^^ k) v) (take k (v_chars v))) = v_chars v"
proof -
  consider "k = 0" | "k = 1" | "k = 2" | "2 < k" by linarith
  then show ?thesis
  proof cases
    case 2
    with n obtain c w where "v_chars v = c # w" "c \<noteq> 0" by (cases "v_chars v") auto
    with 2 n show ?thesis
      by (auto simp: v_unconsume_def v_push_def v_chars_def v_advance_def view_ok_def split: list.splits if_splits)
  next
    case 3
    with n obtain c d w where w: "v_chars v = c # d # w" "c \<noteq> 0" "d \<noteq> 0"
      by (cases "v_chars v" rule: remdups_adj.cases) auto
    show ?thesis
      using v_advance_twice [OF ok w(1)] w 3
      by (simp add: v_unconsume_def numeral_2_eq_2 v_push_def) (simp add: v_chars_def)
  next
    case 4
    then have "v_unconsume ((v_advance ^^ k) v) (take k (v_chars v)) = v_unescape v"
      using advances_prepend [OF ok, of k] n by (simp add: v_unconsume_def)
    then show ?thesis by (simp add: v_unescape_chars)
  qed (simp_all add: v_unconsume_def v_prepend_def v_chars_def)
qed


lemma readable_advances:
  "string_invar s \<Longrightarrow> k \<le> length (readable s) \<Longrightarrow> readable ((advance ^^ k) s) = drop k (readable s)"
proof (induction k)
  case (Suc k)
  then have "readable ((advance ^^ k) s) = drop k (readable s)" by simp
  then show ?case
    using readable_advance [of "(advance ^^ k) s"] plain.steps_invar [OF Suc.prems(1), of k] Suc.prems
    by (simp add: tl_drop drop_Suc)
qed simp

lemma putBack_view:
  assumes inv: "string_invar s" and k: "k \<le> length (v_chars (viewOf s))" "0 \<notin> set (take k (v_chars (viewOf s)))"
  shows "string_invar (putBack s k)" "len (putBack s k) \<le> len s" "m_closed (putBack s k) = m_closed s"
    and "k \<noteq> 1 \<or> m_pushedChar2 s = 0 \<Longrightarrow> v_chars (viewOf (putBack s k)) = v_chars (viewOf s)"
proof -
  let ?w = "take k (v_chars (viewOf s))" and ?t = "(advance ^^ k) s"
  have t: "string_invar ?t" "viewOf ?t = (v_advance ^^ k) (viewOf s)" using plain.steps [OF inv] by auto
  have p: "pushable ?t ?w"
    using k(2) by (cases "?w") (auto simp: pushable_def)
  have u: "string_invar (putBack s k)" "viewOf (putBack s k) = v_unconsume ((v_advance ^^ k) (viewOf s)) ?w"
    using unconsume_view [OF t(1) p] t(2) by (simp_all add: putBack_def)
  show "string_invar (putBack s k)" by (rule u)
  show "len (putBack s k) \<le> len s"
    using v_unconsume_length [OF view_ok [OF t(1)], of ?w] advances_view [OF inv, of k] k u t by (simp add: len_def)
  show "m_closed (putBack s k) = m_closed s"
    using u t by (simp add: closed_view)
  show "v_chars (viewOf (putBack s k)) = v_chars (viewOf s)" if "k \<noteq> 1 \<or> m_pushedChar2 s = 0"
    using v_putBack [OF view_ok [OF inv] k(1) _ k(2)] that u by (simp add: viewOf_def)
qed

section \<open>Named references\<close>

definition decodeEntry :: "HTMLEntityTableEntry \<Rightarrow> uchar list" where
  "decodeEntry e =
     (let decoded = appendUChar32 [] (firstValue e)
      in if secondValue e \<noteq> 0 then appendUChar32 decoded (secondValue e) else decoded)"

definition endsReference :: "HTMLEntityTableEntry \<Rightarrow> uchar \<Rightarrow> uchar \<Rightarrow> bool" where
  "endsReference e additional cc \<longleftrightarrow> lastCharacter e = 0x3B \<or> additional = 0 \<or> \<not> (isAlphaNumeric cc \<or> cc = 0x3D)"

lemma match_length:
  assumes ok: "table_ok table" and found: "m_mostRecentMatch (searched table (newSearch table) cs) = Some i"
  shows "i < length table" "prefix (entity (table ! i)) cs" "0 < length (entity (table ! i))"
    "length (entity (table ! i)) \<noteq> 1"
    "length (entity (table ! i)) \<le> accepted table (newSearch table) cs"
proof -
  let ?n = "length (entity (table ! i))"
  have "longestMatch table cs (Some i)" using search_spec(2) [OF ok, of cs] found by simp
  then show i: "i < length table" "prefix (entity (table ! i)) cs" by (auto simp: longestMatch_def)
  then show n: "0 < ?n" and "?n \<noteq> 1" using ok by (auto simp: table_ok_def)
  have "take ?n cs = entity (table ! i)" using i(2) by (auto simp: prefix_def)
  then have "i \<in> matching table (take ?n cs)" using i by (simp add: matching_def)
  then show "?n \<le> accepted table (newSearch table) cs"
    using search_spec(3) [OF ok n, of cs] prefix_length_le [OF i(2)] by auto
qed

lemma consumeNamedEntity_eq:
  assumes ok: "table_ok table" and inv: "string_invar s"
  defines "cs \<equiv> readable s"
  defines "k \<equiv> accepted table (newSearch table) cs"
  shows "consumeNamedEntity table s additional cc =
    (if k = length cs then (False, [], True, putBack s k)
     else case m_mostRecentMatch (searched table (newSearch table) cs) of
         None \<Rightarrow> (False, [], False, putBack s k)
       | Some i \<Rightarrow>
           let n = length (entity (table ! i))
           in if endsReference (table ! i) additional (cs ! n) then
                (True, decodeEntry (table ! i), False, (advance ^^ n) (if n = k then s else putBack s k))
              else (False, [], False, if n = k then putBack s k else putBack (putBack s k) n))"
proof -
  let ?search = "searched table (newSearch table) cs" and ?u = "(advance ^^ k) s"
  have k: "k \<le> length cs" by (simp add: k_def accepted_le)
  have chars: "take j cs = take j (v_chars (viewOf s))" if "j \<le> length cs" for j
    using readable_take that by (simp add: cs_def)
  have loop: "namedEntityLoop table (SegmentedString_length s) (newSearch table) [] cc s =
      (?search, take k cs, last (cc # take (Suc k) cs), ?u)"
    using namedEntityLoop_eq [OF inv, of "SegmentedString_length s" table "newSearch table" "[]" cc]
      readable_length [of s] length_view [OF inv]
    by (simp add: cs_def k_def len_def Let_def)
  have atEnd: "m_empty ?u \<longleftrightarrow> k = length cs"
    using readable_empty [OF plain.steps_invar [OF inv]] readable_advances [OF inv] k by (auto simp: cs_def)
  have pb: "unconsumeCharacters ?u (take k cs) = putBack s k" by (simp add: putBack_def chars k)
  show ?thesis
  proof (cases "k = length cs")
    case True
    then show ?thesis using loop atEnd pb by (simp add: consumeNamedEntity_def)
  next
    case False
    then have k': "k < length cs" using k by simp
    have nx: "last (cc # take (Suc k) cs) = cs ! k"
      using k' by (simp add: take_Suc_conv_app_nth)
    show ?thesis
    proof (cases "m_mostRecentMatch ?search")
      case None
      then show ?thesis using loop atEnd pb False by (simp add: consumeNamedEntity_def)
    next
      case (Some i)
      let ?n = "length (entity (table ! i))"
      have n: "0 < ?n" "?n \<le> k" using match_length [OF ok Some] by (simp_all add: k_def)
      have cur: "m_currentLength ?search = k" using search_spec(1) [OF ok] by (simp add: k_def)
      show ?thesis
      proof (cases "?n = k")
        case True
        then show ?thesis
          using loop atEnd pb False Some cur nx
          by (simp add: consumeNamedEntity_def endsReference_def decodeEntry_def Let_def)
      next
        case shorter: False
        let ?p = "putBack s k"
        have nz: "0 \<notin> set (take k (v_chars (viewOf s)))"
          using accepted_nonzero [OF ok, of cs] chars [OF k] by (simp add: k_def)
        have le: "k \<le> length (v_chars (viewOf s))" using k readable_length [of s] by (simp add: cs_def len_def)
        note pv = putBack_view [OF inv le nz]
        have pc: "v_chars (viewOf ?p) = v_chars (viewOf s)" by (rule pv(4)) (use n shorter in linarith)
        have count: "advanceCount ?n ?p = (take ?n (v_chars (viewOf ?p)), (advance ^^ ?n) ?p)"
          by (rule advanceCount_view [OF pv(1)]) (use pc n le in simp)
        have "m_currentChar ((advance ^^ ?n) ?p) = v_chars (viewOf s) ! ?n"
          using plain.current [OF plain.steps_invar [OF pv(1)]] advances_view [OF pv(1), of ?n] pc n le shorter
          by (simp add: v_current_chars Cons_nth_drop_Suc [symmetric])
        also have "\<dots> = cs ! ?n"
          using arg_cong [OF chars [OF order_refl], of "\<lambda>w. w ! ?n"] n k' by simp
        finally have cur': "m_currentChar ((advance ^^ ?n) ?p) = cs ! ?n" .
        have pb': "unconsumeCharacters ((advance ^^ ?n) ?p) (take ?n (v_chars (viewOf ?p))) = putBack ?p ?n"
          by (simp add: putBack_def)
        show ?thesis
          using loop atEnd pb False Some cur shorter count cur' pb'
          by (simp add: consumeNamedEntity_def endsReference_def decodeEntry_def Let_def)
      qed
    qed
  qed
qed


section \<open>Character references\<close>

definition resultSource :: "entity_result \<Rightarrow> SegmentedString" where
  "resultSource r = snd (snd (snd r))"

lemma resultSource_simp [simp]: "resultSource (b, w, n, s) = s"
  by (simp add: resultSource_def)

lemma named_shrinks:
  assumes ok: "table_ok table" and inv: "string_invar s"
  shows "shrinks 0 s (resultSource (consumeNamedEntity table s additional cc))"
proof -
  define cs where "cs = readable s"
  define k where "k = accepted table (newSearch table) cs"
  have k: "k \<le> length cs" by (simp add: k_def accepted_le)
  have le: "k \<le> length (v_chars (viewOf s))" using k readable_length [of s] by (simp add: cs_def len_def)
  have nz: "0 \<notin> set (take k (v_chars (viewOf s)))"
    using accepted_nonzero [OF ok, of cs] readable_take [OF k [unfolded cs_def]] by (simp add: k_def cs_def)
  note pv = putBack_view [OF inv le nz]
  have p: "shrinks 0 s (putBack s k)" using pv by (simp add: shrinks_def)
  have a: "shrinks 0 t ((advance ^^ n) t)" if "string_invar t" for t n
    using advances_view [OF that] by (simp add: shrinks_def len_def)
  have pn: "shrinks 0 s (putBack (putBack s k) n)" if "0 < n" "n \<le> k" "n \<noteq> k" for n
  proof -
    have pc: "v_chars (viewOf (putBack s k)) = v_chars (viewOf s)" by (rule pv(4)) (use that in linarith)
    have "0 \<notin> set (take n (v_chars (viewOf s)))"
      using nz set_take_subset_set_take [OF that(2), of "v_chars (viewOf s)"] by blast
    then have "shrinks 0 (putBack s k) (putBack (putBack s k) n)"
      using putBack_view [OF pv(1), of n] pc le that by (simp add: shrinks_def)
    then show ?thesis using shrinks_trans [OF p] by simp
  qed
  have pa: "shrinks 0 s ((advance ^^ n) (putBack s k))" for n
    using shrinks_trans [OF p a [OF pv(1)]] by simp
  show ?thesis
  proof (cases "m_mostRecentMatch (searched table (newSearch table) cs)")
    case None
    then show ?thesis
      unfolding consumeNamedEntity_eq [OF ok inv] cs_def [symmetric] k_def [symmetric]
      using p by (auto simp: resultSource_def)
  next
    case (Some i)
    have "0 < length (entity (table ! i))" "length (entity (table ! i)) \<le> k"
      using match_length [OF ok Some] by (simp_all add: k_def)
    then show ?thesis
      unfolding consumeNamedEntity_eq [OF ok inv] cs_def [symmetric] k_def [symmetric]
      using Some p pa pn [of "length (entity (table ! i))"] a [OF inv] by (auto simp: Let_def)
  qed
qed

lemma shrinks_unread:
  assumes "string_invar s" "0 \<notin> set w"
  shows "shrinks (length w) s (unconsumeCharacters s w)"
  using shrinks_unconsume [OF assms(1), of w] assms(2) by (cases w) (auto simp: pushable_def)

definition readSoFar :: "EntityState \<Rightarrow> uchar list \<Rightarrow> bool" where
  "readSoFar st w \<longleftrightarrow> 0 \<notin> set w \<and>
     (case st of Initial \<Rightarrow> w = [] | Named \<Rightarrow> w = [] | Number \<Rightarrow> w = [0x23]
      | MaybeHexLowerCaseX \<Rightarrow> w = [0x23, 0x78] | MaybeHexUpperCaseX \<Rightarrow> w = [0x23, 0x58] | _ \<Rightarrow> True)"

lemma reference_shrinks:
  assumes "table_ok table" "string_invar s" "readSoFar st w"
  shows "shrinks (length w) s (resultSource (characterReferenceLoop table additional n st result w s))"
  using assms(2,3)
proof (induction n arbitrary: st result w s)
  case 0
  then show ?case using shrinks_unread by (simp add: resultSource_def readSoFar_def)
next
  case (Suc n)
  let ?c = "m_currentChar s"
  show ?case
  proof (cases "m_empty s")
    case True
    then show ?thesis using Suc.prems shrinks_unread by (simp add: resultSource_def readSoFar_def)
  next
    case False
    have more: "shrinks (length w) s (resultSource (characterReferenceLoop table additional n st' r (w @ [?c]) (advance s)))"
      if "readSoFar st' (w @ [?c])" for st' r
      using Suc.IH [OF _ that, of "advance s" r] plain.step [OF Suc.prems(1)] len_advance(1) [OF Suc.prems(1)]
        len_empty [OF Suc.prems(1) False] shrinks_advance(1) [OF Suc.prems(1)]
      by (auto simp: shrinks_def)
    note same = Suc.IH [OF Suc.prems(1)]
    note adv = shrinks_advance(1) [OF Suc.prems(1)]
    have p1: "shrinks 1 s (push s 0x23)" by (rule shrinks_push [OF Suc.prems(1)]) simp
    have p2: "shrinks (1 + 1) s (push (push s 0x23) c)" if "c \<noteq> 0" for c
      using shrinks_trans [OF p1 shrinks_push [OF _ that]] p1 by (simp add: shrinks_def)
    have keep: "shrinks (length w) s s" "shrinks (length w) s (advance s)"
      using adv Suc.prems(1) by (simp_all add: shrinks_def)
    show ?thesis
    proof (cases st)
      case Initial
      then show ?thesis
        using False Suc.prems(2) same [of Named "[]" result] more [of Number result] keep
        by (auto simp: readSoFar_def Let_def)
    next
      case Number
      then show ?thesis
        using False Suc.prems(2) same [of Decimal "[0x23]" result] more [of MaybeHexLowerCaseX result]
          more [of MaybeHexUpperCaseX result] p1
        by (auto simp: readSoFar_def Let_def)
    next
      case MaybeHexLowerCaseX
      then show ?thesis
        using False Suc.prems(2) same [of Hex "[0x23, 0x78]" result] p2
        by (auto simp: readSoFar_def Let_def)
    next
      case MaybeHexUpperCaseX
      then show ?thesis
        using False Suc.prems(2) same [of Hex "[0x23, 0x58]" result] p2
        by (auto simp: readSoFar_def Let_def)
    next
      case Hex
      moreover have "readSoFar Hex (w @ [?c])" if "isHexDigit ?c"
        using Suc.prems(2) that Hex by (auto simp: readSoFar_def isHexDigit_def)
      ultimately show ?thesis
        using False more [of Hex] keep by (auto simp: Let_def)
    next
      case Decimal
      moreover have "readSoFar Decimal (w @ [?c])" if "0x30 \<le> ?c"
        using Suc.prems(2) that Decimal by (auto simp: readSoFar_def)
      ultimately show ?thesis
        using False more [of Decimal] keep by (auto simp: Let_def)
    next
      case Named
      then show ?thesis
        using False Suc.prems named_shrinks [OF assms(1) Suc.prems(1)] by (simp add: readSoFar_def)
    qed
  qed
qed

lemma consumeHTMLEntity_shrinks:
  "table_ok table \<Longrightarrow> string_invar s \<Longrightarrow> shrinks 0 s (resultSource (consumeHTMLEntity table s additional))"
  using reference_shrinks [of table s Initial "[]"] by (simp add: consumeHTMLEntity_def readSoFar_def)

end
