(* ===== verification/HTML_Progress.thy ===== *)
theory HTML_Progress
  imports HTML_States Entity_Parsing
begin

text \<open>
  \<open>nextToken\<close> ends: the preprocessor needs a round for each character left (\<open>process_ends\<close>), every state
  consumes a character, returns, or leads to a state of lower \<open>rank\<close> (\<open>dispatch_progresses\<close>), so eight
  rounds for each character are enough (\<open>runStates_ends\<close>).
\<close>

text \<open>The states that only look at the character, and those that read the source themselves.\<close>

lemmas character_state_defs =
  inDataState_def inRCDATAState_def inRAWTEXTState_def inScriptDataState_def inPLAINTEXTState_def
  inTagOpenState_def inEndTagOpenState_def inTagNameState_def inRCDATALessThanSignState_def
  inRCDATAEndTagOpenState_def inRCDATAEndTagNameState_def inRAWTEXTLessThanSignState_def
  inRAWTEXTEndTagOpenState_def inRAWTEXTEndTagNameState_def inScriptDataLessThanSignState_def
  inScriptDataEndTagOpenState_def inScriptDataEndTagNameState_def inScriptDataEscapeStartState_def
  inScriptDataEscapeStartDashState_def inScriptDataEscapedState_def inScriptDataEscapedDashState_def
  inScriptDataEscapedDashDashState_def inScriptDataEscapedLessThanSignState_def
  inScriptDataEscapedEndTagOpenState_def inScriptDataEscapedEndTagNameState_def
  inScriptDataDoubleEscapeStartState_def inScriptDataDoubleEscapedState_def
  inScriptDataDoubleEscapedDashState_def inScriptDataDoubleEscapedDashDashState_def
  inScriptDataDoubleEscapedLessThanSignState_def inScriptDataDoubleEscapeEndState_def
  inBeforeAttributeNameState_def inAttributeNameState_def inAfterAttributeNameState_def
  inBeforeAttributeValueState_def inAttributeValueDoubleQuotedState_def
  inAttributeValueSingleQuotedState_def inAttributeValueUnquotedState_def
  inAfterAttributeValueQuotedState_def inSelfClosingStartTagState_def inBogusCommentState_def
  inContinueBogusCommentState_def inCommentStartState_def inCommentStartDashState_def inCommentState_def
  inCommentEndDashState_def inCommentEndState_def inCommentEndBangState_def inDOCTYPEState_def
  inBeforeDOCTYPENameState_def inDOCTYPENameState_def inAfterDOCTYPEPublicKeywordState_def
  inBeforeDOCTYPEPublicIdentifierState_def inDOCTYPEPublicIdentifierDoubleQuotedState_def
  inDOCTYPEPublicIdentifierSingleQuotedState_def inAfterDOCTYPEPublicIdentifierState_def
  inBetweenDOCTYPEPublicAndSystemIdentifiersState_def inAfterDOCTYPESystemKeywordState_def
  inBeforeDOCTYPESystemIdentifierState_def inDOCTYPESystemIdentifierDoubleQuotedState_def
  inDOCTYPESystemIdentifierSingleQuotedState_def inAfterDOCTYPESystemIdentifierState_def
  inBogusDOCTYPEState_def inCDATASectionState_def inCDATASectionRightSquareBracketState_def
  inCDATASectionDoubleRightSquareBracketState_def
  endTagOpenIn_def endTagNameIn_def

lemmas source_state_defs =
  inMarkupDeclarationOpenState_def inAfterDOCTYPENameState_def
  inCharacterReferenceInAttributeValueState_def inCharacterReferenceInDataState_def
  inCharacterReferenceInRCDATAState_def

section \<open>The preprocessor\<close>

definition inputOf :: "Machine \<Rightarrow> uchar \<Rightarrow> bool \<Rightarrow> SegmentedString \<Rightarrow> Machine" where
  "inputOf m c skip s = m\<lparr>m_nextInputCharacter := c, m_skipNextNewLine := skip, source := s\<rparr>"

lemma inputOf_simps [simp]:
  "source (inputOf m c skip s) = s" "m_nextInputCharacter (inputOf m c skip s) = c"
  "m_skipNextNewLine (inputOf m c skip s) = skip" "m_state (inputOf m c skip s) = m_state m"
  "token (inputOf m c skip s) = token m" "inputOf (inputOf m c' skip' s') c skip s = inputOf m c skip s"
  "shouldSkipNullCharacters (inputOf m c skip s) = shouldSkipNullCharacters m"
  by (simp_all add: inputOf_def shouldSkipNullCharacters_def)

lemma to_inputOf:
  "m\<lparr>m_nextInputCharacter := c\<rparr> = inputOf m c (m_skipNextNewLine m) (source m)"
  "m\<lparr>m_skipNextNewLine := b\<rparr> = inputOf m (m_nextInputCharacter m) b (source m)"
  "m\<lparr>source := s\<rparr> = inputOf m (m_nextInputCharacter m) (m_skipNextNewLine m) s"
  by (simp_all add: inputOf_def)

text \<open>The two halves of a round: skipping a line feed, then looking at the character.\<close>

lemma process_skip:
  assumes "m_nextInputCharacter m = 0x0A" "m_skipNextNewLine m"
  shows "processNextInputCharacter (Suc n) m =
    (let s = advancePastNewlineAndUpdateLineNumber (source m)
     in if m_empty s then Some (False, inputOf m 0x0A False s)
        else processNextInputCharacter (Suc n) (inputOf m (m_currentChar s) False s))"
  using assms by (simp add: Let_def to_inputOf)

lemma process_look:
  assumes "\<not> (m_nextInputCharacter m = 0x0A \<and> m_skipNextNewLine m)"
  shows "processNextInputCharacter (Suc n) m =
    (if m_nextInputCharacter m = 0x0D then Some (True, inputOf m 0x0A True (source m))
     else if m_nextInputCharacter m = 0 \<and> \<not> shouldTreatNullAsEndOfFileMarker (source m) then
       if shouldSkipNullCharacters m then
         let s = advance (source m)
         in if m_empty s then Some (False, inputOf m 0 False s)
            else processNextInputCharacter n (inputOf m (m_currentChar s) False s)
       else Some (True, inputOf m 0xFFFD False (source m))
     else Some (True, inputOf m (m_nextInputCharacter m) False (source m)))"
  unfolding processNextInputCharacter.simps if_not_P [OF assms]
  by (simp add: Let_def advancePastNonNewline_def to_inputOf)

text \<open>With a character to read and a round for each character left, the preprocessor ends.\<close>

definition inputEnds :: "Machine \<Rightarrow> (bool \<times> Machine) option \<Rightarrow> bool" where
  "inputEnds m r \<longleftrightarrow>
     (\<exists>ok c skip s. r = Some (ok, inputOf m c skip s) \<and> shrinks 0 (source m) s \<and> (ok \<longrightarrow> \<not> m_empty s))"

lemma inputEnds_later: "inputEnds (inputOf m c skip s) r \<Longrightarrow> shrinks 0 (source m) s \<Longrightarrow> inputEnds m r"
  unfolding inputEnds_def using shrinks_trans [of 0 "source m" s 0] by fastforce

lemma process_ends:
  "string_invar (source m) \<Longrightarrow> \<not> m_empty (source m) \<Longrightarrow> len (source m) < n \<Longrightarrow>
     inputEnds m (processNextInputCharacter n m)"
proof (induction n arbitrary: m)
  case (Suc n)
  have look: "inputEnds k (processNextInputCharacter (Suc n) k)"
    if k: "string_invar (source k)" "\<not> m_empty (source k)" "len (source k) < Suc n"
      "\<not> (m_nextInputCharacter k = 0x0A \<and> m_skipNextNewLine k)" for k
  proof -
    let ?a = "advance (source k)"
    have a: "shrinks 0 (source k) ?a" "len ?a < n \<or> m_empty ?a" "string_invar ?a"
      using shrinks_advance(1) [OF k(1)] len_advance(1) [OF k(1)] len_empty [OF k(1,2)] k(3)
      by (auto simp: shrinks_def)
    have "inputEnds k (processNextInputCharacter n (inputOf k (m_currentChar ?a) False ?a))" if "\<not> m_empty ?a"
      using Suc.IH [of "inputOf k (m_currentChar ?a) False ?a"] a that inputEnds_later by simp
    then show ?thesis
      unfolding process_look [OF k(4)]
      using a(1) k(2) shrinks_refl [OF k(1), of 0] by (auto simp: inputEnds_def Let_def)
  qed
  show ?case
  proof (cases "m_nextInputCharacter m = 0x0A \<and> m_skipNextNewLine m")
    case True
    let ?a = "advancePastNewlineAndUpdateLineNumber (source m)"
    have a: "shrinks 0 (source m) ?a" "len ?a < Suc n" "string_invar ?a"
      using shrinks_advance(3) [OF Suc.prems(1)] Suc.prems(3) by (auto simp: shrinks_def)
    have "inputEnds m (processNextInputCharacter (Suc n) (inputOf m (m_currentChar ?a) False ?a))" if "\<not> m_empty ?a"
      by (rule inputEnds_later [OF look a(1)]) (use a that in simp_all)
    then show ?thesis
      using process_skip [of m n] True a(1) by (auto simp: inputEnds_def Let_def)
  qed (use look Suc.prems in blast)
qed simp

lemma peek_ends:
  assumes "string_invar (source m)" "\<not> m_empty (source m)"
  shows "inputEnds m (peek m)"
proof -
  let ?m = "inputOf m (m_currentChar (source m)) (m_skipNextNewLine m) (source m)"
  have "inputEnds ?m (processNextInputCharacter (Suc (SegmentedString_length (source m))) ?m)"
    by (rule process_ends) (use assms length_view in \<open>simp_all add: len_def\<close>)
  then have "inputEnds m (processNextInputCharacter (Suc (SegmentedString_length (source m))) ?m)"
    using inputEnds_later shrinks_refl assms(1) by blast
  then show ?thesis
    using assms shrinks_refl [OF assms(1), of 0]
    by (auto simp: peek_def Let_def to_inputOf inputEnds_def simp del: processNextInputCharacter.simps)
qed

lemma advanceInput_ends:
  assumes inv: "string_invar (source m)"
  defines "s \<equiv> advanceAndUpdateLineNumber (source m)"
  shows "inputEnds (inputOf m (m_nextInputCharacter m) (m_skipNextNewLine m) s) (advanceInput m)"
  using peek_ends [of "inputOf m (m_nextInputCharacter m) (m_skipNextNewLine m) s"] advance_view(2) [OF inv]
    shrinks_refl [of s 0]
  by (auto simp: advanceInput_def Let_def to_inputOf s_def inputEnds_def)

declare processNextInputCharacter.simps [simp del]

section \<open>Progress of the states\<close>

text \<open>
  Between two characters consumed the machine passes through states of decreasing rank, as
  reconsuming a character leads to states that consume it or return.
\<close>

definition rank :: "State \<Rightarrow> nat" where
  "rank st =
     (if st \<in> {TagOpenState, EndTagOpenState, ScriptDataEscapedLessThanSignState,
          ScriptDataEscapedEndTagOpenState, ScriptDataEscapedEndTagNameState,
          ScriptDataDoubleEscapeStartState, ScriptDataDoubleEscapedLessThanSignState,
          ScriptDataDoubleEscapeEndState, BeforeAttributeValueState,
          CharacterReferenceInAttributeValueState, AfterAttributeValueQuotedState,
          SelfClosingStartTagState, MarkupDeclarationOpenState, CDATASectionRightSquareBracketState,
          CDATASectionDoubleRightSquareBracketState} then 2
      else if st \<in> {DataState, RCDATAState, RAWTEXTState, ScriptDataState, PLAINTEXTState,
          ContinueBogusCommentState, CommentStartState, CommentStartDashState, CommentState,
          CommentEndDashState, CommentEndState, CommentEndBangState, BeforeDOCTYPENameState,
          DOCTYPENameState, AfterDOCTYPENameState, AfterDOCTYPEPublicKeywordState,
          BeforeDOCTYPEPublicIdentifierState, DOCTYPEPublicIdentifierDoubleQuotedState,
          DOCTYPEPublicIdentifierSingleQuotedState, AfterDOCTYPEPublicIdentifierState,
          BetweenDOCTYPEPublicAndSystemIdentifiersState, AfterDOCTYPESystemKeywordState,
          BeforeDOCTYPESystemIdentifierState, DOCTYPESystemIdentifierDoubleQuotedState,
          DOCTYPESystemIdentifierSingleQuotedState, AfterDOCTYPESystemIdentifierState, BogusDOCTYPEState} then 0
      else 1)"

lemma rank_le: "rank st \<le> 2"
  by (simp add: rank_def)

lemma rank_simps [simp]:
  "rank DataState = 0" "rank CharacterReferenceInDataState = 1" "rank RCDATAState = 0"
  "rank CharacterReferenceInRCDATAState = 1" "rank RAWTEXTState = 0" "rank ScriptDataState = 0"
  "rank PLAINTEXTState = 0" "rank TagOpenState = 2" "rank EndTagOpenState = 2" "rank TagNameState = 1"
  "rank RCDATALessThanSignState = 1" "rank RCDATAEndTagOpenState = 1" "rank RCDATAEndTagNameState = 1"
  "rank RAWTEXTLessThanSignState = 1" "rank RAWTEXTEndTagOpenState = 1"
  "rank RAWTEXTEndTagNameState = 1" "rank ScriptDataLessThanSignState = 1"
  "rank ScriptDataEndTagOpenState = 1" "rank ScriptDataEndTagNameState = 1"
  "rank ScriptDataEscapeStartState = 1" "rank ScriptDataEscapeStartDashState = 1"
  "rank ScriptDataEscapedState = 1" "rank ScriptDataEscapedDashState = 1"
  "rank ScriptDataEscapedDashDashState = 1" "rank ScriptDataEscapedLessThanSignState = 2"
  "rank ScriptDataEscapedEndTagOpenState = 2" "rank ScriptDataEscapedEndTagNameState = 2"
  "rank ScriptDataDoubleEscapeStartState = 2" "rank ScriptDataDoubleEscapedState = 1"
  "rank ScriptDataDoubleEscapedDashState = 1" "rank ScriptDataDoubleEscapedDashDashState = 1"
  "rank ScriptDataDoubleEscapedLessThanSignState = 2" "rank ScriptDataDoubleEscapeEndState = 2"
  "rank BeforeAttributeNameState = 1" "rank AttributeNameState = 1" "rank AfterAttributeNameState = 1"
  "rank BeforeAttributeValueState = 2" "rank AttributeValueDoubleQuotedState = 1"
  "rank AttributeValueSingleQuotedState = 1" "rank AttributeValueUnquotedState = 1"
  "rank CharacterReferenceInAttributeValueState = 2" "rank AfterAttributeValueQuotedState = 2"
  "rank SelfClosingStartTagState = 2" "rank BogusCommentState = 1" "rank ContinueBogusCommentState = 0"
  "rank MarkupDeclarationOpenState = 2" "rank CommentStartState = 0" "rank CommentStartDashState = 0"
  "rank CommentState = 0" "rank CommentEndDashState = 0" "rank CommentEndState = 0"
  "rank CommentEndBangState = 0" "rank DOCTYPEState = 1" "rank BeforeDOCTYPENameState = 0"
  "rank DOCTYPENameState = 0" "rank AfterDOCTYPENameState = 0" "rank AfterDOCTYPEPublicKeywordState = 0"
  "rank BeforeDOCTYPEPublicIdentifierState = 0" "rank DOCTYPEPublicIdentifierDoubleQuotedState = 0"
  "rank DOCTYPEPublicIdentifierSingleQuotedState = 0" "rank AfterDOCTYPEPublicIdentifierState = 0"
  "rank BetweenDOCTYPEPublicAndSystemIdentifiersState = 0" "rank AfterDOCTYPESystemKeywordState = 0"
  "rank BeforeDOCTYPESystemIdentifierState = 0" "rank DOCTYPESystemIdentifierDoubleQuotedState = 0"
  "rank DOCTYPESystemIdentifierSingleQuotedState = 0" "rank AfterDOCTYPESystemIdentifierState = 0"
  "rank BogusDOCTYPEState = 0" "rank CDATASectionState = 1"
  "rank CDATASectionRightSquareBracketState = 2" "rank CDATASectionDoubleRightSquareBracketState = 2"
  by (simp_all add: rank_def)

definition progresses :: "nat \<Rightarrow> SegmentedString \<Rightarrow> Control \<times> Machine \<Rightarrow> bool" where
  "progresses r s step \<longleftrightarrow>
     (case step of (control, m) \<Rightarrow>
        case control of
          Return _ \<Rightarrow> shrinks 0 s (source m)
        | AdvanceTo st \<Rightarrow> shrinks 0 s (source m)
        | ReconsumeIn st \<Rightarrow> shrinks 0 s (source m) \<and> len (source m) = len s \<and> rank st < r
        | SwitchTo st \<Rightarrow> shrinks 0 s (source m) \<and> (len (source m) < len s \<or> rank st < r))"

lemma progresses_simps [simp]:
  "progresses r s (Return b, m) \<longleftrightarrow> shrinks 0 s (source m)"
  "progresses r s (AdvanceTo st, m) \<longleftrightarrow> shrinks 0 s (source m)"
  "progresses r s (ReconsumeIn st, m) \<longleftrightarrow> shrinks 0 s (source m) \<and> len (source m) = len s \<and> rank st < r"
  "progresses r s (SwitchTo st, m) \<longleftrightarrow> shrinks 0 s (source m) \<and> (len (source m) < len s \<or> rank st < r)"
  by (simp_all add: progresses_def)

lemma source_simps [simp]:
  "source (onToken f m) = source m"
  "source (bufferCharacter c m) = source m"
  "source (assertNoBufferedEndTag m) = source m"
  "source (clearTemporaryBuffer m) = source m"
  "source (appendToTemporaryBuffer c m) = source m"
  "source (addToPossibleEndTag c m) = source m"
  "source (saveEndTagNameIfNeeded m) = source m"
  "source (beginAttribute c m) = source m"
  "source (endName m) = source m"
  "source (beginValue k m) = source m"
  "source (endValue m) = source m"
  "source (appendToValue c m) = source m"
  "source (appendComment cs m) = source m"
  by (simp_all add: onToken_def bufferCharacter_def assertNoBufferedEndTag_def clearTemporaryBuffer_def
      appendToTemporaryBuffer_def addToPossibleEndTag_def saveEndTagNameIfNeeded_def beginAttribute_def
      endName_def beginValue_def endValue_def appendToValue_def appendComment_def Let_def)

lemma source_fold [simp]:
  "source (fold bufferCharacter cs m) = source m" "source (fold appendToValue cs m) = source m"
  by (induction cs arbitrary: m) simp_all

lemma emit_progresses [simp]:
  assumes "source m = s" "string_invar s"
  shows "progresses r s (emitAndResumeIn st m)" "progresses r s (emitAndReconsumeIn st m)"
    "progresses r s (emitEndOfFile m)" "progresses r s (flushEmitAndResumeIn st m)"
  using assms shrinks_advance(2) [OF assms(2)] shrinks_refl [OF assms(2), of 0]
  by (simp_all add: emitAndResumeIn_def emitAndReconsumeIn_def emitEndOfFile_def flushEmitAndResumeIn_def
      flushBufferedEndTag_def Let_def split: prod.split)

lemma flush_progresses [simp]:
  assumes "source m = s" "string_invar s" "0 < len s"
  shows "progresses r s (flushAndAdvanceTo st m)"
  using assms shrinks_advance(2) [OF assms(2)] len_advance(2) [OF assms(2)]
  by (auto simp: flushAndAdvanceTo_def flushBufferedEndTag_def Let_def split: prod.split)

lemma entity_progresses:
  assumes "table_ok table" "string_invar (source m)"
  shows "rank st < r \<Longrightarrow> progresses r (source m) (characterReferenceIn st table cc m)"
    and "progresses 2 (source m) (inCharacterReferenceInAttributeValueState table cc m)"
  using consumeHTMLEntity_shrinks [OF assms, of 0] consumeHTMLEntity_shrinks [OF assms, of "m_additionalAllowedCharacter m"]
  by (auto simp: characterReferenceIn_def processEntity_def inCharacterReferenceInAttributeValueState_def Let_def
      notReached_def split: prod.split)

lemma matched_progresses:
  assumes inv: "string_invar s" and w: "2 \<le> length w" and l: "lookAheadInline s w b = (result, t)"
  shows "shrinks 0 s t" "len t = len s"
    and "result = DidMatch \<Longrightarrow> shrinks 0 s (advanceString t w) \<and> len (advanceString t w) < len s"
proof -
  obtain t' where t': "lookAheadInline s w b = (v_lookAhead (viewOf s) w b, t')" "string_invar t'"
    "viewOf t' = (if m_pushedChar1 s = 0 \<or> length (v_chars (viewOf s)) < length w then viewOf s else v_unescape (viewOf s))"
    using lookAhead_view [OF inv w] by metis
  then have t: "string_invar t" "len t = len s" "m_closed t = m_closed s"
    using l v_unescape_chars by (auto simp: len_def closed_view v_unescape_def)
  then show "shrinks 0 s t" "len t = len s" by (simp_all add: shrinks_def)
  assume "result = DidMatch"
  then have "length w \<le> len s" using l t'(1) by (auto simp: v_lookAhead_def len_def split: if_splits)
  then show "shrinks 0 s (advanceString t w) \<and> len (advanceString t w) < len s"
    using advances_view [OF t(1), of "length w"] t w by (auto simp: advanceString_funpow shrinks_def len_def)
qed

lemma asciiName_length [simp]: "length (asciiName s) = length s"
  by (simp add: asciiName_def)

lemma markup_progresses:
  assumes "string_invar (source m)"
  shows "progresses 2 (source m) (inMarkupDeclarationOpenState cc m)"
    and "progresses 0 (source m) (inAfterDOCTYPENameState cc m)"
proof -
  note match = matched_progresses [OF assms] and keep = shrinks_refl [OF assms, of 0]
  show "progresses 2 (source m) (inMarkupDeclarationOpenState cc m)"
    using match [of "asciiName ''--''" True] match [of "asciiName ''doctype''" False] match [of "asciiName ''[CDATA[''" True] keep
    by (auto simp: inMarkupDeclarationOpenState_def Let_def lookAhead_def lookAheadIgnoringCase_def
        split: prod.split LookAheadResult.split)
  show "progresses 0 (source m) (inAfterDOCTYPENameState cc m)"
    using match [of "asciiName ''public''" False] match [of "asciiName ''system''" False] assms keep
    by (auto simp: inAfterDOCTYPENameState_def Let_def lookAheadIgnoringCase_def
        split: prod.split LookAheadResult.split)
qed


lemma dispatch_progresses:
  assumes "table_ok table" "source m = s" "string_invar s" "0 < len s"
  shows "progresses (rank st) s (dispatch table st cc m)"
proof -
  note special = entity_progresses [of table m, unfolded assms(2), OF assms(1,3)]
    markup_progresses [of m, unfolded assms(2), OF assms(3)]
  show ?thesis
    using assms shrinks_refl [OF assms(3), of 0]
    by (cases st) (simp_all add: dispatch_def special inCharacterReferenceInDataState_def
        inCharacterReferenceInRCDATAState_def character_state_defs rejectEndTag_def Let_def)
qed


section \<open>The machine ends\<close>

lemma runStates_ends:
  assumes ok: "table_ok table"
  shows "string_invar (source m) \<Longrightarrow> 0 < len (source m) \<Longrightarrow> 8 * len (source m) + rank (m_state m) < n \<Longrightarrow>
    \<exists>b m'. runStates table n cc m = Some (b, m') \<and> shrinks 0 (source m) (source m')"
proof (induction n arbitrary: cc m)
  case (Suc n)
  let ?s = "source m"
  obtain control k where step: "dispatch table (m_state m) cc m = (control, k)" by fastforce
  have p: "progresses (rank (m_state m)) ?s (control, k)"
    using dispatch_progresses [OF ok refl Suc.prems(1,2), of "m_state m" cc] step by simp
  have later: "\<exists>b m'. runStates table n c j = Some (b, m') \<and> shrinks 0 ?s (source m')"
    if "shrinks 0 ?s (source j)" "0 < len (source j)" "8 * len (source j) + rank (m_state j) < n" for c j
    using Suc.IH [of j c] that shrinks_trans [OF that(1)] by (fastforce simp: shrinks_def)
  have jump: "\<exists>b m'. (case r of None \<Rightarrow> None
        | Some (ok, m) \<Rightarrow> if \<not> ok then Some (haveBufferedCharacterToken m, m)
            else runStates table n (m_nextInputCharacter m) m) = Some (b, m') \<and> shrinks 0 ?s (source m')"
    if r: "inputEnds j r" and j: "shrinks 0 ?s (source j)" "8 * len (source j) + rank (m_state j) < n" for r j
  proof -
    obtain okay c skip s where s: "r = Some (okay, inputOf j c skip s)" "shrinks 0 (source j) s" "okay \<longrightarrow> \<not> m_empty s"
      using r by (auto simp: inputEnds_def)
    have s': "shrinks 0 ?s s" using shrinks_trans [OF j(1) s(2)] by simp
    then have "0 < len s" if okay using len_empty [of s] s(3) that by (simp add: shrinks_def)
    then show ?thesis
      using later [of "inputOf j c skip s" c] s s' j(2) by (auto simp: shrinks_def)
  qed
  show ?case
  proof (cases control)
    case (Return b)
    then show ?thesis using step p by simp
  next
    case (ReconsumeIn st)
    then show ?thesis
      using step p later [of "k\<lparr>m_state := st\<rparr>" cc] Suc.prems by simp
  next
    case (SwitchTo st)
    let ?k = "k\<lparr>m_state := st\<rparr>"
    have le: "8 * len (source k) + rank st < n"
      using p Suc.prems(3) rank_le [of st] SwitchTo by (auto simp: shrinks_def)
    show ?thesis
    proof (cases "m_empty (source k)")
      case True
      then show ?thesis using step p SwitchTo by (simp add: Let_def)
    next
      case False
      then have "inputEnds ?k (peek ?k)" using peek_ends [of ?k] p SwitchTo by (simp add: shrinks_def)
      then show ?thesis using jump [of ?k "peek ?k"] step p SwitchTo False le by (simp add: Let_def)
    qed
  next
    case (AdvanceTo st)
    let ?k = "k\<lparr>m_state := st\<rparr>" and ?a = "advanceAndUpdateLineNumber (source k)"
    have k: "string_invar (source k)" "shrinks 0 ?s (source k)" using p AdvanceTo by (simp_all add: shrinks_def)
    have a: "shrinks 0 ?s ?a" "len ?a = len (source k) - 1"
      using shrinks_trans [OF k(2) shrinks_advance(2) [OF k(1)]] len_advance(2) [OF k(1)] by simp_all
    then have "8 * len ?a + rank st < n"
      using Suc.prems(2,3) rank_le [of st] k(2) by (auto simp: shrinks_def)
    then show ?thesis
      using jump [OF advanceInput_ends [of ?k]] a step AdvanceTo k(1) by (simp add: Let_def)
  qed
qed simp

lemma continueToken_ends:
  assumes ok: "table_ok table" and inv: "string_invar (source m)"
  shows "\<exists>b m'. continueToken table m = Some (b, m') \<and> shrinks 0 (source m) (source m')"
proof (cases "m_empty (source m)")
  case True
  then show ?thesis using shrinks_refl [OF inv] by (simp add: continueToken_def)
next
  case False
  then obtain okay c skip s where s: "peek m = Some (okay, inputOf m c skip s)" "shrinks 0 (source m) s" "okay \<longrightarrow> \<not> m_empty s"
    using peek_ends [OF inv] by (auto simp: inputEnds_def)
  let ?m = "inputOf m c skip s"
  show ?thesis
  proof (cases okay)
    case True
    then have "string_invar s" "0 < len s" using s len_empty by (auto simp: shrinks_def)
    then obtain b m' where "runStates table (enoughRounds ?m) c ?m = Some (b, m')" "shrinks 0 s (source m')"
      using runStates_ends [OF ok, of ?m "enoughRounds ?m" c] rank_le [of "m_state m"] length_view
      by (auto simp: enoughRounds_def len_def)
    then show ?thesis using s True False shrinks_trans [OF s(2)] by (fastforce simp: continueToken_def)
  qed (use s False in \<open>simp add: continueToken_def\<close>)
qed

lemma beginBufferedEndTag_source [simp]: "source (beginBufferedEndTag m) = source m"
  by (simp add: beginBufferedEndTag_def Let_def)

lemma nextToken_ends:
  assumes "table_ok table" "string_invar (source m)"
  shows "\<exists>b m'. nextToken table m = Some (b, m') \<and> shrinks 0 (source m) (source m')"
  using continueToken_ends [OF assms] continueToken_ends [OF assms(1), of "beginBufferedEndTag m"] assms(2)
    shrinks_refl [OF assms(2), of 0]
  by (auto simp: nextToken_def Let_def)

end
