(* ===== verification/HTML_Runs.thy ===== *)
theory HTML_Runs
  imports HTML_Progress
begin

text \<open>
  Invariants of a call of \<open>nextToken\<close>: what a property has to show of the states one by one
  (\<open>token_run\<close>) holds when the call returns (\<open>continueToken_keeps\<close>).
\<close>

section \<open>The character read next\<close>

text \<open>The end-of-file marker is read only at the last character of a closed source.\<close>

definition marked :: "uchar \<Rightarrow> Machine \<Rightarrow> bool" where
  "marked c m \<longleftrightarrow> (c = kEndOfFileMarker \<longrightarrow> shouldTreatNullAsEndOfFileMarker (source m))"

definition readsNext :: "Machine \<Rightarrow> (bool \<times> Machine) option \<Rightarrow> bool" where
  "readsNext m r \<longleftrightarrow>
     (\<forall>okay k. r = Some (okay, k) \<longrightarrow>
        (\<exists>c skip s. k = inputOf m c skip s \<and> (okay \<longrightarrow> marked c (inputOf m c skip s))))"

lemma readsNext_later: "readsNext (inputOf m c skip s) r \<Longrightarrow> readsNext m r"
  unfolding readsNext_def by fastforce

lemma readsNext_Some [simp]:
  "readsNext m (Some (okay, inputOf m c skip s)) \<longleftrightarrow> (okay \<longrightarrow> marked c (inputOf m c skip s))"
  unfolding readsNext_def by (metis inputOf_simps(2) option.inject prod.inject)

lemma process_reads: "readsNext m (processNextInputCharacter n m)"
proof (induction n arbitrary: m)
  case 0
  show ?case by (simp add: readsNext_def processNextInputCharacter.simps)
next
  case (Suc n)
  have look: "readsNext k (processNextInputCharacter (Suc n) k)"
    if k: "\<not> (m_nextInputCharacter k = 0x0A \<and> m_skipNextNewLine k)" for k
    unfolding process_look [OF k]
    using readsNext_later [OF Suc.IH] by (auto simp: marked_def Let_def)
  show ?case
  proof (cases "m_nextInputCharacter m = 0x0A \<and> m_skipNextNewLine m")
    case True
    let ?s = "advancePastNewlineAndUpdateLineNumber (source m)"
    have "readsNext m (processNextInputCharacter (Suc n) (inputOf m (m_currentChar ?s) False ?s))"
      using readsNext_later [OF look [of "inputOf m (m_currentChar ?s) False ?s"]] by simp
    then show ?thesis unfolding process_skip [OF True [THEN conjunct1] True [THEN conjunct2]] by (simp add: Let_def)
  qed (use look in blast)
qed

lemma peek_reads: "readsNext m (peek m)"
proof -
  let ?c = "m_currentChar (source m)"
  have "?c AND NOT specialCharacterMask \<noteq> 0 \<Longrightarrow> ?c \<noteq> 0" by auto
  then show ?thesis
    using readsNext_later [OF process_reads [of "inputOf m ?c (m_skipNextNewLine m) (source m)" "Suc (SegmentedString_length (source m))"]]
    by (auto simp: peek_def Let_def to_inputOf marked_def)
qed

lemma advanceInput_reads: "readsNext m (advanceInput m)"
  using readsNext_later [OF peek_reads [of "m\<lparr>source := advanceAndUpdateLineNumber (source m)\<rparr>" for m, unfolded to_inputOf]]
  by (auto simp: advanceInput_def Let_def to_inputOf)

section \<open>Invariants\<close>

text \<open>
  \<open>P cc m\<close> holds in the state of \<open>m\<close> with the character \<open>cc\<close>, \<open>E m\<close> before that character has been read
  and \<open>Q b m\<close> when the call returns \<open>b\<close>.
\<close>

definition keeps :: "(Machine \<Rightarrow> bool) \<Rightarrow> (uchar \<Rightarrow> Machine \<Rightarrow> bool) \<Rightarrow> (bool \<Rightarrow> Machine \<Rightarrow> bool) \<Rightarrow>
    uchar \<Rightarrow> Control \<times> Machine \<Rightarrow> bool" where
  "keeps E P Q cc step \<longleftrightarrow>
     (case step of (control, m) \<Rightarrow>
        case control of
          Return b \<Rightarrow> Q b m
        | AdvanceTo st \<Rightarrow> E (m\<lparr>m_state := st\<rparr>)
        | SwitchTo st \<Rightarrow> E (m\<lparr>m_state := st\<rparr>)
        | ReconsumeIn st \<Rightarrow> P cc (m\<lparr>m_state := st\<rparr>))"

locale token_run =
  fixes table :: "HTMLEntityTableEntry list"
    and E :: "Machine \<Rightarrow> bool"
    and P :: "uchar \<Rightarrow> Machine \<Rightarrow> bool"
    and Q :: "bool \<Rightarrow> Machine \<Rightarrow> bool"
  assumes step: "P cc m \<Longrightarrow> keeps E P Q cc (dispatch table (m_state m) cc m)"
    and reads: "E m \<Longrightarrow> marked c (inputOf m c skip s) \<Longrightarrow> P c (inputOf m c skip s)"
    and waits: "E m \<Longrightarrow> Q (haveBufferedCharacterToken m) (inputOf m c skip s)"
begin

lemma waits_here: "E m \<Longrightarrow> Q (haveBufferedCharacterToken m) m"
  using waits [of m "m_nextInputCharacter m" "m_skipNextNewLine m" "source m"] by (simp add: inputOf_def)

lemma reading:
  assumes "readsNext m r" "E m" "\<And>c k. P c k \<Longrightarrow> go c k = Some (b, m') \<Longrightarrow> Q b m'"
    and "(case r of None \<Rightarrow> None
      | Some (ok, m) \<Rightarrow> if \<not> ok then Some (haveBufferedCharacterToken m, m) else go (m_nextInputCharacter m) m) = Some (b, m')"
  shows "Q b m'"
proof -
  obtain okay k where r: "r = Some (okay, k)" using assms(4) by (cases r) auto
  then obtain c skip s where k: "k = inputOf m c skip s" "okay \<Longrightarrow> marked c (inputOf m c skip s)"
    using assms(1) by (auto simp: readsNext_def)
  have "haveBufferedCharacterToken (inputOf m c skip s) = haveBufferedCharacterToken m"
    by (simp add: haveBufferedCharacterToken_def)
  then show ?thesis
    using assms(3) [OF reads [OF assms(2)]] waits [OF assms(2)] assms(4) r k by (auto split: if_splits)
qed

lemma runStates_keeps: "P cc m \<Longrightarrow> runStates table n cc m = Some (b, m') \<Longrightarrow> Q b m'"
proof (induction n arbitrary: cc m)
  case (Suc n)
  obtain control k where d: "dispatch table (m_state m) cc m = (control, k)" by fastforce
  note kept = step [OF Suc.prems(1), unfolded d keeps_def]
  show ?case
  proof (cases control)
    case (SwitchTo st)
    let ?k = "k\<lparr>m_state := st\<rparr>"
    have k: "E ?k" using kept SwitchTo by simp
    show ?thesis
      using reading [OF peek_reads k, where go = "runStates table n"] Suc.IH waits_here [OF k] d SwitchTo Suc.prems(2)
      by (auto simp: Let_def split: if_splits)
  next
    case (AdvanceTo st)
    then show ?thesis
      using reading [OF advanceInput_reads, where go = "runStates table n"] Suc.IH kept d Suc.prems(2)
      by (auto simp: Let_def)
  qed (use kept d Suc in auto)
qed simp

lemma continueToken_keeps:
  assumes "E m" "continueToken table m = Some (b, m')"
  shows "Q b m'"
  using reading [OF peek_reads assms(1), where go = "\<lambda>c m. runStates table (enoughRounds m) c m"]
    runStates_keeps waits_here [OF assms(1)] assms(2)
  by (auto simp: continueToken_def split: if_splits)

end

end
