(* ===== verification/HTML_Checks.thy ===== *)
theory HTML_Checks
  imports HTML_Runs
begin

text \<open>
  No assertion on the token that \<open>m_checks\<close> records fails and no null pointer is followed in \<open>nextToken\<close>: \<open>fits\<close> says which
  tokens a state may find, \<open>running\<close> is the invariant within a call (\<open>dispatch_checks\<close>) and \<open>ready\<close> the
  one between calls, for a caller that clears the token after each one returned.
\<close>

section \<open>Which tokens a state may find\<close>

definition isText :: "HTMLToken \<Rightarrow> bool" where
  "isText t \<longleftrightarrow> m_type t = Uninitialized \<or> m_type t = Character"

definition hasAttribute :: "HTMLToken \<Rightarrow> bool" where
  "hasAttribute t \<longleftrightarrow> (case m_currentAttribute t of None \<Rightarrow> False | Some i \<Rightarrow> i < length (m_attributes t))"

definition doctypeHas :: "(DoctypeData \<Rightarrow> bool) \<Rightarrow> HTMLToken \<Rightarrow> bool" where
  "doctypeHas P t \<longleftrightarrow> m_type t = DOCTYPE \<and> (case m_doctypeData t of None \<Rightarrow> False | Some d \<Rightarrow> P d)"

definition fits :: "State \<Rightarrow> HTMLToken \<Rightarrow> bool" where
  "fits st t \<longleftrightarrow>
     (if st \<in> {TagOpenState, EndTagOpenState, MarkupDeclarationOpenState, BogusCommentState, DOCTYPEState,
       BeforeDOCTYPENameState} then m_type t = Uninitialized
      else if st \<in> {TagNameState, BeforeAttributeNameState, AfterAttributeValueQuotedState, SelfClosingStartTagState} then isTag t
      else if st \<in> {AttributeNameState, AfterAttributeNameState, BeforeAttributeValueState,
       AttributeValueDoubleQuotedState, AttributeValueSingleQuotedState, AttributeValueUnquotedState,
       CharacterReferenceInAttributeValueState} then isTag t \<and> hasAttribute t
      else if st \<in> {ContinueBogusCommentState, CommentStartState, CommentStartDashState, CommentState,
       CommentEndDashState, CommentEndState, CommentEndBangState} then m_type t = Comment
      else if st \<in> {DOCTYPEPublicIdentifierDoubleQuotedState, DOCTYPEPublicIdentifierSingleQuotedState} then doctypeHas m_hasPublicIdentifier t
      else if st \<in> {DOCTYPESystemIdentifierDoubleQuotedState, DOCTYPESystemIdentifierSingleQuotedState} then doctypeHas m_hasSystemIdentifier t
      else if st \<in> {DOCTYPENameState, AfterDOCTYPENameState, AfterDOCTYPEPublicKeywordState,
       BeforeDOCTYPEPublicIdentifierState, AfterDOCTYPEPublicIdentifierState,
       BetweenDOCTYPEPublicAndSystemIdentifiersState, AfterDOCTYPESystemKeywordState,
       BeforeDOCTYPESystemIdentifierState, AfterDOCTYPESystemIdentifierState, BogusDOCTYPEState} then doctypeHas (\<lambda>_. True) t
      else isText t)"

definition isEndTagNameState :: "State \<Rightarrow> bool" where
  "isEndTagNameState st \<longleftrightarrow>
     st \<in> {RCDATAEndTagNameState, RAWTEXTEndTagNameState, ScriptDataEndTagNameState, ScriptDataEscapedEndTagNameState}"

text \<open>
  The machine within \<open>nextToken\<close>: no assertion has failed, the token fits the state, an end tag is
  buffered only while its name is read, and \<open>m_additionalAllowedCharacter\<close> is the one of an attribute
  value. At the end-of-file marker \<open>DataState\<close> takes any token, as it drops an unfinished one.
\<close>

definition running :: "uchar \<Rightarrow> Machine \<Rightarrow> bool" where
  "running cc m \<longleftrightarrow>
     m_checks (token m) \<and> (fits (m_state m) (token m) \<or> m_state m = DataState \<and> cc = kEndOfFileMarker) \<and>
     (m_bufferedEndTagName m \<noteq> [] \<longleftrightarrow> isEndTagNameState (m_state m)) \<and>
     (m_state m = CharacterReferenceInAttributeValueState \<longrightarrow>
        m_additionalAllowedCharacter m \<in> {c_quote, c_apostrophe, c_greater})"

text \<open>Between two calls an end tag may also be waiting to be begun.\<close>

definition ready :: "Machine \<Rightarrow> bool" where
  "ready m \<longleftrightarrow>
     (if m_bufferedEndTagName m \<noteq> [] \<and> \<not> isEndTagBufferingState (m_state m) then
        m_checks (token m) \<and> m_type (token m) = Uninitialized \<and>
        m_state m \<in> {BeforeAttributeNameState, SelfClosingStartTagState, DataState}
      else (\<forall>cc. running cc m))"

definition returned :: "bool \<Rightarrow> Machine \<Rightarrow> bool" where
  "returned b m \<longleftrightarrow> m_checks (token m) \<and> ready (if b then onToken clearToken m else m)"

definition keepsChecks :: "uchar \<Rightarrow> Control \<times> Machine \<Rightarrow> bool" where
  "keepsChecks = keeps (\<lambda>m. \<forall>c. running c m) running returned"

lemma keepsChecks_iff:
  "keepsChecks cc step \<longleftrightarrow>
     (case step of (control, m) \<Rightarrow>
        case control of
          Return b \<Rightarrow> returned b m
        | AdvanceTo st \<Rightarrow> \<forall>c. running c (m\<lparr>m_state := st\<rparr>)
        | SwitchTo st \<Rightarrow> \<forall>c. running c (m\<lparr>m_state := st\<rparr>)
        | ReconsumeIn st \<Rightarrow> running cc (m\<lparr>m_state := st\<rparr>))"
  by (simp add: keepsChecks_def keeps_def)

text \<open>The letters that are appended are not null.\<close>

lemma letters_not_null [simp]:
  "\<not> isASCIIUpper 0" "\<not> isASCIILower 0"
  by (simp_all add: isASCIIUpper_def isASCIILower_def)

lemma lower_not_null [simp]:
  assumes "isASCIIUpper cc"
  shows "toLowerCase cc \<noteq> 0"
proof
  assume "toLowerCase cc = 0"
  then have "cc = - 0x20" by (simp add: toLowerCase_def eq_neg_iff_add_eq_0)
  then show False using assms by (simp add: isASCIIUpper_def)
qed

lemmas token_defs =
  check_def clearToken_def makeEndOfFile_def isTag_def appendData_def appendToName_def onDoctype_def
  setForceQuirks_def newDoctypeData_def beginDOCTYPE_def beginDOCTYPEWith_def setPublicIdentifierToEmptyString_def
  setSystemIdentifierToEmptyString_def appendToPublicIdentifier_def appendToSystemIdentifier_def setSelfClosing_def
  beginStartTag_def beginEndTag_def emptyAttribute_def addNewAttribute_def onCurrentAttribute_def
  beginAttributeName_def endAttributeName_def beginAttributeValue_def endAttributeValue_def
  appendToAttributeName_def appendToAttributeValue_def ensureIsCharacterToken_def appendToCharacter_def
  appendCharacters_def beginComment_def appendToComment_def

lemma fits_all: "(\<forall>c. running c m) \<longleftrightarrow>
     m_checks (token m) \<and> fits (m_state m) (token m) \<and>
     (m_bufferedEndTagName m \<noteq> [] \<longleftrightarrow> isEndTagNameState (m_state m)) \<and>
     (m_state m = CharacterReferenceInAttributeValueState \<longrightarrow>
        m_additionalAllowedCharacter m \<in> {c_quote, c_apostrophe, c_greater})"
  by (auto simp: running_def dest: spec [of _ "1 :: uchar"])


lemmas machine_defs =
  bufferCharacter_def onToken_def saveEndTagNameIfNeeded_def emitAndResumeIn_def emitAndReconsumeIn_def
  emitEndOfFile_def flushBufferedEndTag_def flushAndAdvanceTo_def flushEmitAndResumeIn_def
  assertNoBufferedEndTag_def addToPossibleEndTag_def appendToTemporaryBuffer_def clearTemporaryBuffer_def
  haveBufferedCharacterToken_def beginAttribute_def endName_def beginValue_def endValue_def appendToValue_def
  appendComment_def

lemmas invariant_defs =
  keepsChecks_iff running_def fits_all fits_def isText_def hasAttribute_def doctypeHas_def isEndTagNameState_def
  isEndTagBufferingState_def returned_def ready_def

lemma plain_states_check:
  assumes "running cc m" "m_state m = st"
    "st \<notin> {CharacterReferenceInDataState, CharacterReferenceInRCDATAState, CharacterReferenceInAttributeValueState,
       MarkupDeclarationOpenState, AfterDOCTYPENameState}"
  shows "keepsChecks cc (dispatch table st cc m)"
  using assms
  by (cases st) (auto simp: dispatch_def character_state_defs rejectEndTag_def machine_defs token_defs invariant_defs Let_def
      split: option.splits)


definition sameControl :: "Machine \<Rightarrow> Machine \<Rightarrow> bool" where
  "sameControl m k \<longleftrightarrow>
     m_state k = m_state m \<and> m_bufferedEndTagName k = m_bufferedEndTagName m \<and>
     m_additionalAllowedCharacter k = m_additionalAllowedCharacter m \<and> m_checks (token k) = m_checks (token m)"

lemma fold_bufferCharacter:
  "isText (token m) \<Longrightarrow> sameControl m (fold bufferCharacter cs m) \<and> isText (token (fold bufferCharacter cs m))"
proof (induction cs arbitrary: m)
  case (Cons c cs)
  have "sameControl m (bufferCharacter c m)" "isText (token (bufferCharacter c m))"
    using Cons.prems by (auto simp: sameControl_def machine_defs token_defs isText_def Let_def)
  then show ?case using Cons.IH [of "bufferCharacter c m"] by (simp add: sameControl_def)
qed (simp add: sameControl_def)

lemma fold_appendToValue:
  "isTag (token m) \<Longrightarrow> hasAttribute (token m) \<Longrightarrow>
     sameControl m (fold appendToValue cs m) \<and> isTag (token (fold appendToValue cs m)) \<and>
     hasAttribute (token (fold appendToValue cs m))"
proof (induction cs arbitrary: m)
  case (Cons c cs)
  have "sameControl m (appendToValue c m)" "isTag (token (appendToValue c m))" "hasAttribute (token (appendToValue c m))"
    using Cons.prems
    by (auto simp: sameControl_def machine_defs token_defs hasAttribute_def Let_def split: option.splits)
  then show ?case using Cons.IH [of "appendToValue c m"] by (simp add: sameControl_def)
qed (simp add: sameControl_def)

lemma running_text:
  "running cc m \<Longrightarrow> m_state m = CharacterReferenceInDataState \<or> m_state m = CharacterReferenceInRCDATAState \<Longrightarrow>
     isText (token m) \<and> m_checks (token m) \<and> m_bufferedEndTagName m = []"
  by (auto simp: running_def fits_def isEndTagNameState_def)

lemma running_value:
  "running cc m \<Longrightarrow> m_state m = CharacterReferenceInAttributeValueState \<Longrightarrow>
     isTag (token m) \<and> hasAttribute (token m) \<and> m_checks (token m) \<and> m_bufferedEndTagName m = [] \<and>
     m_additionalAllowedCharacter m \<in> {c_quote, c_apostrophe, c_greater}"
  by (auto simp: running_def fits_def isEndTagNameState_def)

lemma text_goes_on:
  "m_checks (token k) \<Longrightarrow> m_bufferedEndTagName k = [] \<Longrightarrow> isText (token k) \<Longrightarrow> st = DataState \<or> st = RCDATAState \<Longrightarrow>
     keepsChecks cc (SwitchTo st, k)"
  by (auto simp: keepsChecks_iff fits_all fits_def isEndTagNameState_def)

lemma value_goes_on:
  "m_checks (token k) \<Longrightarrow> m_bufferedEndTagName k = [] \<Longrightarrow> isTag (token k) \<Longrightarrow> hasAttribute (token k) \<Longrightarrow>
     st = AttributeValueDoubleQuotedState \<or> st = AttributeValueSingleQuotedState \<or> st = AttributeValueUnquotedState \<Longrightarrow>
     keepsChecks cc (SwitchTo st, k)"
  by (auto simp: keepsChecks_iff fits_all fits_def isEndTagNameState_def)

text \<open>Waiting for more characters leaves the machine as it is.\<close>

lemma fits_cleared:
  "fits st t \<Longrightarrow> m_type t = Character \<Longrightarrow> fits st (clearToken t)"
  by (simp add: fits_def isTag_def doctypeHas_def isText_def clearToken_def split: if_splits)

lemma waiting_checks:
  assumes "\<forall>c. running c m"
  shows "returned (haveBufferedCharacterToken m) m"
proof -
  have "m_bufferedEndTagName m \<noteq> [] \<longrightarrow> isEndTagBufferingState (m_state m)"
    using assms by (auto simp: fits_all isEndTagNameState_def isEndTagBufferingState_def)
  then show ?thesis
    using assms fits_cleared [of "m_state m" "token m"]
    by (auto simp: fits_all returned_def ready_def haveBufferedCharacterToken_def onToken_def clearToken_def)
qed

lemma reference_in_text_checks:
  assumes run: "running cc m" and st: "m_state m = CharacterReferenceInDataState \<and> st = DataState \<or>
    m_state m = CharacterReferenceInRCDATAState \<and> st = RCDATAState"
  shows "keepsChecks cc (characterReferenceIn st table cc m)"
proof -
  obtain success decoded notEnough src where r: "consumeHTMLEntity table (source m) 0 = (success, decoded, notEnough, src)"
    using prod_cases4 by blast
  let ?m = "m\<lparr>source := src\<rparr>"
  define k where "k = fold bufferCharacter (if success then decoded else [0x26]) ?m"
  have m: "isText (token ?m)" "m_checks (token ?m)" "m_bufferedEndTagName ?m = []"
    using running_text [OF run] st by auto
  have "keepsChecks cc (SwitchTo st, k)"
    using text_goes_on [of k st cc] fold_bufferCharacter [OF m(1), of "if success then decoded else [0x26]"] m st
    by (auto simp: sameControl_def k_def)
  moreover have "\<forall>c. running c ?m" using run st by (auto simp: fits_all running_def)
  then have "keepsChecks cc (Return (haveBufferedCharacterToken ?m), ?m)" using waiting_checks by (simp add: keepsChecks_iff)
  moreover have "processEntity table m = (if notEnough then (False, ?m) else (True, k))"
    using r by (simp add: processEntity_def k_def)
  ultimately show ?thesis by (simp add: characterReferenceIn_def)
qed

lemma reference_in_value_checks:
  assumes run: "running cc m" and st: "m_state m = CharacterReferenceInAttributeValueState"
  shows "keepsChecks cc (inCharacterReferenceInAttributeValueState table cc m)"
proof -
  obtain success decoded notEnough src
    where r: "consumeHTMLEntity table (source m) (m_additionalAllowedCharacter m) = (success, decoded, notEnough, src)"
    using prod_cases4 by blast
  let ?m = "m\<lparr>source := src\<rparr>"
  define k where "k = fold appendToValue (if success then decoded else [c_ampersand]) ?m"
  have m: "isTag (token ?m)" "hasAttribute (token ?m)" "m_checks (token ?m)" "m_bufferedEndTagName ?m = []"
    "m_additionalAllowedCharacter ?m \<in> {c_quote, c_apostrophe, c_greater}"
    using running_value [OF run st] by auto
  have k: "m_checks (token k)" "m_bufferedEndTagName k = []" "isTag (token k)" "hasAttribute (token k)"
    "m_additionalAllowedCharacter k \<in> {c_quote, c_apostrophe, c_greater}"
    using fold_appendToValue [OF m(1,2), of "if success then decoded else [c_ampersand]"] m
    by (auto simp: sameControl_def k_def)
  have "\<forall>c. running c ?m" using run st by (auto simp: fits_all running_def)
  then have "keepsChecks cc (Return (haveBufferedCharacterToken ?m), ?m)" using waiting_checks by (simp add: keepsChecks_iff)
  then show ?thesis
    using value_goes_on [OF k(1-4)] k(5) r
    by (auto simp: inCharacterReferenceInAttributeValueState_def Let_def k_def)
qed

lemma markup_checks:
  assumes "running cc m" "m_state m = MarkupDeclarationOpenState"
  shows "keepsChecks cc (inMarkupDeclarationOpenState cc m)"
  using assms
  by (auto simp: inMarkupDeclarationOpenState_def machine_defs token_defs invariant_defs Let_def
      split: prod.splits LookAheadResult.splits)

lemma doctype_name_checks:
  assumes "running cc m" "m_state m = AfterDOCTYPENameState"
  shows "keepsChecks cc (inAfterDOCTYPENameState cc m)"
  using assms
  by (auto simp: inAfterDOCTYPENameState_def machine_defs token_defs invariant_defs Let_def
      split: prod.splits option.splits LookAheadResult.splits)

lemma dispatch_checks:
  assumes "running cc m"
  shows "keepsChecks cc (dispatch table (m_state m) cc m)"
  using plain_states_check [OF assms refl] reference_in_text_checks [OF assms] reference_in_value_checks [OF assms]
    markup_checks [OF assms] doctype_name_checks [OF assms]
  by (cases "m_state m") (simp_all add: dispatch_def inCharacterReferenceInDataState_def inCharacterReferenceInRCDATAState_def)


section \<open>Every call keeps the checks\<close>

lemma running_inputOf [simp]: "running cc (inputOf m c skip s) \<longleftrightarrow> running cc m"
  by (simp add: running_def inputOf_def)

interpretation checks: token_run table "\<lambda>m. \<forall>c. running c m" running returned for table
proof
  fix m c skip s
  assume m: "\<forall>c. running c m"
  then show "running c (inputOf m c skip s)" by simp
  show "returned (haveBufferedCharacterToken m) (inputOf m c skip s)"
    using waiting_checks [of "inputOf m c skip s"] m by (simp add: haveBufferedCharacterToken_def)
qed (use dispatch_checks [unfolded keepsChecks_def] in blast)

lemma nextToken_checks:
  assumes "ready m" "nextToken table m = Some (b, m')"
  shows "returned b m'"
proof (cases "m_bufferedEndTagName m \<noteq> [] \<and> \<not> isEndTagBufferingState (m_state m)")
  case False
  then show ?thesis using checks.continueToken_keeps assms by (auto simp: nextToken_def ready_def)
next
  case True
  let ?k = "beginBufferedEndTag m"
  have k: "m_checks (token ?k)" "m_type (token ?k) = EndTag" "m_bufferedEndTagName ?k = []" "m_state ?k = m_state m"
    using True assms(1)
    by (auto simp: ready_def beginBufferedEndTag_def onToken_def beginEndTag_def check_def Let_def)
  show ?thesis
  proof (cases "m_state m = DataState")
    case data: True
    then show ?thesis
      using True assms(2) k
      by (auto simp: nextToken_def Let_def returned_def ready_def onToken_def clearToken_def fits_all fits_def isText_def
          isEndTagNameState_def)
  next
    case data: False
    then have "\<forall>c. running c ?k"
      using True assms(1) k by (auto simp: ready_def fits_all fits_def isTag_def isEndTagNameState_def)
    then show ?thesis
      using checks.continueToken_keeps [of ?k] data True assms(2) k by (simp add: nextToken_def Let_def)
  qed
qed

end
