(* ===== verification/HTML_RawText.thy ===== *)
theory HTML_RawText
  imports HTML_Checks
begin

text \<open>
  The content of an element whose text holds no markup (RCDATA, RAWTEXT, script data) ends only with
  the end tag of that element: until then \<open>nextToken\<close> returns nothing but characters
  (\<open>nextToken_within\<close>). This is what keeps the text of a \<open>script\<close> or a \<open>title\<close> from being read as tags.
\<close>

section \<open>Within the element\<close>

definition isContentState :: "State \<Rightarrow> bool" where
  "isContentState st \<longleftrightarrow>
     st \<in> {RCDATAState, CharacterReferenceInRCDATAState, RAWTEXTState, ScriptDataState,
       RCDATALessThanSignState, RCDATAEndTagOpenState, RCDATAEndTagNameState,
       RAWTEXTLessThanSignState, RAWTEXTEndTagOpenState, RAWTEXTEndTagNameState,
       ScriptDataLessThanSignState, ScriptDataEndTagOpenState, ScriptDataEndTagNameState,
       ScriptDataEscapeStartState, ScriptDataEscapeStartDashState, ScriptDataEscapedState,
       ScriptDataEscapedDashState, ScriptDataEscapedDashDashState, ScriptDataEscapedLessThanSignState,
       ScriptDataEscapedEndTagOpenState, ScriptDataEscapedEndTagNameState,
       ScriptDataDoubleEscapeStartState, ScriptDataDoubleEscapedState, ScriptDataDoubleEscapedDashState,
       ScriptDataDoubleEscapedDashDashState, ScriptDataDoubleEscapedLessThanSignState,
       ScriptDataDoubleEscapeEndState}"

definition isAttributesState :: "State \<Rightarrow> bool" where
  "isAttributesState st \<longleftrightarrow>
     st \<in> {BeforeAttributeNameState, AttributeNameState, AfterAttributeNameState, BeforeAttributeValueState,
       AttributeValueDoubleQuotedState, AttributeValueSingleQuotedState, AttributeValueUnquotedState,
       CharacterReferenceInAttributeValueState, AfterAttributeValueQuotedState, SelfClosingStartTagState}"

text \<open>In the text; in the attributes of the end tag; or between the text and the end tag read after it.\<close>

definition inContent :: "uchar list \<Rightarrow> Machine \<Rightarrow> bool" where
  "inContent name m \<longleftrightarrow>
     isContentState (m_state m) \<and> isText (token m) \<and> (m_type (token m) = Uninitialized \<longrightarrow> m_data (token m) = []) \<and>
     m_appropriateEndTagName m = name \<and> (m_bufferedEndTagName m \<noteq> [] \<longleftrightarrow> isEndTagNameState (m_state m))"

definition inEndTag :: "uchar list \<Rightarrow> Machine \<Rightarrow> bool" where
  "inEndTag name m \<longleftrightarrow>
     isAttributesState (m_state m) \<and> m_type (token m) = EndTag \<and> m_data (token m) = name \<and> m_bufferedEndTagName m = []"

definition beforeEndTag :: "uchar list \<Rightarrow> Machine \<Rightarrow> bool" where
  "beforeEndTag name m \<longleftrightarrow>
     m_state m \<in> {BeforeAttributeNameState, SelfClosingStartTagState, DataState} \<and> m_type (token m) = Uninitialized \<and>
     m_data (token m) = [] \<and> m_bufferedEndTagName m \<noteq> [] \<and> map ucast (m_bufferedEndTagName m) = name"

definition within :: "uchar list \<Rightarrow> Machine \<Rightarrow> bool" where
  "within name m \<longleftrightarrow> inContent name m \<or> inEndTag name m \<or> beforeEndTag name m"

definition atEnd :: "Machine \<Rightarrow> bool" where
  "atEnd m \<longleftrightarrow>
     m_state m = DataState \<and>
     (m_type (token m) = EndOfFile \<or> isText (token m) \<and> shouldTreatNullAsEndOfFileMarker (source m))"

text \<open>What a call leaves: the end of the input; the end tag; characters; or nothing yet.\<close>

definition leaves :: "uchar list \<Rightarrow> bool \<Rightarrow> Machine \<Rightarrow> bool" where
  "leaves name b m \<longleftrightarrow>
     atEnd m \<or>
     (if b then m_type (token m) = EndTag \<and> m_data (token m) = name \<or>
        m_type (token m) = Character \<and> within name (onToken clearToken m)
      else within name m)"

definition scanning :: "uchar list \<Rightarrow> uchar \<Rightarrow> Machine \<Rightarrow> bool" where
  "scanning name cc m \<longleftrightarrow>
     marked cc m \<and>
     (inContent name m \<or> inEndTag name m \<or>
      m_state m = DataState \<and> cc = kEndOfFileMarker \<and> m_bufferedEndTagName m = [] \<and>
        (isText (token m) \<or> m_type (token m) = EndTag))"

definition keepsElement :: "uchar list \<Rightarrow> uchar \<Rightarrow> Control \<times> Machine \<Rightarrow> bool" where
  "keepsElement name = keeps (\<lambda>m. inContent name m \<or> inEndTag name m) (scanning name) (leaves name)"

lemma keepsElement_iff:
  "keepsElement name cc step \<longleftrightarrow>
     (case step of (control, m) \<Rightarrow>
        case control of
          Return b \<Rightarrow> leaves name b m
        | AdvanceTo st \<Rightarrow> inContent name (m\<lparr>m_state := st\<rparr>) \<or> inEndTag name (m\<lparr>m_state := st\<rparr>)
        | SwitchTo st \<Rightarrow> inContent name (m\<lparr>m_state := st\<rparr>) \<or> inEndTag name (m\<lparr>m_state := st\<rparr>)
        | ReconsumeIn st \<Rightarrow> scanning name cc (m\<lparr>m_state := st\<rparr>))"
  by (simp add: keepsElement_def keeps_def)

lemma isAppropriateEndTag_iff:
  "isAppropriateEndTag m \<longleftrightarrow> map ucast (m_bufferedEndTagName m) = m_appropriateEndTagName m"
  by (auto simp: isAppropriateEndTag_def list_eq_iff_nth_eq)

lemmas element_defs =
  keepsElement_iff leaves_def scanning_def within_def inContent_def inEndTag_def beforeEndTag_def atEnd_def
  marked_def isText_def isEndTagNameState_def isContentState_def isAttributesState_def

section \<open>The states\<close>

lemma content_states:
  assumes "inContent name m" "marked cc m" "m_state m = st" "st \<noteq> CharacterReferenceInRCDATAState" "isContentState st"
  shows "keepsElement name cc (dispatch table st cc m)"
  using assms
  by (cases st)
    (auto simp: dispatch_def character_state_defs endTagOpenIn_def endTagNameIn_def rejectEndTag_def machine_defs token_defs
      isAppropriateEndTag_iff element_defs Let_def)

lemma attribute_states:
  assumes "inEndTag name m" "marked cc m" "m_state m = st" "st \<noteq> CharacterReferenceInAttributeValueState" "isAttributesState st"
  shows "keepsElement name cc (dispatch table st cc m)"
  using assms
  by (cases st)
    (auto simp: dispatch_def character_state_defs machine_defs token_defs element_defs Let_def split: option.splits)

lemma data_state:
  assumes "scanning name cc m" "m_state m = DataState"
  shows "keepsElement name cc (dispatch table DataState cc m)"
  using assms
  by (auto simp: dispatch_def character_state_defs machine_defs token_defs element_defs Let_def)

section \<open>Character references\<close>

lemma bufferCharacter_content: "inContent name m \<Longrightarrow> inContent name (bufferCharacter c m)"
  by (auto simp: machine_defs token_defs inContent_def isText_def Let_def)

lemma buffer_state: "m_state (fold bufferCharacter cs m) = m_state m"
  by (induction cs arbitrary: m) (simp_all add: bufferCharacter_def onToken_def)

lemma buffer_content: "inContent name m \<Longrightarrow> inContent name (fold bufferCharacter cs m)"
  by (induction cs arbitrary: m) (simp_all add: bufferCharacter_content)

lemma appendToValue_endTag: "inEndTag name m \<Longrightarrow> inEndTag name (appendToValue c m)"
  by (auto simp: machine_defs token_defs inEndTag_def Let_def split: option.splits)

lemma value_endTag: "inEndTag name m \<Longrightarrow> inEndTag name (fold appendToValue cs m)"
  by (induction cs arbitrary: m) (simp_all add: appendToValue_endTag)

lemma element_waits:
  assumes "inContent name m \<or> inEndTag name m"
  shows "leaves name (haveBufferedCharacterToken m) m"
  using assms by (auto simp: element_defs haveBufferedCharacterToken_def onToken_def clearToken_def)

lemma element_source [simp]:
  "inContent name (m\<lparr>source := s\<rparr>) = inContent name m" "inEndTag name (m\<lparr>source := s\<rparr>) = inEndTag name m"
  by (simp_all add: inContent_def inEndTag_def)

lemma reference_in_content:
  assumes "inContent name m" "m_state m = CharacterReferenceInRCDATAState"
  shows "keepsElement name cc (characterReferenceIn RCDATAState table cc m)"
proof -
  obtain success decoded notEnough src where r: "consumeHTMLEntity table (source m) 0 = (success, decoded, notEnough, src)"
    using prod_cases4 by blast
  let ?m = "m\<lparr>source := src\<rparr>"
  define k where "k = fold bufferCharacter (if success then decoded else [0x26]) ?m"
  have m: "inContent name ?m" using assms(1) by simp
  have k: "inContent name k" unfolding k_def by (rule buffer_content [OF m])
  moreover have "m_state k = CharacterReferenceInRCDATAState"
    unfolding k_def using assms(2) by (simp add: buffer_state)
  ultimately have "inContent name (k\<lparr>m_state := RCDATAState\<rparr>)" by (simp add: element_defs)
  moreover have "processEntity table m = (if notEnough then (False, ?m) else (True, k))"
    using r by (simp add: processEntity_def k_def)
  ultimately show ?thesis
    using element_waits [of name ?m] m by (simp add: characterReferenceIn_def keepsElement_iff)
qed

lemma reference_in_endTag:
  assumes "inEndTag name m" "m_state m = CharacterReferenceInAttributeValueState"
  shows "keepsElement name cc (inCharacterReferenceInAttributeValueState table cc m)"
proof -
  obtain success decoded notEnough src
    where r: "consumeHTMLEntity table (source m) (m_additionalAllowedCharacter m) = (success, decoded, notEnough, src)"
    using prod_cases4 by blast
  let ?m = "m\<lparr>source := src\<rparr>"
  define k where "k = fold appendToValue (if success then decoded else [c_ampersand]) ?m"
  have m: "inEndTag name ?m" using assms(1) by simp
  have k: "inEndTag name k" unfolding k_def by (rule value_endTag [OF m])
  then have go: "inEndTag name (k\<lparr>m_state := st\<rparr>)" if "isAttributesState st" for st
    using that by (simp add: inEndTag_def)
  have "inEndTag name (onToken (check False) k)" using k by (simp add: inEndTag_def onToken_def check_def)
  then have stopped: "leaves name False (onToken (check False) k)" by (simp add: leaves_def within_def)
  have "inCharacterReferenceInAttributeValueState table cc m =
    (if notEnough then (Return (haveBufferedCharacterToken ?m), ?m)
     else if m_additionalAllowedCharacter k = c_quote then (SwitchTo AttributeValueDoubleQuotedState, k)
     else if m_additionalAllowedCharacter k = c_apostrophe then (SwitchTo AttributeValueSingleQuotedState, k)
     else if m_additionalAllowedCharacter k = c_greater then (SwitchTo AttributeValueUnquotedState, k)
     else notReached k)"
    using r unfolding inCharacterReferenceInAttributeValueState_def k_def by (simp add: Let_def)
  moreover have "leaves name (haveBufferedCharacterToken ?m) ?m" using element_waits m by blast
  ultimately show ?thesis
    using go stopped by (simp add: keepsElement_iff notReached_def isAttributesState_def)
qed

section \<open>Every call\<close>

lemma dispatch_element:
  assumes "scanning name cc m"
  shows "keepsElement name cc (dispatch table (m_state m) cc m)"
proof -
  note marked = assms [unfolded scanning_def, THEN conjunct1]
  from assms consider "inContent name m" | "inEndTag name m" | "m_state m = DataState" by (auto simp: scanning_def)
  then show ?thesis
  proof cases
    case 1
    then show ?thesis
      using content_states [OF 1 marked refl, of table] reference_in_content [OF 1, of cc table]
      by (cases "m_state m = CharacterReferenceInRCDATAState")
        (simp_all add: dispatch_def inCharacterReferenceInRCDATAState_def inContent_def)
  next
    case 2
    then show ?thesis
      using attribute_states [OF 2 marked refl, of table] reference_in_endTag [OF 2, of cc table]
      by (cases "m_state m = CharacterReferenceInAttributeValueState") (simp_all add: dispatch_def inEndTag_def)
  next
    case 3
    then show ?thesis using data_state [OF assms] by simp
  qed
qed

lemma element_inputOf [simp]:
  "inContent name (inputOf m c skip s) = inContent name m" "inEndTag name (inputOf m c skip s) = inEndTag name m"
  by (simp_all add: inContent_def inEndTag_def inputOf_def)

interpretation element: token_run table "\<lambda>m. inContent name m \<or> inEndTag name m" "scanning name" "leaves name" for table name
proof
  fix m c skip s
  assume m: "inContent name m \<or> inEndTag name m"
  then show "marked c (inputOf m c skip s) \<Longrightarrow> scanning name c (inputOf m c skip s)"
    unfolding scanning_def by (simp only: element_inputOf) blast
  show "leaves name (haveBufferedCharacterToken m) (inputOf m c skip s)"
    using element_waits [of name "inputOf m c skip s"] m by (simp add: haveBufferedCharacterToken_def)
qed (use dispatch_element [unfolded keepsElement_def] in blast)

lemma nextToken_within:
  assumes "within name m" "nextToken table m = Some (b, m')"
  shows "leaves name b m'"
proof (cases "m_bufferedEndTagName m \<noteq> [] \<and> \<not> isEndTagBufferingState (m_state m)")
  case False
  then have "inContent name m \<or> inEndTag name m"
    using assms(1) by (auto simp: within_def beforeEndTag_def isEndTagBufferingState_def)
  from element.continueToken_keeps [OF this] show ?thesis
    using assms(2) unfolding nextToken_def if_not_P [OF False] by blast
next
  case True
  let ?k = "beginBufferedEndTag m"
  have m: "beforeEndTag name m"
    using assms(1) True
    by (auto simp: within_def inContent_def inEndTag_def isEndTagBufferingState_def isEndTagNameState_def)
  then have k: "m_type (token ?k) = EndTag" "m_data (token ?k) = name" "m_bufferedEndTagName ?k = []" "m_state ?k = m_state m"
    by (auto simp: beforeEndTag_def beginBufferedEndTag_def onToken_def beginEndTag_def check_def Let_def)
  show ?thesis
  proof (cases "m_state m = DataState")
    case data: True
    then show ?thesis using assms(2) True k by (auto simp: nextToken_def Let_def leaves_def)
  next
    case data: False
    then have "inEndTag name ?k" using m k by (auto simp: inEndTag_def beforeEndTag_def isAttributesState_def)
    then show ?thesis
      using element.continueToken_keeps [of name ?k] data True assms(2) k by (simp add: nextToken_def Let_def)
  qed
qed

end
