(* ===== verification/Entity_Reference.thy ===== *)
theory Entity_Reference imports Entity_Parsing
begin

text \<open>
  What a character reference is, defined on the list of the characters to read (\<open>characterReference\<close>),
  and that \<open>consumeHTMLEntity\<close> computes it (\<open>consumeHTMLEntity_gives\<close>); the code points that the numbers
  stand for, and the lookup of whole names.
\<close>

section \<open>A reference definition on lists of characters\<close>

definition isDecimalDigit :: "uchar \<Rightarrow> bool" where
  "isDecimalDigit c \<longleftrightarrow> 0x30 \<le> c \<and> c \<le> 0x39"

definition hexNumber :: "uchar32 \<Rightarrow> uchar list \<Rightarrow> uchar32" where
  "hexNumber = foldl (\<lambda>n c. n * 16 + hexValue c)"

definition decimalNumber :: "uchar32 \<Rightarrow> uchar list \<Rightarrow> uchar32" where
  "decimalNumber = foldl (\<lambda>n c. n * 10 + ucast c - 0x30)"

text \<open>
  The result: success, the decoded characters, whether more characters are needed, and the
  characters left to read. \<open>all\<close> is what is left when the reference is given up.
\<close>

type_synonym reference = "bool \<times> uchar list \<times> bool \<times> uchar list"

definition endNumber :: "uchar list \<Rightarrow> uchar32 \<Rightarrow> uchar list \<Rightarrow> reference" where
  "endNumber all n rest =
     (case rest of
        [] \<Rightarrow> (False, [], True, all)
      | c # cs \<Rightarrow> (True, appendUChar32 [] (legalEntityFor n), False, if c = 0x3B then cs else rest))"

definition hexReference :: "uchar list \<Rightarrow> uchar list \<Rightarrow> reference" where
  "hexReference all cs =
     (case cs of
        [] \<Rightarrow> (False, [], True, all)
      | c # _ \<Rightarrow>
          if isHexDigit c then endNumber all (hexNumber 0 (takeWhile isHexDigit cs)) (dropWhile isHexDigit cs)
          else (False, [], False, all))"

definition numericReference :: "uchar list \<Rightarrow> uchar list \<Rightarrow> reference" where
  "numericReference all cs =
     (case cs of
        [] \<Rightarrow> (False, [], True, all)
      | c # rest \<Rightarrow>
          if c = 0x78 \<or> c = 0x58 then hexReference all rest
          else if isDecimalDigit c then
            endNumber all (decimalNumber 0 (takeWhile isDecimalDigit cs)) (dropWhile isDecimalDigit cs)
          else (False, [], False, all))"

definition entriesBeginning :: "HTMLEntityTableEntry list \<Rightarrow> uchar list \<Rightarrow> HTMLEntityTableEntry list" where
  "entriesBeginning table cs = filter (\<lambda>e. prefix (entity e) cs) table"

text \<open>A name is cut at the longest entry; when all of the characters begin an entry, more are needed.\<close>

definition namedReference :: "HTMLEntityTableEntry list \<Rightarrow> uchar \<Rightarrow> uchar list \<Rightarrow> reference" where
  "namedReference table additional cs =
     (if \<exists>e \<in> set table. prefix cs (entity e) then (False, [], True, cs)
      else if entriesBeginning table cs = [] then (False, [], False, cs)
      else
        let e = last (entriesBeginning table cs); n = length (entity e)
        in if endsReference e additional (cs ! n) then (True, decodeEntry e, False, drop n cs)
           else (False, [], False, cs))"

definition characterReference :: "HTMLEntityTableEntry list \<Rightarrow> uchar \<Rightarrow> uchar list \<Rightarrow> reference" where
  "characterReference table additional cs =
     (case cs of
        [] \<Rightarrow> (False, [], True, [])
      | c # rest \<Rightarrow>
          if c \<in> {0x09, 0x0A, 0x0C, 0x20, 0x3C, 0x26} \<or> additional \<noteq> 0 \<and> c = additional then (False, [], False, cs)
          else if c = 0x23 then numericReference cs rest
          else if isLetter c then namedReference table additional cs
          else (False, [], False, cs))"

section \<open>Sources with nothing pushed back\<close>

abbreviation chars :: "SegmentedString \<Rightarrow> uchar list" where
  "chars s \<equiv> v_chars (viewOf s)"

definition unescaped :: "SegmentedString \<Rightarrow> bool" where
  "unescaped s \<longleftrightarrow> string_invar s \<and> m_pushedChar1 s = 0"

lemma unescaped_invar: "unescaped s \<Longrightarrow> string_invar s"
  by (simp add: unescaped_def)

lemma unescaped_readable: "unescaped s \<Longrightarrow> readable s = chars s"
  by (simp add: unescaped_def readable_def v_chars_def) (simp add: viewOf_def)

lemma unescaped_empty: "unescaped s \<Longrightarrow> m_empty s \<longleftrightarrow> chars s = []"
  using readable_empty unescaped_readable unescaped_invar by metis

lemma unescaped_current: "unescaped s \<Longrightarrow> chars s = c # cs \<Longrightarrow> m_currentChar s = c"
  using readable_current unescaped_readable unescaped_invar by metis

lemma unescaped_advance: "unescaped s \<Longrightarrow> unescaped (advance s) \<and> chars (advance s) = tl (chars s)"
  using plain.step [of s] v_advance_chars [OF view_ok, of s]
  by (auto simp: unescaped_def) (auto simp: viewOf_def v_advance_def split: list.splits)

lemma unescaped_unconsume:
  assumes "unescaped s" "0 \<notin> set w"
  shows "chars (unconsumeCharacters s w) = w @ chars s"
proof -
  have "pushable s w" using assms(2) by (cases w) (auto simp: pushable_def)
  then have "viewOf (unconsumeCharacters s w) = v_unconsume (viewOf s) w"
    using unconsume_view unescaped_invar [OF assms(1)] by blast
  moreover have "v_pushed1 (viewOf s) = 0" "v_pushed2 (viewOf s) = 0"
    using assms(1) view_ok [of s] by (auto simp: unescaped_def view_ok_def) (auto simp: viewOf_def)
  ultimately show ?thesis
    using assms(2) by (cases w rule: remdups_adj.cases) (auto simp: v_unconsume_def v_push_def v_prepend_def v_chars_def)
qed

definition gives :: "entity_result \<Rightarrow> reference \<Rightarrow> bool" where
  "gives r q \<longleftrightarrow> (case r of (b, w, n, t) \<Rightarrow> q = (b, w, n, chars t))"

lemma gives_simp [simp]: "gives (b, w, n, t) q \<longleftrightarrow> q = (b, w, n, chars t)"
  by (simp add: gives_def)

section \<open>Numeric references\<close>

lemma hex_gives:
  assumes "unescaped s" "0 \<notin> set w" "length (chars s) < n"
  shows "gives (characterReferenceLoop table additional n Hex r w s)
    (endNumber (w @ chars s) (hexNumber r (takeWhile isHexDigit (chars s))) (dropWhile isHexDigit (chars s)))"
  using assms
proof (induction n arbitrary: r w s)
  case (Suc n)
  note adv = unescaped_advance [OF Suc.prems(1)]
  show ?case
  proof (cases "chars s")
    case Nil
    then show ?thesis
      using Suc.prems unescaped_empty unescaped_unconsume by (simp add: endNumber_def hexNumber_def)
  next
    case (Cons c cs)
    then have c: "m_currentChar s = c" "\<not> m_empty s" "chars (advance s) = cs"
      using unescaped_current unescaped_empty adv Suc.prems(1) by auto
    show ?thesis
    proof (cases "isHexDigit c")
      case True
      then have "c \<noteq> 0" by (auto simp: isHexDigit_def)
      then show ?thesis
        using Suc.IH [of "advance s" "w @ [c]" "r * 16 + hexValue c"] Suc.prems adv c Cons True
        by (simp add: Let_def hexNumber_def)
    next
      case False
      then show ?thesis using c Cons by (simp add: Let_def endNumber_def hexNumber_def)
    qed
  qed
qed simp

lemma decimal_gives:
  assumes "unescaped s" "0 \<notin> set w" "length (chars s) < n"
  shows "gives (characterReferenceLoop table additional n Decimal r w s)
    (endNumber (w @ chars s) (decimalNumber r (takeWhile isDecimalDigit (chars s))) (dropWhile isDecimalDigit (chars s)))"
  using assms
proof (induction n arbitrary: r w s)
  case (Suc n)
  note adv = unescaped_advance [OF Suc.prems(1)]
  show ?case
  proof (cases "chars s")
    case Nil
    then show ?thesis
      using Suc.prems unescaped_empty unescaped_unconsume by (simp add: endNumber_def decimalNumber_def)
  next
    case (Cons c cs)
    then have c: "m_currentChar s = c" "\<not> m_empty s" "chars (advance s) = cs"
      using unescaped_current unescaped_empty adv Suc.prems(1) by auto
    show ?thesis
    proof (cases "isDecimalDigit c")
      case True
      then have "c \<noteq> 0" by (auto simp: isDecimalDigit_def)
      then show ?thesis
        using Suc.IH [of "advance s" "w @ [c]" "r * 10 + ucast c - 0x30"] Suc.prems adv c Cons True
        by (simp add: Let_def decimalNumber_def isDecimalDigit_def)
    next
      case False
      then show ?thesis using c Cons by (auto simp: Let_def endNumber_def decimalNumber_def isDecimalDigit_def)
    qed
  qed
qed simp

section \<open>Named references\<close>

lemma entriesBeginning_last:
  assumes ok: "table_ok table" and i: "longestMatch table cs (Some i)"
  shows "entriesBeginning table cs \<noteq> [] \<and> last (entriesBeginning table cs) = table ! i"
proof -
  have pi: "i < length table" "prefix (entity (table ! i)) cs" using i by (auto simp: longestMatch_def)
  have later: "\<not> prefix (entity (table ! j)) cs" if "i < j" "j < length table" for j
  proof
    assume pj: "prefix (entity (table ! j)) cs"
    then have "length (entity (table ! j)) \<le> length (entity (table ! i))" using i that by (auto simp: longestMatch_def)
    then have "prefix (entity (table ! j)) (entity (table ! i))" using pi pj prefix_length_prefix by blast
    then obtain u where "entity (table ! i) = entity (table ! j) @ u" by (auto simp: prefix_def)
    then have "entity (table ! j) @ u < entity (table ! j) @ []" using table_sorted [OF ok that] by simp
    then show False by (simp only: append_less_iff not_less_Nil)
  qed
  have "table = take i table @ table ! i # drop (Suc i) table" using pi(1) by (rule id_take_nth_drop)
  moreover have "filter (\<lambda>e. prefix (entity e) cs) (drop (Suc i) table) = []"
    using later by (auto simp: filter_empty_conv in_set_conv_nth)
  ultimately have "entriesBeginning table cs = filter (\<lambda>e. prefix (entity e) cs) (take i table) @ [table ! i]"
    using pi(2) unfolding entriesBeginning_def by (metis filter.simps(2) filter_append)
  then show ?thesis by simp
qed

lemma entriesBeginning_none: "longestMatch table cs None \<Longrightarrow> entriesBeginning table cs = []"
  by (auto simp: entriesBeginning_def longestMatch_def filter_empty_conv in_set_conv_nth)

lemma accepted_all:
  assumes ok: "table_ok table" and "cs \<noteq> []"
  shows "accepted table (newSearch table) cs = length cs \<longleftrightarrow> (\<exists>e \<in> set table. prefix cs (entity e))"
proof -
  have "length cs \<le> accepted table (newSearch table) cs \<longleftrightarrow> matching table cs \<noteq> {}"
    using search_spec(3) [OF ok, of "length cs" cs] assms(2) by simp
  moreover have "matching table cs \<noteq> {} \<longleftrightarrow> (\<exists>e \<in> set table. prefix cs (entity e))"
    by (fastforce simp: matching_def in_set_conv_nth)
  ultimately show ?thesis using accepted_le [of table "newSearch table" cs] by auto
qed

lemma named_gives:
  assumes ok: "table_ok table" and s: "unescaped s" "chars s \<noteq> []"
  shows "gives (consumeNamedEntity table s additional cc) (namedReference table additional (chars s))"
proof -
  let ?cs = "chars s" and ?k = "accepted table (newSearch table) (chars s)"
  note inv = unescaped_invar [OF s(1)] and r = unescaped_readable [OF s(1)]
  have k: "?k \<le> length ?cs" by (rule accepted_le)
  have nz: "0 \<notin> set (take ?k ?cs)" by (rule accepted_nonzero [OF ok])
  have p2: "m_pushedChar2 s = 0" using s(1) by (auto simp: unescaped_def string_invar_def)
  note pb = putBack_view [OF inv k nz]
  have pc: "chars (putBack s ?k) = ?cs" using pb(4) p2 by simp
  show ?thesis
  proof (cases "?k = length ?cs")
    case True
    then show ?thesis
      using consumeNamedEntity_eq [OF ok inv, of additional cc] accepted_all [OF ok s(2)] r pc by (simp add: namedReference_def)
  next
    case False
    then have none: "\<not> (\<exists>e \<in> set table. prefix ?cs (entity e))" using accepted_all [OF ok s(2)] by blast
    show ?thesis
    proof (cases "m_mostRecentMatch (searched table (newSearch table) ?cs)")
      case None
      then have "entriesBeginning table ?cs = []" using search_spec(2) [OF ok, of ?cs] entriesBeginning_none by simp
      then show ?thesis
        using consumeNamedEntity_eq [OF ok inv, of additional cc] none None False r pc by (simp add: namedReference_def)
    next
      case (Some i)
      let ?n = "length (entity (table ! i))"
      note m = match_length [OF ok Some]
      have "longestMatch table ?cs (Some i)" using search_spec(2) [OF ok, of ?cs] Some by simp
      note e = entriesBeginning_last [OF ok this]
      have pbk: "chars (putBack (putBack s ?k) ?n) = ?cs" if "?n \<noteq> ?k"
      proof -
        have "0 \<notin> set (take ?n (chars (putBack s ?k)))"
          using nz set_take_subset_set_take [OF m(5), of ?cs] pc by auto
        then show ?thesis using putBack_view(4) [OF pb(1), of ?n] pc m k by simp
      qed
      have go: "chars ((advance ^^ ?n) (putBack s ?k)) = drop ?n ?cs" "chars ((advance ^^ ?n) s) = drop ?n ?cs"
        using advances_view [OF pb(1)] advances_view [OF inv] pc by simp_all
      show ?thesis
        using consumeNamedEntity_eq [OF ok inv, of additional cc] none Some False r pc e pbk go
        by (auto simp: namedReference_def Let_def)
    qed
  qed
qed

section \<open>All references\<close>

lemma loop_empty:
  "unescaped s \<Longrightarrow> 0 \<notin> set w \<Longrightarrow> chars s = [] \<Longrightarrow>
     gives (characterReferenceLoop table additional (Suc n) st r w s) (False, [], True, w)"
  using unescaped_empty [of s] unescaped_unconsume [of s w] by simp

lemma maybeHex_gives:
  assumes s: "unescaped s" "length (chars s) < n"
    and x: "x = 0x78 \<and> st = MaybeHexLowerCaseX \<or> x = 0x58 \<and> st = MaybeHexUpperCaseX"
  shows "gives (characterReferenceLoop table additional (Suc n) st 0 [0x23, x] s) (hexReference (0x23 # x # chars s) (chars s))"
proof (cases "chars s")
  case Nil
  then show ?thesis using loop_empty [OF s(1), of "[0x23, x]"] x
    by (auto simp: hexReference_def simp del: characterReferenceLoop.simps)
next
  case (Cons h r)
  then have h: "m_currentChar s = h" "\<not> m_empty s" using unescaped_current unescaped_empty s(1) by auto
  have "chars (push (push s 0x23) x) = 0x23 # x # chars s"
    using unescaped_unconsume [OF s(1), of "[0x23, x]"] x by (auto simp: unconsumeCharacters_def)
  moreover have "characterReferenceLoop table additional (Suc n) st 0 [0x23, x] s =
      (if isHexDigit h then characterReferenceLoop table additional n Hex 0 [0x23, x] s
       else (False, [], False, push (push s 0x23) x))"
    using x by (elim disjE conjE) (simp_all add: h Let_def)
  moreover have "0 \<notin> set [0x23, x]" using x by auto
  ultimately show ?thesis
    using hex_gives [OF s(1), of "[0x23, x]" n table additional 0] s(2) Cons
    by (cases "isHexDigit h") (simp_all add: hexReference_def del: characterReferenceLoop.simps)
qed

lemma number_gives:
  assumes s: "unescaped s" "length (chars s) < n"
  shows "gives (characterReferenceLoop table additional (Suc n) Number 0 [0x23] s) (numericReference (0x23 # chars s) (chars s))"
proof (cases "chars s")
  case Nil
  then show ?thesis using loop_empty [OF s(1), of "[0x23]"]
    by (simp add: numericReference_def del: characterReferenceLoop.simps)
next
  case (Cons d r)
  then have d: "m_currentChar s = d" "\<not> m_empty s" "chars (advance s) = r" "unescaped (advance s)"
    using unescaped_current unescaped_empty unescaped_advance s(1) by auto
  obtain k where n: "n = Suc k" using s(2) by (cases n) auto
  have "chars (push s 0x23) = 0x23 # chars s"
    using unescaped_unconsume [OF s(1), of "[0x23]"] by (simp add: unconsumeCharacters_def)
  moreover have "characterReferenceLoop table additional (Suc n) Number 0 [0x23] s =
      (if d = 0x78 then characterReferenceLoop table additional n MaybeHexLowerCaseX 0 [0x23, d] (advance s)
       else if d = 0x58 then characterReferenceLoop table additional n MaybeHexUpperCaseX 0 [0x23, d] (advance s)
       else if isDecimalDigit d then characterReferenceLoop table additional n Decimal 0 [0x23] s
       else (False, [], False, push s 0x23))"
    using d by (simp add: isDecimalDigit_def Let_def)
  ultimately show ?thesis
    using maybeHex_gives [OF d(4), where n = k and x = "0x78" and st = MaybeHexLowerCaseX]
      maybeHex_gives [OF d(4), where n = k and x = "0x58" and st = MaybeHexUpperCaseX]
      decimal_gives [OF s(1), of "[0x23]" n table additional 0] s(2) d(3) Cons n
    by (cases "isDecimalDigit d") (simp_all add: numericReference_def del: characterReferenceLoop.simps)
qed

lemma consumeHTMLEntity_gives:
  assumes ok: "table_ok table" and s: "unescaped s"
  shows "gives (consumeHTMLEntity table s additional) (characterReference table additional (chars s))"
proof -
  note inv = unescaped_invar [OF s]
  define n where "n = Suc (Suc (length (chars s)))"
  have loop: "consumeHTMLEntity table s additional = characterReferenceLoop table additional (Suc n) Initial 0 [] s"
    using length_view [OF inv] by (simp add: consumeHTMLEntity_def n_def numeral_3_eq_3 del: characterReferenceLoop.simps)
  show ?thesis
  proof (cases "chars s")
    case Nil
    then show ?thesis
      using loop_empty [OF s, of "[]"] by (simp add: loop characterReference_def del: characterReferenceLoop.simps)
  next
    case (Cons c rest)
    then have c: "m_currentChar s = c" "\<not> m_empty s" "chars (advance s) = rest" "unescaped (advance s)"
      using unescaped_current unescaped_empty unescaped_advance s by auto
    have number: "gives (characterReferenceLoop table additional n Number 0 [0x23] (advance s))
        (numericReference (0x23 # rest) rest)"
      using number_gives [OF c(4), of "Suc (length (chars s))"] c(3) Cons
      by (simp add: n_def del: characterReferenceLoop.simps)
    have named: "characterReferenceLoop table additional n Named 0 [] s = consumeNamedEntity table s additional c"
      using c by (simp add: n_def)
    show ?thesis
      using number named named_gives [OF ok s, of additional c] Cons c
      by (auto simp: loop characterReference_def isLetter_def Let_def)
  qed
qed


section \<open>Numbers\<close>

text \<open>The code point a number stands for, and its UTF-16 code units.\<close>

definition referencedCodePoint :: "nat \<Rightarrow> nat" where
  "referencedCodePoint n =
     (if n = 0 \<or> 0x10FFFF < n \<or> 0xD800 \<le> n \<and> n \<le> 0xDFFF then 0xFFFD
      else if 0x80 \<le> n \<and> n \<le> 0x9F then unat (windowsLatin1ExtensionArray ! (n - 0x80))
      else n)"

definition utf16 :: "nat \<Rightarrow> uchar list" where
  "utf16 n =
     (if n \<le> 0xFFFF then [of_nat n]
      else [of_nat (0xD800 + (n - 0x10000) div 0x400), of_nat (0xDC00 + (n - 0x10000) mod 0x400)])"

definition decimalValue :: "uchar list \<Rightarrow> nat" where
  "decimalValue = foldl (\<lambda>n c. n * 10 + (unat c - 0x30)) 0"

lemma decimalNumber_value:
  "list_all isDecimalDigit ds \<Longrightarrow> decimalNumber 0 ds = of_nat (decimalValue ds)"
proof -
  have "decimalNumber (of_nat n) ds = of_nat (foldl (\<lambda>n c. n * 10 + (unat c - 0x30)) n ds)" if "list_all isDecimalDigit ds" for n
    using that
  proof (induction ds arbitrary: n)
    case (Cons c ds)
    have "0x30 \<le> unat c" using Cons.prems by (simp add: isDecimalDigit_def word_le_nat_alt)
    then have eq: "(of_nat n * 10 + ucast c - 0x30 :: uchar32) = of_nat (n * 10 + (unat c - 0x30))"
      by (simp add: of_nat_diff of_nat_unat algebra_simps)
    show ?case
      using Cons.IH [of "n * 10 + (unat c - 0x30)"] Cons.prems
      by (simp add: decimalNumber_def eq)
  qed (simp add: decimalNumber_def)
  from this [of 0] show "list_all isDecimalDigit ds \<Longrightarrow> ?thesis" by (simp add: decimalValue_def)
qed

lemma number_reads:
  assumes "n < 2 ^ 31"
  shows "sint (of_nat n :: uchar32) = int n" "unat (of_nat n :: uchar32) = n" "ucast (of_nat n :: uchar32) = (of_nat n :: uchar)"
    "U_IS_BMP (of_nat n) \<longleftrightarrow> n \<le> 0xFFFF"
proof -
  show u: "unat (of_nat n :: uchar32) = n" using assms by (simp add: unat_of_nat)
  show "sint (of_nat n :: uchar32) = int n"
    using assms by (simp add: signed_of_nat signed_take_bit_int_eq_self)
  show "ucast (of_nat n :: uchar32) = (of_nat n :: uchar)"
    using assms by (simp add: unsigned_of_nat take_bit_nat_eq_self)
  show "U_IS_BMP (of_nat n) \<longleftrightarrow> n \<le> 0xFFFF"
    by (simp add: U_IS_BMP_def word_le_nat_alt u)
qed

lemma low_bits: "(x :: uchar32) AND 0x1F = take_bit 5 x" "(x :: uchar32) AND 0x3FF = take_bit 10 x"
  by (simp_all add: take_bit_eq_mask mask_numeral)

lemma and_split: "(x AND y) + (x AND NOT y) = (x :: 'a :: len word)"
proof -
  have "(x AND y) + (x AND NOT y) = (x AND y) OR (x AND NOT y)"
    by (rule disjunctive_add) (auto simp: bit_simps)
  also have "\<dots> = x" by (rule bit_word_eqI) (auto simp: bit_simps)
  finally show ?thesis .
qed

lemma windows_range:
  assumes "n < 2 ^ 31"
  shows "(of_nat n :: uchar32) AND NOT 0x1F = 0x80 \<longleftrightarrow> 0x80 \<le> n \<and> n \<le> 0x9F"
proof -
  let ?x = "of_nat n :: uchar32"
  have "take_bit 5 ?x + (?x AND NOT 0x1F) = ?x"
    using and_split [of ?x "0x1F"] by (simp add: low_bits)
  then have "?x AND NOT 0x1F = 0x80 \<longleftrightarrow> ?x = take_bit 5 ?x + 0x80"
    by (metis add_left_cancel)
  also have "\<dots> \<longleftrightarrow> n = n mod 32 + 0x80"
    using number_reads(2) [OF assms]
    by (simp add: word_unat_eq_iff unat_word_ariths unsigned_take_bit_eq take_bit_eq_mod)
  also have "\<dots> \<longleftrightarrow> n div 32 = 4" using mult_div_mod_eq [of 32 n] by linarith
  also have "\<dots> \<longleftrightarrow> 0x80 \<le> n \<and> n \<le> 0x9F" using div_eq_dividend_iff by (auto simp: div_nat_eqI)
  finally show ?thesis .
qed

lemma legalEntity_codePoint:
  assumes "n < 2 ^ 31"
  shows "legalEntityFor (of_nat n) = of_nat (referencedCodePoint n)"
proof -
  note r = number_reads [OF assms]
  have zero: "(of_nat n :: uchar32) = 0 \<longleftrightarrow> n = 0" using r(2) by (metis unat_eq_zero)
  have sub: "unat ((of_nat n :: uchar32) - 0x80) = n - 0x80" if "0x80 \<le> n"
    using that r(2) by (simp add: unat_sub word_le_nat_alt)
  have adjust: "ucast (adjustEntity (of_nat n)) =
      (of_nat (if 0x80 \<le> n \<and> n \<le> 0x9F then unat (windowsLatin1ExtensionArray ! (n - 0x80)) else n) :: uchar32)"
    if "n \<le> 0xFFFF"
    using that windows_range [OF assms] sub r(3)
    by (simp add: adjustEntity_def unsigned_of_nat take_bit_nat_eq_self of_nat_unat)
  show ?thesis
    using r zero adjust by (simp add: legalEntityFor_def referencedCodePoint_def)
qed

lemma append_utf16:
  assumes "n \<le> 0x10FFFF"
  shows "appendUChar32 [] (of_nat n) = utf16 n"
proof -
  have lt: "n < 2 ^ 31" using assms by simp
  note r = number_reads [OF lt]
  have "bit (0xDC00 :: uchar32) k \<Longrightarrow> 10 \<le> k" for k
  proof -
    have "(0xDC00 :: uchar32) = push_bit 10 0x37" by simp
    then show "bit (0xDC00 :: uchar32) k \<Longrightarrow> 10 \<le> k" by (metis bit_push_bit_iff)
  qed
  then have "(of_nat n AND 0x3FF) OR 0xDC00 = take_bit 10 (of_nat n :: uchar32) + 0xDC00"
    unfolding low_bits by (intro disjunctive_add [symmetric]) (metis bit_take_bit_iff not_less)
  also have "take_bit 10 (of_nat n :: uchar32) = of_nat (n mod 0x400)"
    using of_nat_take_bit [of 10 n, where 'a = "32 word"] by (simp only: take_bit_eq_mod [of 10 n]) simp
  also have "of_nat (n mod 0x400) + 0xDC00 = (of_nat (n mod 0x400 + 0xDC00) :: uchar32)"
    unfolding of_nat_add by simp
  moreover have "n mod 0x400 + 0xDC00 < 2 ^ 31"
    by (rule order.strict_trans [of _ "0x400 + 0xDC00"]) simp_all
  ultimately have trail: "ucast ((of_nat n AND 0x3FF) OR 0xDC00 :: uchar32) = (of_nat (n mod 0x400 + 0xDC00) :: uchar)"
    using number_reads(3) by metis
  have lead: "of_int (sint (of_nat n :: uchar32) div 1024 + 0xD7C0) = (of_nat (n div 0x400 + 0xD7C0) :: uchar)"
    by (simp add: r(1)) (metis of_int_of_nat_eq of_nat_div of_nat_numeral)
  have big: "0xD800 + (n - 0x10000) div 0x400 = n div 0x400 + 0xD7C0 \<and> 0xDC00 + (n - 0x10000) mod 0x400 = n mod 0x400 + 0xDC00"
    if "0x10000 \<le> n"
  proof -
    have "n = (n - 0x10000) + 0x400 * 64" using that by simp
    then have "n div 0x400 = 64 + (n - 0x10000) div 0x400" "n mod 0x400 = (n - 0x10000) mod 0x400"
      by (metis div_mult_self2 zero_neq_numeral, metis mod_mult_self2)
    then show ?thesis by simp
  qed
  show ?thesis
  proof (cases "n \<le> 0xFFFF")
    case True
    then show ?thesis using r(3,4) by (simp add: appendUChar32_def utf16_def)
  next
    case False
    then have "0x10000 \<le> n" by simp
    note b = big [OF this]
    from False r(4) have "\<not> U_IS_BMP (of_nat n)" by simp
    with False show ?thesis
      unfolding appendUChar32_def utf16_def b [THEN conjunct1] b [THEN conjunct2]
      by (simp only: if_False append_Nil lead trail)
  qed
qed

section \<open>Searching for whole names\<close>

lemma matching_iff: "matching table w \<noteq> {} \<longleftrightarrow> (\<exists>e \<in> set table. prefix w (entity e))"
  unfolding matching_def by (metis (mono_tags, lifting) empty_Collect_eq in_set_conv_nth)

lemma foldl_searched:
  assumes ok: "table_ok table"
  shows "matching table w \<noteq> {} \<Longrightarrow> searchedFor table w (foldl (advanceSearch table) (newSearch table) w)"
proof (induction w rule: rev_induct)
  case Nil
  then show ?case using newSearch_searched [OF ok] by simp
next
  case (snoc c w)
  then have "searchedFor table w (foldl (advanceSearch table) (newSearch table) w)"
    using matching_append [of table w "[c]"] by auto
  then show ?case using advanceSearch_step [OF ok] snoc.prems by simp
qed

lemma searchedFor_prefix: "searchedFor table w s \<Longrightarrow> isEntityPrefix s"
  by (auto simp: searchedFor_def isEntityPrefix_def split: if_splits)

lemma searchName_spec:
  assumes ok: "table_ok table"
  shows "searchedFor table w s \<Longrightarrow>
    (case searchName table s name of
       None \<Rightarrow> matching table (w @ map scast name) = {}
     | Some t \<Rightarrow> searchedFor table (w @ map scast name) t)"
proof (induction name arbitrary: w s)
  case (Cons c name)
  show ?case
  proof (cases "isEntityPrefix (advanceSearch table s (scast c))")
    case True
    then show ?thesis
      using Cons.IH [OF advanceSearch_step(2) [OF ok Cons.prems True]]
      by (simp add: Let_def split: option.splits)
  next
    case False
    then have "matching table (w @ [scast c]) = {}" using advanceSearch_step(1) [OF ok Cons.prems] by simp
    then show ?thesis
      using matching_append [of table "w @ [scast c]" "map scast name"] False by (simp add: Let_def)
  qed
qed simp

lemma toUCharArray_append: "appendUChar32ToUCharArray v = appendUChar32 [] v" "appendUChar32 w v = w @ appendUChar32 [] v"
  by (simp_all add: appendUChar32ToUCharArray_def appendUChar32_def)

lemma referencedCodePoint_le: "referencedCodePoint n \<le> 0x10FFFF"
proof -
  have "unat (c :: uchar) < 0x10000" for c
    using word_order.extremum [of c, unfolded word_le_nat_alt] by (simp add: unsigned_minus_1_eq_mask mask_eq_exp_minus_1)
  from this [of "windowsLatin1ExtensionArray ! (n - 0x80)"] show ?thesis by (auto simp: referencedCodePoint_def)
qed

text \<open>The entry of a name; a semicolon ends the name of an entry.\<close>

definition namedEntry :: "HTMLEntityTableEntry list \<Rightarrow> uchar list \<Rightarrow> HTMLEntityTableEntry option" where
  "namedEntry table name = find (\<lambda>e. entity e = name) table"

lemma find_nth: "i < length xs \<Longrightarrow> P (xs ! i) \<Longrightarrow> (\<And>j. j < i \<Longrightarrow> \<not> P (xs ! j)) \<Longrightarrow> find P xs = Some (xs ! i)"
  by (auto simp: find_Some_iff)

lemma decodeNamedEntity_entry:
  assumes ok: "table_ok table" and semi: "\<forall>e \<in> set table. 0x3B \<notin> set (butlast (entity e))"
  shows "decodeNamedEntityToUCharArray table name =
    Done (case namedEntry table (map scast name @ [0x3B]) of None \<Rightarrow> [] | Some e \<Rightarrow> decodeEntry e)"
proof -
  let ?w = "map scast name @ [0x3B :: uchar]"
  have none: "namedEntry table ?w = None" if "matching table ?w = {}"
    using that by (auto simp: namedEntry_def find_None_iff matching_def in_set_conv_nth)
  have start: "searchedFor table [] (newSearch table)" by (rule newSearch_searched [OF ok])
  show ?thesis
  proof (cases "searchName table (newSearch table) name")
    case None
    then have "matching table (map scast name) = {}" using searchName_spec [OF ok start, of name] by simp
    then have "matching table ?w = {}" using matching_append by blast
    then show ?thesis using None none by (simp add: decodeNamedEntityToUCharArray_def)
  next
    case (Some t)
    then have t: "searchedFor table (map scast name) t" using searchName_spec [OF ok start, of name] by simp
    let ?u = "advanceSearch table t 0x3B"
    show ?thesis
    proof (cases "isEntityPrefix ?u")
      case False
      then have "matching table ?w = {}" using advanceSearch_step(1) [OF ok t] by simp
      then show ?thesis using Some False none by (simp add: decodeNamedEntityToUCharArray_def Let_def)
    next
      case True
      then have u: "searchedFor table ?w ?u" using advanceSearch_step(2) [OF ok t] by simp
      obtain i where i: "i < length table" "prefix ?w (entity (table ! i))"
        using True advanceSearch_step(1) [OF ok t] by (auto simp: matching_def)
      then obtain v where v: "entity (table ! i) = ?w @ v" by (auto simp: prefix_def)
      have "v = []"
      proof (rule ccontr)
        assume "v \<noteq> []"
        then have "0x3B \<in> set (butlast (entity (table ! i)))" by (simp add: v butlast_append)
        then show False using semi i(1) nth_mem by blast
      qed
      then have entry: "entity (table ! i) = ?w" using v by simp
      have found: "longestMatch table ?w (m_mostRecentMatch ?u)" using u by (simp add: searchedFor_def)
      have longest: "longestMatch table ?w (Some i)"
        unfolding longestMatch_def option.case entry using i(1) prefix_length_le by blast
      have "m_mostRecentMatch ?u = Some i"
      proof (cases "m_mostRecentMatch ?u")
        case None
        then have "\<not> prefix (entity (table ! i)) ?w" using found i(1) by (simp add: longestMatch_def)
        then show ?thesis by (simp add: entry)
      next
        case (Some j)
        then show ?thesis using longestMatch_unique [OF ok _ longest] found by simp
      qed
      moreover have "namedEntry table ?w = Some (table ! i)"
        unfolding namedEntry_def
      proof (rule find_nth)
        show "entity (table ! j) \<noteq> ?w" if "j < i" for j using table_sorted [OF ok that i(1)] entry by auto
      qed (use i(1) entry in simp_all)
      ultimately show ?thesis
        using Some True toUCharArray_append(1) toUCharArray_append(2) [of "appendUChar32 [] (firstValue (table ! i))"]
        unfolding decodeNamedEntityToUCharArray_def Let_def decodeEntry_def by simp
    qed
  qed
qed

end
