(* ===== verification/HTML_Text.thy ===== *)
theory HTML_Text
  imports HTML_Runs Entity_Reference
begin

text \<open>
  Text without markup: \<open>nextToken\<close> gathers all the characters of the source into one character token,
  with the newlines normalised and the null characters dropped or replaced (\<open>nextToken_text\<close>).
\<close>

section \<open>Reading a character\<close>

lemma unescaped_reads:
  assumes "unescaped s" "string_invar t" "viewOf t = v_advance (viewOf s)"
  shows "unescaped t \<and> chars t = tl (chars s) \<and> m_closed t = m_closed s"
  using assms v_advance_chars [OF view_ok, of s]
  by (auto simp: unescaped_def closed_view) (auto simp: viewOf_def v_advance_def split: list.splits)

lemma unescaped_advances:
  assumes "unescaped s"
  shows "unescaped (advance s) \<and> chars (advance s) = tl (chars s) \<and> m_closed (advance s) = m_closed s"
    "unescaped (advanceAndUpdateLineNumber s) \<and> chars (advanceAndUpdateLineNumber s) = tl (chars s) \<and>
      m_closed (advanceAndUpdateLineNumber s) = m_closed s"
    "unescaped (advancePastNewlineAndUpdateLineNumber s) \<and> chars (advancePastNewlineAndUpdateLineNumber s) = tl (chars s) \<and>
      m_closed (advancePastNewlineAndUpdateLineNumber s) = m_closed s"
  using unescaped_reads [OF assms, of "advance s"] unescaped_reads [OF assms, of "advanceAndUpdateLineNumber s"]
    unescaped_reads [OF assms, of "advancePastNewlineAndUpdateLineNumber s"]
    advance_view [of s] advancePastNewline_view [of s] unescaped_invar [OF assms] by blast+

text \<open>
  The next character of the input, with the flag \<open>m_skipNextNewLine\<close> and the characters from there
  on; \<open>drops\<close> says whether null characters are dropped.
\<close>

fun readChar :: "bool \<Rightarrow> bool \<Rightarrow> uchar list \<Rightarrow> (uchar \<times> bool \<times> uchar list) option" where
  "readChar drops skip [] = None"
| "readChar drops skip (c # cs) =
     (if c = 0x0A \<and> skip then readChar drops False cs
      else if c = 0x0D then Some (0x0A, True, c # cs)
      else if c = 0 then if drops then readChar drops False cs else Some (0xFFFD, False, c # cs)
      else Some (c, False, c # cs))"

definition reads :: "bool \<Rightarrow> Machine \<Rightarrow> (bool \<times> Machine) option \<Rightarrow> bool" where
  "reads skip m r \<longleftrightarrow>
     (\<exists>s. unescaped s \<and> \<not> m_closed s \<and>
       (case readChar (shouldSkipNullCharacters m) skip (chars (source m)) of
          None \<Rightarrow> \<exists>c. r = Some (False, inputOf m c False s) \<and> chars s = []
        | Some (c, b, cs) \<Rightarrow> r = Some (True, inputOf m c b s) \<and> chars s = cs))"

lemma reads_later:
  "reads skip' (inputOf m c b s) r \<Longrightarrow>
     readChar (shouldSkipNullCharacters m) skip (chars (source m)) = readChar (shouldSkipNullCharacters m) skip' (chars s) \<Longrightarrow>
     reads skip m r"
  by (cases "readChar (shouldSkipNullCharacters m) skip' (chars s)") (auto simp: reads_def)

lemma process_reads_text:
  "unescaped (source m) \<Longrightarrow> \<not> m_closed (source m) \<Longrightarrow> chars (source m) = c # cs \<Longrightarrow> length cs < n \<Longrightarrow>
     m_nextInputCharacter m = c \<Longrightarrow> reads (m_skipNextNewLine m) m (processNextInputCharacter n m)"
proof (induction n arbitrary: m c cs)
  case (Suc n)
  have look: "reads skip k (processNextInputCharacter (Suc n) k)"
    if k: "unescaped (source k)" "\<not> m_closed (source k)" "chars (source k) = c # cs" "length cs < Suc n"
      "m_nextInputCharacter k = c" "\<not> (c = 0x0A \<and> m_skipNextNewLine k)" "skip = m_skipNextNewLine k" for k c cs skip
  proof -
    let ?s = "advance (source k)"
    have not: "\<not> (m_nextInputCharacter k = 0x0A \<and> m_skipNextNewLine k)" using k by simp
    have a: "unescaped ?s" "chars ?s = cs" "\<not> m_closed ?s" using unescaped_advances(1) [OF k(1)] k(2,3) by simp_all
    show ?thesis
    proof (cases "c = 0 \<and> shouldSkipNullCharacters k")
      case True
      show ?thesis
      proof (cases cs)
        case Nil
        then show ?thesis
          unfolding process_look [OF not] using True k a unescaped_empty [OF a(1)]
          by (auto simp: reads_def Let_def shouldTreatNullAsEndOfFileMarker_def intro: exI [of _ ?s])
      next
        case (Cons d ds)
        then have "reads False (inputOf k (m_currentChar ?s) False ?s) (processNextInputCharacter n (inputOf k (m_currentChar ?s) False ?s))"
          using Suc.IH [of "inputOf k (m_currentChar ?s) False ?s" d ds] a k(4) unescaped_current [OF a(1)] by simp
        then have "reads skip k (processNextInputCharacter n (inputOf k (m_currentChar ?s) False ?s))"
          by (rule reads_later) (use True k(3) a in simp)
        then show ?thesis
          unfolding process_look [OF not] using True k(2,5) unescaped_empty [OF a(1)] a Cons
          by (simp add: Let_def shouldTreatNullAsEndOfFileMarker_def)
      qed
    next
      case False
      then show ?thesis
        unfolding process_look [OF not] using k
        by (auto simp: reads_def shouldTreatNullAsEndOfFileMarker_def intro: exI [of _ "source k"])
    qed
  qed
  show ?case
  proof (cases "c = 0x0A \<and> m_skipNextNewLine m")
    case True
    let ?s = "advancePastNewlineAndUpdateLineNumber (source m)"
    have a: "unescaped ?s" "chars ?s = cs" "\<not> m_closed ?s" using unescaped_advances(3) [OF Suc.prems(1)] Suc.prems(2,3) by simp_all
    have skip: "m_nextInputCharacter m = 0x0A" "m_skipNextNewLine m" using True Suc.prems(5) by simp_all
    show ?thesis
    proof (cases cs)
      case Nil
      then show ?thesis
        unfolding process_skip [OF skip] using True a Suc.prems unescaped_empty [OF a(1)]
        by (auto simp: reads_def Let_def intro: exI [of _ ?s])
    next
      case (Cons d ds)
      then have "reads False (inputOf m (m_currentChar ?s) False ?s) (processNextInputCharacter (Suc n) (inputOf m (m_currentChar ?s) False ?s))"
        using look [of "inputOf m (m_currentChar ?s) False ?s" d ds] a Suc.prems(4) unescaped_current [OF a(1)] by simp
      then have "reads (m_skipNextNewLine m) m (processNextInputCharacter (Suc n) (inputOf m (m_currentChar ?s) False ?s))"
        by (rule reads_later) (use True Suc.prems(3) a in simp)
      then show ?thesis
        unfolding process_skip [OF skip] using unescaped_empty [OF a(1)] a Cons by (simp add: Let_def)
    qed
  qed (use look Suc.prems in blast)
qed simp

lemma peek_reads_text:
  assumes s: "unescaped (source m)" "\<not> m_closed (source m)" "chars (source m) \<noteq> []"
  shows "reads (m_skipNextNewLine m) m (peek m)"
proof -
  obtain c cs where cs: "chars (source m) = c # cs" using s(3) by (cases "chars (source m)") auto
  note c = unescaped_current [OF s(1) cs]
  let ?m = "inputOf m c (m_skipNextNewLine m) (source m)"
  have "length cs < Suc (SegmentedString_length (source m))"
    using cs length_view [OF unescaped_invar [OF s(1)]] by simp
  then have "reads (m_skipNextNewLine m) ?m (processNextInputCharacter (Suc (SegmentedString_length (source m))) ?m)"
    using process_reads_text [of ?m c cs] s cs by simp
  then have slow: "reads (m_skipNextNewLine m) m (processNextInputCharacter (Suc (SegmentedString_length (source m))) ?m)"
    by (rule reads_later) simp
  have mask: "(0x0A :: uchar) AND NOT specialCharacterMask = 0" "(0x0D :: uchar) AND NOT specialCharacterMask = 0"
    "(0 :: uchar) AND NOT specialCharacterMask = 0"
    by (simp_all add: specialCharacterMask_def)
  have "reads (m_skipNextNewLine m) m (Some (True, inputOf m c False (source m)))"
    if "c AND NOT specialCharacterMask \<noteq> 0"
  proof -
    have "c \<noteq> 0x0A" "c \<noteq> 0x0D" "c \<noteq> 0" using that mask by metis+
    then show ?thesis using s cs by (auto simp: reads_def)
  qed
  then show ?thesis using slow c by (simp add: peek_def Let_def to_inputOf)
qed

section \<open>Runs of text\<close>

fun normalise :: "bool \<Rightarrow> bool \<Rightarrow> uchar list \<Rightarrow> uchar list" where
  "normalise drops skip [] = []"
| "normalise drops skip (c # cs) =
     (if c = 0x0A \<and> skip then normalise drops False cs
      else if c = 0x0D then 0x0A # normalise drops True cs
      else if c = 0 then if drops then normalise drops False cs else 0xFFFD # normalise drops False cs
      else c # normalise drops False cs)"

definition skipAfter :: "bool \<Rightarrow> uchar list \<Rightarrow> bool" where
  "skipAfter skip cs = (if cs = [] then skip else last cs = 0x0D)"

lemma skipAfter_Cons: "skipAfter skip (c # cs) = skipAfter (c = 0x0D) cs"
  by (simp add: skipAfter_def)

text \<open>Cutting the text into two does not matter.\<close>

lemma normalise_append: "normalise drops skip (u @ v) = normalise drops skip u @ normalise drops (skipAfter skip u) v"
  by (induction u arbitrary: skip) (auto simp: skipAfter_def)

lemma normalise_readChar:
  "normalise drops skip cs =
     (case readChar drops skip cs of None \<Rightarrow> [] | Some (c, b, ds) \<Rightarrow> c # normalise drops b (tl ds))"
  by (induction cs arbitrary: skip) auto

lemma skipAfter_readChar:
  "cs \<noteq> [] \<Longrightarrow> skipAfter skip cs =
     (case readChar drops skip cs of None \<Rightarrow> False | Some (c, b, ds) \<Rightarrow> skipAfter b (tl ds))"
proof (induction cs arbitrary: skip)
  case (Cons c cs)
  then show ?case by (cases "cs = []") (auto simp: skipAfter_Cons skipAfter_def)
qed simp

lemma readChar_Some:
  "readChar drops skip cs = Some (c, b, ds) \<Longrightarrow> ds \<noteq> [] \<and> suffix ds cs \<and> c \<noteq> 0 \<and> (c \<in> set cs \<or> c = 0x0A \<or> c = 0xFFFD)"
  by (induction cs arbitrary: skip) (auto simp: suffix_Cons split: if_splits)

definition isTextState :: "State \<Rightarrow> bool" where
  "isTextState st \<longleftrightarrow> st \<in> {DataState, RCDATAState, RAWTEXTState, ScriptDataState, PLAINTEXTState}"

text \<open>The characters that a state of text only buffers.\<close>

definition isPlain :: "State \<Rightarrow> uchar \<Rightarrow> bool" where
  "isPlain st c \<longleftrightarrow> (st = PLAINTEXTState \<or> c \<noteq> c_less) \<and> (st \<in> {DataState, RCDATAState} \<longrightarrow> c \<noteq> c_ampersand)"

lemma dispatch_plain:
  "isTextState (m_state m) \<Longrightarrow> isPlain (m_state m) cc \<Longrightarrow> cc \<noteq> 0 \<Longrightarrow>
     dispatch table (m_state m) cc m = (AdvanceTo (m_state m), bufferCharacter cc m)"
  by (auto simp: isTextState_def isPlain_def dispatch_def inDataState_def inRCDATAState_def inRAWTEXTState_def
      inScriptDataState_def inPLAINTEXTState_def)

definition gathers :: "Machine \<Rightarrow> uchar list \<Rightarrow> bool \<Rightarrow> Machine \<Rightarrow> bool" where
  "gathers m w skip m' \<longleftrightarrow>
     m_type (token m') = Character \<and> m_data (token m') = m_data (token m) @ w \<and> m_state m' = m_state m \<and>
     unescaped (source m') \<and> \<not> m_closed (source m') \<and> chars (source m') = [] \<and> m_skipNextNewLine m' = skip"

lemma bufferCharacter_simps [simp]:
  "m_type (token (bufferCharacter c m)) = Character" "m_data (token (bufferCharacter c m)) = m_data (token m) @ [c]"
  "m_state (bufferCharacter c m) = m_state m" "source (bufferCharacter c m) = source m"
  "m_skipNextNewLine (bufferCharacter c m) = m_skipNextNewLine m"
  "shouldSkipNullCharacters (bufferCharacter c m) = shouldSkipNullCharacters m"
  by (simp_all add: bufferCharacter_def onToken_def appendToCharacter_def ensureIsCharacterToken_def appendData_def
      check_def shouldSkipNullCharacters_def Let_def)

lemma isPlain_other: "isPlain st 0x0A" "isPlain st 0xFFFD"
  by (simp_all add: isPlain_def)

lemma runStates_text:
  assumes "isTextState (m_state m)" "isPlain (m_state m) cc" "cc \<noteq> 0"
    and "unescaped (source m)" "\<not> m_closed (source m)" "chars (source m) = c # cs" "length cs < n"
    and "list_all (isPlain (m_state m)) cs"
  shows "\<exists>m'. runStates table n cc m = Some (True, m') \<and>
    gathers m (cc # normalise (shouldSkipNullCharacters m) (m_skipNextNewLine m) cs) (skipAfter (m_skipNextNewLine m) cs) m'"
  using assms
proof (induction n arbitrary: m cc c cs)
  case (Suc n)
  let ?drops = "shouldSkipNullCharacters m" and ?a = "advanceAndUpdateLineNumber (source m)"
  let ?m = "inputOf (bufferCharacter cc m) (m_nextInputCharacter (bufferCharacter cc m)) (m_skipNextNewLine m) ?a"
  have a: "unescaped ?a" "\<not> m_closed ?a" "chars ?a = cs"
    using unescaped_advances(2) [OF Suc.prems(4)] Suc.prems(5,6) by simp_all
  have same: "(bufferCharacter cc m)\<lparr>m_state := m_state m, source := ?a\<rparr> = ?m"
    by (rule Machine.equality) (simp_all add: inputOf_def)
  have step: "runStates table (Suc n) cc m =
    (case if m_empty ?a then Some (False, ?m) else peek ?m of None \<Rightarrow> None
     | Some (ok, m) \<Rightarrow> if \<not> ok then Some (haveBufferedCharacterToken m, m) else runStates table n (m_nextInputCharacter m) m)"
    using dispatch_plain [OF Suc.prems(1-3)] same by (simp add: advanceInput_def Let_def)
  show ?case
  proof (cases "cs = []")
    case True
    then show ?thesis
      using step unescaped_empty [OF a(1)] a by (simp add: gathers_def haveBufferedCharacterToken_def skipAfter_def)
  next
    case False
    then have r: "reads (m_skipNextNewLine m) ?m (peek ?m)"
      using peek_reads_text [of ?m] a by simp
    note none = unescaped_empty [OF a(1)] a False
    show ?thesis
    proof (cases "readChar ?drops (m_skipNextNewLine m) cs")
      case None
      then have "normalise ?drops (m_skipNextNewLine m) cs = []" "\<not> skipAfter (m_skipNextNewLine m) cs"
        using normalise_readChar [of ?drops _ cs] skipAfter_readChar [OF False, of _ ?drops] by simp_all
      then show ?thesis
        using step r none None by (auto simp: reads_def gathers_def haveBufferedCharacterToken_def)
    next
      case (Some p)
      then obtain d b ds where p: "readChar ?drops (m_skipNextNewLine m) cs = Some (d, b, ds)" by (cases p) auto
      then obtain e es where ds: "ds = e # es" using readChar_Some by (cases ds) blast+
      from r p a obtain s where s: "unescaped s" "\<not> m_closed s" "chars s = e # es" "peek ?m = Some (True, inputOf ?m d b s)"
        by (auto simp: reads_def ds)
      have "suffix ds cs" "d \<in> set cs \<or> d = 0x0A \<or> d = 0xFFFD" "d \<noteq> 0" using readChar_Some [OF p] by auto
      then have "isPlain (m_state m) d" "list_all (isPlain (m_state m)) es" "length es < n"
        using Suc.prems(7,8) isPlain_other suffix_length_le [of ds cs] set_mono_suffix [of ds cs] ds
        by (auto simp: list_all_iff)
      then obtain m' where m': "runStates table n d (inputOf ?m d b s) = Some (True, m')"
        "gathers (inputOf ?m d b s) (d # normalise ?drops b es) (skipAfter b es) m'"
        using Suc.IH [of "inputOf ?m d b s" d e es] Suc.prems(1) s \<open>d \<noteq> 0\<close> by auto
      moreover have "normalise ?drops (m_skipNextNewLine m) cs = d # normalise ?drops b es"
        "skipAfter (m_skipNextNewLine m) cs = skipAfter b es"
        using normalise_readChar [of ?drops _ cs] skipAfter_readChar [OF False, of _ ?drops] p ds by simp_all
      ultimately show ?thesis using step s none by (auto simp: gathers_def)
    qed
  qed
qed simp

text \<open>A call on the text between two tokens.\<close>

lemma nextToken_text:
  assumes "isTextState (m_state m)" "list_all (isPlain (m_state m)) (chars (source m))"
    and "unescaped (source m)" "\<not> m_closed (source m)"
    and "m_type (token m) = Uninitialized" "m_data (token m) = []" "m_bufferedEndTagName m = []"
  defines "w \<equiv> normalise (shouldSkipNullCharacters m) (m_skipNextNewLine m) (chars (source m))"
  shows "\<exists>m'. nextToken table m = Some (w \<noteq> [], m') \<and>
    m_type (token m') = (if w = [] then Uninitialized else Character) \<and> m_data (token m') = w \<and> m_state m' = m_state m \<and>
    m_empty (source m') \<and> m_skipNextNewLine m' = skipAfter (m_skipNextNewLine m) (chars (source m))"
proof -
  let ?cs = "chars (source m)" and ?drops = "shouldSkipNullCharacters m" and ?skip = "m_skipNextNewLine m"
  have eq: "nextToken table m = continueToken table m" using assms(7) by (simp add: nextToken_def)
  show ?thesis
  proof (cases "?cs = []")
    case True
    then show ?thesis
      using unescaped_empty [OF assms(3)] assms eq
      by (simp add: continueToken_def haveBufferedCharacterToken_def skipAfter_def)
  next
    case False
    then have r: "reads ?skip m (peek m)" using peek_reads_text assms(3,4) by blast
    note start = unescaped_empty [OF assms(3)] False eq
    show ?thesis
    proof (cases "readChar ?drops ?skip ?cs")
      case None
      then have "w = []" "\<not> skipAfter ?skip ?cs"
        using normalise_readChar [of ?drops _ ?cs] skipAfter_readChar [OF False, of _ ?drops] by (simp_all add: w_def)
      then show ?thesis
        using start r None assms(5,6) unescaped_empty
        by (auto simp: reads_def continueToken_def haveBufferedCharacterToken_def)
    next
      case (Some p)
      then obtain d b ds where p: "readChar ?drops ?skip ?cs = Some (d, b, ds)" by (cases p) auto
      then obtain e es where ds: "ds = e # es" using readChar_Some by (cases ds) blast+
      from r p obtain s where s: "unescaped s" "\<not> m_closed s" "chars s = e # es" "peek m = Some (True, inputOf m d b s)"
        by (auto simp: reads_def ds)
      have "suffix ds ?cs" "d \<in> set ?cs \<or> d = 0x0A \<or> d = 0xFFFD" "d \<noteq> 0" using readChar_Some [OF p] by auto
      then have "isPlain (m_state m) d" "list_all (isPlain (m_state m)) es"
        using assms(2) isPlain_other set_mono_suffix [of ds ?cs] ds by (auto simp: list_all_iff)
      moreover have "length es < enoughRounds (inputOf m d b s)"
        using length_view [OF unescaped_invar [OF s(1)]] s(3) by (simp add: enoughRounds_def)
      ultimately obtain m' where m': "runStates table (enoughRounds (inputOf m d b s)) d (inputOf m d b s) = Some (True, m')"
        "gathers (inputOf m d b s) (d # normalise ?drops b es) (skipAfter b es) m'"
        using runStates_text [of "inputOf m d b s" d e es] assms(1) s \<open>d \<noteq> 0\<close> by auto
      moreover have "w = d # normalise ?drops b es" "skipAfter ?skip ?cs = skipAfter b es"
        using normalise_readChar [of ?drops _ ?cs] skipAfter_readChar [OF False, of _ ?drops] p ds by (simp_all add: w_def)
      ultimately show ?thesis using start s assms(6) unescaped_empty by (auto simp: gathers_def continueToken_def)
    qed
  qed
qed

end
