(* ===== verification/HTML_Segments.thy ===== *)
theory HTML_Segments
  imports HTML_Progress
begin

text \<open>
  The tokenizer sees its source through \<open>viewOf\<close> alone: two machines that differ only in how the same
  characters are cut into segments, or stored in 8 or 16 bits, take the same steps (\<open>dispatch_similar\<close>)
  and return the same tokens (\<open>similar_nextToken\<close>).
\<close>

section \<open>Strings that read the same\<close>

definition sameInput :: "SegmentedString \<Rightarrow> SegmentedString \<Rightarrow> bool" where
  "sameInput s t \<longleftrightarrow> string_invar s \<and> string_invar t \<and> viewOf s = viewOf t"

lemma sameInput_reads:
  assumes "sameInput s t"
  shows "m_currentChar t = m_currentChar s" "m_empty t = m_empty s" "m_closed t = m_closed s"
    "SegmentedString_length t = SegmentedString_length s"
    "numberOfCharactersConsumed t = numberOfCharactersConsumed s" "m_pushedChar1 t = m_pushedChar1 s"
    "readable t = readable s"
  using assms
  by (auto simp: sameInput_def current_view isEmpty_view closed_view length_view consumed_view readable_def)
    (auto simp: viewOf_def)

lemma sameInput_advance:
  "sameInput s t \<Longrightarrow> sameInput (advance s) (advance t)"
  "sameInput s t \<Longrightarrow> sameInput (advanceAndUpdateLineNumber s) (advanceAndUpdateLineNumber t)"
  "sameInput s t \<Longrightarrow> sameInput (advancePastNewlineAndUpdateLineNumber s) (advancePastNewlineAndUpdateLineNumber t)"
  using advance_view advancePastNewline_view by (simp_all add: sameInput_def)

lemma sameInput_advances: "sameInput s t \<Longrightarrow> sameInput ((advance ^^ n) s) ((advance ^^ n) t)"
  using plain.steps by (simp add: sameInput_def)

lemma sameInput_push: "sameInput s t \<Longrightarrow> c \<noteq> 0 \<Longrightarrow> sameInput (push s c) (push t c)"
  using push_view by (simp add: sameInput_def)

lemma sameInput_unconsume:
  assumes "sameInput s t" "0 \<notin> set w"
  shows "sameInput (unconsumeCharacters s w) (unconsumeCharacters t w)"
proof -
  have "pushable s w" "pushable t w" using assms(2) by (cases w; auto simp: pushable_def)+
  then show ?thesis using assms(1) unconsume_view by (simp add: sameInput_def)
qed

lemma sameInput_putBack:
  assumes "sameInput s t" "0 \<notin> set (take k (v_chars (viewOf s)))"
  shows "sameInput (putBack s k) (putBack t k)"
  using sameInput_unconsume [OF sameInput_advances [OF assms(1)] assms(2)] assms(1)
  by (simp add: putBack_def sameInput_def)

lemma sameInput_lookAhead:
  assumes "sameInput s t" "2 \<le> length w"
  shows "fst (lookAheadInline t w b) = fst (lookAheadInline s w b) \<and>
    sameInput (snd (lookAheadInline s w b)) (snd (lookAheadInline t w b))"
proof -
  have inv: "string_invar s" "string_invar t" "viewOf s = viewOf t" using assms(1) by (simp_all add: sameInput_def)
  obtain s' where "lookAheadInline s w b = (v_lookAhead (viewOf s) w b, s')" "string_invar s'"
    "viewOf s' = (if m_pushedChar1 s = 0 \<or> length (v_chars (viewOf s)) < length w then viewOf s else v_unescape (viewOf s))"
    using lookAhead_view [OF inv(1) assms(2)] by metis
  moreover obtain t' where "lookAheadInline t w b = (v_lookAhead (viewOf t) w b, t')" "string_invar t'"
    "viewOf t' = (if m_pushedChar1 t = 0 \<or> length (v_chars (viewOf t)) < length w then viewOf t else v_unescape (viewOf t))"
    using lookAhead_view [OF inv(2) assms(2)] by metis
  ultimately show ?thesis
    using inv(3) sameInput_reads(6) [OF assms(1)] by (simp add: sameInput_def)
qed

definition sameResult :: "entity_result \<Rightarrow> entity_result \<Rightarrow> bool" where
  "sameResult r q \<longleftrightarrow>
     fst r = fst q \<and> fst (snd r) = fst (snd q) \<and> fst (snd (snd r)) = fst (snd (snd q)) \<and>
     sameInput (resultSource r) (resultSource q)"

lemma sameResult_simp [simp]:
  "sameResult (b, w, n, s) (b', w', n', t) \<longleftrightarrow> b = b' \<and> w = w' \<and> n = n' \<and> sameInput s t"
  by (auto simp: sameResult_def)

lemma sameResultE:
  assumes "sameResult r q"
  obtains b w n s t where "r = (b, w, n, s)" "q = (b, w, n, t)" "sameInput s t"
  using assms by (cases r; cases q) auto

lemma named_same:
  assumes ok: "table_ok table" and st: "sameInput s t"
  shows "sameResult (consumeNamedEntity table s additional cc) (consumeNamedEntity table t additional cc')"
proof -
  have inv: "string_invar s" "string_invar t" "viewOf t = viewOf s" using st by (simp_all add: sameInput_def)
  define cs where "cs = readable s"
  define k where "k = accepted table (newSearch table) cs"
  have cs: "readable t = cs" using sameInput_reads(7) [OF st] by (simp add: cs_def)
  have k: "k \<le> length cs" by (simp add: k_def accepted_le)
  have le: "k \<le> length (v_chars (viewOf s))" using k readable_length [of s] by (simp add: cs_def len_def)
  have nz: "0 \<notin> set (take k (v_chars (viewOf s)))"
    using accepted_nonzero [OF ok, of cs] readable_take [OF k [unfolded cs_def]] by (simp add: k_def cs_def)
  have p: "sameInput (putBack s k) (putBack t k)" by (rule sameInput_putBack [OF st nz])
  have pp: "sameInput (putBack (putBack s k) n) (putBack (putBack t k) n)" if "0 < n" "n \<le> k" "n \<noteq> k" for n
  proof (rule sameInput_putBack [OF p])
    have "v_chars (viewOf (putBack s k)) = v_chars (viewOf s)"
      by (rule putBack_view(4) [OF inv(1) le nz]) (use that in linarith)
    then show "0 \<notin> set (take n (v_chars (viewOf (putBack s k))))"
      using nz set_take_subset_set_take [OF that(2), of "v_chars (viewOf s)"] by auto
  qed
  show ?thesis
    unfolding consumeNamedEntity_eq [OF ok inv(1)] consumeNamedEntity_eq [OF ok inv(2)] cs
      cs_def [symmetric] k_def [symmetric]
    using p pp match_length [OF ok, of cs, folded k_def] sameInput_advances [OF st] sameInput_advances [OF p]
    by (auto simp: Let_def split: option.split)
qed

lemma reference_same:
  assumes "table_ok table" "sameInput s t" "readSoFar st w"
  shows "sameResult (characterReferenceLoop table additional n st result w s)
    (characterReferenceLoop table additional n st result w t)"
  using assms(2,3)
proof (induction n arbitrary: st result w s t)
  case 0
  then show ?case using sameInput_unconsume by (simp add: readSoFar_def)
next
  case (Suc n)
  let ?c = "m_currentChar s"
  note reads = sameInput_reads [OF Suc.prems(1)]
  have un: "sameInput (unconsumeCharacters s w) (unconsumeCharacters t w)"
    using sameInput_unconsume Suc.prems by (simp add: readSoFar_def)
  note adv = sameInput_advance(1) [OF Suc.prems(1)]
  note more = Suc.IH [OF adv] and same = Suc.IH [OF Suc.prems(1)]
  have p1: "sameInput (push s 0x23) (push t 0x23)" by (rule sameInput_push [OF Suc.prems(1)]) simp
  note p2 = sameInput_push [OF p1]
  have hex: "readSoFar Hex (w @ [?c])" if "st = Hex" "isHexDigit ?c"
    using Suc.prems(2) that by (auto simp: readSoFar_def isHexDigit_def)
  have dec: "readSoFar Decimal (w @ [?c])" if "st = Decimal" "0x30 \<le> ?c"
    using Suc.prems(2) that by (auto simp: readSoFar_def)
  show ?case
    using Suc.prems named_same [OF assms(1) Suc.prems(1)] un adv more same p1 p2 hex dec
    by (cases st) (auto simp: reads readSoFar_def Let_def)
qed


lemma consumeHTMLEntity_same:
  assumes "table_ok table" "sameInput s t"
  shows "sameResult (consumeHTMLEntity table s additional) (consumeHTMLEntity table t additional)"
  using reference_same [OF assms, of Initial "[]"] sameInput_reads(4) [OF assms(2)]
  by (simp add: consumeHTMLEntity_def readSoFar_def)

section \<open>Machines that read the same\<close>

definition similar :: "Machine \<Rightarrow> Machine \<Rightarrow> bool" where
  "similar m k \<longleftrightarrow>
     m_state k = m_state m \<and> m_forceNullCharacterReplacement k = m_forceNullCharacterReplacement m \<and>
     m_shouldAllowCDATA k = m_shouldAllowCDATA m \<and> m_additionalAllowedCharacter k = m_additionalAllowedCharacter m \<and>
     m_nextInputCharacter k = m_nextInputCharacter m \<and> m_skipNextNewLine k = m_skipNextNewLine m \<and>
     m_appropriateEndTagName k = m_appropriateEndTagName m \<and> m_temporaryBuffer k = m_temporaryBuffer m \<and>
     m_bufferedEndTagName k = m_bufferedEndTagName m \<and> m_usePreHTML5ParserQuirks k = m_usePreHTML5ParserQuirks m \<and>
     m_scriptEnabled k = m_scriptEnabled m \<and> m_pluginsEnabled k = m_pluginsEnabled m \<and>
     token k = token m \<and> sameInput (source m) (source k)"

lemma similar_fields:
  assumes "similar m k"
  shows "m_state k = m_state m" "m_forceNullCharacterReplacement k = m_forceNullCharacterReplacement m"
    "m_shouldAllowCDATA k = m_shouldAllowCDATA m" "m_additionalAllowedCharacter k = m_additionalAllowedCharacter m"
    "m_nextInputCharacter k = m_nextInputCharacter m" "m_skipNextNewLine k = m_skipNextNewLine m"
    "m_temporaryBuffer k = m_temporaryBuffer m" "m_bufferedEndTagName k = m_bufferedEndTagName m"
    "m_usePreHTML5ParserQuirks k = m_usePreHTML5ParserQuirks m" "token k = token m"
    "isAppropriateEndTag k = isAppropriateEndTag m" "haveBufferedCharacterToken k = haveBufferedCharacterToken m"
    "temporaryBufferIs k w = temporaryBufferIs m w" "shouldSkipNullCharacters k = shouldSkipNullCharacters m"
  using assms
  by (simp_all add: similar_def isAppropriateEndTag_def haveBufferedCharacterToken_def temporaryBufferIs_def
      shouldSkipNullCharacters_def)

lemma similar_source: "similar m k \<Longrightarrow> sameInput (source m) (source k)"
  by (simp add: similar_def)

lemma similar_updates:
  assumes "similar m k"
  shows "similar (m\<lparr>m_state := st\<rparr>) (k\<lparr>m_state := st\<rparr>)"
    "similar (m\<lparr>m_appropriateEndTagName := w\<rparr>) (k\<lparr>m_appropriateEndTagName := w\<rparr>)"
    "similar (m\<lparr>m_additionalAllowedCharacter := c\<rparr>) (k\<lparr>m_additionalAllowedCharacter := c\<rparr>)"
    "similar (m\<lparr>m_temporaryBuffer := b\<rparr>) (k\<lparr>m_temporaryBuffer := b\<rparr>)"
    "similar (m\<lparr>m_bufferedEndTagName := b, m_temporaryBuffer := b'\<rparr>) (k\<lparr>m_bufferedEndTagName := b, m_temporaryBuffer := b'\<rparr>)"
    "sameInput s t \<Longrightarrow> similar (m\<lparr>source := s\<rparr>) (k\<lparr>source := t\<rparr>)"
    "sameInput s t \<Longrightarrow> similar (inputOf m d skip s) (inputOf k d skip t)"
  using assms by (simp_all add: similar_def inputOf_def)

lemma similar_ops:
  assumes "similar m k"
  shows "similar (onToken f m) (onToken f k)"
    "similar (bufferCharacter c m) (bufferCharacter c k)"
    "similar (assertNoBufferedEndTag m) (assertNoBufferedEndTag k)"
    "similar (clearTemporaryBuffer m) (clearTemporaryBuffer k)"
    "similar (appendToTemporaryBuffer c m) (appendToTemporaryBuffer c k)"
    "similar (addToPossibleEndTag c m) (addToPossibleEndTag c k)"
    "similar (saveEndTagNameIfNeeded m) (saveEndTagNameIfNeeded k)"
    "similar (beginAttribute c m) (beginAttribute c k)"
    "similar (endName m) (endName k)"
    "similar (beginValue d m) (beginValue d k)"
    "similar (endValue m) (endValue k)"
    "similar (appendToValue c m) (appendToValue c k)"
    "similar (appendComment cs m) (appendComment cs k)"
  using assms sameInput_reads(5) [OF similar_source [OF assms]]
  by (auto simp: similar_def onToken_def bufferCharacter_def assertNoBufferedEndTag_def clearTemporaryBuffer_def
      appendToTemporaryBuffer_def addToPossibleEndTag_def saveEndTagNameIfNeeded_def beginAttribute_def
      endName_def beginValue_def endValue_def appendToValue_def appendComment_def Let_def)

lemma similar_fold:
  "similar m k \<Longrightarrow> similar (fold bufferCharacter cs m) (fold bufferCharacter cs k)"
  "similar m k \<Longrightarrow> similar (fold appendToValue cs m) (fold appendToValue cs k)"
  by (induction cs arbitrary: m k) (simp_all add: similar_ops)

definition similarStep :: "'a \<times> Machine \<Rightarrow> 'a \<times> Machine \<Rightarrow> bool" where
  "similarStep p q \<longleftrightarrow> fst p = fst q \<and> similar (snd p) (snd q)"

lemma similarStep_simp [simp]: "similarStep (c, m) (c', k) \<longleftrightarrow> c = c' \<and> similar m k"
  by (simp add: similarStep_def)

lemma similar_flush:
  assumes "similar m k"
  shows "similarStep (flushBufferedEndTag m) (flushBufferedEndTag k)"
  using assms sameInput_advance(2) [OF similar_source [OF assms]]
  by (auto simp: flushBufferedEndTag_def similar_def onToken_def Let_def)

lemma similar_steps:
  assumes "similar m k"
  shows "similarStep (emitAndResumeIn st m) (emitAndResumeIn st k)"
    "similarStep (emitAndReconsumeIn st m) (emitAndReconsumeIn st k)"
    "similarStep (emitEndOfFile m) (emitEndOfFile k)"
    "similarStep (flushAndAdvanceTo st m) (flushAndAdvanceTo st k)"
    "similarStep (flushEmitAndResumeIn st m) (flushEmitAndResumeIn st k)"
    "similarStep (rejectEndTag st m) (rejectEndTag st k)"
proof -
  show "similarStep (emitAndResumeIn st m) (emitAndResumeIn st k)" 
    "similarStep (emitAndReconsumeIn st m) (emitAndReconsumeIn st k)"
    "similarStep (emitEndOfFile m) (emitEndOfFile k)"
    "similarStep (rejectEndTag st m) (rejectEndTag st k)"
    using assms sameInput_advance(2) [OF similar_source [OF assms]]
    by (auto simp: emitAndResumeIn_def emitAndReconsumeIn_def emitEndOfFile_def rejectEndTag_def similar_def
        haveBufferedCharacterToken_def saveEndTagNameIfNeeded_def bufferCharacter_def onToken_def Let_def)
  have "similarStep (flushBufferedEndTag (m\<lparr>m_state := st\<rparr>)) (flushBufferedEndTag (k\<lparr>m_state := st\<rparr>))"
    by (rule similar_flush) (rule similar_updates [OF assms])
  then show "similarStep (flushAndAdvanceTo st m) (flushAndAdvanceTo st k)"
    "similarStep (flushEmitAndResumeIn st m) (flushEmitAndResumeIn st k)"
    by (auto simp: flushAndAdvanceTo_def flushEmitAndResumeIn_def similarStep_def split: prod.splits)
qed

lemma temporaryBufferIs_buffer [simp]: "temporaryBufferIs (bufferCharacter c m) w = temporaryBufferIs m w"
  by (simp add: temporaryBufferIs_def bufferCharacter_def onToken_def)

lemma similar_character_states:
  assumes sim: "similar m k"
    and "st \<notin> {CharacterReferenceInDataState, CharacterReferenceInRCDATAState, CharacterReferenceInAttributeValueState,
       MarkupDeclarationOpenState, AfterDOCTYPENameState}"
  shows "similarStep (dispatch table st cc m) (dispatch table st cc k)"
  using assms(2) sim
  by (cases st) (simp_all add: dispatch_def character_state_defs similar_fields [OF sim] similar_ops similar_updates
      similar_steps Let_def)


lemma similar_references:
  assumes "table_ok table" "similar m k"
  shows "similarStep (characterReferenceIn st table cc m) (characterReferenceIn st table cc k)"
    and "similarStep (inCharacterReferenceInAttributeValueState table cc m)
      (inCharacterReferenceInAttributeValueState table cc k)"
proof -
  note entity = consumeHTMLEntity_same [OF assms(1) similar_source [OF assms(2)]]
  obtain b w n s t where r: "consumeHTMLEntity table (source m) 0 = (b, w, n, s)"
    "consumeHTMLEntity table (source k) 0 = (b, w, n, t)" "sameInput s t"
    by (rule sameResultE [OF entity [of 0]])
  have u: "similar (m\<lparr>source := s\<rparr>) (k\<lparr>source := t\<rparr>)" by (rule similar_updates(6) [OF assms(2) r(3)])
  show "similarStep (characterReferenceIn st table cc m) (characterReferenceIn st table cc k)"
    using r similar_fields [OF u] u similar_fold(1) [OF u] similar_ops(2) [OF u]
    by (simp add: characterReferenceIn_def processEntity_def Let_def)
  obtain b w n s t where r: "consumeHTMLEntity table (source m) (m_additionalAllowedCharacter m) = (b, w, n, s)"
    "consumeHTMLEntity table (source k) (m_additionalAllowedCharacter m) = (b, w, n, t)" "sameInput s t"
    by (rule sameResultE [OF entity [of "m_additionalAllowedCharacter m"]])
  have u: "similar (m\<lparr>source := s\<rparr>) (k\<lparr>source := t\<rparr>)" by (rule similar_updates(6) [OF assms(2) r(3)])
  define j i where "j = (if \<not> b then appendToValue c_ampersand (m\<lparr>source := s\<rparr>) else fold appendToValue w (m\<lparr>source := s\<rparr>))"
    and "i = (if \<not> b then appendToValue c_ampersand (k\<lparr>source := t\<rparr>) else fold appendToValue w (k\<lparr>source := t\<rparr>))"
  have v: "similar j i" using similar_fold(2) [OF u] similar_ops(12) [OF u] by (simp add: j_def i_def)
  show "similarStep (inCharacterReferenceInAttributeValueState table cc m)
      (inCharacterReferenceInAttributeValueState table cc k)"
    using r similar_fields [OF u] similar_fields(4) [OF assms(2)] u similar_fields [OF v] v similar_ops(1) [OF v]
    unfolding inCharacterReferenceInAttributeValueState_def notReached_def Let_def
    by (simp only: r prod.case j_def [symmetric] i_def [symmetric] similar_fields(4) [OF assms(2)] split: if_split) simp
qed

lemma similar_lookAhead:
  assumes "similar m k" "2 \<le> length w"
  obtains result s t where "lookAheadInline (source m) w b = (result, s)" "lookAheadInline (source k) w b = (result, t)"
    "similar (m\<lparr>source := s\<rparr>) (k\<lparr>source := t\<rparr>)"
    "similar (m\<lparr>source := advanceString s w\<rparr>) (k\<lparr>source := advanceString t w\<rparr>)"
proof -
  have same: "fst (lookAheadInline (source k) w b) = fst (lookAheadInline (source m) w b)"
    "sameInput (snd (lookAheadInline (source m) w b)) (snd (lookAheadInline (source k) w b))"
    using sameInput_lookAhead [OF similar_source [OF assms(1)] assms(2), of b] by auto
  show thesis
    by (rule that [of "fst (lookAheadInline (source m) w b)" "snd (lookAheadInline (source m) w b)"
          "snd (lookAheadInline (source k) w b)"])
      (use same similar_updates(6) [OF assms(1)] sameInput_advances in \<open>simp_all add: advanceString_funpow prod_eq_iff\<close>)
qed

lemma similar_markup:
  assumes sim: "similar m k"
  shows "similarStep (inMarkupDeclarationOpenState cc m) (inMarkupDeclarationOpenState cc k)"
    and "similarStep (inAfterDOCTYPENameState cc m) (inAfterDOCTYPENameState cc k)"
proof -
  note f = similar_fields [OF sim]
  obtain r1 s1 t1 where dash: "lookAheadInline (source m) (asciiName ''--'') True = (r1, s1)"
    "lookAheadInline (source k) (asciiName ''--'') True = (r1, t1)"
    "similar (m\<lparr>source := s1\<rparr>) (k\<lparr>source := t1\<rparr>)"
    "similar (m\<lparr>source := advanceString s1 (asciiName ''--'')\<rparr>) (k\<lparr>source := advanceString t1 (asciiName ''--'')\<rparr>)"
    by (rule similar_lookAhead [OF sim, of "asciiName ''--''" True]) simp
  obtain r2 s2 t2 where doct: "lookAheadInline (source m) (asciiName ''doctype'') False = (r2, s2)"
    "lookAheadInline (source k) (asciiName ''doctype'') False = (r2, t2)"
    "similar (m\<lparr>source := s2\<rparr>) (k\<lparr>source := t2\<rparr>)"
    "similar (m\<lparr>source := advanceString s2 (asciiName ''doctype'')\<rparr>) (k\<lparr>source := advanceString t2 (asciiName ''doctype'')\<rparr>)"
    by (rule similar_lookAhead [OF sim, of "asciiName ''doctype''" False]) simp
  obtain r3 s3 t3 where cdata: "lookAheadInline (source m) (asciiName ''[CDATA['') True = (r3, s3)"
    "lookAheadInline (source k) (asciiName ''[CDATA['') True = (r3, t3)"
    "similar (m\<lparr>source := s3\<rparr>) (k\<lparr>source := t3\<rparr>)"
    "similar (m\<lparr>source := advanceString s3 (asciiName ''[CDATA['')\<rparr>) (k\<lparr>source := advanceString t3 (asciiName ''[CDATA['')\<rparr>)"
    by (rule similar_lookAhead [OF sim, of "asciiName ''[CDATA[''" True]) simp
  show "similarStep (inMarkupDeclarationOpenState cc m) (inMarkupDeclarationOpenState cc k)"
    using sim dash doct cdata similar_fields(12) [OF dash(3)] similar_fields(12) [OF doct(3)] similar_fields(12) [OF cdata(3)]
    by (simp add: inMarkupDeclarationOpenState_def lookAhead_def lookAheadIgnoringCase_def f similar_ops Let_def
        split: LookAheadResult.split)
  obtain r4 s4 t4 where pub: "lookAheadInline (source m) (asciiName ''public'') False = (r4, s4)"
    "lookAheadInline (source k) (asciiName ''public'') False = (r4, t4)"
    "similar (m\<lparr>source := s4\<rparr>) (k\<lparr>source := t4\<rparr>)"
    "similar (m\<lparr>source := advanceString s4 (asciiName ''public'')\<rparr>) (k\<lparr>source := advanceString t4 (asciiName ''public'')\<rparr>)"
    by (rule similar_lookAhead [OF sim, of "asciiName ''public''" False]) simp
  obtain r5 s5 t5 where syst: "lookAheadInline (source m) (asciiName ''system'') False = (r5, s5)"
    "lookAheadInline (source k) (asciiName ''system'') False = (r5, t5)"
    "similar (m\<lparr>source := s5\<rparr>) (k\<lparr>source := t5\<rparr>)"
    "similar (m\<lparr>source := advanceString s5 (asciiName ''system'')\<rparr>) (k\<lparr>source := advanceString t5 (asciiName ''system'')\<rparr>)"
    by (rule similar_lookAhead [OF sim, of "asciiName ''system''" False]) simp
  show "similarStep (inAfterDOCTYPENameState cc m) (inAfterDOCTYPENameState cc k)"
    using sim pub syst similar_fields(12) [OF pub(3)] similar_fields(12) [OF syst(3)]
    by (simp add: inAfterDOCTYPENameState_def lookAheadIgnoringCase_def similar_ops similar_steps Let_def
        split: LookAheadResult.split)
qed

lemma dispatch_similar:
  assumes "table_ok table" "similar m k"
  shows "similarStep (dispatch table st cc m) (dispatch table st cc k)"
  using similar_character_states [OF assms(2), of st table cc] similar_references [OF assms] similar_markup [OF assms(2)]
  by (cases st) (simp_all add: dispatch_def inCharacterReferenceInDataState_def inCharacterReferenceInRCDATAState_def)

section \<open>Calls that read the same\<close>

definition similarResult :: "('a \<times> Machine) option \<Rightarrow> ('a \<times> Machine) option \<Rightarrow> bool" where
  "similarResult r q \<longleftrightarrow> rel_option similarStep r q"

lemma similarResult_simps [simp]:
  "similarResult None r \<longleftrightarrow> r = None"
  "similarResult (Some p) (Some q) \<longleftrightarrow> similarStep p q"
  by (simp_all add: similarResult_def)

lemma similar_process: "similar m k \<Longrightarrow> similarResult (processNextInputCharacter n m) (processNextInputCharacter n k)"
proof (induction n arbitrary: m k)
  case 0
  then show ?case by (simp add: processNextInputCharacter.simps)
next
  case (Suc n)
  have eof: "shouldTreatNullAsEndOfFileMarker t = shouldTreatNullAsEndOfFileMarker s" if "sameInput s t" for s t
    using sameInput_reads [OF that] by (simp add: shouldTreatNullAsEndOfFileMarker_def)
  have look: "similarResult (processNextInputCharacter (Suc n) m) (processNextInputCharacter (Suc n) k)"
    if sim: "similar m k" and no: "\<not> (m_nextInputCharacter m = 0x0A \<and> m_skipNextNewLine m)" for m k
  proof -
    have no': "\<not> (m_nextInputCharacter k = 0x0A \<and> m_skipNextNewLine k)" using no similar_fields [OF sim] by simp
    note adv = sameInput_advance(1) [OF similar_source [OF sim]]
    show ?thesis
      unfolding process_look [OF no] process_look [OF no']
      using similar_source [OF sim] sim adv Suc.IH similar_fields [OF sim] sameInput_reads [OF adv] eof
      by (simp add: similar_updates Let_def)
  qed
  show ?case
  proof (cases "m_nextInputCharacter m = 0x0A \<and> m_skipNextNewLine m")
    case True
    then have True': "m_nextInputCharacter k = 0x0A \<and> m_skipNextNewLine k" using similar_fields [OF Suc.prems] by simp
    note adv = sameInput_advance(3) [OF similar_source [OF Suc.prems]]
    show ?thesis
      using process_skip [of m n] process_skip [of k n] True True' look sameInput_reads [OF adv] adv Suc.prems
      by (simp add: similar_updates Let_def)
  qed (use look Suc.prems in blast)
qed


lemma similar_peek: "similar m k \<Longrightarrow> similarResult (peek m) (peek k)"
proof -
  assume sim: "similar m k"
  note reads = sameInput_reads [OF similar_source [OF sim]]
  have u: "similar (inputOf m c skip (source m)) (inputOf k c skip (source k))" for c skip
    by (rule similar_updates(7) [OF sim similar_source [OF sim]])
  show ?thesis
    using u similar_process [OF u] similar_fields [OF sim] reads by (simp add: peek_def to_inputOf Let_def)
qed

lemma similar_advanceInput: "similar m k \<Longrightarrow> similarResult (advanceInput m) (advanceInput k)"
proof -
  assume sim: "similar m k"
  note adv = sameInput_advance(2) [OF similar_source [OF sim]]
  have u: "similar (m\<lparr>source := advanceAndUpdateLineNumber (source m)\<rparr>) (k\<lparr>source := advanceAndUpdateLineNumber (source k)\<rparr>)"
    by (rule similar_updates(6) [OF sim adv])
  show ?thesis using u similar_peek [OF u] sameInput_reads [OF adv] by (simp add: advanceInput_def Let_def)
qed

lemma similarResult_bind:
  assumes "similarResult r q" "\<And>x m k. similar m k \<Longrightarrow> similarResult (f x m) (f x k)"
  shows "similarResult (case r of None \<Rightarrow> None | Some (x, m) \<Rightarrow> f x m) (case q of None \<Rightarrow> None | Some (x, m) \<Rightarrow> f x m)"
  using assms by (cases r; cases q) (auto simp: similarResult_def similarStep_def)

lemma similar_runStates:
  assumes ok: "table_ok table"
  shows "similar m k \<Longrightarrow> similarResult (runStates table n cc m) (runStates table n cc k)"
proof (induction n arbitrary: cc m k)
  case (Suc n)
  have step: "similarStep (dispatch table (m_state m) cc m) (dispatch table (m_state k) cc k)"
    using dispatch_similar [OF ok Suc.prems] similar_fields(1) [OF Suc.prems] by simp
  obtain control j i where ji: "dispatch table (m_state m) cc m = (control, j)" "dispatch table (m_state k) cc k = (control, i)"
    "similar j i"
    using step by (cases "dispatch table (m_state m) cc m"; cases "dispatch table (m_state k) cc k") auto
  have u: "similar (j\<lparr>m_state := st\<rparr>) (i\<lparr>m_state := st\<rparr>)" for st by (rule similar_updates(1) [OF ji(3)])
  have go: "similarResult (if \<not> x then Some (haveBufferedCharacterToken m, m) else runStates table n (m_nextInputCharacter m) m)
      (if \<not> x then Some (haveBufferedCharacterToken k, k) else runStates table n (m_nextInputCharacter k) k)"
    if "similar m k" for x m k
    using Suc.IH [OF that] similar_fields [OF that] that by simp
  show ?case
  proof (cases control)
    case (SwitchTo st)
    have "m_empty (source i) = m_empty (source j)" using sameInput_reads(2) [OF similar_source [OF ji(3)]] .
    then have "similarResult (if m_empty (source j) then Some (False, j\<lparr>m_state := st\<rparr>) else peek (j\<lparr>m_state := st\<rparr>))
        (if m_empty (source i) then Some (False, i\<lparr>m_state := st\<rparr>) else peek (i\<lparr>m_state := st\<rparr>))"
      using u similar_peek [OF u] by simp
    from similarResult_bind [OF this go] show ?thesis using ji SwitchTo by (simp add: Let_def)
  next
    case (AdvanceTo st)
    show ?thesis
      using similarResult_bind [OF similar_advanceInput [OF u [of st]] go] ji AdvanceTo by (simp add: Let_def)
  qed (use ji Suc.IH u in simp_all)
qed simp

lemma similar_continueToken:
  assumes "table_ok table" "similar m k"
  shows "similarResult (continueToken table m) (continueToken table k)"
proof -
  have go: "similarResult (if \<not> x then Some (haveBufferedCharacterToken m, m)
        else runStates table (enoughRounds m) (m_nextInputCharacter m) m)
      (if \<not> x then Some (haveBufferedCharacterToken k, k)
        else runStates table (enoughRounds k) (m_nextInputCharacter k) k)"
    if "similar m k" for x m k
    using similar_runStates [OF assms(1) that] similar_fields [OF that] that
      sameInput_reads(4) [OF similar_source [OF that]] by (simp add: enoughRounds_def)
  show ?thesis
    using similarResult_bind [OF similar_peek [OF assms(2)] go] similar_fields [OF assms(2)] assms(2)
      sameInput_reads(2) [OF similar_source [OF assms(2)]]
    by (simp add: continueToken_def)
qed

lemma similar_nextToken:
  assumes "table_ok table" "similar m k"
  shows "similarResult (nextToken table m) (nextToken table k)"
proof -
  have u: "similar (beginBufferedEndTag m) (beginBufferedEndTag k)"
    using assms(2) by (simp add: beginBufferedEndTag_def onToken_def similar_def Let_def)
  show ?thesis
    using similar_continueToken [OF assms] similar_continueToken [OF assms(1) u] u similar_fields [OF u] similar_fields [OF assms(2)]
    by (simp add: nextToken_def Let_def)
qed

end
