(* ===== verification/HTML_Theorems.thy ===== *)
theory HTML_Theorems
  imports HTML_RawText HTML_Text HTML_Segments
begin

text \<open>
  The properties of the HTML tokenizer, each with a concrete instance where it has hypotheses. The
  instances use a small table of entities, two letters each, one for every letter.
\<close>

section \<open>A table and sources for the instances\<close>

definition letters :: "uchar list" where
  "letters = map of_nat ([0x41..<0x5B] @ [0x61..<0x7B])"

definition smallTable :: "HTMLEntityTableEntry list" where
  "smallTable = map (\<lambda>c. \<lparr>entity = [c, 0x74], firstValue = (if c = 0x6C then 0x3C else ucast c), secondValue = 0\<rparr>) letters"

lemma letters_members: "c \<in> set letters \<longleftrightarrow> isLetter c"
proof
  assume "isLetter c"
  then have "unat c \<in> set ([0x41..<0x5B] @ [0x61..<0x7B])"
    unfolding set_append set_upt by (auto simp: isLetter_def word_le_nat_alt)
  then have "of_nat (unat c) \<in> set letters" unfolding letters_def set_map by (rule imageI)
  then show "c \<in> set letters" by simp
next
  assume "c \<in> set letters"
  then show "isLetter c" by (auto simp: letters_def isLetter_def word_le_nat_alt unat_of_nat)
qed

lemma letters_sorted: "sorted_wrt (<) letters"
  by (simp add: letters_def upt_rec)

lemma smallTable_ok: "table_ok smallTable"
proof -
  have "map entity smallTable = map (\<lambda>c. [c, 0x74]) letters" by (simp add: smallTable_def)
  moreover have "sorted_wrt (<) (map (\<lambda>c. [c, 0x74 :: uchar]) letters)"
    unfolding sorted_wrt_map using letters_sorted by (rule sorted_wrt_mono_rel [rotated]) simp
  ultimately have "sorted_wrt (<) (map entity smallTable)" by metis
  moreover have "isLetter c \<Longrightarrow> c \<noteq> 0" for c by (auto simp: isLetter_def)
  then have "\<forall>e \<in> set smallTable. entity e \<noteq> [] \<and> length (entity e) \<noteq> 1 \<and> isLetter (hd (entity e)) \<and> 0 \<notin> set (entity e)"
    by (auto simp: smallTable_def letters_members)
  moreover have "\<forall>c. isLetter c \<longrightarrow> (\<exists>e \<in> set smallTable. hd (entity e) = c)"
    by (simp add: smallTable_def letters_members)
  ultimately show ?thesis unfolding table_ok_def by blast
qed

definition openSource :: "string \<Rightarrow> SegmentedString" where
  "openSource w = SegmentedString_of True (asciiName w)"

text \<open>\<open>HTMLInputStream::markEndOfFile\<close> appends the marker and closes the source.\<close>

definition closedSource :: "string \<Rightarrow> SegmentedString" where
  "closedSource w = closeSegmentedString (appendSegmentedString (openSource w) (SegmentedString_of True [kEndOfFileMarker]))"

definition tokenizerOn :: "SegmentedString \<Rightarrow> Machine" where
  "tokenizerOn s = newTokenizer False True True newToken s"

lemma openSource_view [simp]: "string_invar (openSource w)" "viewOf (openSource w) = emptyView\<lparr>v_rest := asciiName w\<rparr>"
  using SegmentedString_of_view [of True "asciiName w"] by (simp_all add: openSource_def)

lemma closedSource_view [simp]:
  "string_invar (closedSource w)" "viewOf (closedSource w) = emptyView\<lparr>v_rest := asciiName w @ [0], v_closed := True\<rparr>"
proof -
  let ?s = "appendSegmentedString (openSource w) (SegmentedString_of True [kEndOfFileMarker])"
  have "string_invar ?s \<and> viewOf ?s = v_append (viewOf (openSource w)) [0]"
    by (rule appendSegmentedString_view) simp
  then have "string_invar (closedSource w) \<and> viewOf (closedSource w) = (v_append (viewOf (openSource w)) [0])\<lparr>v_closed := True\<rparr>"
    unfolding closedSource_def using close_view [of ?s] by simp
  then show "string_invar (closedSource w)" "viewOf (closedSource w) = emptyView\<lparr>v_rest := asciiName w @ [0], v_closed := True\<rparr>"
    by (simp_all add: v_append_def)
qed

lemma tokenizerOn_simps [simp]:
  "source (tokenizerOn s) = s" "token (tokenizerOn s) = newToken" "m_state (tokenizerOn s) = DataState"
  "m_bufferedEndTagName (tokenizerOn s) = []" "m_appropriateEndTagName (tokenizerOn s) = []"
  "m_skipNextNewLine (tokenizerOn s) = False" "m_forceNullCharacterReplacement (tokenizerOn s) = False"
  by (simp_all add: tokenizerOn_def newTokenizer_def)

section \<open>The calls of \<open>nextToken\<close>\<close>

text \<open>
  C15. \<open>nextToken\<close> returns, in every state of the tokenizer and on every source, whatever its
  segments: the rounds that the model allows (eight for each character, and eight) are enough. It
  leaves a well-formed source with no more characters than it found.
\<close>

theorem nextToken_returns:
  assumes "table_ok table" and "string_invar (source m)"
  shows "\<exists>b m'. nextToken table m = Some (b, m') \<and> string_invar (source m') \<and>
    length (v_chars (viewOf (source m'))) \<le> length (v_chars (viewOf (source m))) \<and> m_closed (source m') = m_closed (source m)"
  using nextToken_ends [OF assms] by (auto simp: shrinks_def len_def)

theorem nextToken_returns_witness:
  "\<exists>b m'. nextToken smallTable (tokenizerOn (closedSource ''a&lt'')) = Some (b, m') \<and> string_invar (source m')"
proof -
  have "string_invar (source (tokenizerOn (closedSource ''a&lt'')))" by simp
  from nextToken_returns [OF smallTable_ok this] show ?thesis by blast
qed

text \<open>
  C16. Every state finds a token of the type it works on: from a machine that is \<open>ready\<close>, as a new
  tokenizer is, a call follows no null pointer (the current attribute, the DOCTYPE data) and fails no
  assertion that \<open>m_checks\<close> records: in the methods of the token, those on its type, and that a character
  appended to a name, an identifier or a comment is not null; in the tokenizer, those on the type of the
  token and on the end-tag buffer. The machine is \<open>ready\<close> again when the caller has cleared the token it
  was given. Not recorded are the two assertions of \<open>appendToAttributeValue\<close> on the character and on the
  range of the value, and that of \<open>bufferCharacter\<close>; a reference that decodes to a null character fails
  those on the character (below).
\<close>

theorem nextToken_type_safe:
  assumes "ready m" and "nextToken table m = Some (b, m')"
  shows "m_checks (token m') \<and> ready (if b then onToken clearToken m' else m')"
  using nextToken_checks [OF assms] by (simp add: returned_def)

lemma new_ready: "ready (tokenizerOn s)"
  by (simp add: ready_def fits_all tokenizerOn_def newTokenizer_def newToken_def fits_def isText_def isEndTagNameState_def)

theorem nextToken_type_safe_witness:
  "\<exists>b m'. nextToken smallTable (tokenizerOn (closedSource ''<a b=c>'')) = Some (b, m') \<and> m_checks (token m')"
proof -
  obtain b m' where "nextToken smallTable (tokenizerOn (closedSource ''<a b=c>'')) = Some (b, m')"
    using nextToken_ends [OF smallTable_ok, of "tokenizerOn (closedSource ''<a b=c>'')"] by auto
  with nextToken_type_safe [OF new_ready this] show ?thesis by blast
qed

text \<open>
  C17. How the source is cut into segments, or stored (8 or 16 bits), does not matter: on two strings
  with the same characters to read, the same characters pushed back and the same position, a call returns the same answer,
  the same token and the same state of the tokenizer, and leaves again the same characters to read.
\<close>

theorem nextToken_ignores_segments:
  assumes "table_ok table" and "string_invar s" and "string_invar t" and "viewOf s = viewOf t"
  shows "\<exists>b k s' t'. nextToken table (m\<lparr>source := s\<rparr>) = Some (b, k\<lparr>source := s'\<rparr>) \<and>
    nextToken table (m\<lparr>source := t\<rparr>) = Some (b, k\<lparr>source := t'\<rparr>) \<and> viewOf s' = viewOf t'"
proof -
  let ?m = "m\<lparr>source := s\<rparr>" and ?k = "m\<lparr>source := t\<rparr>"
  have "similar ?m ?k" using assms(2-4) by (simp add: similar_def sameInput_def)
  then have r: "similarResult (nextToken table ?m) (nextToken table ?k)" by (rule similar_nextToken [OF assms(1)])
  obtain b i where i: "nextToken table ?m = Some (b, i)" using nextToken_ends [OF assms(1), of ?m] assms(2) by auto
  obtain c j where j: "nextToken table ?k = Some (c, j)" using nextToken_ends [OF assms(1), of ?k] assms(3) by auto
  have "c = b" "similar i j" using r i j by simp_all
  then have eq: "i\<lparr>source := source j\<rparr> = j" and view: "viewOf (source i) = viewOf (source j)"
    by (auto simp: similar_def sameInput_def intro: Machine.equality)
  have "i\<lparr>source := source i\<rparr> = i" by (rule Machine.equality) simp_all
  then have "nextToken table ?m = Some (b, i\<lparr>source := source i\<rparr>)" using i by simp
  moreover have "nextToken table ?k = Some (b, i\<lparr>source := source j\<rparr>)" unfolding eq using j \<open>c = b\<close> by simp
  ultimately show ?thesis using view by blast
qed

theorem nextToken_ignores_segments_witness:
  "\<exists>b k s' t'.
    nextToken smallTable ((tokenizerOn (openSource ''''))\<lparr>source := SegmentedString_of True (asciiName ''<p>&lt;'')\<rparr>) = Some (b, k\<lparr>source := s'\<rparr>) \<and>
    nextToken smallTable ((tokenizerOn (openSource ''''))\<lparr>source := appendSegmentedString (SegmentedString_of False (asciiName ''<p>&''))
      (SegmentedString_of True (asciiName ''lt;''))\<rparr>) = Some (b, k\<lparr>source := t'\<rparr>) \<and> viewOf s' = viewOf t'"
proof -
  let ?t = "appendSegmentedString (SegmentedString_of False (asciiName ''<p>&'')) (SegmentedString_of True (asciiName ''lt;''))"
  have "string_invar ?t" "viewOf ?t = v_append (viewOf (SegmentedString_of False (asciiName ''<p>&''))) (asciiName ''lt;'')"
    using appendSegmentedString_view SegmentedString_of_view by blast+
  moreover from this have "viewOf (SegmentedString_of True (asciiName ''<p>&lt;'')) = viewOf ?t"
    using SegmentedString_of_view by (simp add: v_append_def asciiName_def)
  ultimately show ?thesis
    using nextToken_ignores_segments [OF smallTable_ok, of "SegmentedString_of True (asciiName ''<p>&lt;'')" ?t]
      SegmentedString_of_view by blast
qed

section \<open>Text\<close>

text \<open>
  C18. The text of an element such as \<open>title\<close>, \<open>style\<close> or \<open>script\<close> ends only with the end tag of that
  element: within it a call returns a character token, or that end tag, or reaches the end of the
  input; never a tag, a comment or a DOCTYPE of the text. It stays \<open>within\<close> the element until the
  end tag has been returned, also when the input comes in pieces.
\<close>

theorem element_ends_by_its_end_tag:
  assumes "within name m" and "nextToken table m = Some (b, m')"
  shows "atEnd m' \<or>
    (if b then m_type (token m') = EndTag \<and> m_data (token m') = name \<or>
       m_type (token m') = Character \<and> within name (onToken clearToken m')
     else within name m')"
  using nextToken_within [OF assms] by (simp add: leaves_def)

definition withinScript :: "string \<Rightarrow> Machine" where
  "withinScript w = (tokenizerOn (closedSource w))\<lparr>m_state := ScriptDataState, m_appropriateEndTagName := asciiName ''script''\<rparr>"

theorem element_ends_by_its_end_tag_witness:
  "\<exists>b m'. nextToken smallTable (withinScript ''<b></script>'') = Some (b, m') \<and>
    (b \<longrightarrow> m_type (token m') \<in> {Character, EndTag, EndOfFile, Uninitialized})"
proof -
  have "within (asciiName ''script'') (withinScript ''<b></script>'')"
    by (simp add: withinScript_def within_def inContent_def isContentState_def isText_def newToken_def isEndTagNameState_def)
  moreover obtain b m' where m': "nextToken smallTable (withinScript ''<b></script>'') = Some (b, m')"
    using nextToken_ends [OF smallTable_ok, of "withinScript ''<b></script>''"] by (auto simp: withinScript_def)
  ultimately show ?thesis
    using element_ends_by_its_end_tag [of _ _ _ b m'] by (fastforce simp: atEnd_def isText_def)
qed

text \<open>
  C19. On text, in the five states of text, a call on an open source reads all of it and returns one
  character token (or none when no character remains): carriage returns, alone or before a line
  feed, become line feeds, also when the pair is split over two calls, and null characters are
  dropped or replaced by U+FFFD as the state asks.
\<close>

theorem nextToken_reads_text:
  assumes "isTextState (m_state m)" and "list_all (isPlain (m_state m)) (v_chars (viewOf (source m)))"
    and "unescaped (source m)" and "\<not> m_closed (source m)"
    and "m_type (token m) = Uninitialized" and "m_data (token m) = []" and "m_bufferedEndTagName m = []"
  shows "\<exists>m'. nextToken table m =
      Some (normalise (shouldSkipNullCharacters m) (m_skipNextNewLine m) (v_chars (viewOf (source m))) \<noteq> [], m') \<and>
    m_data (token m') = normalise (shouldSkipNullCharacters m) (m_skipNextNewLine m) (v_chars (viewOf (source m))) \<and>
    m_type (token m') = (if m_data (token m') = [] then Uninitialized else Character) \<and> m_state m' = m_state m \<and>
    m_empty (source m') \<and> m_skipNextNewLine m' = skipAfter (m_skipNextNewLine m) (v_chars (viewOf (source m)))"
  using nextToken_text [OF assms, of table] by auto

theorem nextToken_reads_text_witness:
  "\<exists>m'. nextToken smallTable (tokenizerOn (SegmentedString_of True [0x61, 0x0D, 0x0A, 0x00, 0x62])) = Some (True, m') \<and>
    m_data (token m') = [0x61, 0x0A, 0x62]"
proof -
  let ?s = "SegmentedString_of True [0x61, 0x0D, 0x0A, 0x00, 0x62]"
  have "unescaped ?s" "\<not> m_closed ?s" "v_chars (viewOf ?s) = [0x61, 0x0D, 0x0A, 0x00, 0x62]"
    using SegmentedString_of_view [of True "[0x61, 0x0D, 0x0A, 0x00, 0x62]"]
    by (auto simp: unescaped_def closed_view v_chars_def emptyView_def) (auto simp: viewOf_def)
  moreover have "shouldSkipNullCharacters (tokenizerOn ?s)" by (simp add: shouldSkipNullCharacters_def)
  ultimately show ?thesis
    using nextToken_reads_text [of "tokenizerOn ?s" smallTable]
    by (fastforce simp: isTextState_def isPlain_def newToken_def)
qed

section \<open>Character references\<close>

text \<open>
  C20. \<open>consumeHTMLEntity\<close>, with its states, its binary searches and the characters it pushes back, is
  the reference definition on the characters to read: the same answer, the same decoded characters,
  the same demand for more characters, and the same characters left.
\<close>

theorem consumeHTMLEntity_is_characterReference:
  assumes "table_ok table" and "unescaped s"
  shows "\<exists>success decoded notEnough t. consumeHTMLEntity table s additional = (success, decoded, notEnough, t) \<and>
    characterReference table additional (v_chars (viewOf s)) = (success, decoded, notEnough, v_chars (viewOf t))"
  using consumeHTMLEntity_gives [OF assms, of additional]
  by (cases "consumeHTMLEntity table s additional") simp

lemma v_chars_empty [simp]: "v_chars (emptyView\<lparr>v_rest := w\<rparr>) = w"
  by (simp add: v_chars_def emptyView_def)

lemma unescaped_open: "unescaped (openSource w)"
proof -
  have "m_pushedChar1 (openSource w) = v_pushed1 (viewOf (openSource w))" by (simp add: viewOf_def)
  then show "unescaped (openSource w)" by (simp add: unescaped_def emptyView_def)
qed

theorem consumeHTMLEntity_is_characterReference_witness:
  "\<exists>t. consumeHTMLEntity smallTable (openSource ''#x26;z'') 0 = (True, [0x26], False, t) \<and> v_chars (viewOf t) = asciiName ''z''"
proof -
  have "characterReference smallTable 0 (asciiName ''#x26;z'') = (True, [0x26], False, asciiName ''z'')"
    by (simp add: characterReference_def numericReference_def hexReference_def endNumber_def asciiName_def isHexDigit_def
        hexNumber_def hexValue_def legalEntityFor_def U_IS_BMP_def adjustEntity_def appendUChar32_def isDecimalDigit_def)
  then show ?thesis
    using consumeHTMLEntity_is_characterReference [OF smallTable_ok unescaped_open, of "''#x26;z''" 0]
    by auto
qed

text \<open>
  C21. The search of the table, two binary searches for each character, keeps what it is for: while
  an entry begins with the characters given, it holds the longest entry that they begin with, and it
  accepts the next character exactly when an entry goes on with it.
\<close>

theorem entity_search_finds_longest:
  assumes "table_ok table" and "\<exists>e \<in> set table. prefix w (entity e)"
  defines "s \<equiv> foldl (advanceSearch table) (newSearch table) w"
  shows "isEntityPrefix s \<and> m_currentLength s = length w \<and>
    (case m_mostRecentMatch s of
       None \<Rightarrow> \<forall>e \<in> set table. \<not> prefix (entity e) w
     | Some i \<Rightarrow> i < length table \<and> prefix (entity (table ! i)) w \<and>
         (\<forall>e \<in> set table. prefix (entity e) w \<longrightarrow> length (entity e) \<le> length (entity (table ! i)))) \<and>
    (\<forall>c. isEntityPrefix (advanceSearch table s c) \<longleftrightarrow> (\<exists>e \<in> set table. prefix (w @ [c]) (entity e)))"
proof -
  have s: "searchedFor table w s" unfolding s_def using foldl_searched [OF assms(1)] assms(2) matching_iff by blast
  then have "longestMatch table w (m_mostRecentMatch s)" "m_currentLength s = length w" by (simp_all add: searchedFor_def)
  then show ?thesis
    using searchedFor_prefix [OF s] advanceSearch_step(1) [OF assms(1) s] matching_iff [of table]
    by (auto simp: longestMatch_def in_set_conv_nth split: option.splits)
qed

theorem entity_search_finds_longest_witness:
  "isEntityPrefix (foldl (advanceSearch smallTable) (newSearch smallTable) [0x6C, 0x74])"
proof -
  have "\<exists>e \<in> set smallTable. prefix [0x6C, 0x74] (entity e)"
    by (auto simp: smallTable_def letters_members isLetter_def)
  from entity_search_finds_longest [OF smallTable_ok this] show ?thesis by blast
qed

text \<open>
  C22. A decimal reference below 2^31 decodes to the UTF-16 code units of the code point that the
  HTML standard gives it: U+FFFD for zero, the surrogates and what lies beyond U+10FFFF, the windows-1252
  characters for the C1 controls, and the number itself otherwise.
\<close>

theorem decimal_reference_decodes:
  assumes "table_ok table" and "unescaped s" and "v_chars (viewOf s) = 0x23 # ds @ 0x3B # rest"
    and "ds \<noteq> []" and "list_all isDecimalDigit ds" and "decimalValue ds < 2 ^ 31" and "additional \<noteq> 0x23"
  shows "\<exists>t. consumeHTMLEntity table s additional =
      (True, utf16 (referencedCodePoint (decimalValue ds)), False, t) \<and> v_chars (viewOf t) = rest"
proof -
  obtain d ds' where ds: "ds = d # ds'" using assms(4) by (cases ds) auto
  then have d: "isDecimalDigit d" using assms(5) by simp
  then have "d \<le> 0x39" by (simp add: isDecimalDigit_def)
  then have x: "d \<noteq> 0x78" "d \<noteq> 0x58" by auto
  have digits: "\<forall>c \<in> set ds. isDecimalDigit c" using assms(5) by (simp add: list_all_iff)
  then have "takeWhile isDecimalDigit (ds @ 0x3B # rest) = ds" "dropWhile isDecimalDigit (ds @ 0x3B # rest) = 0x3B # rest"
    by (simp_all add: takeWhile_append2 dropWhile_append2 isDecimalDigit_def)
  then have "characterReference table additional (v_chars (viewOf s)) =
      (True, appendUChar32 [] (legalEntityFor (decimalNumber 0 ds)), False, rest)"
    using x d assms(3,7) by (simp add: characterReference_def numericReference_def endNumber_def ds)
  also have "appendUChar32 [] (legalEntityFor (decimalNumber 0 ds)) = utf16 (referencedCodePoint (decimalValue ds))"
    using decimalNumber_value [OF assms(5)] legalEntity_codePoint [OF assms(6)] append_utf16 [OF referencedCodePoint_le] by simp
  finally show ?thesis
    using consumeHTMLEntity_gives [OF assms(1,2), of additional]
    by (cases "consumeHTMLEntity table s additional") simp
qed

theorem decimal_reference_decodes_witness:
  "\<exists>t. consumeHTMLEntity smallTable (openSource ''#128512;z'') 0 = (True, [0xD83D, 0xDE00], False, t) \<and>
    v_chars (viewOf t) = asciiName ''z''"
proof -
  have "decimalValue (asciiName ''128512'') = 128512" by (simp add: decimalValue_def asciiName_def)
  moreover have "utf16 (referencedCodePoint 128512) = [0xD83D, 0xDE00]" by (simp add: utf16_def referencedCodePoint_def)
  ultimately show ?thesis
    using decimal_reference_decodes [OF smallTable_ok unescaped_open, of "''#128512;z''" "asciiName ''128512''" "asciiName ''z''" 0]
    by (simp add: asciiName_def isDecimalDigit_def)
qed

text \<open>
  \<open>decodeNamedEntityToUCharArray\<close> decodes a name given without its semicolon as the table does, and
  reads no match that is not there.
\<close>

theorem decodeNamedEntity_reads_table:
  assumes "table_ok table" and "\<forall>e \<in> set table. 0x3B \<notin> set (butlast (entity e))"
  shows "decodeNamedEntityToUCharArray table name =
    Done (case find (\<lambda>e. entity e = map scast name @ [0x3B]) table of None \<Rightarrow> [] | Some e \<Rightarrow> decodeEntry e)"
  using decodeNamedEntity_entry [OF assms, of name] by (simp add: namedEntry_def)

theorem decodeNamedEntity_reads_table_witness:
  "decodeNamedEntityToUCharArray smallTable [0x6C] = Done []"
proof -
  have "\<forall>e \<in> set smallTable. 0x3B \<notin> set (butlast (entity e))"
    by (auto simp: smallTable_def letters_members isLetter_def)
  moreover have "find (\<lambda>e. entity e = map scast [0x6C :: byte] @ [0x3B]) smallTable = None"
    by (auto simp: find_None_iff smallTable_def)
  ultimately show ?thesis using decodeNamedEntity_reads_table [OF smallTable_ok, of "[0x6C]"] by simp
qed

section \<open>Segmented strings\<close>

text \<open>
  C23. Advancing takes the next character of the stream: on every well-formed string, whichever of
  the fast paths, function pointers and slow cases is taken, and across the end of a segment or of
  the pushed characters. The three entry points do the same to the characters.
\<close>

theorem advance_takes_next:
  assumes "string_invar s"
  shows "string_invar (advance s) \<and> viewOf (advance s) = v_advance (viewOf s) \<and>
    string_invar (advanceAndUpdateLineNumber s) \<and> viewOf (advanceAndUpdateLineNumber s) = v_advance (viewOf s) \<and>
    string_invar (advancePastNewlineAndUpdateLineNumber s) \<and>
    viewOf (advancePastNewlineAndUpdateLineNumber s) = v_advance (viewOf s)"
  using advance_view [OF assms] advancePastNewline_view [OF assms] by blast

theorem advance_takes_next_witness:
  "v_rest (viewOf (advance (openSource ''ab''))) = asciiName ''b'' \<and> v_consumed (viewOf (advance (openSource ''ab''))) = 1"
  using advance_takes_next [OF openSource_view(1), of "''ab''"]
  by (simp add: v_advance_def emptyView_def asciiName_def)

text \<open>
  C24. Appending, prepending and pushing back a string or a character do that to the stream, keep
  the string well formed, and what can be observed of it (the current character, emptiness, length,
  \<open>toString\<close>, the characters consumed) is read off the stream.
\<close>

theorem editing_and_observing:
  assumes "string_invar s" and "c \<noteq> 0"
  defines "v \<equiv> viewOf s"
  shows "string_invar (appendSegmentedString s (SegmentedString_of b w)) \<and>
      viewOf (appendSegmentedString s (SegmentedString_of b w)) = v\<lparr>v_rest := v_rest v @ w\<rparr> \<and>
    string_invar (prependSegmentedString s (SegmentedString_of b w)) \<and>
      viewOf (prependSegmentedString s (SegmentedString_of b w)) = v\<lparr>v_rest := w @ v_rest v, v_consumed := v_consumed v - int (length w)\<rparr> \<and>
    string_invar (push s c) \<and> viewOf (push s c) = (if v_pushed1 v = 0 then v\<lparr>v_pushed1 := c\<rparr> else v\<lparr>v_pushed2 := c\<rparr>) \<and>
    m_currentChar s = (case v_chars v of [] \<Rightarrow> 0 | d # _ \<Rightarrow> d) \<and> (m_empty s \<longleftrightarrow> v_rest v = []) \<and>
      SegmentedString_length s = length (v_chars v) \<and> SegmentedString_toString s = v_chars v \<and>
      numberOfCharactersConsumed s = v_consumed v - int (length (v_chars v) - length (v_rest v))"
proof -
  have "numberOfCharactersConsumed s = v_consumed v - int (length (v_chars v) - length (v_rest v))"
    using consumed_view [of s] by (simp add: v_def v_chars_def)
  then show ?thesis
    using appendSegmentedString_view [OF assms(1), of b w] prependSegmentedString_view [OF assms(1), of b w]
      push_view [OF assms(1,2)] current_view [OF assms(1)] isEmpty_view [OF assms(1)] length_view [OF assms(1)]
      toString_view [OF assms(1)]
    by (simp add: v_def v_append_def v_prepend_def v_push_def v_current_chars)
qed

theorem editing_and_observing_witness:
  "v_rest (viewOf (prependSegmentedString (openSource ''b'') (SegmentedString_of False (asciiName ''a'')))) = asciiName ''ab''"
  using editing_and_observing [OF openSource_view(1), of 1 "''b''" False "asciiName ''a''"]
  by (simp add: asciiName_def)

text \<open>
  C25. Looking ahead says whether the characters to read begin with the string, or that there are
  not enough of them, on the fast and the slow path alike; and it leaves the same characters to
  read, although the slow path consumes them and prepends them again.
\<close>

theorem lookAhead_leaves_input:
  assumes "string_invar s" and "2 \<le> length str"
  shows "\<exists>t. lookAheadInline s str caseSensitive =
      (if length (v_chars (viewOf s)) < length str then NotEnoughCharacters
       else if startsWith caseSensitive (v_chars (viewOf s)) str then DidMatch else DidNotMatch, t) \<and>
    string_invar t \<and> v_chars (viewOf t) = v_chars (viewOf s)"
proof -
  obtain t where "lookAheadInline s str caseSensitive = (v_lookAhead (viewOf s) str caseSensitive, t)" "string_invar t"
    "viewOf t = (if m_pushedChar1 s = 0 \<or> length (v_chars (viewOf s)) < length str then viewOf s else v_unescape (viewOf s))"
    by (rule lookAhead_view [OF assms])
  then show ?thesis using v_unescape_chars by (auto simp: v_lookAhead_def)
qed

theorem lookAhead_leaves_input_witness:
  "\<exists>t. lookAheadInline (appendSegmentedString (openSource ''DocT'') (SegmentedString_of False (asciiName ''ype x''))) (asciiName ''doctype'') False =
    (DidMatch, t) \<and> v_chars (viewOf t) = asciiName ''DocType x''"
proof -
  let ?s = "appendSegmentedString (openSource ''DocT'') (SegmentedString_of False (asciiName ''ype x''))"
  have s: "string_invar ?s \<and> viewOf ?s = v_append (viewOf (openSource ''DocT'')) (asciiName ''ype x'')"
    by (rule appendSegmentedString_view) simp
  then have chars: "v_chars (viewOf ?s) = asciiName ''DocType x''" by (simp add: v_append_def asciiName_def)
  then have "startsWith False (v_chars (viewOf ?s)) (asciiName ''doctype'')" "\<not> length (v_chars (viewOf ?s)) < length (asciiName ''doctype'')"
    by (simp_all add: startsWith_def foldCase_def asciiName_def)
  then show ?thesis
    using lookAhead_leaves_input [of ?s "asciiName ''doctype''" False] s chars by (auto simp: asciiName_length)
qed

section \<open>Where the code falls short\<close>

text \<open>
  C26. A DOCTYPE cut off by the end of the input keeps the tokenizer waiting: after the text before
  it, every further call returns false and leaves the tokenizer as it is, so that neither a token
  for the rest nor the end-of-file token is ever returned. \<open>lookAhead\<close> does not know that the source
  is closed.
\<close>

theorem cut_doctype_waits_forever:
  assumes "m_state m = MarkupDeclarationOpenState" and "m_type (token m) = Uninitialized" and "m_bufferedEndTagName m = []"
    and "string_invar (source m)" and "\<not> m_empty (source m)" and "m_currentChar (source m) \<in> {0x44, 0x64}"
    and "SegmentedString_length (source m) < 7"
  shows "\<exists>k. nextToken table m = Some (False, k) \<and> nextToken table k = Some (False, k) \<and> source k = source m"
proof -
  let ?c = "m_currentChar (source m)"
  have stays: "nextToken table k = Some (False, inputOf k ?c False (source m))"
    if k: "m_state k = MarkupDeclarationOpenState" "m_type (token k) = Uninitialized" "m_bufferedEndTagName k = []" "source k = source m" for k
  proof -
    have c: "?c AND NOT specialCharacterMask \<noteq> 0" "?c \<noteq> c_dash" "?c = 0x44 \<or> ?c = 0x64"
      using assms(6) by (auto simp: specialCharacterMask_def)
    have "m_length (m_currentString (source m)) \<le> SegmentedString_length (source m)"
      by (simp add: SegmentedString_length_def)
    then have "lookAheadIgnoringCase (source m) (asciiName ''doctype'') = (NotEnoughCharacters, source m)"
      using assms(7) by (simp add: lookAheadIgnoringCase_def lookAheadInline_def lookAheadSlowCase_def asciiName_length Let_def)
    then have step: "inMarkupDeclarationOpenState ?c (inputOf k ?c False (source m)) = (Return False, inputOf k ?c False (source m))"
      using c k by (simp add: inMarkupDeclarationOpenState_def haveBufferedCharacterToken_def)
    have "peek k = Some (True, inputOf k ?c False (source m))"
      using c(1) k(4) by (simp add: peek_def Let_def to_inputOf)
    moreover obtain n where rounds: "enoughRounds (inputOf k ?c False (source m)) = Suc n"
      by (cases "enoughRounds (inputOf k ?c False (source m))") (simp_all add: enoughRounds_def)
    ultimately have "continueToken table k = Some (False, inputOf k ?c False (source m))"
      using step k assms(5) by (simp add: continueToken_def rounds dispatch_def)
    then show ?thesis using k(3) by (simp add: nextToken_def)
  qed
  let ?k = "inputOf m ?c False (source m)"
  have "nextToken table ?k = Some (False, inputOf ?k ?c False (source m))"
    by (rule stays) (use assms in \<open>simp_all add: inputOf_def\<close>)
  then show ?thesis using stays [of m] assms by simp
qed

definition cutDoctype :: Machine where
  "cutDoctype = (tokenizerOn (closedSource ''doc''))\<lparr>m_state := MarkupDeclarationOpenState\<rparr>"

theorem cut_doctype_waits_forever_witness:
  "\<exists>k. nextToken smallTable cutDoctype = Some (False, k) \<and> nextToken smallTable k = Some (False, k) \<and> m_closed (source k)"
proof -
  have s: "source cutDoctype = closedSource ''doc''" "m_state cutDoctype = MarkupDeclarationOpenState"
    "m_type (token cutDoctype) = Uninitialized" "m_bufferedEndTagName cutDoctype = []"
    by (simp_all add: cutDoctype_def newToken_def)
  let ?s = "closedSource ''doc''"
  have view: "v_chars (viewOf ?s) = [0x64, 0x6F, 0x63, 0]" "v_rest (viewOf ?s) \<noteq> []" "v_closed (viewOf ?s)"
    by (simp_all add: v_chars_def emptyView_def asciiName_def)
  have "m_currentChar ?s = 0x64" using current_view [of ?s] view(1) by (simp only: closedSource_view(1) v_current_chars) simp
  moreover have "SegmentedString_length ?s = 4" using length_view [of ?s] view(1) by (simp only: closedSource_view(1)) simp
  moreover have "\<not> m_empty ?s" using isEmpty_view [of ?s] view(2) closedSource_view(1) by blast
  moreover have "m_closed ?s" using closed_view view(3) by blast
  ultimately show ?thesis
    using cut_doctype_waits_forever [of cutDoctype smallTable] s closedSource_view(1) by auto
qed

text \<open>
  The value of a numeric reference wraps around: 4294967361 decodes to the letter A, and
  4238409728 to a pair whose first code unit is null, which the tokenizer asserts never to buffer.
\<close>

theorem numeric_reference_wraps:
  "\<exists>t u. consumeHTMLEntity smallTable (openSource ''#4294967361;'') 0 = (True, [0x41], False, t) \<and>
    consumeHTMLEntity smallTable (openSource ''#4238409728;'') 0 = (True, [0, 0xDC00], False, u)"
proof -
  have "characterReference smallTable 0 (asciiName ''#4294967361;'') = (True, [0x41], False, [])"
    "characterReference smallTable 0 (asciiName ''#4238409728;'') = (True, [0, 0xDC00], False, [])"
    by (simp_all add: characterReference_def numericReference_def endNumber_def asciiName_def isDecimalDigit_def
        decimalNumber_def legalEntityFor_def U_IS_BMP_def adjustEntity_def appendUChar32_def)
  then show ?thesis
    using consumeHTMLEntity_gives [OF smallTable_ok unescaped_open, of "''#4294967361;''" 0]
      consumeHTMLEntity_gives [OF smallTable_ok unescaped_open, of "''#4238409728;''" 0]
    by (auto simp: gives_def split: prod.splits)
qed

text \<open>
  In an attribute value without quotes, such a null character is appended, against \<open>ASSERT(character)\<close>
  of \<open>appendToAttributeValue\<close>.
\<close>

lemma null_in_attribute_value:
  assumes "source m = openSource ''#4238409728;''" and "m_additionalAllowedCharacter m = c_greater"
  shows "\<exists>src. inCharacterReferenceInAttributeValueState smallTable cc m =
    (SwitchTo AttributeValueUnquotedState, appendToValue 0xDC00 (appendToValue 0 (m\<lparr>source := src\<rparr>)))"
proof -
  have kept: "m_additionalAllowedCharacter (appendToValue c k) = m_additionalAllowedCharacter k" for c k
    by (simp add: appendToValue_def onToken_def)
  have "characterReference smallTable c_greater (asciiName ''#4238409728;'') = (True, [0, 0xDC00], False, [])"
    by (simp_all add: characterReference_def numericReference_def endNumber_def asciiName_def isDecimalDigit_def
        decimalNumber_def legalEntityFor_def U_IS_BMP_def adjustEntity_def appendUChar32_def)
  then show ?thesis
    using consumeHTMLEntity_gives [OF smallTable_ok unescaped_open, of "''#4238409728;''" c_greater] assms
    by (auto simp: kept gives_def inCharacterReferenceInAttributeValueState_def Let_def split: prod.splits)
qed

text \<open>
  C27. A copy of a string is the string unless two different characters are pushed back: then its
  current character is the second of them, the one to be read after the first.
\<close>

theorem copy_is_faithful_iff:
  assumes "string_invar s"
  shows "copySegmentedString s = s \<longleftrightarrow> m_pushedChar2 s = 0 \<or> m_pushedChar2 s = m_pushedChar1 s"
proof (cases "m_pushedChar2 s = 0")
  case False
  then have copy: "copySegmentedString s = s\<lparr>m_currentChar := m_pushedChar2 s\<rparr>" by (simp add: copySegmentedString_def)
  have current: "m_currentChar s = m_pushedChar1 s" using copy_two_pushed [OF assms False] by simp
  then have "m_pushedChar2 s = m_pushedChar1 s" if "copySegmentedString s = s"
    using arg_cong [OF that, of m_currentChar] copy by simp
  moreover have "copySegmentedString s = s" if "m_pushedChar2 s = m_pushedChar1 s"
    unfolding copy using that current by simp
  ultimately show ?thesis using False by blast
qed (use copy_view [OF assms] in simp)

theorem copy_is_faithful_iff_witness:
  "copySegmentedString (openSource ''ab'') = openSource ''ab''"
proof -
  have "m_pushedChar2 (openSource ''ab'') = v_pushed2 (viewOf (openSource ''ab''))" by (simp add: viewOf_def)
  then show ?thesis using copy_is_faithful_iff [OF openSource_view(1), of "''ab''"] by (simp add: emptyView_def)
qed

end
