(* ===== verification/HTML_Input.thy ===== *)
theory HTML_Input
  imports HTML_Tokenizer Entity_Reference
begin

text \<open>
  \<open>HTMLInputStream\<close> and \<open>InsertionPointRecord\<close> (\<open>html/parser/HTMLInputStream.h\<close>): the input of the
  parser, cut in two at the insertion point of \<open>document.write\<close>, for each script that is running.
  The records live on the C++ stack, one inside the other; they are the list \<open>m_records\<close>, the
  innermost last. The pointer \<open>m_last\<close> points to \<open>m_first\<close> or to the string of a record.
\<close>

section \<open>The input stream\<close>

datatype StringPointer = FirstString | NextString nat

record HTMLInputStream =
  m_first :: SegmentedString
  m_last :: StringPointer

record InsertionPointRecord =
  m_next :: SegmentedString
  m_line :: int
  m_column :: int

record Input =
  m_inputStream :: HTMLInputStream
  m_records :: "InsertionPointRecord list"

definition newInput :: Input where
  "newInput = \<lparr>m_inputStream = \<lparr>m_first = emptyString, m_last = FirstString\<rparr>, m_records = []\<rparr>"

definition inputCurrent :: "Input \<Rightarrow> SegmentedString" where
  "inputCurrent st = m_first (m_inputStream st)"

definition onFirst :: "(SegmentedString \<Rightarrow> SegmentedString) \<Rightarrow> Input \<Rightarrow> Input" where
  "onFirst f st = st\<lparr>m_inputStream := (m_inputStream st)\<lparr>m_first := f (m_first (m_inputStream st))\<rparr>\<rparr>"

definition onNext :: "nat \<Rightarrow> (SegmentedString \<Rightarrow> SegmentedString) \<Rightarrow> Input \<Rightarrow> Input" where
  "onNext n f st =
     st\<lparr>m_records := (m_records st)[n := (m_records st ! n)\<lparr>m_next := f (m_next (m_records st ! n))\<rparr>]\<rparr>"

definition setLast :: "StringPointer \<Rightarrow> Input \<Rightarrow> Input" where
  "setLast p st = st\<lparr>m_inputStream := (m_inputStream st)\<lparr>m_last := p\<rparr>\<rparr>"

definition lastString :: "Input \<Rightarrow> SegmentedString" where
  "lastString st =
     (case m_last (m_inputStream st) of FirstString \<Rightarrow> inputCurrent st | NextString n \<Rightarrow> m_next (m_records st ! n))"

definition onLast :: "(SegmentedString \<Rightarrow> SegmentedString) \<Rightarrow> Input \<Rightarrow> Input" where
  "onLast f st = (case m_last (m_inputStream st) of FirstString \<Rightarrow> onFirst f st | NextString n \<Rightarrow> onNext n f st)"

definition appendToEnd :: "Input \<Rightarrow> SegmentedString \<Rightarrow> Input" where
  "appendToEnd st string = onLast (\<lambda>s. appendSegmentedString s string) st"

definition insertAtCurrentInsertionPoint :: "Input \<Rightarrow> SegmentedString \<Rightarrow> Input" where
  "insertAtCurrentInsertionPoint st string = onFirst (\<lambda>s. appendSegmentedString s string) st"

definition hasInsertionPoint :: "Input \<Rightarrow> bool" where
  "hasInsertionPoint st \<longleftrightarrow> m_last (m_inputStream st) \<noteq> FirstString"

definition markEndOfFile :: "Input \<Rightarrow> Input" where
  "markEndOfFile st =
     onLast closeSegmentedString
       (onLast (\<lambda>s. appendSegmentedString s (SegmentedString_of True [kEndOfFileMarker])) st)"

definition closeWithoutMarkingEndOfFile :: "Input \<Rightarrow> Input" where
  "closeWithoutMarkingEndOfFile st = onLast closeSegmentedString st"

definition haveSeenEndOfFile :: "Input \<Rightarrow> bool" where
  "haveSeenEndOfFile st \<longleftrightarrow> m_closed (lastString st)"

text \<open>The argument \<open>next\<close> is the string of record \<open>n\<close>.\<close>

definition splitInto :: "Input \<Rightarrow> nat \<Rightarrow> Input" where
  "splitInto st n =
     (let st = onNext n (\<lambda>_. copySegmentedString (inputCurrent st)) st;
          st = onFirst (\<lambda>_. copySegmentedString emptyString) st
      in if m_last (m_inputStream st) = FirstString then setLast (NextString n) st else st)"

definition mergeFrom :: "Input \<Rightarrow> nat \<Rightarrow> Input" where
  "mergeFrom st n =
     (let nextString = m_next (m_records st ! n);
          st = onFirst (\<lambda>s. appendSegmentedString s nextString) st;
          st = (if m_last (m_inputStream st) = NextString n then setLast FirstString st else st)
      in if m_closed nextString then onFirst closeSegmentedString st else st)"

section \<open>Insertion points\<close>

text \<open>Constructor and destructor of \<open>InsertionPointRecord\<close>; only the innermost record is destroyed.\<close>

definition newInsertionPointRecord :: "Input \<Rightarrow> Input" where
  "newInsertionPointRecord st =
     (let line = m_currentLine (inputCurrent st); column = currentColumn (inputCurrent st);
          n = length (m_records st);
          st = st\<lparr>m_records := m_records st @ [\<lparr>m_next = emptyString, m_line = line, m_column = column\<rparr>]\<rparr>;
          st = splitInto st n
      in onFirst (\<lambda>s. setCurrentPosition s line column 0) st)"

definition deleteInsertionPointRecord :: "Input \<Rightarrow> Input" where
  "deleteInsertionPointRecord st =
     (let n = length (m_records st) - 1; r = m_records st ! n;
          unparsedRemainderLength = SegmentedString_length (inputCurrent st);
          st = mergeFrom st n;
          st = onFirst (\<lambda>s. setCurrentPosition s (m_line r) (m_column r) (int unparsedRemainderLength)) st
      in st\<lparr>m_records := butlast (m_records st)\<rparr>)"

section \<open>What it stands for\<close>

text \<open>
  The characters ahead of the insertion point, those behind each insertion point from the innermost
  outwards, and whether the end of the document has been seen.
\<close>

record Document =
  ahead :: "uchar list"
  behind :: "uchar list list"
  ended :: bool

definition documentOf :: "Input \<Rightarrow> Document" where
  "documentOf st =
     \<lparr>ahead = chars (inputCurrent st), behind = map (\<lambda>r. chars (m_next r)) (rev (m_records st)),
      ended = haveSeenEndOfFile st\<rparr>"

text \<open>All characters of the document that are still to be read.\<close>

definition wholeText :: "Document \<Rightarrow> uchar list" where
  "wholeText d = ahead d @ concat (behind d)"

definition d_append :: "uchar list \<Rightarrow> Document \<Rightarrow> Document" where
  "d_append w d =
     (if behind d = [] then d\<lparr>ahead := ahead d @ w\<rparr> else d\<lparr>behind := butlast (behind d) @ [last (behind d) @ w]\<rparr>)"

definition d_insert :: "uchar list \<Rightarrow> Document \<Rightarrow> Document" where
  "d_insert w d = d\<lparr>ahead := ahead d @ w\<rparr>"

definition d_enter :: "Document \<Rightarrow> Document" where
  "d_enter d = d\<lparr>ahead := [], behind := ahead d # behind d\<rparr>"

definition d_leave :: "Document \<Rightarrow> Document" where
  "d_leave d = d\<lparr>ahead := ahead d @ hd (behind d), behind := tl (behind d)\<rparr>"

lemma wholeText_simps:
  "wholeText (d_append w d) = wholeText d @ w"
  "wholeText (d_insert w d) = ahead d @ w @ concat (behind d)"
  "wholeText (d_enter d) = wholeText d"
  "behind d \<noteq> [] \<Longrightarrow> wholeText (d_leave d) = wholeText d"
proof -
  show "wholeText (d_append w d) = wholeText d @ w"
  proof (cases "behind d" rule: rev_cases)
    case (snoc bs b)
    then show ?thesis by (simp add: d_append_def wholeText_def)
  qed (simp add: d_append_def wholeText_def)
  show "behind d \<noteq> [] \<Longrightarrow> wholeText (d_leave d) = wholeText d"
    by (cases "behind d") (simp_all add: d_leave_def wholeText_def)
qed (simp_all add: d_insert_def d_enter_def wholeText_def)

section \<open>The invariant\<close>

definition only_last_closed :: "Input \<Rightarrow> bool" where
  "only_last_closed st \<longleftrightarrow>
     (m_records st \<noteq> [] \<longrightarrow> \<not> m_closed (inputCurrent st)) \<and> (\<forall>r\<in>set (tl (m_records st)). \<not> m_closed (m_next r))"

definition input_ok :: "Input \<Rightarrow> bool" where
  "input_ok st \<longleftrightarrow>
     string_invar (inputCurrent st) \<and>
     (\<forall>r\<in>set (m_records st). unescaped (m_next r)) \<and>
     m_last (m_inputStream st) = (if m_records st = [] then FirstString else NextString 0) \<and>
     only_last_closed st"

lemma emptyString_view: "string_invar emptyString \<and> viewOf emptyString = emptyView"
  by (simp add: emptyString_def string_invar_def substring_ok_def emptySubstring_def currentStringChar_def
      pointers_def advance_functions_def viewOf_def emptyView_def substringConsumed_def)

lemma newInput_ok: "input_ok newInput \<and> documentOf newInput = \<lparr>ahead = [], behind = [], ended = False\<rparr>"
  using emptyString_view
  by (simp add: newInput_def input_ok_def inputCurrent_def only_last_closed_def documentOf_def
      haveSeenEndOfFile_def lastString_def emptyView_def v_chars_def)
    (simp add: emptyString_def)

lemma append_chars:
  assumes "string_invar s"
  shows "string_invar (appendSegmentedString s (SegmentedString_of b w)) \<and>
     chars (appendSegmentedString s (SegmentedString_of b w)) = chars s @ w \<and>
     m_closed (appendSegmentedString s (SegmentedString_of b w)) = m_closed s \<and>
     m_pushedChar1 (appendSegmentedString s (SegmentedString_of b w)) = m_pushedChar1 s"
proof -
  let ?a = "appendSegmentedString s (SegmentedString_of b w)"
  have v: "string_invar ?a" "viewOf ?a = v_append (viewOf s) w" using appendSegmentedString_view [OF assms] by auto
  have "v_closed (viewOf ?a) = v_closed (viewOf s)" "v_pushed1 (viewOf ?a) = v_pushed1 (viewOf s)"
    by (simp_all add: v(2) v_append_def)
  then show ?thesis using v by (simp add: v_chars_def v_append_def) (simp add: viewOf_def)
qed

lemma append_any_chars:
  assumes "string_invar s" "unescaped t"
  shows "string_invar (appendSegmentedString s t) \<and> chars (appendSegmentedString s t) = chars s @ chars t \<and>
     m_closed (appendSegmentedString s t) = m_closed s"
proof -
  let ?a = "appendSegmentedString s t" and ?w = "v_chars (viewOf t)"
  have v: "string_invar ?a" "(viewOf ?a)\<lparr>v_consumed := 0\<rparr> = (v_append (viewOf s) ?w)\<lparr>v_consumed := 0\<rparr>"
    using appendSegmentedString_any [OF assms(1)] assms(2) by (auto simp: unescaped_def)
  have "v_chars ((viewOf ?a)\<lparr>v_consumed := 0\<rparr>) = v_chars (viewOf ?a)" "v_closed ((viewOf ?a)\<lparr>v_consumed := 0\<rparr>) = m_closed ?a"
    by (simp_all add: v_chars_def) (simp add: viewOf_def)
  moreover have "v_chars ((v_append (viewOf s) ?w)\<lparr>v_consumed := 0\<rparr>) = v_chars (viewOf s) @ ?w"
    "v_closed ((v_append (viewOf s) ?w)\<lparr>v_consumed := 0\<rparr>) = m_closed s"
    by (simp_all add: v_chars_def v_append_def) (simp add: viewOf_def)
  ultimately show ?thesis using v by (simp add:)
qed

lemma close_chars:
  assumes "string_invar s"
  shows "string_invar (closeSegmentedString s) \<and> chars (closeSegmentedString s) = chars s \<and>
     m_closed (closeSegmentedString s) \<and> m_pushedChar1 (closeSegmentedString s) = m_pushedChar1 s"
  using close_view [OF assms] by (simp add: v_chars_def) (simp add: closeSegmentedString_def)

lemma position_chars:
  "string_invar (setCurrentPosition s l c p) = string_invar s \<and> chars (setCurrentPosition s l c p) = chars s \<and>
     m_closed (setCurrentPosition s l c p) = m_closed s"
proof -
  have "advance_functions (setCurrentPosition s l c p) = advance_functions s"
    "pointers (setCurrentPosition s l c p) = pointers s"
    by (simp_all add: setCurrentPosition_def advance_functions_def pointers_def)
  then show ?thesis
    by (simp add: setCurrentPosition_def string_invar_def viewOf_def currentStringChar_def)
qed

section \<open>The operations refine those on the document\<close>

lemma input_cases [consumes 1, case_names outer inner]:
  assumes "input_ok st"
  obtains (outer) "m_records st = []" "m_last (m_inputStream st) = FirstString"
  | (inner) r rs where "m_records st = r # rs" "m_last (m_inputStream st) = NextString 0"
  using assms by (cases "m_records st") (auto simp: input_ok_def)

lemmas access = inputCurrent_def lastString_def haveSeenEndOfFile_def onFirst_def onNext_def onLast_def setLast_def

lemma onLast_document:
  assumes st: "input_ok st" and f: "string_invar (f (lastString st))" "m_pushedChar1 (f (lastString st)) = m_pushedChar1 (lastString st)"
  shows "input_ok (onLast f st) \<and>
     documentOf (onLast f st) =
       (if behind (documentOf st) = [] then (documentOf st)\<lparr>ahead := chars (f (lastString st))\<rparr>
        else (documentOf st)\<lparr>behind := butlast (behind (documentOf st)) @ [chars (f (lastString st))]\<rparr>)
         \<lparr>ended := m_closed (f (lastString st))\<rparr> \<and>
     lastString (onLast f st) = f (lastString st)"
  using st
proof (cases rule: input_cases)
  case outer
  then show ?thesis using st f by (simp add: access input_ok_def only_last_closed_def documentOf_def)
next
  case (inner r rs)
  then show ?thesis using st f
    by (simp add: access input_ok_def only_last_closed_def documentOf_def unescaped_def butlast_append)
qed

lemma lastString_ok: "input_ok st \<Longrightarrow> string_invar (lastString st)"
  by (cases rule: input_cases) (auto simp: access input_ok_def unescaped_def)

lemma lastString_document:
  "input_ok st \<Longrightarrow>
     (if behind (documentOf st) = [] then ahead (documentOf st) else last (behind (documentOf st))) = chars (lastString st) \<and>
     ended (documentOf st) = m_closed (lastString st)"
  by (cases rule: input_cases) (auto simp: access documentOf_def)

lemma appendToEnd_document:
  assumes "input_ok st"
  shows "input_ok (appendToEnd st (SegmentedString_of b w)) \<and>
     documentOf (appendToEnd st (SegmentedString_of b w)) = d_append w (documentOf st)"
  unfolding appendToEnd_def
  using onLast_document [OF assms, of "\<lambda>s. appendSegmentedString s (SegmentedString_of b w)"]
    append_chars [OF lastString_ok [OF assms], of b w] lastString_document [OF assms]
  by (auto simp: d_append_def)

lemma close_document:
  assumes "input_ok st"
  shows "input_ok (closeWithoutMarkingEndOfFile st) \<and>
     documentOf (closeWithoutMarkingEndOfFile st) = (documentOf st)\<lparr>ended := True\<rparr>"
  unfolding closeWithoutMarkingEndOfFile_def
  using onLast_document [OF assms, of closeSegmentedString] close_chars [OF lastString_ok [OF assms]] lastString_document [OF assms]
  by (cases "documentOf st") (auto split: if_splits, metis append_butlast_last_id)

lemma markEndOfFile_document:
  assumes "input_ok st"
  shows "input_ok (markEndOfFile st) \<and>
     documentOf (markEndOfFile st) = (d_append [kEndOfFileMarker] (documentOf st))\<lparr>ended := True\<rparr>"
proof -
  have "markEndOfFile st = closeWithoutMarkingEndOfFile (appendToEnd st (SegmentedString_of True [kEndOfFileMarker]))"
    by (simp add: markEndOfFile_def closeWithoutMarkingEndOfFile_def appendToEnd_def)
  then show ?thesis using appendToEnd_document [OF assms] close_document by simp
qed

lemma onFirst_document:
  assumes "input_ok st" "string_invar (f (inputCurrent st))" "m_closed (f (inputCurrent st)) = m_closed (inputCurrent st)"
  shows "input_ok (onFirst f st) \<and> documentOf (onFirst f st) = (documentOf st)\<lparr>ahead := chars (f (inputCurrent st))\<rparr>"
  using assms(1)
proof (cases rule: input_cases)
  case outer
  then show ?thesis using assms by (simp add: access input_ok_def only_last_closed_def documentOf_def)
next
  case (inner r rs)
  then show ?thesis using assms by (simp add: access input_ok_def only_last_closed_def documentOf_def)
qed

lemma inputCurrent_document: "chars (inputCurrent st) = ahead (documentOf st)"
  by (simp add: documentOf_def)

lemma input_ok_current: "input_ok st \<Longrightarrow> string_invar (inputCurrent st)"
  by (simp add: input_ok_def)

lemma insert_document:
  assumes "input_ok st"
  shows "input_ok (insertAtCurrentInsertionPoint st (SegmentedString_of b w)) \<and>
     documentOf (insertAtCurrentInsertionPoint st (SegmentedString_of b w)) = d_insert w (documentOf st)"
  unfolding insertAtCurrentInsertionPoint_def
  using onFirst_document [OF assms, of "\<lambda>s. appendSegmentedString s (SegmentedString_of b w)"]
    append_chars [OF input_ok_current [OF assms], of b w] by (simp add: d_insert_def inputCurrent_document)

lemma enter_document:
  assumes st: "input_ok st" and "m_pushedChar1 (inputCurrent st) = 0"
  shows "input_ok (newInsertionPointRecord st) \<and> documentOf (newInsertionPointRecord st) = d_enter (documentOf st)"
proof -
  have "m_pushedChar2 (inputCurrent st) = 0"
    using assms by (simp add: input_ok_def string_invar_def)
  then have copy: "copySegmentedString (inputCurrent st) = inputCurrent st"
    using copy_view input_ok_current [OF st] by blast
  have empty: "copySegmentedString emptyString = emptyString" "chars emptyString = []" "\<not> m_closed emptyString"
    using emptyString_view copy_view [of emptyString] by (auto simp: emptyString_def emptyView_def v_chars_def)
  have new: "newInsertionPointRecord st =
      \<lparr>m_inputStream = \<lparr>m_first = setCurrentPosition emptyString (m_currentLine (inputCurrent st)) (currentColumn (inputCurrent st)) 0,
         m_last = (if m_last (m_inputStream st) = FirstString then NextString (length (m_records st)) else m_last (m_inputStream st))\<rparr>,
       m_records = m_records st @ [\<lparr>m_next = inputCurrent st, m_line = m_currentLine (inputCurrent st),
         m_column = currentColumn (inputCurrent st)\<rparr>]\<rparr>"
    using copy empty(1)
    by (simp add: newInsertionPointRecord_def splitInto_def onFirst_def onNext_def setLast_def inputCurrent_def Let_def)
  note pos = position_chars [of emptyString "m_currentLine (inputCurrent st)" "currentColumn (inputCurrent st)" 0]
  from st show ?thesis
  proof (cases rule: input_cases)
    case outer
    then show ?thesis using st assms(2) emptyString_view empty pos
      by (simp add: new input_ok_def documentOf_def d_enter_def unescaped_def only_last_closed_def
          inputCurrent_def haveSeenEndOfFile_def lastString_def)
  next
    case (inner r rs)
    then show ?thesis using st assms(2) emptyString_view empty pos
      by (simp add: new input_ok_def documentOf_def d_enter_def unescaped_def only_last_closed_def
          inputCurrent_def haveSeenEndOfFile_def lastString_def)
  qed
qed

lemma leave_document:
  assumes st: "input_ok st" and "m_records st \<noteq> []"
  shows "input_ok (deleteInsertionPointRecord st) \<and> documentOf (deleteInsertionPointRecord st) = d_leave (documentOf st) \<and>
     m_currentLine (inputCurrent (deleteInsertionPointRecord st)) = m_line (last (m_records st)) \<and>
     currentColumn (inputCurrent (deleteInsertionPointRecord st)) =
       m_column (last (m_records st)) - int (length (ahead (documentOf st)))"
proof -
  obtain rs r where rs: "m_records st = rs @ [r]" using assms(2) rev_exhaust by blast
  let ?cur = "inputCurrent st"
  let ?n = "SegmentedString_length ?cur"
  let ?a = "appendSegmentedString ?cur (m_next r)"
  let ?b = "if m_closed (m_next r) then closeSegmentedString ?a else ?a"
  let ?c = "setCurrentPosition ?b (m_line r) (m_column r) (int ?n)"
  have cur: "string_invar ?cur" "\<not> m_closed ?cur" and r: "unescaped (m_next r)"
    using st by (auto simp: input_ok_def rs only_last_closed_def)
  have a: "string_invar ?a \<and> chars ?a = chars ?cur @ chars (m_next r) \<and> m_closed ?a = m_closed ?cur"
    by (rule append_any_chars [OF cur(1) r])
  have b: "string_invar ?b \<and> chars ?b = chars ?cur @ chars (m_next r) \<and> m_closed ?b = m_closed (m_next r)"
    using a close_chars [of ?a] cur(2) by simp
  note c = position_chars [of ?b "m_line r" "m_column r" "int ?n"]
  have del: "deleteInsertionPointRecord st =
      \<lparr>m_inputStream = \<lparr>m_first = ?c, m_last = (if rs = [] then FirstString else NextString 0)\<rparr>, m_records = rs\<rparr>"
    using st
    by (simp add: deleteInsertionPointRecord_def mergeFrom_def onFirst_def setLast_def inputCurrent_def rs Let_def input_ok_def)
  have pos: "m_currentLine ?c = m_line r" "currentColumn ?c = m_column r - int ?n"
    by (simp_all add: setCurrentPosition_def currentColumn_def numberOfCharactersConsumed_def)
  have "?n = length (ahead (documentOf st))" using length_view [OF cur(1)] by (simp add: documentOf_def)
  moreover have "input_ok (deleteInsertionPointRecord st) \<and> documentOf (deleteInsertionPointRecord st) = d_leave (documentOf st)"
  proof (cases rs)
    case Nil
    then show ?thesis using st b c
      by (simp add: del input_ok_def documentOf_def d_leave_def rs only_last_closed_def inputCurrent_def
          haveSeenEndOfFile_def lastString_def)
  next
    case (Cons q qs)
    then show ?thesis using st b c
      by (simp add: del input_ok_def documentOf_def d_leave_def rs only_last_closed_def inputCurrent_def
          haveSeenEndOfFile_def lastString_def)
  qed
  ultimately show ?thesis using pos by (simp add: del inputCurrent_def rs)
qed

section \<open>Runs of operations\<close>

text \<open>
  What happens to the input: the network appends, a script inserts, a script begins and ends, the
  tokenizer reads characters and pushes back characters.
\<close>

datatype InputOperation =
  AppendToEnd bool "uchar list"
  | InsertAtCurrentInsertionPoint bool "uchar list"
  | MarkEndOfFile
  | CloseWithoutMarkingEndOfFile
  | EnterInsertionPoint
  | LeaveInsertionPoint
  | ReadCharacters nat
  | UnreadCharacters "uchar list"

fun inputStep :: "InputOperation \<Rightarrow> Input \<Rightarrow> Input" where
  "inputStep (AppendToEnd b w) st = appendToEnd st (SegmentedString_of b w)"
| "inputStep (InsertAtCurrentInsertionPoint b w) st = insertAtCurrentInsertionPoint st (SegmentedString_of b w)"
| "inputStep MarkEndOfFile st = markEndOfFile st"
| "inputStep CloseWithoutMarkingEndOfFile st = closeWithoutMarkingEndOfFile st"
| "inputStep EnterInsertionPoint st = newInsertionPointRecord st"
| "inputStep LeaveInsertionPoint st = deleteInsertionPointRecord st"
| "inputStep (ReadCharacters n) st = onFirst (advance ^^ n) st"
| "inputStep (UnreadCharacters w) st = onFirst (\<lambda>s. unconsumeCharacters s w) st"

fun documentStep :: "InputOperation \<Rightarrow> Document \<Rightarrow> Document" where
  "documentStep (AppendToEnd b w) d = d_append w d"
| "documentStep (InsertAtCurrentInsertionPoint b w) d = d_insert w d"
| "documentStep MarkEndOfFile d = (d_append [kEndOfFileMarker] d)\<lparr>ended := True\<rparr>"
| "documentStep CloseWithoutMarkingEndOfFile d = d\<lparr>ended := True\<rparr>"
| "documentStep EnterInsertionPoint d = d_enter d"
| "documentStep LeaveInsertionPoint d = d_leave d"
| "documentStep (ReadCharacters n) d = d\<lparr>ahead := drop n (ahead d)\<rparr>"
| "documentStep (UnreadCharacters w) d = d\<lparr>ahead := w @ ahead d\<rparr>"

text \<open>
  What the code asserts or the parser sees to: nothing is added after the end, the record that ends
  exists, a script begins and characters are pushed back only with no character pushed back.
\<close>

fun allowed :: "InputOperation \<Rightarrow> Input \<Rightarrow> bool" where
  "allowed (AppendToEnd b w) st \<longleftrightarrow> \<not> haveSeenEndOfFile st"
| "allowed (InsertAtCurrentInsertionPoint b w) st \<longleftrightarrow> \<not> m_closed (inputCurrent st)"
| "allowed MarkEndOfFile st \<longleftrightarrow> \<not> haveSeenEndOfFile st"
| "allowed CloseWithoutMarkingEndOfFile st \<longleftrightarrow> \<not> haveSeenEndOfFile st"
| "allowed EnterInsertionPoint st \<longleftrightarrow> m_pushedChar1 (inputCurrent st) = 0"
| "allowed LeaveInsertionPoint st \<longleftrightarrow> m_records st \<noteq> []"
| "allowed (ReadCharacters n) st \<longleftrightarrow> True"
| "allowed (UnreadCharacters w) st \<longleftrightarrow> 0 \<notin> set w \<and> m_pushedChar1 (inputCurrent st) = 0"

fun allAllowed :: "InputOperation list \<Rightarrow> Input \<Rightarrow> bool" where
  "allAllowed [] st \<longleftrightarrow> True"
| "allAllowed (op # ops) st \<longleftrightarrow> allowed op st \<and> allAllowed ops (inputStep op st)"

lemma read_document:
  assumes "input_ok st"
  shows "input_ok (onFirst (advance ^^ n) st) \<and>
     documentOf (onFirst (advance ^^ n) st) = (documentOf st)\<lparr>ahead := drop n (ahead (documentOf st))\<rparr>"
proof -
  let ?s = "inputCurrent st"
  have inv: "string_invar ?s" using assms by (rule input_ok_current)
  have v: "string_invar ((advance ^^ n) ?s)" "viewOf ((advance ^^ n) ?s) = (v_advance ^^ n) (viewOf ?s)"
    using plain.steps [OF inv] by auto
  then have "m_closed ((advance ^^ n) ?s) = m_closed ?s" using closed_view advances_closed by metis
  moreover have "chars ((advance ^^ n) ?s) = drop n (chars ?s)" using v(2) advances_chars [OF view_ok [OF inv]] by simp
  ultimately show ?thesis using onFirst_document [OF assms, of "advance ^^ n"] v(1) by (simp add: inputCurrent_document)
qed

lemma unread_document:
  assumes "input_ok st" "0 \<notin> set w" "m_pushedChar1 (inputCurrent st) = 0"
  shows "input_ok (onFirst (\<lambda>s. unconsumeCharacters s w) st) \<and>
     documentOf (onFirst (\<lambda>s. unconsumeCharacters s w) st) = (documentOf st)\<lparr>ahead := w @ ahead (documentOf st)\<rparr>"
proof -
  let ?s = "inputCurrent st"
  have un: "unescaped ?s" using assms(3) input_ok_current [OF assms(1)] by (simp add: unescaped_def)
  have "pushable ?s w" using assms(2) by (cases w) (auto simp: pushable_def)
  then have v: "string_invar (unconsumeCharacters ?s w)" "viewOf (unconsumeCharacters ?s w) = v_unconsume (viewOf ?s) w"
    using unconsume_view unescaped_invar [OF un] by auto
  then have "m_closed (unconsumeCharacters ?s w) = m_closed ?s" using closed_view v_push_closed(2) by metis
  then show ?thesis
    using onFirst_document [OF assms(1), of "\<lambda>s. unconsumeCharacters s w"] v(1) unescaped_unconsume [OF un assms(2)]
    by (simp add: inputCurrent_document)
qed

lemma inputStep_document:
  assumes "input_ok st" "allowed op st"
  shows "input_ok (inputStep op st) \<and> documentOf (inputStep op st) = documentStep op (documentOf st)"
  using assms appendToEnd_document insert_document markEndOfFile_document close_document enter_document leave_document
    read_document unread_document by (cases op) auto

lemma inputRun_document:
  "input_ok st \<Longrightarrow> allAllowed ops st \<Longrightarrow>
     input_ok (fold inputStep ops st) \<and> documentOf (fold inputStep ops st) = fold documentStep ops (documentOf st)"
  by (induction ops arbitrary: st) (simp_all add: inputStep_document)

end
