(* ===== verification/HTML_AtomicToken.thy ===== *)
theory HTML_AtomicToken
  imports HTML_Checks
begin

text \<open>
  \<open>AtomicHTMLToken\<close> (\<open>html/parser/AtomicHTMLToken.h\<close>, its methods in \<open>HTMLTokenizer.cpp\<close>): what the tree
  builder receives of a token. The pointer to the characters of the token is their list, and an
  \<open>AtomicString\<close> is the list of its characters. The constructor leaves some members uninitialised:
  they are \<open>None\<close>. That a token which says so holds 8-bit data only is an invariant of \<open>nextToken\<close>.
\<close>

section \<open>The token of the tree builder\<close>

text \<open>The names the parser makes have neither prefix nor namespace.\<close>

record QualifiedName =
  m_prefix :: "uchar list option"
  m_localName :: "uchar list"
  m_namespace :: "uchar list option"

record AtomicAttribute =
  m_attributeName :: QualifiedName
  m_attributeValue :: "uchar list"

record AtomicHTMLToken =
  a_type :: TokenType
  a_name :: "uchar list"
  a_data :: "uchar list"
  a_externalCharacters :: "uchar list option"
  a_isAll8BitData :: "bool option"
  a_doctypeData :: "DoctypeData option"
  a_selfClosing :: "bool option"
  a_attributes :: "AtomicAttribute list"

definition nameForAttribute :: "Attribute \<Rightarrow> QualifiedName" where
  "nameForAttribute attribute = \<lparr>m_prefix = None, m_localName = attr_name attribute, m_namespace = None\<rparr>"

definition usesName :: "AtomicHTMLToken \<Rightarrow> bool" where
  "usesName t \<longleftrightarrow> a_type t = StartTag \<or> a_type t = EndTag \<or> a_type t = DOCTYPE"

definition usesAttributes :: "AtomicHTMLToken \<Rightarrow> bool" where
  "usesAttributes t \<longleftrightarrow> a_type t = StartTag \<or> a_type t = EndTag"

definition name_matches :: "QualifiedName \<Rightarrow> QualifiedName \<Rightarrow> bool" where
  "name_matches a b \<longleftrightarrow> m_localName a = m_localName b \<and> m_namespace a = m_namespace b"

fun findAttributeInVector :: "AtomicAttribute list \<Rightarrow> QualifiedName \<Rightarrow> AtomicAttribute option" where
  "findAttributeInVector [] name = None"
| "findAttributeInVector (attribute # attributes) name =
     (if name_matches (m_attributeName attribute) name then Some attribute else findAttributeInVector attributes name)"

fun attributesLoop :: "Attribute list \<Rightarrow> AtomicAttribute list \<Rightarrow> AtomicAttribute list" where
  "attributesLoop [] found = found"
| "attributesLoop (attribute # attributes) found =
     (if attr_name attribute = [] then attributesLoop attributes found
      else
        let name = nameForAttribute attribute
        in attributesLoop attributes
             (if findAttributeInVector found name = None
              then found @ [\<lparr>m_attributeName = name, m_attributeValue = attr_value attribute\<rparr>]
              else found))"

definition initializeAttributes :: "AtomicAttribute list \<Rightarrow> Attribute list \<Rightarrow> AtomicAttribute list" where
  "initializeAttributes found attributes =
     (if length attributes = 0 then found else attributesLoop attributes [])"

text \<open>\<open>String::make8BitFrom16BitSource\<close> keeps the low byte of each code unit.\<close>

definition make8BitFrom16BitSource :: "uchar list \<Rightarrow> uchar list" where
  "make8BitFrom16BitSource cs = map (\<lambda>c. ucast (ucast c :: byte)) cs"

definition newAtomicToken :: "TokenType \<Rightarrow> AtomicHTMLToken" where
  "newAtomicToken type =
     \<lparr>a_type = type, a_name = [], a_data = [], a_externalCharacters = None, a_isAll8BitData = None,
      a_doctypeData = None, a_selfClosing = None, a_attributes = []\<rparr>"

definition atomicToken :: "HTMLToken \<Rightarrow> AtomicHTMLToken \<times> HTMLToken" where
  "atomicToken t =
     (let a = newAtomicToken (m_type t)
      in case m_type t of
           Uninitialized \<Rightarrow> (a, t)
         | DOCTYPE \<Rightarrow>
             let (doctypeData, t') = releaseDoctypeData t
             in (a\<lparr>a_name := m_data t, a_doctypeData := doctypeData\<rparr>, t')
         | EndOfFile \<Rightarrow> (a, t)
         | StartTag \<Rightarrow>
             (a\<lparr>a_selfClosing := Some (m_selfClosing t), a_name := m_data t,
                a_attributes := initializeAttributes (a_attributes a) (m_attributes t)\<rparr>, t)
         | EndTag \<Rightarrow>
             (a\<lparr>a_selfClosing := Some (m_selfClosing t), a_name := m_data t,
                a_attributes := initializeAttributes (a_attributes a) (m_attributes t)\<rparr>, t)
         | Comment \<Rightarrow> (a\<lparr>a_data := (if isAll8BitData t then make8BitFrom16BitSource (m_data t) else m_data t)\<rparr>, t)
         | Character \<Rightarrow> (a\<lparr>a_externalCharacters := Some (m_data t), a_isAll8BitData := Some (isAll8BitData t)\<rparr>, t))"

section \<open>The attributes of a tag\<close>

definition local_names :: "AtomicAttribute list \<Rightarrow> uchar list list" where
  "local_names as = map (\<lambda>a. m_localName (m_attributeName a)) as"

definition plain_names :: "AtomicAttribute list \<Rightarrow> bool" where
  "plain_names as \<longleftrightarrow> (\<forall>a\<in>set as. m_prefix (m_attributeName a) = None \<and> m_namespace (m_attributeName a) = None)"

definition plainName :: "uchar list \<Rightarrow> QualifiedName" where
  "plainName n = \<lparr>m_prefix = None, m_localName = n, m_namespace = None\<rparr>"

lemma find_plain:
  "plain_names as \<Longrightarrow>
     findAttributeInVector as (plainName n) = find (\<lambda>a. m_localName (m_attributeName a) = n) as"
  by (induction as) (auto simp: plain_names_def name_matches_def plainName_def)

lemma find_None_names: "find (\<lambda>a. m_localName (m_attributeName a) = n) as = None \<longleftrightarrow> n \<notin> set (local_names as)"
  by (induction as) (auto simp: local_names_def)

text \<open>The first attribute of each name is kept, in order, and a later one of that name is dropped.\<close>

lemma find_append: "find P (as @ bs) = (case find P as of Some a \<Rightarrow> Some a | None \<Rightarrow> find P bs)"
  by (induction as) auto

lemma attributesLoop_spec:
  assumes "plain_names as" "distinct (local_names as)" "[] \<notin> set (local_names as)"
  shows "plain_names (attributesLoop bs as) \<and> distinct (local_names (attributesLoop bs as)) \<and>
     [] \<notin> set (local_names (attributesLoop bs as)) \<and>
     set (local_names (attributesLoop bs as)) = set (local_names as) \<union> (attr_name ` set bs - {[]}) \<and>
     (\<forall>n. n \<noteq> [] \<longrightarrow>
        map_option m_attributeValue (findAttributeInVector (attributesLoop bs as) (plainName n)) =
        (case findAttributeInVector as (plainName n) of
           Some a \<Rightarrow> Some (m_attributeValue a)
         | None \<Rightarrow> map_option attr_value (find (\<lambda>b. attr_name b = n) bs)))"
  using assms
proof (induction bs arbitrary: as)
  case Nil
  then show ?case by (auto split: option.split)
next
  case (Cons b bs)
  show ?case
  proof (cases "attr_name b = [] \<or> findAttributeInVector as (plainName (attr_name b)) \<noteq> None")
    case True
    then have loop: "attributesLoop (b # bs) as = attributesLoop bs as"
      by (auto simp: nameForAttribute_def plainName_def)
    have "attr_name b = [] \<or> attr_name b \<in> set (local_names as)"
      using True find_plain [OF Cons.prems(1)] find_None_names [of "attr_name b" as] by auto
    then show ?thesis unfolding loop using Cons.IH [OF Cons.prems] True by (auto split: option.splits)
  next
    case False
    let ?a = "\<lparr>m_attributeName = plainName (attr_name b), m_attributeValue = attr_value b\<rparr>"
    have loop: "attributesLoop (b # bs) as = attributesLoop bs (as @ [?a])"
      using False by (simp add: nameForAttribute_def plainName_def Let_def)
    have new: "attr_name b \<notin> set (local_names as)" "attr_name b \<noteq> []"
      using False find_plain [OF Cons.prems(1)] find_None_names [of "attr_name b" as] by auto
    have as': "plain_names (as @ [?a])" "local_names (as @ [?a]) = local_names as @ [attr_name b]"
      using Cons.prems by (auto simp: plain_names_def plainName_def local_names_def)
    have find: "findAttributeInVector (as @ [?a]) (plainName n) =
        (case findAttributeInVector as (plainName n) of Some a \<Rightarrow> Some a | None \<Rightarrow> if attr_name b = n then Some ?a else None)" for n
      using find_plain [OF as'(1)] find_plain [OF Cons.prems(1)] by (simp add: find_append plainName_def split: option.split)
    show ?thesis unfolding loop
      using Cons.IH [of "as @ [?a]"] as' new Cons.prems find by (auto split: option.splits)
  qed
qed

text \<open>What the attributes of an atomic token are, by name, with respect to those of the token.\<close>

definition firstOfEachName :: "Attribute list \<Rightarrow> AtomicAttribute list \<Rightarrow> bool" where
  "firstOfEachName bs as \<longleftrightarrow>
     distinct (local_names as) \<and> set (local_names as) = attr_name ` set bs - {[]} \<and>
     (\<forall>n. n \<noteq> [] \<longrightarrow>
        map_option m_attributeValue (findAttributeInVector as (plainName n)) =
        map_option attr_value (find (\<lambda>b. attr_name b = n) bs))"

lemma initializeAttributes_spec: "firstOfEachName bs (initializeAttributes [] bs)"
  using attributesLoop_spec [of "[]" bs]
  by (cases bs) (auto simp: firstOfEachName_def initializeAttributes_def plain_names_def local_names_def)

section \<open>8-bit data\<close>

definition dataFits :: "HTMLToken \<Rightarrow> bool" where
  "dataFits t \<longleftrightarrow> (isAll8BitData t \<longrightarrow> (\<forall>c\<in>set (m_data t). c \<le> 0xFF))"

lemma or_le: "a OR b \<le> (0xFF :: uchar) \<Longrightarrow> a \<le> 0xFF \<and> b \<le> 0xFF"
  using le_word_or1 [of b a] le_word_or2 [of a b] by (meson order_trans)

lemma ucast_byte_le: "(ucast (b :: byte) :: uchar) \<le> 0xFF"
proof -
  have "unat b < 2 ^ 8" using unsigned_less [of b, where 'a = nat] by simp
  then have "unat (ucast b :: uchar) < 2 ^ 8" by (simp add: unsigned_ucast_eq take_bit_eq_mod)
  then show ?thesis by (simp add: word_le_nat_alt)
qed

lemma make8Bit_id: "\<forall>c\<in>set cs. c \<le> 0xFF \<Longrightarrow> make8BitFrom16BitSource cs = cs"
proof -
  have "ucast (ucast c :: byte) = c" if "c \<le> (0xFF :: uchar)" for c
  proof -
    have "unat c < 2 ^ 8" using that by (simp add: word_le_nat_alt)
    then have "unat (ucast (ucast c :: byte) :: uchar) = unat c" 
      by (simp add: unsigned_ucast_eq take_bit_eq_mod unat_mod)
    then show ?thesis by (simp only: word_unat_eq_iff)
  qed
  then show "\<forall>c\<in>set cs. c \<le> 0xFF \<Longrightarrow> make8BitFrom16BitSource cs = cs"
    by (simp add: make8BitFrom16BitSource_def map_idI)
qed

definition keepsData :: "uchar \<Rightarrow> Control \<times> Machine \<Rightarrow> bool" where
  "keepsData = keeps (\<lambda>m. dataFits (token m)) (\<lambda>_ m. dataFits (token m)) (\<lambda>_ m. dataFits (token m))"

lemma keepsData_iff: "keepsData cc step \<longleftrightarrow> dataFits (token (snd step))"
  by (simp add: keepsData_def keeps_def split: prod.split Control.split)

lemma dataFits_cleared: "m_data t = [] \<Longrightarrow> dataFits t"
  by (simp add: dataFits_def)

lemma dataFits_cong: "m_data t = m_data u \<Longrightarrow> m_orAllData t = m_orAllData u \<Longrightarrow> dataFits t \<longleftrightarrow> dataFits u"
  by (simp add: dataFits_def isAll8BitData_def)

lemma dataFits_append [simp]: "dataFits t \<Longrightarrow> dataFits (appendData t c)"
  by (auto simp: dataFits_def isAll8BitData_def appendData_def dest: or_le)

lemma dataFits_bytes: "dataFits t \<Longrightarrow> dataFits (t\<lparr>m_data := m_data t @ map ucast (cs :: byte list)\<rparr>)"
  by (auto simp: dataFits_def isAll8BitData_def ucast_byte_le)

lemma dataFits_fields [simp]:
  "dataFits (t\<lparr>m_type := a\<rparr>) = dataFits t" "dataFits (t\<lparr>m_checks := b\<rparr>) = dataFits t"
  "dataFits (t\<lparr>m_selfClosing := b\<rparr>) = dataFits t" "dataFits (t\<lparr>m_attributes := c\<rparr>) = dataFits t"
  "dataFits (t\<lparr>m_currentAttribute := d\<rparr>) = dataFits t" "dataFits (t\<lparr>m_doctypeData := e\<rparr>) = dataFits t"
  by (rule dataFits_cong; simp)+

lemma dataFits_check [simp]: "dataFits (check b t) = dataFits t"
  by (simp add: check_def)

lemma dataFits_doctype [simp]: "dataFits (onDoctype f t) = dataFits t"
  by (simp add: onDoctype_def Let_def split: option.split)

lemma dataFits_attribute [simp]: "dataFits (onCurrentAttribute f t) = dataFits t"
  by (simp add: onCurrentAttribute_def split: option.split)

lemma dataFits_operations [simp]:
  "dataFits (clearToken t)"
  "dataFits (makeEndOfFile t) = dataFits t"
  "dataFits (setForceQuirks t) = dataFits t"
  "dataFits (beginDOCTYPE t) = dataFits t"
  "dataFits (setPublicIdentifierToEmptyString t) = dataFits t"
  "dataFits (setSystemIdentifierToEmptyString t) = dataFits t"
  "dataFits (appendToPublicIdentifier t c) = dataFits t"
  "dataFits (appendToSystemIdentifier t c) = dataFits t"
  "dataFits (setSelfClosing t) = dataFits t"
  "dataFits (addNewAttribute t) = dataFits t"
  "dataFits (beginAttributeName t i) = dataFits t"
  "dataFits (endAttributeName t i) = dataFits t"
  "dataFits (beginAttributeValue t i) = dataFits t"
  "dataFits (endAttributeValue t i) = dataFits t"
  "dataFits (appendToAttributeName t c) = dataFits t"
  "dataFits (appendToAttributeValue t c) = dataFits t"
  "dataFits (ensureIsCharacterToken t) = dataFits t"
  "dataFits (beginComment t) = dataFits t"
  by (simp_all add: dataFits_cleared clearToken_def makeEndOfFile_def setForceQuirks_def beginDOCTYPE_def
      setPublicIdentifierToEmptyString_def setSystemIdentifierToEmptyString_def appendToPublicIdentifier_def
      appendToSystemIdentifier_def setSelfClosing_def addNewAttribute_def beginAttributeName_def endAttributeName_def
      beginAttributeValue_def endAttributeValue_def appendToAttributeName_def appendToAttributeValue_def
      ensureIsCharacterToken_def beginComment_def Let_def)

lemma dataFits_beginEndTag [simp]: "dataFits t \<Longrightarrow> dataFits (beginEndTag t cs)"
  by (auto simp: beginEndTag_def check_def dataFits_def isAll8BitData_def ucast_byte_le Let_def)

lemma dataFits_appends [simp]:
  assumes "dataFits t"
  shows "dataFits (appendToName t c)" "dataFits (beginDOCTYPEWith t c)" "dataFits (beginStartTag t c)"
    "dataFits (appendToCharacter t c)" "dataFits (appendCharacters t cs)" "dataFits (appendToComment t c)"
  using assms dataFits_bytes [of "check (m_type t = Character) t" cs]
  by (simp_all add: appendToName_def beginDOCTYPEWith_def beginStartTag_def appendToCharacter_def
      appendCharacters_def appendToComment_def Let_def)

lemma dataFits_foldl_comment: "dataFits t \<Longrightarrow> dataFits (foldl appendToComment t cs)"
  by (induction cs arbitrary: t) simp_all

lemma dataFits_fold: "(\<And>c m. dataFits (token m) \<Longrightarrow> dataFits (token (f c m))) \<Longrightarrow> dataFits (token m) \<Longrightarrow>
    dataFits (token (fold f cs m))"
  by (induction cs arbitrary: m) simp_all

lemma token_bufferCharacter: "dataFits (token m) \<Longrightarrow> dataFits (token (bufferCharacter c m))"
  by (simp add: bufferCharacter_def onToken_def)

lemma token_appendToValue: "dataFits (token m) \<Longrightarrow> dataFits (token (appendToValue c m))"
  by (simp add: appendToValue_def onToken_def)

lemmas dataFits_folds = dataFits_fold [OF token_bufferCharacter] dataFits_fold [OF token_appendToValue] dataFits_foldl_comment

lemma plain_states_data:
  assumes "dataFits (token m)"
    "st \<notin> {CharacterReferenceInDataState, CharacterReferenceInRCDATAState, CharacterReferenceInAttributeValueState,
       MarkupDeclarationOpenState, AfterDOCTYPENameState}"
  shows "keepsData cc (dispatch table st cc m)"
  using assms
  by (cases st) (auto simp: dispatch_def character_state_defs rejectEndTag_def machine_defs keepsData_iff Let_def
      dataFits_folds split: option.splits)

lemma reference_states_data:
  assumes "dataFits (token m)"
  shows "keepsData cc (characterReferenceIn st table cc m)"
    "keepsData cc (inCharacterReferenceInAttributeValueState table cc m)"
    "keepsData cc (inMarkupDeclarationOpenState cc m)"
    "keepsData cc (inAfterDOCTYPENameState cc m)"
  using assms
  by (auto simp: characterReferenceIn_def processEntity_def inCharacterReferenceInAttributeValueState_def
      inMarkupDeclarationOpenState_def inAfterDOCTYPENameState_def token_bufferCharacter token_appendToValue
      notReached_def machine_defs keepsData_iff Let_def dataFits_folds split: prod.splits option.splits LookAheadResult.splits)

lemma dispatch_data: "dataFits (token m) \<Longrightarrow> keepsData cc (dispatch table (m_state m) cc m)"
  using plain_states_data [of m "m_state m"] reference_states_data [of m]
  by (cases "m_state m") (simp_all add: dispatch_def inCharacterReferenceInDataState_def inCharacterReferenceInRCDATAState_def)

interpretation data: token_run table "\<lambda>m. dataFits (token m)" "\<lambda>_ m. dataFits (token m)" "\<lambda>_ m. dataFits (token m)" for table
  by unfold_locales (use dispatch_data [unfolded keepsData_def] in \<open>simp_all add: inputOf_def\<close>)

lemma nextToken_data:
  assumes "dataFits (token m)" "nextToken table m = Some (b, m')"
  shows "dataFits (token m')"
proof -
  have "dataFits (token (beginBufferedEndTag m))"
    using assms(1) by (simp add: beginBufferedEndTag_def onToken_def Let_def)
  then show ?thesis
    using assms data.continueToken_keeps [of m] data.continueToken_keeps [of "beginBufferedEndTag m"]
    by (auto simp: nextToken_def Let_def split: if_splits)
qed

lemma atomicToken_fields:
  assumes "dataFits t" "atomicToken t = (a, t')"
  shows "a_type a = m_type t \<and>
     (m_type t = Comment \<longrightarrow> a_data a = m_data t) \<and>
     (m_type t = Character \<longrightarrow> a_externalCharacters a = Some (m_data t) \<and> a_isAll8BitData a = Some (isAll8BitData t)) \<and>
     (m_type t = DOCTYPE \<longrightarrow> a_name a = m_data t \<and> a_doctypeData a = m_doctypeData t \<and> m_doctypeData t' = None) \<and>
     (usesAttributes a \<longrightarrow>
        a_name a = m_data t \<and> a_selfClosing a = Some (m_selfClosing t) \<and>
        a_attributes a = initializeAttributes [] (m_attributes t))"
proof -
  have "isAll8BitData t \<Longrightarrow> make8BitFrom16BitSource (m_data t) = m_data t"
    using make8Bit_id assms(1) by (simp add: dataFits_def)
  with assms(2) show ?thesis
    by (cases "m_type t") (auto simp: atomicToken_def newAtomicToken_def releaseDoctypeData_def usesAttributes_def Let_def)
qed

end
