(* ===== verification/HTML_Input_Theorems.thy ===== *)
theory HTML_Input_Theorems
  imports HTML_Input HTML_AtomicToken HTML_Theorems
begin

text \<open>
  The properties of the parser's input stream and of the token that the tree builder receives.
\<close>

section \<open>The input stream\<close>

text \<open>What a script does between entering and leaving: it writes, while the network may append.\<close>

fun isWriting :: "InputOperation \<Rightarrow> bool" where
  "isWriting (AppendToEnd b w) \<longleftrightarrow> True"
| "isWriting (InsertAtCurrentInsertionPoint b w) \<longleftrightarrow> True"
| "isWriting _ \<longleftrightarrow> False"

fun writtenBy :: "InputOperation \<Rightarrow> uchar list" where
  "writtenBy (InsertAtCurrentInsertionPoint b w) = w"
| "writtenBy _ = []"

fun receivedBy :: "InputOperation \<Rightarrow> uchar list" where
  "receivedBy (AppendToEnd b w) = w"
| "receivedBy _ = []"

lemma writing_document:
  assumes "\<forall>op\<in>set ops. isWriting op" "behind d \<noteq> []"
  shows "ahead (fold documentStep ops d) = ahead d @ concat (map writtenBy ops) \<and>
     behind (fold documentStep ops d) \<noteq> [] \<and>
     concat (behind (fold documentStep ops d)) = concat (behind d) @ concat (map receivedBy ops)"
  using assms
proof (induction ops arbitrary: d)
  case (Cons op ops)
  have "behind (documentStep op d) \<noteq> [] \<and> ahead (documentStep op d) = ahead d @ writtenBy op \<and>
      concat (behind (documentStep op d)) = concat (behind d) @ receivedBy op"
    using Cons.prems by (cases "behind d" rule: rev_cases; cases op) (auto simp: d_append_def d_insert_def)
  then show ?case using Cons.IH [of "documentStep op d"] Cons.prems by simp
qed simp

definition positions :: "Input \<Rightarrow> (int \<times> int) list" where
  "positions st = map (\<lambda>r. (m_line r, m_column r)) (m_records st)"

lemma positions_onNext: "positions (onNext n f st) = positions st"
proof (rule nth_equalityI)
  fix i
  assume "i < length (positions (onNext n f st))"
  then show "positions (onNext n f st) ! i = positions st ! i"
    by (cases "i = n") (simp_all add: positions_def onNext_def)
qed (simp add: positions_def onNext_def)

lemma positions_onFirst: "positions (onFirst f st) = positions st"
  by (simp add: positions_def onFirst_def)

lemma writing_positions: "isWriting op \<Longrightarrow> positions (inputStep op st) = positions st"
  by (cases op) (simp_all add: appendToEnd_def insertAtCurrentInsertionPoint_def onLast_def positions_onFirst
      positions_onNext split: StringPointer.split)

lemma writing_positions_fold: "\<forall>op\<in>set ops. isWriting op \<Longrightarrow> positions (fold inputStep ops st) = positions st"
  by (induction ops arbitrary: st) (simp_all add: writing_positions)

lemma allAllowed_append: "allAllowed (ops @ ops') st \<longleftrightarrow> allAllowed ops st \<and> allAllowed ops' (fold inputStep ops st)"
  by (induction ops arbitrary: st) auto

text \<open>
  C31. The input stream is a document cut at the insertion points: whatever sequence of operations
  is allowed, from the empty stream, the strings on the stack hold what the operations on the
  document say; the pointer to the last string never dangles, and only the last string is closed.
  A script that writes leaves its text before the characters that were to be read, with what the
  network sent meanwhile at the end, and the position restored for the character after it.
\<close>

theorem input_stream_refines_document:
  assumes "allAllowed ops newInput"
  shows "documentOf (fold inputStep ops newInput) = fold documentStep ops \<lparr>ahead = [], behind = [], ended = False\<rparr> \<and>
     input_ok (fold inputStep ops newInput) \<and>
     (\<forall>script. (\<forall>op\<in>set script. isWriting op) \<and>
        allAllowed (EnterInsertionPoint # script @ [LeaveInsertionPoint]) (fold inputStep ops newInput) \<longrightarrow>
        (let before = fold inputStep ops newInput;
             after = fold inputStep (EnterInsertionPoint # script @ [LeaveInsertionPoint]) before;
             written = concat (map writtenBy script)
         in wholeText (documentOf after) = written @ wholeText (documentOf before) @ concat (map receivedBy script) \<and>
            m_currentLine (inputCurrent after) = m_currentLine (inputCurrent before) \<and>
            currentColumn (inputCurrent after) + int (length written) = currentColumn (inputCurrent before)))"
proof -
  let ?st = "fold inputStep ops newInput"
  have st: "input_ok ?st \<and> documentOf ?st = fold documentStep ops \<lparr>ahead = [], behind = [], ended = False\<rparr>"
    using inputRun_document [of newInput ops] newInput_ok assms by simp
  have script: "wholeText (documentOf after) = written @ wholeText (documentOf ?st) @ concat (map receivedBy script) \<and>
      m_currentLine (inputCurrent after) = m_currentLine (inputCurrent ?st) \<and>
      currentColumn (inputCurrent after) + int (length written) = currentColumn (inputCurrent ?st)"
    if w: "\<forall>op\<in>set script. isWriting op"
      and ok: "allAllowed (EnterInsertionPoint # script @ [LeaveInsertionPoint]) ?st"
      and after: "after = fold inputStep (EnterInsertionPoint # script @ [LeaveInsertionPoint]) ?st"
      and written: "written = concat (map writtenBy script)"
    for script after written
  proof -
    let ?in = "newInsertionPointRecord ?st" and ?out = "fold inputStep script (newInsertionPointRecord ?st)"
    have enter: "input_ok ?in" "documentOf ?in = d_enter (documentOf ?st)"
      using enter_document [of ?st] st ok by auto
    have ok': "allAllowed script ?in" "m_records ?out \<noteq> []" using ok by (simp_all add: allAllowed_append)
    have out: "input_ok ?out" "documentOf ?out = fold documentStep script (d_enter (documentOf ?st))"
      using inputRun_document [OF enter(1) ok'(1)] enter(2) by auto
    have doc: "ahead (documentOf ?out) = written \<and>
        concat (behind (documentOf ?out)) = wholeText (documentOf ?st) @ concat (map receivedBy script) \<and>
        behind (documentOf ?out) \<noteq> []"
      using writing_document [OF w, of "d_enter (documentOf ?st)"] out(2)
      by (auto simp: d_enter_def wholeText_def written)
    note leave = leave_document [OF out(1) ok'(2)]
    have "positions ?out = positions ?st @ [(m_currentLine (inputCurrent ?st), currentColumn (inputCurrent ?st))]"
      using writing_positions_fold [OF w, of ?in]
      by (simp add: positions_def newInsertionPointRecord_def splitInto_def onFirst_def onNext_def setLast_def Let_def)
    then have "(m_line (last (m_records ?out)), m_column (last (m_records ?out))) =
        (m_currentLine (inputCurrent ?st), currentColumn (inputCurrent ?st))"
      using ok'(2) by (metis (no_types, lifting) last_map last_snoc positions_def)
    moreover have "after = deleteInsertionPointRecord ?out" by (simp add: after)
    moreover have "wholeText (documentOf (deleteInsertionPointRecord ?out)) =
        written @ wholeText (documentOf ?st) @ concat (map receivedBy script)"
      using leave doc wholeText_simps(4) [of "documentOf ?out"] by (simp add: wholeText_def)
    ultimately show ?thesis using leave doc by simp
  qed
  show ?thesis unfolding Let_def using st script by blast
qed

text \<open>The network sends \<open>ac\<close>, the tokenizer reads \<open>a\<close>, a script writes \<open>b\<close>.\<close>

definition writeExample :: "InputOperation list" where
  "writeExample =
     [AppendToEnd True [0x61, 0x63], ReadCharacters 1, EnterInsertionPoint,
      InsertAtCurrentInsertionPoint False [0x62], AppendToEnd True [0x64], LeaveInsertionPoint,
      MarkEndOfFile]"

theorem input_stream_refines_document_witness:
  "documentOf (fold inputStep writeExample newInput) =
     \<lparr>ahead = [0x62, 0x63, 0x64, kEndOfFileMarker], behind = [], ended = True\<rparr>"
proof -
  have "allAllowed writeExample newInput" unfolding writeExample_def by code_simp
  then have "documentOf (fold inputStep writeExample newInput) =
      fold documentStep writeExample \<lparr>ahead = [], behind = [], ended = False\<rparr>"
    using input_stream_refines_document by blast
  also have "\<dots> = \<lparr>ahead = [0x62, 0x63, 0x64, kEndOfFileMarker], behind = [], ended = True\<rparr>"
    by (simp add: writeExample_def d_append_def d_insert_def d_enter_def d_leave_def)
  finally show ?thesis .
qed

section \<open>The token of the tree builder\<close>

text \<open>
  C32. A token that \<open>nextToken\<close> delivers reaches the tree builder unchanged: a comment, also where it
  is stored in 8 bits, for every character of data said to be 8-bit is; the characters of a text,
  with a true statement about their width; the name of a tag, and the attributes, the first of each
  name that is not empty (\<open>firstOfEachName\<close>). A DOCTYPE keeps its identifiers, which leave the token.
\<close>

theorem atomic_token_is_faithful:
  assumes "dataFits (token m)" and "nextToken table m = Some (b, m')" and "atomicToken (token m') = (a, t)"
  shows "dataFits (token m') \<and> a_type a = m_type (token m') \<and>
     (m_type (token m') = Comment \<longrightarrow> a_data a = m_data (token m')) \<and>
     (m_type (token m') = Character \<longrightarrow>
        a_externalCharacters a = Some (m_data (token m')) \<and>
        (a_isAll8BitData a = Some True \<longrightarrow> (\<forall>c\<in>set (m_data (token m')). c \<le> 0xFF))) \<and>
     (m_type (token m') = DOCTYPE \<longrightarrow>
        a_name a = m_data (token m') \<and> a_doctypeData a = m_doctypeData (token m') \<and> m_doctypeData t = None) \<and>
     (usesAttributes a \<longrightarrow>
        a_name a = m_data (token m') \<and> a_selfClosing a = Some (m_selfClosing (token m')) \<and>
        firstOfEachName (m_attributes (token m')) (a_attributes a))"
proof -
  have fits: "dataFits (token m')" by (rule nextToken_data [OF assms(1,2)])
  then show ?thesis
    using atomicToken_fields [OF fits assms(3)] initializeAttributes_spec [of "m_attributes (token m')"]
    by (auto simp: dataFits_def)
qed

theorem atomic_token_is_faithful_witness:
  "\<exists>b m'. nextToken smallTable (tokenizerOn (closedSource ''<a b=c>'')) = Some (b, m') \<and>
     a_type (fst (atomicToken (token m'))) = m_type (token m')"
proof -
  obtain b m' where n: "nextToken smallTable (tokenizerOn (closedSource ''<a b=c>'')) = Some (b, m')"
    using nextToken_ends [OF smallTable_ok, of "tokenizerOn (closedSource ''<a b=c>'')"] by auto
  moreover have "dataFits (token (tokenizerOn (closedSource ''<a b=c>'')))" by (simp add: newToken_def dataFits_cleared)
  ultimately show ?thesis
    using atomic_token_is_faithful [of "tokenizerOn (closedSource ''<a b=c>'')" smallTable b m'] by (metis prod.collapse)
qed

end
