(* ===== verification/Region_Shape.thy ===== *)
theory Region_Shape
  imports Prelude
begin

text \<open>
  \<open>IntRect\<close> (\<open>platform/graphics/IntRect.h\<close>, \<open>IntRect.cpp\<close>) and \<open>Region\<close> (\<open>platform/graphics/Region.h\<close>,
  \<open>Region.cpp\<close>), the scan-line shape algebra behind repaint and touch regions. An iterator over the
  spans of a shape is the list of the spans from there on; the pair of iterators of a span's
  segments is the list between them. Coordinates are \<open>int\<close>: the code computes with 32 bits, and an
  overflow of a sum or difference of coordinates, undefined there, is not represented. The properties are about
  coordinates of less than \<open>2 ^ 30\<close> where there are points; the bounds of an empty region, which the
  operations compare as well, may lie anywhere.
\<close>

unbundle bit_operations_syntax

section \<open>Rectangles\<close>

record IntRect =
  m_x :: int
  m_y :: int
  m_width :: int
  m_height :: int

definition newRect :: IntRect where
  "newRect = \<lparr>m_x = 0, m_y = 0, m_width = 0, m_height = 0\<rparr>"

definition rectOf :: "int \<Rightarrow> int \<Rightarrow> int \<Rightarrow> int \<Rightarrow> IntRect" where
  "rectOf x y w h = \<lparr>m_x = x, m_y = y, m_width = w, m_height = h\<rparr>"

definition rect_maxX :: "IntRect \<Rightarrow> int" where
  "rect_maxX r = m_x r + m_width r"

definition rect_maxY :: "IntRect \<Rightarrow> int" where
  "rect_maxY r = m_y r + m_height r"

definition rect_isEmpty :: "IntRect \<Rightarrow> bool" where
  "rect_isEmpty r \<longleftrightarrow> m_width r \<le> 0 \<or> m_height r \<le> 0"

definition rect_move :: "IntRect \<Rightarrow> int \<Rightarrow> int \<Rightarrow> IntRect" where
  "rect_move r dx dy = r\<lparr>m_x := m_x r + dx, m_y := m_y r + dy\<rparr>"

definition rect_intersects :: "IntRect \<Rightarrow> IntRect \<Rightarrow> bool" where
  "rect_intersects r s \<longleftrightarrow>
     \<not> rect_isEmpty r \<and> \<not> rect_isEmpty s \<and> m_x r < rect_maxX s \<and> m_x s < rect_maxX r \<and>
     m_y r < rect_maxY s \<and> m_y s < rect_maxY r"

definition rect_contains :: "IntRect \<Rightarrow> IntRect \<Rightarrow> bool" where
  "rect_contains r s \<longleftrightarrow>
     m_x r \<le> m_x s \<and> rect_maxX s \<le> rect_maxX r \<and> m_y r \<le> m_y s \<and> rect_maxY s \<le> rect_maxY r"

definition rect_containsPoint :: "IntRect \<Rightarrow> int \<Rightarrow> int \<Rightarrow> bool" where
  "rect_containsPoint r px py \<longleftrightarrow> m_x r \<le> px \<and> px < rect_maxX r \<and> m_y r \<le> py \<and> py < rect_maxY r"

definition rect_unite :: "IntRect \<Rightarrow> IntRect \<Rightarrow> IntRect" where
  "rect_unite r s =
     (if rect_isEmpty s then r
      else if rect_isEmpty r then s
      else
        let left = min (m_x r) (m_x s); top = min (m_y r) (m_y s);
            right = max (rect_maxX r) (rect_maxX s); bottom = max (rect_maxY r) (rect_maxY s)
        in \<lparr>m_x = left, m_y = top, m_width = right - left, m_height = bottom - top\<rparr>)"

definition rect_intersect :: "IntRect \<Rightarrow> IntRect \<Rightarrow> IntRect" where
  "rect_intersect r s =
     (let left = max (m_x r) (m_x s); top = max (m_y r) (m_y s);
          right = min (rect_maxX r) (rect_maxX s); bottom = min (rect_maxY r) (rect_maxY s)
      in if right \<le> left \<or> bottom \<le> top then newRect
         else \<lparr>m_x = left, m_y = top, m_width = right - left, m_height = bottom - top\<rparr>)"

section \<open>Shapes\<close>

record Span =
  spanY :: int
  segmentIndex :: nat

record Shape =
  m_segments :: "int list"
  m_spans :: "Span list"

definition emptyShape :: Shape where
  "emptyShape = \<lparr>m_segments = [], m_spans = []\<rparr>"

definition shape_isEmpty :: "Shape \<Rightarrow> bool" where
  "shape_isEmpty s \<longleftrightarrow> m_spans s = []"

definition shape_isRect :: "Shape \<Rightarrow> bool" where
  "shape_isRect s \<longleftrightarrow> length (m_spans s) \<le> 2 \<and> length (m_segments s) \<le> 2"

text \<open>
  The segments of the first span of \<open>it\<close>; the last span of a shape has none, by an assertion of
  \<open>segments_end\<close> (the model takes what is left).
\<close>

definition segmentsOf :: "int list \<Rightarrow> Span list \<Rightarrow> int list" where
  "segmentsOf segments it =
     (let i = segmentIndex (hd it)
      in if i = length segments then []
         else case tl it of
             [] \<Rightarrow> drop i segments
           | next # _ \<Rightarrow> drop i (take (segmentIndex next) segments))"

definition appendEmptySpan :: "Shape \<Rightarrow> int \<Rightarrow> Shape" where
  "appendEmptySpan s y = s\<lparr>m_spans := m_spans s @ [\<lparr>spanY = y, segmentIndex = length (m_segments s)\<rparr>]\<rparr>"

definition appendSegment :: "Shape \<Rightarrow> int \<Rightarrow> Shape" where
  "appendSegment s x = s\<lparr>m_segments := m_segments s @ [x]\<rparr>"

definition canCoalesce :: "Shape \<Rightarrow> int list \<Rightarrow> bool" where
  "canCoalesce s segments \<longleftrightarrow>
     m_spans s \<noteq> [] \<and> drop (segmentIndex (last (m_spans s))) (m_segments s) = segments"

definition appendSpan :: "Shape \<Rightarrow> int \<Rightarrow> int list \<Rightarrow> Shape" where
  "appendSpan s y segments =
     (if canCoalesce s segments then s
      else let s = appendEmptySpan s y in s\<lparr>m_segments := m_segments s @ segments\<rparr>)"

text \<open>The spans from \<open>it\<close> on of a shape with these segments.\<close>

fun appendSpans :: "Shape \<Rightarrow> int list \<Rightarrow> Span list \<Rightarrow> Shape" where
  "appendSpans s segments [] = s"
| "appendSpans s segments (span # it) =
     appendSpans (appendSpan s (spanY span) (segmentsOf segments (span # it))) segments it"

definition shapeOfRect :: "IntRect \<Rightarrow> Shape" where
  "shapeOfRect r =
     appendEmptySpan (appendSegment (appendSegment (appendEmptySpan emptyShape (m_y r)) (m_x r)) (rect_maxX r)) (rect_maxY r)"

definition shape_translate :: "Shape \<Rightarrow> int \<Rightarrow> int \<Rightarrow> Shape" where
  "shape_translate s dx dy =
     s\<lparr>m_segments := map (\<lambda>x. x + dx) (m_segments s),
       m_spans := map (\<lambda>span. span\<lparr>spanY := spanY span + dy\<rparr>) (m_spans s)\<rparr>"

text \<open>
  The loop of \<open>bounds\<close>. A span without segments that is followed by one with segments reads the
  first segment after it and the last one before it, which changes nothing.
\<close>

fun boundsLoop :: "int list \<Rightarrow> Span list \<Rightarrow> int \<Rightarrow> int \<Rightarrow> int \<times> int" where
  "boundsLoop segments (span # next # it) minX maxX =
     (if segmentIndex span = length segments then boundsLoop segments (next # it) minX maxX
      else
        let firstSegment = segments ! segmentIndex span; lastSegment = segments ! (segmentIndex next - 1)
        in boundsLoop segments (next # it) (if firstSegment < minX then firstSegment else minX)
             (if maxX < lastSegment then lastSegment else maxX))"
| "boundsLoop segments it minX maxX = (minX, maxX)"

definition shape_bounds :: "Shape \<Rightarrow> IntRect" where
  "shape_bounds s =
     (if shape_isEmpty s then newRect
      else
        let minY = spanY (hd (m_spans s)); maxY = spanY (last (m_spans s));
            (minX, maxX) = boundsLoop (m_segments s) (m_spans s) (2 ^ 31 - 1) (- (2 ^ 31))
        in \<lparr>m_x = minX, m_y = minY, m_width = maxX - minX, m_height = maxY - minY\<rparr>)"

section \<open>The shape operations\<close>

datatype ShapeOperation = UnionOperation | IntersectOperation | SubtractOperation

fun trySimpleOperation :: "ShapeOperation \<Rightarrow> Shape \<Rightarrow> Shape \<Rightarrow> Shape option" where
  "trySimpleOperation UnionOperation s t = (if shape_isEmpty s then Some t else None)"
| "trySimpleOperation _ s t = None"

fun opCode :: "ShapeOperation \<Rightarrow> nat" where
  "opCode UnionOperation = 0"
| "opCode IntersectOperation = 3"
| "opCode SubtractOperation = 1"

text \<open>For each operation the flags for segments and for spans agree.\<close>

fun shouldAddRemaining1 :: "ShapeOperation \<Rightarrow> bool" where
  "shouldAddRemaining1 UnionOperation = True"
| "shouldAddRemaining1 IntersectOperation = False"
| "shouldAddRemaining1 SubtractOperation = True"

fun shouldAddRemaining2 :: "ShapeOperation \<Rightarrow> bool" where
  "shouldAddRemaining2 UnionOperation = True"
| "shouldAddRemaining2 IntersectOperation = False"
| "shouldAddRemaining2 SubtractOperation = False"

text \<open>The inner loop: the segments gathered, and what remains of the two spans.\<close>

function segmentLoop :: "ShapeOperation \<Rightarrow> int list \<Rightarrow> int list \<Rightarrow> nat \<Rightarrow> nat \<Rightarrow> int list \<Rightarrow> int list \<times> int list \<times> int list" where
  "segmentLoop op (a # s) (b # t) flag oldFlag segments =
     (let test = a - b;
          x = (if 0 \<le> test then b else a);
          flag = (if test \<le> 0 then flag XOR 1 else flag);
          flag = (if 0 \<le> test then flag XOR 2 else flag);
          segments = (if flag = opCode op \<or> oldFlag = opCode op then segments @ [x] else segments)
      in segmentLoop op (if test \<le> 0 then s else a # s) (if 0 \<le> test then t else b # t) flag flag segments)"
| "segmentLoop op [] t flag oldFlag segments = (segments, [], t)"
| "segmentLoop op (a # s) [] flag oldFlag segments = (segments, a # s, [])"
  by pat_completeness auto
termination by (relation "measure (\<lambda>(_, s, t, _). length s + length t)") auto

definition combineSegments :: "ShapeOperation \<Rightarrow> int list \<Rightarrow> int list \<Rightarrow> int list" where
  "combineSegments op s t =
     (let (segments, s, t) = segmentLoop op s t 0 0 []
      in if shouldAddRemaining1 op \<and> s \<noteq> [] then segments @ s
         else if shouldAddRemaining2 op \<and> t \<noteq> [] then segments @ t
         else segments)"

text \<open>The outer loop: the result so far, and what remains of the spans of the two shapes.\<close>

function spanLoop :: "ShapeOperation \<Rightarrow> int list \<Rightarrow> int list \<Rightarrow> Span list \<Rightarrow> Span list \<Rightarrow> int list \<Rightarrow> int list \<Rightarrow>
    Shape \<Rightarrow> Shape \<times> Span list \<times> Span list" where
  "spanLoop op all1 all2 (span1 # it1) (span2 # it2) segments1 segments2 result =
     (let test = spanY span1 - spanY span2;
          y = (if 0 \<le> test then spanY span2 else spanY span1);
          segments1 = (if test \<le> 0 then segmentsOf all1 (span1 # it1) else segments1);
          segments2 = (if 0 \<le> test then segmentsOf all2 (span2 # it2) else segments2);
          segments = combineSegments op segments1 segments2;
          result = (if segments \<noteq> [] \<or> \<not> shape_isEmpty result then appendSpan result y segments else result)
      in spanLoop op all1 all2 (if test \<le> 0 then it1 else span1 # it1) (if 0 \<le> test then it2 else span2 # it2)
           segments1 segments2 result)"
| "spanLoop op all1 all2 [] it2 segments1 segments2 result = (result, [], it2)"
| "spanLoop op all1 all2 (span1 # it1) [] segments1 segments2 result = (result, span1 # it1, [])"
  by pat_completeness auto
termination by (relation "measure (\<lambda>(_, _, _, it1, it2, _). length it1 + length it2)") auto

definition shapeOperation :: "ShapeOperation \<Rightarrow> Shape \<Rightarrow> Shape \<Rightarrow> Shape" where
  "shapeOperation op shape1 shape2 =
     (case trySimpleOperation op shape1 shape2 of
        Some result \<Rightarrow> result
      | None \<Rightarrow>
          let (result, it1, it2) = spanLoop op (m_segments shape1) (m_segments shape2) (m_spans shape1) (m_spans shape2) [] [] emptyShape
          in if shouldAddRemaining1 op \<and> it1 \<noteq> [] then appendSpans result (m_segments shape1) it1
             else if shouldAddRemaining2 op \<and> it2 \<noteq> [] then appendSpans result (m_segments shape2) it2
             else result)"

section \<open>The shape comparisons\<close>

datatype CompareOperation = CompareContains | CompareIntersects

fun defaultResult :: "CompareOperation \<Rightarrow> bool" where
  "defaultResult CompareContains = True"
| "defaultResult CompareIntersects = False"

text \<open>The hooks: the result with which \<open>compareShapes\<close> returns, or \<open>None\<close> to go on.\<close>

fun aOutsideB :: "CompareOperation \<Rightarrow> bool option" where
  "aOutsideB CompareContains = None"
| "aOutsideB CompareIntersects = None"

fun bOutsideA :: "CompareOperation \<Rightarrow> bool option" where
  "bOutsideA CompareContains = Some False"
| "bOutsideA CompareIntersects = None"

fun aOverlapsB :: "CompareOperation \<Rightarrow> bool option" where
  "aOverlapsB CompareContains = None"
| "aOverlapsB CompareIntersects = Some True"

definition returning :: "bool option \<Rightarrow> bool \<Rightarrow> bool" where
  "returning hook rest = (case hook of Some result \<Rightarrow> result | None \<Rightarrow> rest)"

definition orReturning :: "bool option \<Rightarrow> bool option \<Rightarrow> bool option" where
  "orReturning hook rest = (case hook of Some result \<Rightarrow> Some result | None \<Rightarrow> rest)"

definition hookIf :: "bool \<Rightarrow> bool option \<Rightarrow> bool option" where
  "hookIf condition hook = (if condition then hook else None)"

text \<open>The segments of two overlapping spans; the segments of a span come in pairs.\<close>

fun compareSegments :: "CompareOperation \<Rightarrow> int list \<Rightarrow> int list \<Rightarrow> bool option" where
  "compareSegments op (aX # aMaxX # a) (bX # bMaxX # b) =
     (let segmentsOverlap = aX < bMaxX \<and> bX < aMaxX
      in orReturning (hookIf segmentsOverlap (aOverlapsB op))
          (orReturning (hookIf (aX < bX) (aOutsideB op))
            (orReturning (hookIf (bX < aX) (bOutsideA op))
              (if aMaxX < bMaxX then compareSegments op a (bX # bMaxX # b)
               else if bMaxX < aMaxX then compareSegments op (aX # aMaxX # a) b
               else compareSegments op a b))))"
| "compareSegments op a b = orReturning (hookIf (a \<noteq> []) (aOutsideB op)) (hookIf (b \<noteq> []) (bOutsideA op))"

fun compareSpans :: "CompareOperation \<Rightarrow> int list \<Rightarrow> int list \<Rightarrow> Span list \<Rightarrow> Span list \<Rightarrow> bool \<Rightarrow> bool \<Rightarrow> bool" where
  "compareSpans op aAll bAll (a # a' # aSpan) (b # b' # bSpan) aHadSegmentInPreviousSpan bHadSegmentInPreviousSpan =
     (let aY = spanY a; aMaxY = spanY a'; bY = spanY b; bMaxY = spanY b';
          aSegment = segmentsOf aAll (a # a' # aSpan); bSegment = segmentsOf bAll (b # b' # bSpan);
          aHasSegmentInSpan = aSegment \<noteq> []; bHasSegmentInSpan = bSegment \<noteq> [];
          spansOverlap = aY < bMaxY \<and> bY < aMaxY
      in returning (hookIf (aY < bY \<and> \<not> bHadSegmentInPreviousSpan \<and> aHasSegmentInSpan) (aOutsideB op))
          (returning (hookIf (bY < aY \<and> \<not> aHadSegmentInPreviousSpan \<and> bHasSegmentInSpan) (bOutsideA op))
            (returning (hookIf spansOverlap (compareSegments op aSegment bSegment))
              (if aMaxY < bMaxY then
                 compareSpans op aAll bAll (a' # aSpan) (b # b' # bSpan) aHasSegmentInSpan bHasSegmentInSpan
               else if bMaxY < aMaxY then
                 compareSpans op aAll bAll (a # a' # aSpan) (b' # bSpan) aHasSegmentInSpan bHasSegmentInSpan
               else compareSpans op aAll bAll (a' # aSpan) (b' # bSpan) aHasSegmentInSpan bHasSegmentInSpan))))"
| "compareSpans op aAll bAll aSpan bSpan aHadSegmentInPreviousSpan bHadSegmentInPreviousSpan =
     returning (hookIf (1 < length aSpan) (aOutsideB op))
       (returning (hookIf (1 < length bSpan) (bOutsideA op)) (defaultResult op))"

definition compareShapes :: "CompareOperation \<Rightarrow> Shape \<Rightarrow> Shape \<Rightarrow> bool" where
  "compareShapes op aShape bShape =
     compareSpans op (m_segments aShape) (m_segments bShape) (m_spans aShape) (m_spans bShape) False False"

fun segmentsValid :: "int list \<Rightarrow> bool" where
  "segmentsValid (x # maxX # segment) \<longleftrightarrow> 0 \<le> maxX - x \<and> segmentsValid segment"
| "segmentsValid _ \<longleftrightarrow> True"

fun spansValid :: "int list \<Rightarrow> Span list \<Rightarrow> bool" where
  "spansValid all (span # next # it) \<longleftrightarrow>
     0 \<le> spanY next - spanY span \<and> segmentsValid (segmentsOf all (span # next # it)) \<and> spansValid all (next # it)"
| "spansValid all _ \<longleftrightarrow> True"

definition shape_isValid :: "Shape \<Rightarrow> bool" where
  "shape_isValid s \<longleftrightarrow> spansValid (m_segments s) (m_spans s)"

text \<open>\<open>m_spans.size() * m_segments.size()\<close> as an \<open>unsigned\<close>.\<close>

definition shape_gridSize :: "Shape \<Rightarrow> 32 word" where
  "shape_gridSize s = of_nat (length (m_spans s) * length (m_segments s))"

section \<open>Regions\<close>

record Region =
  m_bounds :: IntRect
  m_shape :: Shape

definition emptyRegion :: Region where
  "emptyRegion = \<lparr>m_bounds = newRect, m_shape = emptyShape\<rparr>"

definition regionOf :: "IntRect \<Rightarrow> Region" where
  "regionOf rect = \<lparr>m_bounds = rect, m_shape = shapeOfRect rect\<rparr>"

definition region_isEmpty :: "Region \<Rightarrow> bool" where
  "region_isEmpty r \<longleftrightarrow> rect_isEmpty (m_bounds r)"

definition region_isRect :: "Region \<Rightarrow> bool" where
  "region_isRect r \<longleftrightarrow> shape_isRect (m_shape r)"

definition region_isValid :: "Region \<Rightarrow> bool" where
  "region_isValid r \<longleftrightarrow> shape_isValid (m_shape r)"

definition region_gridSize :: "Region \<Rightarrow> 32 word" where
  "region_gridSize r = shape_gridSize (m_shape r)"

fun segmentRects :: "int \<Rightarrow> int \<Rightarrow> int list \<Rightarrow> IntRect list" where
  "segmentRects y height (x # maxX # segment) = rectOf x y (maxX - x) height # segmentRects y height segment"
| "segmentRects y height _ = []"

fun spanRects :: "int list \<Rightarrow> Span list \<Rightarrow> IntRect list" where
  "spanRects all (span # next # it) =
     segmentRects (spanY span) (spanY next - spanY span) (segmentsOf all (span # next # it)) @ spanRects all (next # it)"
| "spanRects all _ = []"

definition region_rects :: "Region \<Rightarrow> IntRect list" where
  "region_rects r = spanRects (m_segments (m_shape r)) (m_spans (m_shape r))"

text \<open>The scan for a point in the segments of a span, and over the spans.\<close>

fun segmentScan :: "int list \<Rightarrow> int \<Rightarrow> bool" where
  "segmentScan (x # maxX # segment) px = (if px < x then False else if px < maxX then True else segmentScan segment px)"
| "segmentScan _ px = False"

fun spanScan :: "int list \<Rightarrow> Span list \<Rightarrow> int \<Rightarrow> int \<Rightarrow> bool" where
  "spanScan all (span # next # it) px py =
     (if py < spanY span then False
      else if spanY next \<le> py then spanScan all (next # it) px py
      else if segmentScan (segmentsOf all (span # next # it)) px then True
      else spanScan all (next # it) px py)"
| "spanScan all _ px py = False"

definition region_containsPoint :: "Region \<Rightarrow> int \<Rightarrow> int \<Rightarrow> bool" where
  "region_containsPoint r px py =
     (if \<not> rect_containsPoint (m_bounds r) px py then False
      else spanScan (m_segments (m_shape r)) (m_spans (m_shape r)) px py)"

definition region_contains :: "Region \<Rightarrow> Region \<Rightarrow> bool" where
  "region_contains r region =
     (if \<not> rect_contains (m_bounds r) (m_bounds region) then False
      else compareShapes CompareContains (m_shape r) (m_shape region))"

definition region_intersects :: "Region \<Rightarrow> Region \<Rightarrow> bool" where
  "region_intersects r region =
     (if \<not> rect_intersects (m_bounds r) (m_bounds region) then False
      else compareShapes CompareIntersects (m_shape r) (m_shape region))"

text \<open>
  The product of the \<open>int\<close> sides of a rectangle leaves the defined part of the language when it
  needs more than 32 bits; the sum is \<open>unsigned\<close> and wraps.
\<close>

fun areaLoop :: "IntRect list \<Rightarrow> 32 word \<Rightarrow> 32 word outcome" where
  "areaLoop [] totalArea = Done totalArea"
| "areaLoop (rect # rects) totalArea =
     (let area = m_width rect * m_height rect
      in if area < - (2 ^ 31) \<or> 2 ^ 31 \<le> area then Undef
         else areaLoop rects (totalArea + word_of_int area))"

definition region_totalArea :: "Region \<Rightarrow> 32 word outcome" where
  "region_totalArea r = areaLoop (region_rects r) 0"

definition region_updateBoundsFromShape :: "Region \<Rightarrow> Region" where
  "region_updateBoundsFromShape r = r\<lparr>m_bounds := shape_bounds (m_shape r)\<rparr>"

definition region_setShapeSegments :: "Region \<Rightarrow> int list \<Rightarrow> Region" where
  "region_setShapeSegments r segments = r\<lparr>m_shape := (m_shape r)\<lparr>m_segments := segments\<rparr>\<rparr>"

definition region_setShapeSpans :: "Region \<Rightarrow> Span list \<Rightarrow> Region" where
  "region_setShapeSpans r spans = r\<lparr>m_shape := (m_shape r)\<lparr>m_spans := spans\<rparr>\<rparr>"

definition region_intersect :: "Region \<Rightarrow> Region \<Rightarrow> Region" where
  "region_intersect r region =
     (if rect_isEmpty (m_bounds r) then r
      else if \<not> rect_intersects (m_bounds r) (m_bounds region) then r\<lparr>m_shape := emptyShape, m_bounds := newRect\<rparr>
      else
        let intersectedShape = shapeOperation IntersectOperation (m_shape r) (m_shape region)
        in r\<lparr>m_shape := intersectedShape, m_bounds := shape_bounds intersectedShape\<rparr>)"

definition region_unite :: "Region \<Rightarrow> Region \<Rightarrow> Region" where
  "region_unite r region =
     (if region_isEmpty region then r
      else if region_isRect r \<and> rect_contains (m_bounds r) (m_bounds region) then r
      else if region_isRect region \<and> rect_contains (m_bounds region) (m_bounds r) then
        r\<lparr>m_shape := m_shape region, m_bounds := m_bounds region\<rparr>
      else if \<not> region_isRect r \<and> region_contains r region then r
      else
        let unitedShape = shapeOperation UnionOperation (m_shape r) (m_shape region)
        in r\<lparr>m_shape := unitedShape, m_bounds := rect_unite (m_bounds r) (m_bounds region)\<rparr>)"

definition region_subtract :: "Region \<Rightarrow> Region \<Rightarrow> Region" where
  "region_subtract r region =
     (if rect_isEmpty (m_bounds r) then r
      else if region_isEmpty region then r
      else if \<not> rect_intersects (m_bounds r) (m_bounds region) then r
      else
        let subtractedShape = shapeOperation SubtractOperation (m_shape r) (m_shape region)
        in r\<lparr>m_shape := subtractedShape, m_bounds := shape_bounds subtractedShape\<rparr>)"

definition region_translate :: "Region \<Rightarrow> int \<Rightarrow> int \<Rightarrow> Region" where
  "region_translate r dx dy =
     r\<lparr>m_bounds := rect_move (m_bounds r) dx dy, m_shape := shape_translate (m_shape r) dx dy\<rparr>"

definition span_eq :: "Span \<Rightarrow> Span \<Rightarrow> bool" where
  "span_eq a b \<longleftrightarrow> spanY a = spanY b \<and> segmentIndex a = segmentIndex b"

definition shape_eq :: "Shape \<Rightarrow> Shape \<Rightarrow> bool" where
  "shape_eq a b \<longleftrightarrow> list_all2 span_eq (m_spans a) (m_spans b) \<and> m_segments a = m_segments b"

definition rect_eq :: "IntRect \<Rightarrow> IntRect \<Rightarrow> bool" where
  "rect_eq a b \<longleftrightarrow> m_x a = m_x b \<and> m_y a = m_y b \<and> m_width a = m_width b \<and> m_height a = m_height b"

definition region_eq :: "Region \<Rightarrow> Region \<Rightarrow> bool" where
  "region_eq a b \<longleftrightarrow> rect_eq (m_bounds a) (m_bounds b) \<and> shape_eq (m_shape a) (m_shape b)"

end
