(* ===== verification/Region_Rows.thy ===== *)
theory Region_Rows
  imports Region_Shape
begin

text \<open>
  What a shape means. Its rows are its spans, each with the ordinate where it starts and its
  segments; a row holds from there to the next one. A list of segments is a set of abscissas by
  parity: \<open>x\<close> is inside when an odd number of boundaries are at most \<open>x\<close>. The shapes that the code
  builds are the encodings of canonical lists of rows, and a set of points has at most one.
\<close>

section \<open>Segments as sets of abscissas\<close>

definition inside :: "int list \<Rightarrow> int \<Rightarrow> bool" where
  "inside segments x \<longleftrightarrow> odd (length (filter (\<lambda>b. b \<le> x) segments))"

lemma inside_simps [simp]:
  "\<not> inside [] x"
  "inside (b # s) x \<longleftrightarrow> (if b \<le> x then \<not> inside s x else inside s x)"
  by (auto simp: inside_def)

lemma inside_append: "inside (s @ t) x \<longleftrightarrow> inside s x \<noteq> inside t x"
  by (auto simp: inside_def)

lemma inside_below: "(\<And>b. b \<in> set s \<Longrightarrow> x < b) \<Longrightarrow> \<not> inside s x"
  using filter_False [of s "\<lambda>b. b \<le> x"] by (auto simp: inside_def not_le)

lemma inside_above: "(\<And>b. b \<in> set s \<Longrightarrow> b \<le> x) \<Longrightarrow> inside s x \<longleftrightarrow> odd (length s)"
  by (induction s) auto

lemma inside_shift: "inside (map (\<lambda>b. b + d) s) x \<longleftrightarrow> inside s (x - d)"
  by (induction s) (auto simp: algebra_simps)

definition segs_ok :: "int list \<Rightarrow> bool" where
  "segs_ok segments \<longleftrightarrow> sorted_wrt (<) segments \<and> even (length segments)"

lemma segs_ok_Nil [simp]: "segs_ok []"
  by (simp add: segs_ok_def)

lemma segs_ok_pair: "segs_ok (a # b # s) \<longleftrightarrow> a < b \<and> (\<forall>x\<in>set s. b < x) \<and> segs_ok s"
  by (auto simp: segs_ok_def)

lemma segs_ok_induct [consumes 1, case_names Nil pair]:
  assumes "segs_ok s"
    and "P []"
    and "\<And>a b s. a < b \<Longrightarrow> \<forall>x\<in>set s. b < x \<Longrightarrow> segs_ok s \<Longrightarrow> P s \<Longrightarrow> P (a # b # s)"
  shows "P s"
  using assms(1)
proof (induction s rule: induct_list012)
  case (2 x) then show ?case by (simp add: segs_ok_def)
next
  case (3 x y zs) then show ?case using assms(3) by (auto simp: segs_ok_pair)
qed (rule assms(2))

lemma boundary_iff:
  assumes "sorted_wrt (<) s"
  shows "b \<in> set s \<longleftrightarrow> inside s b \<noteq> inside s (b - 1)"
  using assms
proof (induction s)
  case (Cons a s)
  consider "b < a" | "b = a" | "a < b" by linarith
  then show ?case
  proof cases
    case 2
    with Cons.prems have "\<forall>x\<in>set s. b < x" by auto
    then have "\<not> inside s b" "\<not> inside s (b - 1)" by (force intro!: inside_below)+
    with 2 show ?thesis by simp
  qed (use Cons in auto)
qed simp

lemma inside_inject:
  assumes "sorted_wrt (<) s" "sorted_wrt (<) t" and "\<And>x. inside s x \<longleftrightarrow> inside t x"
  shows "s = t"
proof -
  have "set s = set t" using boundary_iff [OF assms(1)] boundary_iff [OF assms(2)] assms(3) by auto
  then show ?thesis using assms(1,2) by (simp add: strict_sorted_equal)
qed

lemma inside_hd: "segs_ok s \<Longrightarrow> s \<noteq> [] \<Longrightarrow> inside s (hd s)"
  by (induction rule: segs_ok_induct) (auto intro!: inside_below)

lemma inside_last: "segs_ok s \<Longrightarrow> s \<noteq> [] \<Longrightarrow> inside s (last s - 1)"
proof (induction rule: segs_ok_induct)
  case (pair a b s)
  then have "s \<noteq> [] \<Longrightarrow> b < last s" by simp
  with pair show ?case by auto
qed simp

lemma inside_bounds: "segs_ok s \<Longrightarrow> inside s x \<Longrightarrow> s \<noteq> [] \<and> hd s \<le> x \<and> x < last s"
proof -
  assume ok: "segs_ok s" and x: "inside s x"
  then have ne: "s \<noteq> []" by auto
  have srt: "sorted_wrt (<) s" and ev: "even (length s)" using ok by (auto simp: segs_ok_def)
  have "hd s \<le> b" if "b \<in> set s" for b using srt that by (cases s) auto
  moreover have "b \<le> last s" if "b \<in> set s" for b
    using srt that by (induction s) (auto intro: less_imp_le)
  ultimately show ?thesis
    using ne x ev inside_below [of s x] inside_above [of s x] by force
qed

section \<open>The combination of two lists of segments\<close>

fun opBool :: "ShapeOperation \<Rightarrow> bool \<Rightarrow> bool \<Rightarrow> bool" where
  "opBool UnionOperation p q \<longleftrightarrow> p \<or> q"
| "opBool IntersectOperation p q \<longleftrightarrow> p \<and> q"
| "opBool SubtractOperation p q \<longleftrightarrow> p \<and> \<not> q"

definition flagOf :: "bool \<Rightarrow> bool \<Rightarrow> nat" where
  "flagOf p q = of_bool p + 2 * of_bool q"

lemma flag_xor_values:
  "Suc (Suc (Suc 0)) XOR Suc 0 = Suc (Suc 0) \<and> Suc (Suc 0) XOR Suc 0 = Suc (Suc (Suc 0)) \<and>
   Suc (Suc (Suc 0)) XOR 2 = Suc 0 \<and> Suc (Suc 0) XOR 2 = 0 \<and> Suc 0 XOR 2 = Suc (Suc (Suc 0))"
  by code_simp

lemma flag_xor:
  "flagOf p q XOR 1 = flagOf (\<not> p) q"
  "flagOf p q XOR 2 = flagOf p (\<not> q)"
  by (cases p; cases q; simp add: flagOf_def flag_xor_values)
    (cases p; cases q; simp add: flagOf_def flag_xor_values)

lemma flag_emits:
  assumes "(p', q') \<noteq> (p, q)"
  shows "flagOf p' q' = opCode op \<or> flagOf p q = opCode op \<longleftrightarrow> opBool op p' q' \<noteq> opBool op p q"
  using assms by (cases op; cases p; cases q; cases p'; cases q'; simp add: flagOf_def)

text \<open>
  One round of the code's inner loop toggles the sides whose boundary is reached; a boundary is
  emitted when the truth value of the operation toggles.
\<close>

function sweep :: "ShapeOperation \<Rightarrow> int list \<Rightarrow> int list \<Rightarrow> bool \<Rightarrow> bool \<Rightarrow> int list" where
  "sweep op (a # s) (b # t) p q =
     (let p' = (p \<noteq> (a \<le> b)); q' = (q \<noteq> (b \<le> a))
      in (if opBool op p' q' \<noteq> opBool op p q then [min a b] else []) @
         sweep op (if a \<le> b then s else a # s) (if b \<le> a then t else b # t) p' q')"
| "sweep op [] t p q = (if shouldAddRemaining2 op then t else [])"
| "sweep op (a # s) [] p q = (if shouldAddRemaining1 op then a # s else [])"
  by pat_completeness auto
termination by (relation "measure (\<lambda>(_, s, t, _). length s + length t)") auto

lemma segmentLoop_sweep:
  "(case segmentLoop op s t (flagOf p q) (flagOf p q) segments of
      (segments', s', t') \<Rightarrow>
        if shouldAddRemaining1 op \<and> s' \<noteq> [] then segments' @ s'
        else if shouldAddRemaining2 op \<and> t' \<noteq> [] then segments' @ t'
        else segments') = segments @ sweep op s t p q"
proof (induction op s t p q arbitrary: segments rule: sweep.induct)
  case (1 op a s b t p q)
  note IH = 1 [OF refl refl]
  consider "a < b" | "a = b" | "b < a" by linarith
  then show ?case
  proof cases
    case 1
    show ?thesis using IH flag_emits [of "\<not> p" q p q op] 1
      by (simp add: Let_def flag_xor [unfolded One_nat_def])
  next
    case 2
    show ?thesis using IH flag_emits [of "\<not> p" "\<not> q" p q op] 2
      by (simp add: Let_def flag_xor [unfolded One_nat_def])
  next
    case 3
    show ?thesis using IH flag_emits [of p "\<not> q" p q op] 3
      by (simp add: Let_def flag_xor [unfolded One_nat_def])
  qed
next
  case (2 op t p q) then show ?case by (cases op) auto
next
  case (3 op a s p q) then show ?case by (cases op) auto
qed

lemma combineSegments_sweep: "combineSegments op s t = sweep op s t False False"
  using segmentLoop_sweep [of op s t False False "[]"] by (simp add: combineSegments_def flagOf_def)

lemma sweep_subset: "set (sweep op s t p q) \<subseteq> set s \<union> set t"
proof (induction op s t p q rule: sweep.induct)
  case (1 op a s b t p q)
  let ?s = "if a \<le> b then s else a # s" and ?t = "if b \<le> a then t else b # t"
  have "set (sweep op ?s ?t (p \<noteq> (a \<le> b)) (q \<noteq> (b \<le> a))) \<subseteq> set ?s \<union> set ?t"
    using 1 [OF refl refl] .
  moreover have "set ?s \<union> set ?t \<subseteq> set (a # s) \<union> set (b # t)" by auto
  ultimately show ?case by (auto simp: Let_def min_def)
qed auto

lemma sweep_sorted:
  assumes "sorted_wrt (<) s" "sorted_wrt (<) t"
  shows "sorted_wrt (<) (sweep op s t p q)"
  using assms
proof (induction op s t p q rule: sweep.induct)
  case (1 op a s b t p q)
  let ?s = "if a \<le> b then s else a # s" and ?t = "if b \<le> a then t else b # t"
  let ?p = "p \<noteq> (a \<le> b)" and ?q = "q \<noteq> (b \<le> a)"
  have "sorted_wrt (<) (sweep op ?s ?t ?p ?q)" using 1 by auto
  moreover have "\<forall>x\<in>set ?s \<union> set ?t. min a b < x" using 1 by (auto simp: min_def)
  then have "\<forall>x\<in>set (sweep op ?s ?t ?p ?q). min a b < x" using sweep_subset by blast
  ultimately show ?case by (simp add: Let_def)
qed auto

lemma sweep_inside:
  assumes "sorted_wrt (<) s" "sorted_wrt (<) t" "p = odd (length s)" "q = odd (length t)"
  shows "opBool op (p \<noteq> inside s x) (q \<noteq> inside t x) = (opBool op p q \<noteq> inside (sweep op s t p q) x)"
  using assms
proof (induction op s t p q rule: sweep.induct)
  case (1 op a s b t p q)
  let ?s = "if a \<le> b then s else a # s" and ?t = "if b \<le> a then t else b # t"
  let ?p = "p \<noteq> (a \<le> b)" and ?q = "q \<noteq> (b \<le> a)"
  have IH: "opBool op (?p \<noteq> inside ?s x) (?q \<noteq> inside ?t x) = (opBool op ?p ?q \<noteq> inside (sweep op ?s ?t ?p ?q) x)"
    using 1 by auto
  show ?case
  proof (cases "min a b \<le> x")
    case True
    then have "(?p \<noteq> inside ?s x) = (p \<noteq> inside (a # s) x)" "(?q \<noteq> inside ?t x) = (q \<noteq> inside (b # t) x)"
      by (auto simp: min_def split: if_splits)
    with IH True show ?thesis by (auto simp: Let_def inside_append)
  next
    case False
    then have "\<forall>y\<in>set (a # s) \<union> set (b # t). x < y" using 1(2,3) by auto
    moreover from this have "\<forall>y\<in>set (sweep op (a # s) (b # t) p q). x < y" using sweep_subset by blast
    ultimately have "\<not> inside (a # s) x" "\<not> inside (b # t) x" "\<not> inside (sweep op (a # s) (b # t) p q) x"
      by (auto intro!: inside_below simp del: inside_simps sweep.simps)
    then show ?thesis by simp
  qed
next
  case (2 op t p q) then show ?case by (cases op) auto
next
  case (3 op a s p q) then show ?case by (cases op) auto
qed

lemma combine_subset: "set (combineSegments op s t) \<subseteq> set s \<union> set t"
  by (simp add: combineSegments_sweep sweep_subset)

lemma combine_inside:
  assumes "segs_ok s" "segs_ok t"
  shows "inside (combineSegments op s t) x = opBool op (inside s x) (inside t x)"
  using sweep_inside [of s t False False op x] assms
  by (cases op) (simp_all add: combineSegments_sweep segs_ok_def)

lemma combine_ok:
  assumes "segs_ok s" "segs_ok t"
  shows "segs_ok (combineSegments op s t)"
proof -
  let ?c = "combineSegments op s t"
  define x where "x = Max (insert 0 (set ?c \<union> set s \<union> set t))"
  have x: "\<forall>b\<in>set ?c \<union> set s \<union> set t. b \<le> x" by (auto simp: x_def)
  have "\<not> inside s x" "\<not> inside t x" using x assms inside_above [of _ x] by (auto simp: segs_ok_def)
  then have "\<not> inside ?c x" using combine_inside [OF assms] by (cases op) simp_all
  then have "even (length ?c)" using inside_above [of ?c x] x by auto
  then show ?thesis using assms sweep_sorted by (simp add: segs_ok_def combineSegments_sweep)
qed

lemma combine_Nil [simp]: "combineSegments op [] [] = []"
  by (cases op) (simp_all add: combineSegments_sweep)

lemma combine_right_Nil: "combineSegments op s [] = (if shouldAddRemaining1 op then s else [])"
  by (cases s; cases op) (simp_all add: combineSegments_sweep)

lemma combine_left_Nil: "combineSegments op [] t = (if shouldAddRemaining2 op then t else [])"
  by (simp add: combineSegments_sweep)

end
