(* ===== verification/Region_Canonical.thy ===== *)
theory Region_Canonical
  imports Region_Rows
begin

text \<open>
  The rows of a shape, the canonical form that every operation of the code keeps, and the
  refinement of \<open>shapeOperation\<close>: on canonical shapes it is the boolean operation on the sets of
  points, and its result is canonical again.
\<close>

section \<open>Rows\<close>

type_synonym row = "int \<times> int list"

fun rowsFrom :: "int list \<Rightarrow> Span list \<Rightarrow> row list" where
  "rowsFrom all [] = []"
| "rowsFrom all (span # it) = (spanY span, segmentsOf all (span # it)) # rowsFrom all it"

definition shape_rows :: "Shape \<Rightarrow> row list" where
  "shape_rows s = rowsFrom (m_segments s) (m_spans s)"

text \<open>The segments in force at ordinate \<open>y\<close>, when those of \<open>r\<close> are in force above the rows.\<close>

fun rowAt :: "int list \<Rightarrow> row list \<Rightarrow> int \<Rightarrow> int list" where
  "rowAt r [] y = r"
| "rowAt r ((y', xs) # rows) y = (if y < y' then r else rowAt xs rows y)"

definition shape_points :: "Shape \<Rightarrow> (int \<times> int) set" where
  "shape_points s = {(x, y). inside (rowAt [] (shape_rows s) y) x}"

fun spansFrom :: "nat \<Rightarrow> row list \<Rightarrow> Span list" where
  "spansFrom n [] = []"
| "spansFrom n ((y, xs) # rows) = \<lparr>spanY = y, segmentIndex = n\<rparr> # spansFrom (n + length xs) rows"

definition encode :: "row list \<Rightarrow> Shape" where
  "encode rows = \<lparr>m_segments = concat (map snd rows), m_spans = spansFrom 0 rows\<rparr>"

lemma encode_Nil [simp]: "encode [] = emptyShape"
  by (simp add: encode_def emptyShape_def)

lemma spansFrom_Nil_iff [simp]: "spansFrom n rows = [] \<longleftrightarrow> rows = []"
  by (cases rows) auto

lemma length_spansFrom [simp]: "length (spansFrom n rows) = length rows"
  by (induction n rows rule: spansFrom.induct) auto

lemma rowsFrom_Nil_iff [simp]: "rowsFrom all it = [] \<longleftrightarrow> it = []"
  by (cases it) auto

lemma length_rowsFrom [simp]: "length (rowsFrom all it) = length it"
  by (induction it) auto

lemma rowsFrom_spansFrom: "rowsFrom (pre @ concat (map snd rows)) (spansFrom (length pre) rows) = rows"
proof (induction rows arbitrary: pre)
  case (Cons row rows)
  obtain y xs where row: "row = (y, xs)" by force
  have "segmentsOf (pre @ concat (map snd (row # rows))) (spansFrom (length pre) (row # rows)) = xs"
    by (cases rows) (auto simp: row segmentsOf_def Let_def)
  moreover have "rowsFrom (pre @ concat (map snd (row # rows))) (spansFrom (length pre + length xs) rows) = rows"
    using Cons.IH [of "pre @ xs"] by (simp add: row)
  ultimately show ?case by (simp add: row)
qed simp

lemma shape_rows_encode [simp]: "shape_rows (encode rows) = rows"
  using rowsFrom_spansFrom [of "[]" rows] by (simp add: shape_rows_def encode_def)

lemma spansFrom_append: "spansFrom n (R @ R') = spansFrom n R @ spansFrom (n + length (concat (map snd R))) R'"
  by (induction n R rule: spansFrom.induct) (auto simp: add.assoc)

lemma last_spansFrom:
  "rows \<noteq> [] \<Longrightarrow> last (spansFrom n rows) =
     \<lparr>spanY = fst (last rows), segmentIndex = n + length (concat (map snd (butlast rows)))\<rparr>"
  by (induction n rows rule: spansFrom.induct) auto

lemma hd_spansFrom: "rows \<noteq> [] \<Longrightarrow> hd (spansFrom n rows) = \<lparr>spanY = fst (hd rows), segmentIndex = n\<rparr>"
  by (cases rows) auto

section \<open>Appending a row\<close>

text \<open>The segments of the last row, which \<open>appendSpan\<close> compares with; none when there is no row.\<close>

definition current :: "row list \<Rightarrow> int list" where
  "current R = (if R = [] then [] else snd (last R))"

definition appendRow :: "row list \<Rightarrow> int \<Rightarrow> int list \<Rightarrow> row list" where
  "appendRow R y xs = (if current R = xs then R else R @ [(y, xs)])"

lemma current_simps [simp]: "current [] = []" "current (R @ [row]) = snd row"
  by (simp_all add: current_def)

lemma canCoalesce_encode: "canCoalesce (encode R) xs \<longleftrightarrow> R \<noteq> [] \<and> current R = xs"
proof (cases "R = []")
  case False
  then obtain R' row where R: "R = R' @ [row]" using rev_exhaust by blast
  show ?thesis by (simp add: R canCoalesce_def encode_def last_spansFrom spansFrom_append)
qed (simp add: canCoalesce_def emptyShape_def)

lemma appendSpan_encode:
  "appendSpan (encode R) y xs = (if R \<noteq> [] \<and> current R = xs then encode R else encode (R @ [(y, xs)]))"
  by (auto simp: appendSpan_def canCoalesce_encode)
    (simp_all add: encode_def appendEmptySpan_def emptyShape_def spansFrom_append Let_def)

lemma isEmpty_encode [simp]: "shape_isEmpty (encode R) \<longleftrightarrow> R = []"
  by (simp add: shape_isEmpty_def encode_def)

lemma guarded_append:
  "(if xs \<noteq> [] \<or> \<not> shape_isEmpty (encode R) then appendSpan (encode R) y xs else encode R) = encode (appendRow R y xs)"
  by (auto simp: appendSpan_encode appendRow_def)

section \<open>Canonical rows\<close>

text \<open>
  \<open>chain r rows\<close>: each row differs from the one before it, the first from \<open>r\<close>. Canonical rows
  start at increasing ordinates, chain from the empty row, end with an empty one, and their
  segments are strictly increasing pairs.
\<close>

fun chain :: "int list \<Rightarrow> row list \<Rightarrow> bool" where
  "chain r [] \<longleftrightarrow> True"
| "chain r ((y, xs) # rows) \<longleftrightarrow> xs \<noteq> r \<and> chain xs rows"

definition rows_ok :: "row list \<Rightarrow> bool" where
  "rows_ok rows \<longleftrightarrow> sorted_wrt (<) (map fst rows) \<and> (\<forall>row\<in>set rows. segs_ok (snd row))"

definition canonical :: "row list \<Rightarrow> bool" where
  "canonical rows \<longleftrightarrow> rows_ok rows \<and> chain [] rows \<and> current rows = []"

lemma rows_ok_simps [simp]:
  "rows_ok []"
  "rows_ok ((y, xs) # rows) \<longleftrightarrow> segs_ok xs \<and> (\<forall>row\<in>set rows. y < fst row) \<and> rows_ok rows"
  by (auto simp: rows_ok_def)

lemma rows_ok_append:
  "rows_ok (R @ R') \<longleftrightarrow> rows_ok R \<and> rows_ok R' \<and> (\<forall>row\<in>set R. \<forall>row'\<in>set R'. fst row < fst row')"
  by (auto simp: rows_ok_def sorted_wrt_append)

lemma current_Cons: "current ((y, xs) # rows) = (if rows = [] then xs else current rows)"
  by (simp add: current_def)

text \<open>The segments in force after the last row of \<open>R\<close>, when those of \<open>r\<close> are before it.\<close>

definition currentFrom :: "int list \<Rightarrow> row list \<Rightarrow> int list" where
  "currentFrom r R = (if R = [] then r else snd (last R))"

lemma currentFrom_simps [simp]:
  "currentFrom r [] = r"
  "currentFrom r ((y, xs) # R) = currentFrom xs R"
  "currentFrom [] R = current R"
  by (auto simp: currentFrom_def current_def)

lemma chain_append: "chain r (R @ R') \<longleftrightarrow> chain r R \<and> chain (currentFrom r R) R'"
  by (induction r R rule: chain.induct) auto

lemma rowAt_append:
  assumes "\<forall>row\<in>set R. \<forall>row'\<in>set R'. fst row < fst row'"
  shows "rowAt r (R @ R') y = (if \<forall>row\<in>set R'. y < fst row then rowAt r R y else rowAt (currentFrom r R) R' y)"
  using assms
proof (induction r R y rule: rowAt.induct)
  case (1 r y)
  show ?case by (cases R') auto
next
  case (2 r y' xs rows y)
  show ?case
  proof (cases "y < y'")
    case True
    moreover from this have "\<forall>row\<in>set R'. y < fst row" using 2(2) by auto
    ultimately show ?thesis by simp
  qed (use 2 in auto)
qed

lemma rowAt_below: "(\<forall>row\<in>set R. y < fst row) \<Longrightarrow> rowAt r R y = r"
  by (cases R) auto

lemma rowAt_above: "(\<forall>row\<in>set R. fst row \<le> y) \<Longrightarrow> rowAt r R y = currentFrom r R"
  by (induction r R y rule: rowAt.induct) auto

lemma rowAt_ok: "rows_ok R \<Longrightarrow> segs_ok r \<Longrightarrow> segs_ok (rowAt r R y)"
  by (induction r R y rule: rowAt.induct) auto

section \<open>The loop over the rows\<close>

fun appendAll :: "row list \<Rightarrow> row list \<Rightarrow> row list" where
  "appendAll R [] = R"
| "appendAll R ((y, xs) # rows) = appendAll (if R \<noteq> [] \<and> current R = xs then R else R @ [(y, xs)]) rows"

lemma appendSpans_encode: "appendSpans (encode R) all it = encode (appendAll R (rowsFrom all it))"
  by (induction "encode R" all it arbitrary: R rule: appendSpans.induct) (auto simp: appendSpan_encode)

lemma appendAll_chain: "chain (current R) rows \<Longrightarrow> appendAll R rows = R @ rows"
  by (induction R rows rule: appendAll.induct) auto

function rowLoop :: "ShapeOperation \<Rightarrow> row list \<Rightarrow> row list \<Rightarrow> int list \<Rightarrow> int list \<Rightarrow> row list \<Rightarrow> row list" where
  "rowLoop op ((y1, xs1) # rs1) ((y2, xs2) # rs2) s1 s2 R =
     (let s1' = (if y1 \<le> y2 then xs1 else s1); s2' = (if y2 \<le> y1 then xs2 else s2)
      in rowLoop op (if y1 \<le> y2 then rs1 else (y1, xs1) # rs1) (if y2 \<le> y1 then rs2 else (y2, xs2) # rs2) s1' s2'
           (appendRow R (min y1 y2) (combineSegments op s1' s2')))"
| "rowLoop op [] rs2 s1 s2 R = (if shouldAddRemaining2 op then appendAll R rs2 else R)"
| "rowLoop op (row # rs1) [] s1 s2 R = (if shouldAddRemaining1 op then appendAll R (row # rs1) else R)"
  by pat_completeness auto
termination by (relation "measure (\<lambda>(_, rs1, rs2, _). length rs1 + length rs2)") auto

definition addRemaining :: "ShapeOperation \<Rightarrow> int list \<Rightarrow> int list \<Rightarrow> Shape \<times> Span list \<times> Span list \<Rightarrow> Shape" where
  "addRemaining op all1 all2 =
     (\<lambda>(result, it1, it2).
        if shouldAddRemaining1 op \<and> it1 \<noteq> [] then appendSpans result all1 it1
        else if shouldAddRemaining2 op \<and> it2 \<noteq> [] then appendSpans result all2 it2
        else result)"

lemma addRemaining_simps:
  "addRemaining op all1 all2 (encode R, [], it2) =
     encode (if shouldAddRemaining2 op then appendAll R (rowsFrom all2 it2) else R)"
  "addRemaining op all1 all2 (encode R, span # it1, []) =
     encode (if shouldAddRemaining1 op then appendAll R (rowsFrom all1 (span # it1)) else R)"
  unfolding addRemaining_def by (auto simp: appendSpans_encode simp del: appendSpans.simps)

lemma spanLoop_rows:
  "addRemaining op all1 all2 (spanLoop op all1 all2 it1 it2 s1 s2 (encode R)) =
     encode (rowLoop op (rowsFrom all1 it1) (rowsFrom all2 it2) s1 s2 R)"
proof (induction op all1 all2 it1 it2 s1 s2 "encode R" arbitrary: R rule: spanLoop.induct)
  case (1 op all1 all2 span1 it1 span2 it2 s1 s2)
  let ?t = "spanY span1 - spanY span2"
  let ?s1 = "if ?t \<le> 0 then segmentsOf all1 (span1 # it1) else s1"
    and ?s2 = "if 0 \<le> ?t then segmentsOf all2 (span2 # it2) else s2"
    and ?it1 = "if ?t \<le> 0 then it1 else span1 # it1" and ?it2 = "if 0 \<le> ?t then it2 else span2 # it2"
    and ?y = "if 0 \<le> ?t then spanY span2 else spanY span1"
  let ?R = "appendRow R ?y (combineSegments op ?s1 ?s2)"
  have step: "spanLoop op all1 all2 (span1 # it1) (span2 # it2) s1 s2 (encode R) =
      spanLoop op all1 all2 ?it1 ?it2 ?s1 ?s2 (encode ?R)"
    unfolding spanLoop.simps Let_def guarded_append ..
  have IH: "addRemaining op all1 all2 (spanLoop op all1 all2 ?it1 ?it2 ?s1 ?s2 (encode ?R)) =
      encode (rowLoop op (rowsFrom all1 ?it1) (rowsFrom all2 ?it2) ?s1 ?s2 ?R)"
    by (rule 1 [OF refl refl refl refl refl guarded_append [symmetric]])
  have "?y = min (spanY span1) (spanY span2)" by auto
  then have "rowLoop op (rowsFrom all1 (span1 # it1)) (rowsFrom all2 (span2 # it2)) s1 s2 R =
      rowLoop op (rowsFrom all1 ?it1) (rowsFrom all2 ?it2) ?s1 ?s2 ?R"
    by (simp add: Let_def)
  with step IH show ?case by simp
qed (simp_all add: addRemaining_simps)

definition rowOperation :: "ShapeOperation \<Rightarrow> row list \<Rightarrow> row list \<Rightarrow> row list" where
  "rowOperation op R1 R2 = rowLoop op R1 R2 [] [] []"

text \<open>What holds between two rounds of the loop.\<close>

definition loop_inv :: "ShapeOperation \<Rightarrow> row list \<Rightarrow> row list \<Rightarrow> int list \<Rightarrow> int list \<Rightarrow> row list \<Rightarrow> bool" where
  "loop_inv op rs1 rs2 s1 s2 R \<longleftrightarrow>
     rows_ok rs1 \<and> rows_ok rs2 \<and> segs_ok s1 \<and> segs_ok s2 \<and> chain s1 rs1 \<and> chain s2 rs2 \<and>
     currentFrom s1 rs1 = [] \<and> currentFrom s2 rs2 = [] \<and> rows_ok R \<and> chain [] R \<and>
     current R = combineSegments op s1 s2 \<and>
     (\<forall>row\<in>set R. \<forall>row'\<in>set rs1 \<union> set rs2. fst row < fst row')"

lemma appendRow_current [simp]: "current (appendRow R y xs) = xs"
  by (simp add: appendRow_def)

lemma appendRow_ok:
  assumes "rows_ok R" "chain [] R" "segs_ok xs" "\<forall>row\<in>set R. fst row < y"
  shows "rows_ok (appendRow R y xs) \<and> chain [] (appendRow R y xs)"
  using assms by (auto simp: appendRow_def rows_ok_append chain_append)

lemma appendRow_at:
  assumes "\<forall>row\<in>set R. fst row < y"
  shows "rowAt [] (appendRow R y xs) y' = (if y' < y then rowAt [] R y' else xs)"
proof (cases "current R = xs")
  case True
  have "rowAt [] R y' = current R" if "y \<le> y'"
    using rowAt_above [of R y' "[]"] assms that by force
  with True show ?thesis by (simp add: appendRow_def)
next
  case False
  with assms show ?thesis by (simp add: appendRow_def rowAt_append)
qed

lemma set_appendRow: "set (appendRow R y xs) \<subseteq> insert (y, xs) (set R)"
  by (auto simp: appendRow_def)

lemma appendRow_before:
  "\<forall>row\<in>set R. fst row < y \<Longrightarrow> \<forall>row'\<in>U. y < fst row' \<Longrightarrow>
     \<forall>row\<in>set (appendRow R y xs). \<forall>row'\<in>U. fst row < fst row'"
  using set_appendRow [of R y xs] by (metis fst_conv insertE less_trans subsetD)

lemma if_either: "(P \<Longrightarrow> a = c) \<Longrightarrow> b = c \<Longrightarrow> (if P then a else b) = c"
  by simp

lemma loop_inv_step:
  assumes "loop_inv op ((y1, xs1) # rs1) ((y2, xs2) # rs2) s1 s2 R"
  shows "loop_inv op (if y1 \<le> y2 then rs1 else (y1, xs1) # rs1) (if y2 \<le> y1 then rs2 else (y2, xs2) # rs2)
     (if y1 \<le> y2 then xs1 else s1) (if y2 \<le> y1 then xs2 else s2)
     (appendRow R (min y1 y2) (combineSegments op (if y1 \<le> y2 then xs1 else s1) (if y2 \<le> y1 then xs2 else s2)))"
proof -
  let ?s1 = "if y1 \<le> y2 then xs1 else s1" and ?s2 = "if y2 \<le> y1 then xs2 else s2"
    and ?r1 = "if y1 \<le> y2 then rs1 else (y1, xs1) # rs1" and ?r2 = "if y2 \<le> y1 then rs2 else (y2, xs2) # rs2"
  let ?c = "combineSegments op ?s1 ?s2" and ?y = "min y1 y2"
  have inv: "rows_ok ((y1, xs1) # rs1)" "rows_ok ((y2, xs2) # rs2)" "segs_ok s1" "segs_ok s2"
    "chain s1 ((y1, xs1) # rs1)" "chain s2 ((y2, xs2) # rs2)" "currentFrom s1 ((y1, xs1) # rs1) = []"
    "currentFrom s2 ((y2, xs2) # rs2) = []" "rows_ok R" "chain [] R"
    and before: "\<forall>row\<in>set R. fst row < y1 \<and> fst row < y2"
    using assms by (auto simp: loop_inv_def)
  have sides: "segs_ok ?s1" "segs_ok ?s2" "rows_ok ?r1" "rows_ok ?r2" "chain ?s1 ?r1" "chain ?s2 ?r2"
    "currentFrom ?s1 ?r1 = []" "currentFrom ?s2 ?r2 = []"
    using inv by simp_all
  have "rows_ok (appendRow R ?y ?c) \<and> chain [] (appendRow R ?y ?c)"
    using appendRow_ok [OF inv(9,10) combine_ok [OF sides(1,2), of op], of ?y] before by auto
  moreover have "\<forall>row'\<in>set ?r1 \<union> set ?r2. ?y < fst row'"
    using inv(1,2) by (auto split: if_splits)
  then have "\<forall>row\<in>set (appendRow R ?y ?c). \<forall>row'\<in>set ?r1 \<union> set ?r2. fst row < fst row'"
    using before by (intro appendRow_before) auto
  ultimately show ?thesis unfolding loop_inv_def using sides by simp
qed

lemma current_append: "current (R @ R') = currentFrom (current R) R'"
  by (auto simp: current_def currentFrom_def)

text \<open>One shape is exhausted: what remains of the other is appended, or dropped.\<close>

lemma remaining_ok:
  assumes "rows_ok R" "chain [] R" "rows_ok rs" "chain s rs" "currentFrom s rs = []"
    and "\<forall>row\<in>set R. \<forall>row'\<in>set rs. fst row < fst row'"
    and "current R = (if keep then s else [])"
  shows "canonical (if keep then appendAll R rs else R) \<and>
     rowAt [] (if keep then appendAll R rs else R) y =
       (if \<forall>row\<in>set rs. y < fst row then rowAt [] R y else if keep then rowAt s rs y else [])"
proof (cases keep)
  case True
  then show ?thesis using assms
    by (simp add: appendAll_chain canonical_def rows_ok_append chain_append current_append rowAt_append)
next
  case False
  have "rowAt [] R y = []" if "\<not> (\<forall>row\<in>set rs. y < fst row)"
    using rowAt_above [of R y "[]"] assms(6,7) False that by force
  with False show ?thesis using assms by (simp add: canonical_def)
qed

lemma rowLoop_correct:
  assumes "loop_inv op rs1 rs2 s1 s2 R"
  shows "canonical (rowLoop op rs1 rs2 s1 s2 R) \<and>
     rowAt [] (rowLoop op rs1 rs2 s1 s2 R) y =
       (if \<forall>row\<in>set rs1 \<union> set rs2. y < fst row then rowAt [] R y
        else combineSegments op (rowAt s1 rs1 y) (rowAt s2 rs2 y))"
  using assms
proof (induction op rs1 rs2 s1 s2 R rule: rowLoop.induct)
  case (1 op y1 xs1 rs1 y2 xs2 rs2 s1 s2 R)
  let ?s1 = "if y1 \<le> y2 then xs1 else s1" and ?s2 = "if y2 \<le> y1 then xs2 else s2"
    and ?r1 = "if y1 \<le> y2 then rs1 else (y1, xs1) # rs1" and ?r2 = "if y2 \<le> y1 then rs2 else (y2, xs2) # rs2"
  let ?R = "appendRow R (min y1 y2) (combineSegments op ?s1 ?s2)"
  have IH: "canonical (rowLoop op ?r1 ?r2 ?s1 ?s2 ?R) \<and>
     rowAt [] (rowLoop op ?r1 ?r2 ?s1 ?s2 ?R) y =
       (if \<forall>row\<in>set ?r1 \<union> set ?r2. y < fst row then rowAt [] ?R y
        else combineSegments op (rowAt ?s1 ?r1 y) (rowAt ?s2 ?r2 y))"
    by (rule 1(1) [OF refl refl loop_inv_step [OF 1(2)]])
  have before: "\<forall>row\<in>set R. fst row < min y1 y2"
    and rest: "\<forall>row\<in>set ?r1 \<union> set ?r2. min y1 y2 < fst row"
    using 1(2) by (auto simp: loop_inv_def split: if_splits)
  have "(if \<forall>row\<in>set ?r1 \<union> set ?r2. y < fst row then rowAt [] ?R y
        else combineSegments op (rowAt ?s1 ?r1 y) (rowAt ?s2 ?r2 y)) =
      (if \<forall>row\<in>set ((y1, xs1) # rs1) \<union> set ((y2, xs2) # rs2). y < fst row then rowAt [] R y
        else combineSegments op (rowAt s1 ((y1, xs1) # rs1) y) (rowAt s2 ((y2, xs2) # rs2) y))" (is "?L = ?rhs")
  proof (cases "y < min y1 y2")
    case True
    then have all: "\<forall>row\<in>set ((y1, xs1) # rs1) \<union> set ((y2, xs2) # rs2). y < fst row"
      and "\<forall>row\<in>set ?r1 \<union> set ?r2. y < fst row"
      using 1(2) by (auto simp: loop_inv_def split: if_splits)
    then show ?thesis unfolding appendRow_at [OF before] if_P [OF True] if_P [OF all] by simp
  next
    case False
    have sides: "rowAt ?s1 ?r1 y = rowAt s1 ((y1, xs1) # rs1) y" "rowAt ?s2 ?r2 y = rowAt s2 ((y2, xs2) # rs2) y"
      using False by auto
    have rhs: "?rhs = combineSegments op (rowAt ?s1 ?r1 y) (rowAt ?s2 ?r2 y)"
      unfolding sides using False by auto
    show ?thesis unfolding rhs
    proof (rule if_either [OF _ refl])
      assume "\<forall>row\<in>set ?r1 \<union> set ?r2. y < fst row"
      then have "\<forall>row\<in>set ?r1. y < fst row" "\<forall>row\<in>set ?r2. y < fst row" by blast+
      then show "rowAt [] ?R y = combineSegments op (rowAt ?s1 ?r1 y) (rowAt ?s2 ?r2 y)"
        unfolding appendRow_at [OF before] if_not_P [OF False] by (simp only: rowAt_below)
    qed
  qed
  with IH show ?case by (simp only: rowLoop.simps Let_def)
next
  case (2 op rs2 s1 s2 R)
  then show ?case using remaining_ok [of R rs2 s2 "shouldAddRemaining2 op" y]
    by (simp add: loop_inv_def combine_left_Nil)
next
  case (3 op row rs1 s1 s2 R)
  then show ?case using remaining_ok [of R "row # rs1" s1 "shouldAddRemaining1 op" y]
    by (simp add: loop_inv_def combine_right_Nil)
qed

lemma rowOperation_correct:
  assumes "canonical R1" "canonical R2"
  shows "canonical (rowOperation op R1 R2)"
    and "rowAt [] (rowOperation op R1 R2) y = combineSegments op (rowAt [] R1 y) (rowAt [] R2 y)"
proof -
  have "loop_inv op R1 R2 [] [] []" using assms by (simp add: loop_inv_def canonical_def)
  note c = rowLoop_correct [OF this, of y, folded rowOperation_def]
  then show "canonical (rowOperation op R1 R2)" ..
  show "rowAt [] (rowOperation op R1 R2) y = combineSegments op (rowAt [] R1 y) (rowAt [] R2 y)"
    using c by (auto simp: rowAt_below)
qed

section \<open>The shape operations on canonical shapes\<close>

text \<open>A canonical shape is the encoding of canonical rows.\<close>

definition shape_ok :: "Shape \<Rightarrow> bool" where
  "shape_ok s \<longleftrightarrow> s = encode (shape_rows s) \<and> canonical (shape_rows s)"

lemma shape_ok_iff: "shape_ok s \<longleftrightarrow> (\<exists>R. canonical R \<and> s = encode R)"
  by (auto simp: shape_ok_def)

lemma canonical_Nil [simp]: "canonical []"
  by (simp add: canonical_def)

lemma shape_ok_empty [simp]: "shape_ok emptyShape"
  using shape_ok_iff [of emptyShape] encode_Nil canonical_Nil by metis

lemma shapeOperation_unfold:
  "shapeOperation op s t =
     (case trySimpleOperation op s t of Some result \<Rightarrow> result
      | None \<Rightarrow> addRemaining op (m_segments s) (m_segments t)
          (spanLoop op (m_segments s) (m_segments t) (m_spans s) (m_spans t) [] [] emptyShape))"
  by (simp add: shapeOperation_def addRemaining_def Let_def split: option.split prod.split)

lemma shapeOperation_rows:
  "shapeOperation op s t =
     (if op = UnionOperation \<and> shape_isEmpty s then t
      else encode (rowOperation op (shape_rows s) (shape_rows t)))"
  using spanLoop_rows [of op "m_segments s" "m_segments t" "m_spans s" "m_spans t" "[]" "[]" "[]"]
  by (cases op) (auto simp: shapeOperation_unfold shape_rows_def rowOperation_def)

definition opSet :: "ShapeOperation \<Rightarrow> (int \<times> int) set \<Rightarrow> (int \<times> int) set \<Rightarrow> (int \<times> int) set" where
  "opSet op A B = {p. opBool op (p \<in> A) (p \<in> B)}"

lemma opSet_simps [simp]:
  "opSet UnionOperation A B = A \<union> B"
  "opSet IntersectOperation A B = A \<inter> B"
  "opSet SubtractOperation A B = A - B"
  by (auto simp: opSet_def)

lemma shape_rows_Nil: "shape_isEmpty s \<Longrightarrow> shape_rows s = []"
  by (simp add: shape_rows_def shape_isEmpty_def)

theorem shapeOperation_correct:
  assumes "shape_ok s" "shape_ok t"
  shows "shape_ok (shapeOperation op s t) \<and>
     shape_points (shapeOperation op s t) = opSet op (shape_points s) (shape_points t)"
proof (cases "op = UnionOperation \<and> shape_isEmpty s")
  case True
  then show ?thesis using assms by (auto simp: shapeOperation_rows shape_points_def shape_rows_Nil)
next
  case False
  have c: "canonical (shape_rows s)" "canonical (shape_rows t)" using assms by (auto simp: shape_ok_def)
  then have ok: "segs_ok (rowAt [] (shape_rows s) y)" "segs_ok (rowAt [] (shape_rows t) y)" for y
    by (auto intro!: rowAt_ok simp: canonical_def)
  show ?thesis
    using False c ok by (auto simp: shapeOperation_rows shape_ok_def shape_points_def opSet_def
        rowOperation_correct combine_inside)
qed

section \<open>The canonical form is a normal form\<close>

lemma rows_ok_start:
  assumes "rows_ok R" "chain r R"
  shows "y \<in> fst ` set R \<longleftrightarrow> rowAt r R y \<noteq> rowAt r R (y - 1)"
  using assms
proof (induction r R arbitrary: r rule: chain.induct)
  case (2 r0 y' xs rows)
  have rest: "\<forall>row\<in>set rows. y' < fst row" using 2 by simp
  consider (below) "y < y'" | (start) "y = y'" | (after) "y' < y" by linarith
  then show ?case
  proof cases
    case below then show ?thesis using rest by force
  next
    case start
    then have "rowAt xs rows y = xs" using rest by (simp add: rowAt_below)
    with start 2 show ?thesis by auto
  next
    case after
    then show ?thesis using 2 by auto
  qed
qed auto

lemma rowAt_mem: "rows_ok R \<Longrightarrow> (y, xs) \<in> set R \<Longrightarrow> rowAt r R y = xs"
proof (induction r R y rule: rowAt.induct)
  case (2 r y' xs' rows y)
  then show ?case using rowAt_below [of rows y' xs'] by (auto simp: not_less)
qed simp

lemma canonical_inject:
  assumes "canonical R" "canonical R'" "\<And>y. rowAt [] R y = rowAt [] R' y"
  shows "R = R'"
proof -
  have ok: "rows_ok R" "rows_ok R'" using assms by (auto simp: canonical_def)
  have "y \<in> fst ` set R \<longleftrightarrow> y \<in> fst ` set R'" for y
    using rows_ok_start [of R "[]" y] rows_ok_start [of R' "[]" y] assms by (simp add: canonical_def)
  then have ys: "fst ` set R = fst ` set R'" by blast
  have "R1 = map (\<lambda>y. (y, rowAt [] R y)) (map fst R1)" if "rows_ok R1" "\<And>y. rowAt [] R1 y = rowAt [] R y" for R1
  proof -
    have "rowAt [] R (fst row) = snd row" if "row \<in> set R1" for row
      using rowAt_mem [OF \<open>rows_ok R1\<close>, of "fst row" "snd row" "[]"] that \<open>\<And>y. rowAt [] R1 y = rowAt [] R y\<close> by simp
    then show ?thesis by (simp add: map_idI comp_def)
  qed
  moreover have "map fst R = map fst R'"
    using ok ys by (intro strict_sorted_equal) (auto simp: rows_ok_def)
  ultimately show ?thesis using ok assms(3) by metis
qed

lemma shape_points_inject:
  assumes "shape_ok s" "shape_ok t" "shape_points s = shape_points t"
  shows "s = t"
proof -
  have "rowAt [] (shape_rows s) y = rowAt [] (shape_rows t) y" for y
    using assms by (intro inside_inject)
      (auto simp: shape_ok_def canonical_def shape_points_def set_eq_iff
        dest!: rowAt_ok [of _ "[]" y, OF _ segs_ok_Nil] simp: segs_ok_def)
  then have "shape_rows s = shape_rows t" using assms canonical_inject by (auto simp: shape_ok_def)
  then show ?thesis using assms by (metis shape_ok_def)
qed

end
