(* ===== verification/Region_Compare.thy ===== *)
theory Region_Compare
  imports Region_Canonical
begin

text \<open>
  \<open>compareShapes\<close> decides inclusion and intersection of the sets of points of canonical shapes.
  The two sweeps advance the span that ends first; what they have still to decide is the relation
  of the two shapes from the later of the two current ordinates on.
\<close>

section \<open>Segments\<close>

lemma segs_ok_tail: "segs_ok (a # m # s) \<Longrightarrow> a < m \<and> segs_ok s"
  by (simp add: segs_ok_pair)

lemma inside_later: "segs_ok (a # m # s) \<Longrightarrow> inside s x \<Longrightarrow> m < x"
  by (metis inside_bounds hd_in_set segs_ok_pair less_le_trans)

lemma inside_pair: "segs_ok (a # m # s) \<Longrightarrow> inside (a # m # s) x \<longleftrightarrow> a \<le> x \<and> x < m \<or> inside s x"
  using inside_later [of a m s x] segs_ok_tail [of a m s] by auto

declare inside_simps(2) [simp del]

lemma inside_first: "segs_ok (a # m # s) \<Longrightarrow> inside (a # m # s) x \<Longrightarrow> a \<le> x"
  using inside_bounds [of "a # m # s" x] by simp

lemma segs_ok_single [simp]: "\<not> segs_ok [a]"
  by (simp add: segs_ok_def)

lemma inside_nonempty: "segs_ok s \<Longrightarrow> s \<noteq> [] \<longleftrightarrow> (\<exists>x. inside s x)"
  using inside_hd by auto

definition covers :: "int list \<Rightarrow> int list \<Rightarrow> bool" where
  "covers s t \<longleftrightarrow> (\<forall>x. inside t x \<longrightarrow> inside s x)"

definition meets :: "int list \<Rightarrow> int list \<Rightarrow> bool" where
  "meets s t \<longleftrightarrow> (\<exists>x. inside s x \<and> inside t x)"

lemma covers_Nil [simp]: "covers s []"
  by (simp add: covers_def)

lemma meets_Nil [simp]: "\<not> meets [] t" "\<not> meets s []"
  by (simp_all add: meets_def)

lemma covers_from_Nil: "segs_ok t \<Longrightarrow> covers [] t \<longleftrightarrow> t = []"
  using inside_nonempty by (auto simp: covers_def)

lemma covers_skip_left:
  assumes a: "segs_ok (aX # aM # a)" and b: "segs_ok (bX # bM # b)" and "aX \<le> bX" "aM < bM"
  shows "covers (aX # aM # a) (bX # bM # b) \<longleftrightarrow> covers a (bX # bM # b)"
proof (cases "bX < aM")
  case True
  have "inside (bX # bM # b) aM" "inside (bX # bM # b) bX"
    using True assms(4) segs_ok_tail [OF b] by (simp_all add: inside_pair [OF b])
  moreover have "\<not> inside (aX # aM # a) aM" "\<not> inside a bX"
    using inside_later [OF a, of aM] inside_later [OF a, of bX] True by (auto simp: inside_pair [OF a])
  ultimately show ?thesis by (auto simp: covers_def)
next
  case False
  then show ?thesis using inside_pair [OF a] inside_first [OF b] by (force simp: covers_def)
qed

lemma covers_skip_right:
  assumes a: "segs_ok (aX # aM # a)" and b: "segs_ok (bX # bM # b)" and "aX \<le> bX" "bM \<le> aM"
  shows "covers (aX # aM # a) (bX # bM # b) \<longleftrightarrow> covers (aX # aM # a) b"
  using inside_pair [OF a] inside_pair [OF b] assms(3,4) by (force simp: covers_def)

lemma covers_skip_both:
  assumes a: "segs_ok (aX # aM # a)" and b: "segs_ok (bX # aM # b)"
  shows "covers (aX # aM # a) b \<longleftrightarrow> covers a b"
  using inside_pair [OF a] inside_later [OF b] by (force simp: covers_def)

lemma compareSegments_contains:
  assumes "segs_ok a" "segs_ok b"
  shows "compareSegments CompareContains a b = (if covers a b then None else Some False)"
  using assms
proof (induction CompareContains a b rule: compareSegments.induct)
  case (1 aX aM a bX bM b)
  note ab = 1(4,5)
  note tails = segs_ok_tail [OF ab(1)] segs_ok_tail [OF ab(2)]
  have hooks: "orReturning (hookIf c (aOverlapsB CompareContains)) r = r"
    "orReturning (hookIf c (aOutsideB CompareContains)) r = r" for c r
    by (simp_all add: orReturning_def hookIf_def)
  show ?case
  proof (cases "bX < aX")
    case True
    have "inside (bX # bM # b) bX" "\<not> inside (aX # aM # a) bX"
      using tails inside_first [OF ab(1), of bX] True by (auto simp: inside_pair [OF ab(2)])
    then show ?thesis using True by (auto simp: covers_def orReturning_def hookIf_def Let_def)
  next
    case False
    then have le: "aX \<le> bX" by simp
    have "compareSegments CompareContains (aX # aM # a) (bX # bM # b) =
        (if aM < bM then compareSegments CompareContains a (bX # bM # b)
         else if bM < aM then compareSegments CompareContains (aX # aM # a) b
         else compareSegments CompareContains a b)"
      using False by (simp only: compareSegments.simps Let_def hooks) (simp add: orReturning_def hookIf_def)
    then show ?thesis
      using 1(1-3) [OF refl] ab tails covers_skip_left [OF ab le] covers_skip_right [OF ab le]
        covers_skip_both [of aX aM a bX b] by (auto simp: not_less)
  qed
next
  case "2_1" then show ?case by (auto simp: orReturning_def hookIf_def covers_from_Nil)
qed (auto simp: orReturning_def hookIf_def)

lemma meets_skip_left:
  assumes a: "segs_ok (aX # aM # a)" and b: "segs_ok (bX # bM # b)" and "aM \<le> bX"
  shows "meets (aX # aM # a) (bX # bM # b) \<longleftrightarrow> meets a (bX # bM # b)"
  using inside_pair [OF a] inside_first [OF b] assms(3) by (force simp: meets_def)

lemma meets_commute: "meets s t \<longleftrightarrow> meets t s"
  by (auto simp: meets_def)

lemma meets_overlap:
  assumes a: "segs_ok (aX # aM # a)" and b: "segs_ok (bX # bM # b)" and "aX < bM" "bX < aM"
  shows "meets (aX # aM # a) (bX # bM # b)"
  unfolding meets_def using segs_ok_tail [OF a] segs_ok_tail [OF b] assms(3,4)
  by (intro exI [of _ "max aX bX"]) (simp only: inside_pair [OF a] inside_pair [OF b], auto)

lemma compareSegments_intersects:
  assumes "segs_ok a" "segs_ok b"
  shows "compareSegments CompareIntersects a b = (if meets a b then Some True else None)"
  using assms
proof (induction CompareIntersects a b rule: compareSegments.induct)
  case (1 aX aM a bX bM b)
  note ab = 1(4,5)
  note tails = segs_ok_tail [OF ab(1)] segs_ok_tail [OF ab(2)]
  show ?case
  proof (cases "aX < bM \<and> bX < aM")
    case True
    then show ?thesis using meets_overlap [OF ab] by (simp add: orReturning_def hookIf_def)
  next
    case False
    then have "aM \<noteq> bM" using tails by auto
    have "compareSegments CompareIntersects (aX # aM # a) (bX # bM # b) =
        (if aM < bM then compareSegments CompareIntersects a (bX # bM # b)
         else compareSegments CompareIntersects (aX # aM # a) b)"
      using False \<open>aM \<noteq> bM\<close> by (auto simp: orReturning_def hookIf_def Let_def)
    moreover have "aM < bM \<Longrightarrow> aM \<le> bX" "bM < aM \<Longrightarrow> bM \<le> aX" using False tails by auto
    ultimately show ?thesis
      using 1(1,2) [OF refl] ab tails \<open>aM \<noteq> bM\<close> meets_skip_left [OF ab] meets_skip_left [OF ab(2,1)]
      by (auto simp: meets_commute)
  qed
qed (auto simp: orReturning_def hookIf_def)

section \<open>Rows\<close>

fun compareRows :: "CompareOperation \<Rightarrow> row list \<Rightarrow> row list \<Rightarrow> bool \<Rightarrow> bool \<Rightarrow> bool" where
  "compareRows op ((aY, aS) # (aM, aS') # a) ((bY, bS) # (bM, bS') # b) aHad bHad =
     returning (hookIf (aY < bY \<and> \<not> bHad \<and> aS \<noteq> []) (aOutsideB op))
       (returning (hookIf (bY < aY \<and> \<not> aHad \<and> bS \<noteq> []) (bOutsideA op))
         (returning (hookIf (aY < bM \<and> bY < aM) (compareSegments op aS bS))
           (if aM < bM then compareRows op ((aM, aS') # a) ((bY, bS) # (bM, bS') # b) (aS \<noteq> []) (bS \<noteq> [])
            else if bM < aM then compareRows op ((aY, aS) # (aM, aS') # a) ((bM, bS') # b) (aS \<noteq> []) (bS \<noteq> [])
            else compareRows op ((aM, aS') # a) ((bM, bS') # b) (aS \<noteq> []) (bS \<noteq> []))))"
| "compareRows op a b aHad bHad =
     returning (hookIf (1 < length a) (aOutsideB op)) (returning (hookIf (1 < length b) (bOutsideA op)) (defaultResult op))"

lemma compareRows_short:
  "length a \<le> 1 \<or> length b \<le> 1 \<Longrightarrow> compareRows op a b aHad bHad =
     returning (hookIf (1 < length a) (aOutsideB op)) (returning (hookIf (1 < length b) (bOutsideA op)) (defaultResult op))"
  by (cases "(op, a, b, aHad, bHad)" rule: compareRows.cases) (auto simp: returning_def hookIf_def)

lemma compareSpans_rows:
  "compareSpans op aAll bAll a b aHad bHad = compareRows op (rowsFrom aAll a) (rowsFrom bAll b) aHad bHad"
proof (induction op aAll bAll a b aHad bHad rule: compareSpans.induct)
  case (1 op aAll bAll a a' as b b' bs aHad bHad)
  show ?case
    by (simp only: compareSpans.simps rowsFrom.simps compareRows.simps Let_def 1 [OF refl refl refl refl refl refl refl refl refl]
        simp_thms cong: if_cong)
qed (simp_all add: compareRows_short)

text \<open>
  Two adjacent rows cut the ordinates from \<open>max aY bY\<close> on: up to the nearer end the segments in
  force are those of the current rows, and from there on the sweep goes on.
\<close>

definition holds :: "(int list \<Rightarrow> int list \<Rightarrow> bool) \<Rightarrow> row list \<Rightarrow> row list \<Rightarrow> bool" where
  "holds p a b \<longleftrightarrow> (\<forall>y. fst (hd a) \<le> y \<and> fst (hd b) \<le> y \<longrightarrow> p (rowAt [] a y) (rowAt [] b y))"

lemma holds_step:
  assumes "aY < aM" "bY < bM"
  shows "holds p ((aY, aS) # (aM, aS') # a) ((bY, bS) # (bM, bS') # b) \<longleftrightarrow>
     (aY < bM \<and> bY < aM \<longrightarrow> p aS bS) \<and>
     holds p (if aM \<le> bM then (aM, aS') # a else (aY, aS) # (aM, aS') # a)
             (if bM \<le> aM then (bM, bS') # b else (bY, bS) # (bM, bS') # b)"
    (is "?L \<longleftrightarrow> ?now \<and> ?later")
proof
  assume L: ?L
  have ?now
  proof
    assume "aY < bM \<and> bY < aM"
    then show "p aS bS" using L [unfolded holds_def, rule_format, of "max aY bY"] assms by simp
  qed
  moreover have ?later unfolding holds_def
  proof (intro allI impI)
    fix y
    assume "fst (hd (if aM \<le> bM then (aM, aS') # a else (aY, aS) # (aM, aS') # a)) \<le> y \<and>
      fst (hd (if bM \<le> aM then (bM, bS') # b else (bY, bS) # (bM, bS') # b)) \<le> y"
    then show "p (rowAt [] (if aM \<le> bM then (aM, aS') # a else (aY, aS) # (aM, aS') # a) y)
      (rowAt [] (if bM \<le> aM then (bM, bS') # b else (bY, bS) # (bM, bS') # b) y)"
      using L [unfolded holds_def, rule_format, of y] assms by (auto split: if_splits)
  qed
  ultimately show "?now \<and> ?later" ..
next
  assume R: "?now \<and> ?later"
  show ?L unfolding holds_def
  proof (intro allI impI)
    fix y
    assume "fst (hd ((aY, aS) # (aM, aS') # a)) \<le> y \<and> fst (hd ((bY, bS) # (bM, bS') # b)) \<le> y"
    then show "p (rowAt [] ((aY, aS) # (aM, aS') # a) y) (rowAt [] ((bY, bS) # (bM, bS') # b) y)"
      using R [THEN conjunct1] R [THEN conjunct2, unfolded holds_def, rule_format, of y] assms
      by (cases "y < min aM bM"; cases "aM \<le> bM"; cases "bM \<le> aM") auto
  qed
qed

text \<open>A suffix of canonical rows: it is not empty and ends with the empty row.\<close>

definition suffix_ok :: "row list \<Rightarrow> bool" where
  "suffix_ok rows \<longleftrightarrow> rows \<noteq> [] \<and> rows_ok rows \<and> current rows = [] \<and> chain (snd (hd rows)) (tl rows)"

lemma suffix_ok_Cons2:
  "suffix_ok ((y, xs) # (y', xs') # rows) \<longleftrightarrow>
     y < y' \<and> segs_ok xs \<and> xs' \<noteq> xs \<and> suffix_ok ((y', xs') # rows)"
  by (auto simp: suffix_ok_def current_def)

lemma suffix_ok_single [simp]: "suffix_ok [(y, xs)] \<longleftrightarrow> xs = []"
  by (auto simp: suffix_ok_def current_def)

lemma canonical_suffix_ok: "canonical rows \<Longrightarrow> rows \<noteq> [] \<Longrightarrow> suffix_ok rows \<and> snd (hd rows) \<noteq> []"
  by (cases rows) (auto simp: canonical_def suffix_ok_def)

lemma suffix_ok_at: "suffix_ok rows \<Longrightarrow> segs_ok (rowAt [] rows y)"
  by (simp add: suffix_ok_def rowAt_ok)

lemma rows_cases [case_names single more]:
  assumes "suffix_ok rows"
  obtains y where "rows = [(y, [])]"
  | y xs y' xs' rows' where "rows = (y, xs) # (y', xs') # rows'"
  using assms by (cases rows rule: remdups_adj.cases) (auto simp: suffix_ok_def current_def)

lemma returning_simps [simp]:
  "returning None r = r"
  "returning (Some b) r = b"
  "hookIf False h = None"
  "hookIf True h = h"
  "hookIf c None = None"
  by (simp_all add: returning_def hookIf_def)

lemma contains_last_row:
  assumes "suffix_ok [row]" "suffix_ok b" "1 < length b \<Longrightarrow> fst row < fst (b ! 1)"
  shows "compareRows CompareContains [row] b aHad bHad \<longleftrightarrow> holds covers [row] b"
proof -
  obtain aY where row: "row = (aY, [])" using assms(1) by (cases row) auto
  from assms(2) show ?thesis
  proof (cases rule: rows_cases)
    case (single y)
    then show ?thesis by (simp add: holds_def row)
  next
    case (more bY bS bM bS' b')
    have "\<not> holds covers [row] b"
    proof (cases "bS = []")
      case True
      with more assms(2,3) show ?thesis
        by (auto simp: holds_def row suffix_ok_Cons2 intro!: exI [of _ bM])
          (use rowAt_below in \<open>auto simp: suffix_ok_def covers_from_Nil\<close>)
    next
      case False
      with more assms(2,3) show ?thesis
        by (auto simp: holds_def row suffix_ok_Cons2 covers_from_Nil intro!: exI [of _ "max aY bY"])
    qed
    with more show ?thesis by (simp add: row)
  qed
qed

lemma intersects_last_row:
  assumes "suffix_ok [row]"
  shows "compareRows CompareIntersects [row] b aHad bHad \<longleftrightarrow> \<not> holds (\<lambda>s t. \<not> meets s t) [row] b"
    and "compareRows CompareIntersects a [row] aHad bHad \<longleftrightarrow> \<not> holds (\<lambda>s t. \<not> meets s t) a [row]"
    and "compareRows CompareContains a [row] aHad bHad \<longleftrightarrow> holds covers a [row]"
proof -
  obtain y where row: "row = (y, [])" using assms by (cases row) auto
  show "compareRows CompareIntersects [row] b aHad bHad \<longleftrightarrow> \<not> holds (\<lambda>s t. \<not> meets s t) [row] b"
    by (simp add: compareRows_short holds_def row)
  show "compareRows CompareIntersects a [row] aHad bHad \<longleftrightarrow> \<not> holds (\<lambda>s t. \<not> meets s t) a [row]"
    by (simp add: compareRows_short holds_def row)
  show "compareRows CompareContains a [row] aHad bHad \<longleftrightarrow> holds covers a [row]"
    by (simp add: compareRows_short holds_def row)
qed

lemma compareRows_contains:
  assumes "suffix_ok a" "suffix_ok b" "1 < length b \<Longrightarrow> fst (hd a) < fst (b ! 1)"
    and "fst (hd b) < fst (hd a) \<Longrightarrow> snd (hd b) \<noteq> [] \<Longrightarrow> aHad"
  shows "compareRows CompareContains a b aHad bHad \<longleftrightarrow> holds covers a b"
  using assms
proof (induction CompareContains a b aHad bHad rule: compareRows.induct)
  case (1 aY aS aM aS' a bY bS bM bS' b aHad bHad)
  let ?a = "(aY, aS) # (aM, aS') # a" and ?b = "(bY, bS) # (bM, bS') # b"
  have a: "aY < aM" "segs_ok aS" "suffix_ok ((aM, aS') # a)" and b: "bY < bM" "segs_ok bS" "suffix_ok ((bM, bS') # b)"
    using 1(4,5) by (auto simp: suffix_ok_Cons2)
  have inv: "aY < bM" "bY < aY \<Longrightarrow> bS \<noteq> [] \<Longrightarrow> aHad" using 1(6,7) by auto
  have next_b: "1 < length ((bM, bS') # b) \<Longrightarrow> bM < fst (((bM, bS') # b) ! 1)"
    using b(3) by (cases b) (auto simp: suffix_ok_Cons2)
  have segs: "returning (hookIf (aY < bM \<and> bY < aM) (compareSegments CompareContains aS bS)) r \<longleftrightarrow>
      (bY < aM \<longrightarrow> covers aS bS) \<and> r" for r
    using inv(1) a b compareSegments_contains [of aS bS] by (cases "bY < aM") auto
  have now: "compareRows CompareContains ?a ?b aHad bHad \<longleftrightarrow> (bY < aM \<longrightarrow> covers aS bS) \<and>
      (if aM < bM then compareRows CompareContains ((aM, aS') # a) ?b (aS \<noteq> []) (bS \<noteq> [])
       else if bM < aM then compareRows CompareContains ?a ((bM, bS') # b) (aS \<noteq> []) (bS \<noteq> [])
       else compareRows CompareContains ((aM, aS') # a) ((bM, bS') # b) (aS \<noteq> []) (bS \<noteq> []))"
  proof -
    have "(bY < aY \<and> \<not> aHad \<and> bS \<noteq> []) = False" using inv(2) by blast
    then show ?thesis unfolding compareRows.simps segs by (simp only: returning_simps aOutsideB.simps)
  qed
  show ?case
  proof (cases "bY < aM \<longrightarrow> covers aS bS")
    case False
    then show ?thesis using now holds_step [OF a(1) b(1)] inv(1) by auto
  next
    case True
    consider (left) "aM < bM" | (right) "bM < aM" | (both) "aM = bM" by linarith
    then show ?thesis
    proof cases
      case left
      have "aS \<noteq> []" if "bY < aM" "bS \<noteq> []"
        using that True covers_from_Nil [OF b(2)] by auto
      then have "compareRows CompareContains ((aM, aS') # a) ?b (aS \<noteq> []) (bS \<noteq> []) \<longleftrightarrow> holds covers ((aM, aS') # a) ?b"
        using left a(3) 1(5) by (intro 1(1)) auto
      then show ?thesis using now True left inv(1) holds_step [OF a(1) b(1), of covers aS aS' a bS bS' b] by simp
    next
      case right
      have "compareRows CompareContains ?a ((bM, bS') # b) (aS \<noteq> []) (bS \<noteq> []) \<longleftrightarrow> holds covers ?a ((bM, bS') # b)"
      proof (rule 1(2))
        show "fst (hd ?a) < fst (((bM, bS') # b) ! 1)" if "1 < length ((bM, bS') # b)"
          using next_b [OF that] inv(1) by simp
      qed (use right inv(1) b(3) 1(4) in auto)
      then show ?thesis using now True right inv(1) holds_step [OF a(1) b(1), of covers aS aS' a bS bS' b] by simp
    next
      case both
      have "compareRows CompareContains ((aM, aS') # a) ((bM, bS') # b) (aS \<noteq> []) (bS \<noteq> []) \<longleftrightarrow>
          holds covers ((aM, aS') # a) ((bM, bS') # b)"
        using both next_b a(3) b(3) by (intro 1(3)) auto
      then show ?thesis using now True both inv(1) holds_step [OF a(1) b(1), of covers aS aS' a bS bS' b] by simp
    qed
  qed
next
  case "2_1"
  then show ?case by (simp add: suffix_ok_def)
next
  case "2_2"
  then show ?case by (intro contains_last_row) auto
next
  case "2_3"
  then show ?case by (simp add: suffix_ok_def)
next
  case "2_4"
  then show ?case by (intro intersects_last_row)
qed

lemma compareRows_intersects:
  assumes "suffix_ok a" "suffix_ok b"
  shows "compareRows CompareIntersects a b aHad bHad \<longleftrightarrow> \<not> holds (\<lambda>s t. \<not> meets s t) a b"
  using assms
proof (induction CompareIntersects a b aHad bHad rule: compareRows.induct)
  case (1 aY aS aM aS' a bY bS bM bS' b aHad bHad)
  let ?a = "(aY, aS) # (aM, aS') # a" and ?b = "(bY, bS) # (bM, bS') # b"
  have a: "aY < aM" "segs_ok aS" "suffix_ok ((aM, aS') # a)" and b: "bY < bM" "segs_ok bS" "suffix_ok ((bM, bS') # b)"
    using 1(4,5) by (auto simp: suffix_ok_Cons2)
  note step = holds_step [OF a(1) b(1), of "\<lambda>s t. \<not> meets s t" aS aS' a bS bS' b]
  have segs: "returning (hookIf c (compareSegments CompareIntersects aS bS)) r \<longleftrightarrow> c \<and> meets aS bS \<or> r" for c r
    using a b compareSegments_intersects [of aS bS] by (cases c) auto
  have now: "compareRows CompareIntersects ?a ?b aHad bHad \<longleftrightarrow> (aY < bM \<and> bY < aM) \<and> meets aS bS \<or>
      (if aM < bM then compareRows CompareIntersects ((aM, aS') # a) ?b (aS \<noteq> []) (bS \<noteq> [])
       else if bM < aM then compareRows CompareIntersects ?a ((bM, bS') # b) (aS \<noteq> []) (bS \<noteq> [])
       else compareRows CompareIntersects ((aM, aS') # a) ((bM, bS') # b) (aS \<noteq> []) (bS \<noteq> []))"
    unfolding compareRows.simps segs by (simp only: returning_simps aOutsideB.simps bOutsideA.simps)
  consider (left) "aM < bM" | (right) "bM < aM" | (both) "aM = bM" by linarith
  then show ?case
  proof cases
    case left
    then have "compareRows CompareIntersects ((aM, aS') # a) ?b (aS \<noteq> []) (bS \<noteq> []) \<longleftrightarrow>
        \<not> holds (\<lambda>s t. \<not> meets s t) ((aM, aS') # a) ?b"
      using a(3) 1(5) by (intro 1(1)) auto
    then show ?thesis using now step left by auto
  next
    case right
    then have "compareRows CompareIntersects ?a ((bM, bS') # b) (aS \<noteq> []) (bS \<noteq> []) \<longleftrightarrow>
        \<not> holds (\<lambda>s t. \<not> meets s t) ?a ((bM, bS') # b)"
      using b(3) 1(4) by (intro 1(2)) auto
    then show ?thesis using now step right by auto
  next
    case both
    then have "compareRows CompareIntersects ((aM, aS') # a) ((bM, bS') # b) (aS \<noteq> []) (bS \<noteq> []) \<longleftrightarrow>
        \<not> holds (\<lambda>s t. \<not> meets s t) ((aM, aS') # a) ((bM, bS') # b)"
      using a(3) b(3) by (intro 1(3)) auto
    then show ?thesis using now step both by auto
  qed
next
  case "2_2"
  then show ?case by (intro intersects_last_row)
next
  case "2_4"
  then show ?case by (intro intersects_last_row)
qed (simp_all add: suffix_ok_def)

section \<open>Shapes\<close>

lemma compareShapes_rows: "compareShapes op s t = compareRows op (shape_rows s) (shape_rows t) False False"
  by (simp add: compareShapes_def compareSpans_rows shape_rows_def)

lemma canonical_at: "canonical R \<Longrightarrow> segs_ok (rowAt [] R y)"
  by (simp add: canonical_def rowAt_ok)

lemma points_subset_iff:
  "shape_points t \<subseteq> shape_points s \<longleftrightarrow> (\<forall>y. covers (rowAt [] (shape_rows s) y) (rowAt [] (shape_rows t) y))"
  by (auto simp: shape_points_def covers_def)

lemma points_meet_iff:
  "shape_points s \<inter> shape_points t \<noteq> {} \<longleftrightarrow> (\<exists>y. meets (rowAt [] (shape_rows s) y) (rowAt [] (shape_rows t) y))"
  by (auto simp: shape_points_def meets_def)

lemma rowAt_before_hd: "suffix_ok R \<Longrightarrow> y < fst (hd R) \<Longrightarrow> rowAt [] R y = []"
  by (cases R) (auto simp: suffix_ok_def)

theorem compareShapes_contains:
  assumes "shape_ok s" "shape_ok t"
  shows "compareShapes CompareContains s t \<longleftrightarrow> shape_points t \<subseteq> shape_points s"
proof -
  define R T where "R = shape_rows s" and "T = shape_rows t"
  have c: "canonical R" "canonical T" using assms by (auto simp: shape_ok_def R_def T_def)
  have "compareRows CompareContains R T False False \<longleftrightarrow> (\<forall>y. covers (rowAt [] R y) (rowAt [] T y))"
  proof (cases "R = [] \<or> T = []")
    case True
    show ?thesis
    proof (cases "T = []")
      case False
      with True have "R = []" by simp
      have T: "suffix_ok T" "snd (hd T) \<noteq> []" using canonical_suffix_ok [OF c(2) False] by auto
      then have len: "1 < length T" by (cases rule: rows_cases) auto
      have "rowAt [] T (fst (hd T)) = snd (hd T)"
        using T(1) rowAt_mem [of T "fst (hd T)" "snd (hd T)" "[]"] False by (simp add: suffix_ok_def)
      then have "\<not> covers [] (rowAt [] T (fst (hd T)))"
        using T(2) covers_from_Nil [OF canonical_at [OF c(2)]] by metis
      then show ?thesis using \<open>R = []\<close> len by (auto simp: compareRows_short)
    qed (simp add: compareRows_short)
  next
    case False
    then have R: "suffix_ok R" and T: "suffix_ok T" "snd (hd T) \<noteq> []" using canonical_suffix_ok c by auto
    obtain aY aS aM aS' a where RR: "R = (aY, aS) # (aM, aS') # a"
      using canonical_suffix_ok [OF c(1)] False by (cases rule: rows_cases [OF R]) auto
    obtain bY bS bM bS' b where TT: "T = (bY, bS) # (bM, bS') # b"
      using T(2) by (cases rule: rows_cases [OF T(1)]) auto
    have bY: "bY < bM" "rowAt [] T bY = bS" "bS \<noteq> []" using T by (auto simp: TT suffix_ok_Cons2)
    show ?thesis
    proof (cases "bY < aY")
      case True
      then have "\<not> compareRows CompareContains R T False False" using bY(3) by (simp add: RR TT)
      moreover have "\<not> covers (rowAt [] R bY) (rowAt [] T bY)"
        using True rowAt_before_hd [OF R, of bY] covers_from_Nil [OF canonical_at [OF c(2), of bY]] bY by (simp add: RR)
      ultimately show ?thesis by blast
    next
      case False
      then have "compareRows CompareContains R T False False \<longleftrightarrow> holds covers R T"
        using bY(1) by (intro compareRows_contains [OF R T(1)]) (auto simp: RR TT)
      moreover have "covers (rowAt [] R y) (rowAt [] T y)" if "y < bY" for y
        using rowAt_before_hd [OF T(1), of y] that by (simp add: TT)
      moreover have "fst (hd R) \<le> y" if "fst (hd T) \<le> y" for y using that False by (simp add: RR TT)
      ultimately show ?thesis unfolding holds_def by (metis RR TT fst_conv list.sel(1) not_le)
    qed
  qed
  then show ?thesis by (simp add: compareShapes_rows points_subset_iff R_def T_def)
qed

theorem compareShapes_intersects:
  assumes "shape_ok s" "shape_ok t"
  shows "compareShapes CompareIntersects s t \<longleftrightarrow> shape_points s \<inter> shape_points t \<noteq> {}"
proof -
  define R T where "R = shape_rows s" and "T = shape_rows t"
  have c: "canonical R" "canonical T" using assms by (auto simp: shape_ok_def R_def T_def)
  have "compareRows CompareIntersects R T False False \<longleftrightarrow> (\<exists>y. meets (rowAt [] R y) (rowAt [] T y))"
  proof (cases "R = [] \<or> T = []")
    case True
    then show ?thesis by (auto simp: compareRows_short)
  next
    case False
    then have ok: "suffix_ok R" "suffix_ok T" using canonical_suffix_ok c by auto
    show ?thesis
      using compareRows_intersects [OF ok] rowAt_before_hd [OF ok(1)] rowAt_before_hd [OF ok(2)]
      unfolding holds_def by (metis meets_Nil not_le)
  qed
  then show ?thesis by (simp add: compareShapes_rows points_meet_iff R_def T_def)
qed

end
