(* ===== verification/Region_Bounds.thy ===== *)
theory Region_Bounds
  imports Region_Compare
begin

text \<open>
  The plane of the coordinates that the code can subtract without overflow, the bounding box that
  \<open>bounds\<close> computes, and the rectangles and the points of a region that the queries read off its
  spans.
\<close>

section \<open>Rectangles as sets of points\<close>

definition rect_points :: "IntRect \<Rightarrow> (int \<times> int) set" where
  "rect_points r = {(x, y). m_x r \<le> x \<and> x < rect_maxX r \<and> m_y r \<le> y \<and> y < rect_maxY r}"

lemma mem_rect_points:
  "(x, y) \<in> rect_points r \<longleftrightarrow> m_x r \<le> x \<and> x < m_x r + m_width r \<and> m_y r \<le> y \<and> y < m_y r + m_height r"
  by (simp add: rect_points_def rect_maxX_def rect_maxY_def)

lemma rect_isEmpty_iff: "rect_isEmpty r \<longleftrightarrow> rect_points r = {}"
proof -
  have "(m_x r, m_y r) \<in> rect_points r" if "\<not> rect_isEmpty r"
    using that by (simp add: mem_rect_points rect_isEmpty_def)
  moreover have "rect_points r = {}" if "rect_isEmpty r"
    using that by (auto simp: rect_isEmpty_def mem_rect_points)
  ultimately show ?thesis by blast
qed

lemma rect_containsPoint_iff: "rect_containsPoint r x y \<longleftrightarrow> (x, y) \<in> rect_points r"
  by (simp add: rect_containsPoint_def rect_points_def)

lemma rect_intersects_iff: "rect_intersects r s \<longleftrightarrow> rect_points r \<inter> rect_points s \<noteq> {}"
proof -
  have "(max (m_x r) (m_x s), max (m_y r) (m_y s)) \<in> rect_points r \<inter> rect_points s" if "rect_intersects r s"
    using that by (auto simp: mem_rect_points rect_intersects_def rect_isEmpty_def rect_maxX_def rect_maxY_def)
  moreover have "rect_intersects r s" if "rect_points r \<inter> rect_points s \<noteq> {}"
    using that by (auto simp: mem_rect_points rect_intersects_def rect_isEmpty_def rect_maxX_def rect_maxY_def)
  ultimately show ?thesis by blast
qed

lemma rect_contains_subset: "rect_contains r s \<Longrightarrow> rect_points s \<subseteq> rect_points r"
  by (auto simp: rect_contains_def rect_points_def)

lemma rect_contains_iff:
  assumes "\<not> rect_isEmpty s"
  shows "rect_contains r s \<longleftrightarrow> rect_points s \<subseteq> rect_points r"
proof
  assume sub: "rect_points s \<subseteq> rect_points r"
  have "(m_x s, m_y s) \<in> rect_points s" "(m_x s + m_width s - 1, m_y s + m_height s - 1) \<in> rect_points s"
    using assms by (auto simp: mem_rect_points rect_isEmpty_def)
  then have "(m_x s, m_y s) \<in> rect_points r" "(m_x s + m_width s - 1, m_y s + m_height s - 1) \<in> rect_points r"
    using sub by auto
  then show "rect_contains r s" by (auto simp: mem_rect_points rect_contains_def rect_maxX_def rect_maxY_def)
qed (rule rect_contains_subset)

lemma rect_intersect_points: "rect_points (rect_intersect r s) = rect_points r \<inter> rect_points s"
  by (auto simp: rect_intersect_def Let_def mem_rect_points rect_maxX_def rect_maxY_def newRect_def set_eq_iff
      split: if_splits)

text \<open>\<open>is_bounds b A\<close>: \<open>b\<close> is the smallest rectangle around \<open>A\<close>, and \<open>IntRect()\<close> when there is no point.\<close>

definition is_bounds :: "IntRect \<Rightarrow> (int \<times> int) set \<Rightarrow> bool" where
  "is_bounds b A \<longleftrightarrow>
     (if A = {} then b = newRect
      else A \<subseteq> rect_points b \<and> (\<exists>y. (m_x b, y) \<in> A) \<and> (\<exists>y. (rect_maxX b - 1, y) \<in> A) \<and>
        (\<exists>x. (x, m_y b) \<in> A) \<and> (\<exists>x. (x, rect_maxY b - 1) \<in> A))"

lemma is_bounds_subset: "is_bounds b A \<Longrightarrow> A \<subseteq> rect_points b"
  by (auto simp: is_bounds_def split: if_splits)

lemma is_bounds_empty: "is_bounds b A \<Longrightarrow> rect_isEmpty b \<longleftrightarrow> A = {}"
  using is_bounds_subset [of b A] rect_isEmpty_iff [of b]
  by (auto simp: is_bounds_def newRect_def rect_isEmpty_def split: if_splits)

lemma newRect_isEmpty [simp]: "rect_isEmpty newRect"
  by (simp add: newRect_def rect_isEmpty_def)

lemma rect_ext:
  fixes r s :: IntRect
  shows "m_x r = m_x s \<Longrightarrow> m_y r = m_y s \<Longrightarrow> rect_maxX r = rect_maxX s \<Longrightarrow> rect_maxY r = rect_maxY s \<Longrightarrow> r = s"
  by (simp add: rect_maxX_def rect_maxY_def)

lemma is_bounds_unique:
  assumes "is_bounds b A" "is_bounds c A"
  shows "b = c"
proof (cases "A = {}")
  case False
  have "m_x b \<le> m_x c \<and> m_y b \<le> m_y c \<and> rect_maxX c \<le> rect_maxX b \<and> rect_maxY c \<le> rect_maxY b"
    if "is_bounds b A" "is_bounds c A" for b c
    using that False by (auto simp: is_bounds_def rect_points_def)
  from this [OF assms] this [OF assms(2,1)] show ?thesis by (intro rect_ext) auto
qed (use assms in \<open>simp add: is_bounds_def\<close>)

lemma is_bounds_rect: "\<not> rect_isEmpty r \<Longrightarrow> is_bounds r (rect_points r)"
proof -
  assume "\<not> rect_isEmpty r"
  then have "(m_x r, m_y r) \<in> rect_points r" "(rect_maxX r - 1, rect_maxY r - 1) \<in> rect_points r"
    by (auto simp: rect_isEmpty_def rect_points_def rect_maxX_def rect_maxY_def)
  then show ?thesis by (auto simp: is_bounds_def)
qed

lemma is_bounds_unite:
  assumes "is_bounds b A" "is_bounds c B"
  shows "is_bounds (rect_unite b c) (A \<union> B)"
proof -
  consider "B = {}" | "A = {}" "B \<noteq> {}" | "A \<noteq> {}" "B \<noteq> {}" by blast
  then show ?thesis
  proof cases
    case 3
    then have ne: "\<not> rect_isEmpty b" "\<not> rect_isEmpty c" using assms is_bounds_empty by auto
    let ?u = "rect_unite b c"
    have u: "m_x ?u = min (m_x b) (m_x c)" "m_y ?u = min (m_y b) (m_y c)"
      "rect_maxX ?u = max (rect_maxX b) (rect_maxX c)" "rect_maxY ?u = max (rect_maxY b) (rect_maxY c)"
      using ne by (simp_all add: rect_unite_def Let_def rect_maxX_def rect_maxY_def)
    have "A \<union> B \<subseteq> rect_points ?u"
      using is_bounds_subset [OF assms(1)] is_bounds_subset [OF assms(2)] by (fastforce simp: rect_points_def u)
    moreover have "\<exists>y. (m_x ?u, y) \<in> A \<union> B" "\<exists>y. (rect_maxX ?u - 1, y) \<in> A \<union> B"
      "\<exists>x. (x, m_y ?u) \<in> A \<union> B" "\<exists>x. (x, rect_maxY ?u - 1) \<in> A \<union> B"
      using assms 3 by (auto simp: u is_bounds_def min_def max_def)
    ultimately show ?thesis using 3 by (simp add: is_bounds_def)
  next
    case 2
    then have "\<not> rect_isEmpty c" "rect_isEmpty b" using assms is_bounds_empty by auto
    then show ?thesis using assms(2) 2 by (simp add: rect_unite_def)
  next
    case 1
    then have "rect_isEmpty c" using assms is_bounds_empty by auto
    then show ?thesis using assms(1) 1 by (simp add: rect_unite_def)
  qed
qed

section \<open>The plane\<close>

text \<open>
  Between the coordinates of points of the plane, and the right and bottom edges next to them, no
  difference needs more than 32 bits.
\<close>

definition coordinate :: "int \<Rightarrow> bool" where
  "coordinate c \<longleftrightarrow> - (2 ^ 30) \<le> c \<and> c < 2 ^ 30"

definition plane :: "(int \<times> int) set" where
  "plane = {(x, y). coordinate x \<and> coordinate (x + 1) \<and> coordinate y \<and> coordinate (y + 1)}"

lemma coordinate_diff: "coordinate a \<Longrightarrow> coordinate b \<Longrightarrow> - (2 ^ 31) \<le> a - b \<and> a - b < 2 ^ 31"
  by (simp add: coordinate_def)

lemma shape_coordinates:
  assumes "shape_ok s" "shape_points s \<subseteq> plane" "(y, xs) \<in> set (shape_rows s)"
  shows "coordinate y \<and> (\<forall>x\<in>set xs. coordinate x)"
proof -
  define R where "R = shape_rows s"
  have c: "canonical R" using assms(1) by (simp add: shape_ok_def R_def)
  then have ok: "rows_ok R" "chain [] R" by (auto simp: canonical_def)
  have at: "rowAt [] R y = xs" using rowAt_mem [OF ok(1)] assms(3) by (simp add: R_def)
  have pts: "coordinate x' \<and> coordinate (x' + 1) \<and> coordinate y' \<and> coordinate (y' + 1)"
    if "inside (rowAt [] R y') x'" for x' y'
    using assms(2) that by (auto simp: shape_points_def plane_def R_def)
  have "rowAt [] R y \<noteq> rowAt [] R (y - 1)" using rows_ok_start [OF ok, of y] assms(3) by (force simp: R_def)
  then obtain x where "inside (rowAt [] R y) x \<or> inside (rowAt [] R (y - 1)) x"
    using inside_inject canonical_at [OF c] by (metis segs_ok_def)
  then have "coordinate y" using pts [of y x] pts [of "y - 1" x] by auto
  moreover have "coordinate x" if "x \<in> set xs" for x
  proof -
    have "inside xs x \<or> inside xs (x - 1)"
      using that boundary_iff [of xs x] canonical_at [OF c, of y] by (auto simp: at segs_ok_def)
    then show ?thesis using pts [of y x] pts [of y "x - 1"] by (auto simp: at)
  qed
  ultimately show ?thesis by blast
qed

section \<open>The bounds of a shape\<close>

lemma segs_ok_ends: "segs_ok s \<Longrightarrow> x \<in> set s \<Longrightarrow> hd s \<le> x \<and> x \<le> last s"
  by (induction rule: segs_ok_induct) (auto intro: order_trans [OF _ less_imp_le])

lemma boundsLoop_spec:
  assumes "all = pre @ concat (map snd rows)" "rows \<noteq> [] \<Longrightarrow> snd (last rows) = []"
  shows "case boundsLoop all (spansFrom (length pre) rows) minX maxX of (m, M) \<Rightarrow>
     m \<in> insert minX (set all) \<and> m \<le> minX \<and> M \<in> insert maxX (set all) \<and> maxX \<le> M \<and>
     (\<forall>row\<in>set rows. snd row \<noteq> [] \<longrightarrow> m \<le> hd (snd row) \<and> last (snd row) \<le> M)"
  using assms
proof (induction rows arbitrary: pre minX maxX rule: induct_list012)
  case (3 row row' rows)
  obtain y xs y' xs' where rows: "row = (y, xs)" "row' = (y', xs')" by (metis surj_pair)
  have all: "all = (pre @ xs) @ concat (map snd (row' # rows))" using "3.prems" by (simp add: rows)
  note IH = "3.IH"(2) [OF all]
  show ?case
  proof (cases "length pre = length all")
    case True
    then have "xs = []" using "3.prems" by (simp add: rows)
    with True show ?thesis using IH [of minX maxX] "3.prems" by (simp add: rows Let_def)
  next
    case False
    let ?f = "all ! length pre" and ?l = "all ! (length pre + length xs - 1)"
    let ?m = "if ?f < minX then ?f else minX" and ?M = "if maxX < ?l then ?l else maxX"
    have len: "length pre < length all" using False all by simp
    have "length pre + length xs \<le> length all" by (simp add: all)
    then have "length pre + length xs - 1 < length all" using len by linarith
    then have mem: "?f \<in> set all" "?l \<in> set all" using len by simp_all
    have ends: "?f = hd xs" "?l = last xs" if "xs \<noteq> []"
      using that unfolding all by (cases xs rule: rev_cases; auto simp: nth_append hd_conv_nth)+
    show ?thesis using IH [of ?m ?M] "3.prems"(2) mem ends False
      by (auto simp: rows Let_def split: prod.splits if_splits)
  qed
qed auto

lemma mem_shape_points: "(x, y) \<in> shape_points s \<longleftrightarrow> inside (rowAt [] (shape_rows s) y) x"
  by (simp add: shape_points_def)

lemma row_points:
  assumes "shape_ok s" "(y, xs) \<in> set (shape_rows s)" "xs \<noteq> []"
  shows "(hd xs, y) \<in> shape_points s \<and> (last xs - 1, y) \<in> shape_points s"
proof -
  have c: "canonical (shape_rows s)" using assms(1) by (simp add: shape_ok_def)
  then have "rowAt [] (shape_rows s) y = xs" using assms(2) rowAt_mem by (simp add: canonical_def)
  moreover have "segs_ok xs" using c assms(2) by (force simp: canonical_def rows_ok_def)
  ultimately show ?thesis using inside_hd inside_last assms(3) by (simp add: mem_shape_points)
qed

lemma canonical_ends:
  assumes "canonical R" "R \<noteq> []"
  shows "rowAt [] R (fst (hd R)) \<noteq> [] \<and> rowAt [] R (fst (last R) - 1) \<noteq> [] \<and>
     (rowAt [] R y \<noteq> [] \<longrightarrow> fst (hd R) \<le> y \<and> y < fst (last R))"
proof -
  have ok: "rows_ok R" "chain [] R" "current R = []" using assms(1) by (auto simp: canonical_def)
  have hd: "rowAt [] R (fst (hd R)) = snd (hd R)" "rowAt [] R (fst (last R)) = snd (last R)"
    using ok(1) assms(2) by (auto intro!: rowAt_mem simp: hd_in_set last_in_set)
  have "snd (hd R) \<noteq> []" using canonical_suffix_ok assms by blast
  moreover have last: "snd (last R) = []" using ok(3) assms(2) by (simp add: current_def)
  moreover have "rowAt [] R (fst (last R)) \<noteq> rowAt [] R (fst (last R) - 1)"
    using rows_ok_start [OF ok(1,2), of "fst (last R)"] assms(2) by simp
  moreover have "rowAt [] R y = []" if "y < fst (hd R)"
    using rowAt_before_hd canonical_suffix_ok assms that by blast
  moreover have "rowAt [] R y = []" if "fst (last R) \<le> y"
  proof -
    have "\<forall>row\<in>set R. fst row \<le> fst (last R)"
      using ok(1) by (cases R rule: rev_cases) (auto simp: rows_ok_append less_imp_le)
    then show ?thesis using rowAt_above [of R y "[]"] that ok(3) by force
  qed
  ultimately show ?thesis using hd by (metis not_le)
qed

lemma shape_points_empty: "shape_ok s \<Longrightarrow> shape_points s = {} \<longleftrightarrow> s = emptyShape"
proof -
  assume s: "shape_ok s"
  have "shape_points emptyShape = {}" by (simp add: shape_points_def shape_rows_def emptyShape_def)
  then show ?thesis using shape_points_inject [OF s shape_ok_empty] by auto
qed

lemma rowAt_obtain:
  assumes "rowAt r R y \<noteq> r"
  obtains y' where "(y', rowAt r R y) \<in> set R"
  using assms by (induction r R y rule: rowAt.induct) (auto split: if_splits)

lemma shape_bounds_correct:
  assumes "shape_ok s" "shape_points s \<subseteq> plane"
  shows "is_bounds (shape_bounds s) (shape_points s)"
proof (cases "s = emptyShape")
  case True
  then show ?thesis
    by (simp add: is_bounds_def shape_bounds_def shape_isEmpty_def emptyShape_def shape_points_def shape_rows_def)
next
  case False
  define R where "R = shape_rows s"
  have s: "s = encode R" and c: "canonical R" using assms(1) by (auto simp: shape_ok_def R_def)
  then have ne: "R \<noteq> []" using False by auto
  let ?all = "concat (map snd R)"
  obtain m M where mM: "boundsLoop ?all (spansFrom 0 R) (2 ^ 31 - 1) (- (2 ^ 31)) = (m, M)" by force
  have last: "snd (last R) = []" using c ne by (auto simp: canonical_def current_def)
  have spec: "m \<in> insert (2 ^ 31 - 1) (set ?all)" "M \<in> insert (- (2 ^ 31)) (set ?all)"
    "\<forall>row\<in>set R. snd row \<noteq> [] \<longrightarrow> m \<le> hd (snd row) \<and> last (snd row) \<le> M"
    using boundsLoop_spec [of ?all "[]" R "2 ^ 31 - 1" "- (2 ^ 31)"] last mM by auto
  have b: "shape_bounds s = \<lparr>m_x = m, m_y = fst (hd R), m_width = M - m, m_height = fst (last R) - fst (hd R)\<rparr>"
    using ne mM by (simp add: s shape_bounds_def shape_isEmpty_def encode_def hd_spansFrom last_spansFrom Let_def)
  have rows: "coordinate x \<and> segs_ok (snd row)" if "row \<in> set R" "x \<in> set (snd row)" for row x
    using shape_coordinates [OF assms, of "fst row" "snd row"] that c by (auto simp: R_def canonical_def rows_ok_def)
  have snd_hd: "hd R \<in> set R" "snd (hd R) \<noteq> []" using canonical_suffix_ok [OF c ne] ne by auto
  have sorted: "hd (snd row) \<le> x \<and> x \<le> last (snd row)" if "row \<in> set R" "x \<in> set (snd row)" for row x
    using rows [OF that] that(2) by (simp add: segs_ok_ends)
  have "m \<noteq> 2 ^ 31 - 1" "M \<noteq> - (2 ^ 31)"
    using spec(3) snd_hd rows [OF snd_hd(1), of "hd (snd (hd R))"] rows [OF snd_hd(1), of "last (snd (hd R))"]
    by (force simp: coordinate_def)+
  then obtain r1 r2 where r: "r1 \<in> set R" "m \<in> set (snd r1)" "r2 \<in> set R" "M \<in> set (snd r2)"
    using spec(1,2) by auto
  then have "m = hd (snd r1)" "M = last (snd r2)" using spec(3) sorted by (metis empty_iff list.set(1) order_antisym)+
  moreover have "snd r1 \<noteq> []" "snd r2 \<noteq> []" using r by auto
  ultimately have xs: "(m, fst r1) \<in> shape_points s" "(M - 1, fst r2) \<in> shape_points s"
    using row_points [OF assms(1), of "fst r1" "snd r1"] row_points [OF assms(1), of "fst r2" "snd r2"] r
    by (auto simp: R_def)
  have "inside (rowAt [] R y) (hd (rowAt [] R y))" if "rowAt [] R y \<noteq> []" for y
    using inside_hd canonical_at [OF c] that by blast
  then have ys: "\<exists>x. (x, fst (hd R)) \<in> shape_points s" "\<exists>x. (x, fst (last R) - 1) \<in> shape_points s"
    using canonical_ends [OF c ne] by (auto simp: mem_shape_points R_def)
  have "m \<le> x \<and> x < M \<and> fst (hd R) \<le> y \<and> y < fst (last R)" if xy: "(x, y) \<in> shape_points s" for x y
  proof -
    have i: "inside (rowAt [] R y) x" using xy by (simp add: mem_shape_points R_def)
    then have "rowAt [] R y \<noteq> []" by auto
    moreover from this obtain y' where "(y', rowAt [] R y) \<in> set R" by (rule rowAt_obtain)
    ultimately show ?thesis
      using spec(3) inside_bounds [OF canonical_at [OF c] i] canonical_ends [OF c ne, of y] by fastforce
  qed
  then show ?thesis using xs ys by (auto simp: is_bounds_def b rect_points_def rect_maxX_def rect_maxY_def)
qed

end
