(* ===== verification/Region_Queries.thy ===== *)
theory Region_Queries
  imports Region_Bounds
begin

text \<open>
  The queries that read a canonical region: the scan for a point, the rectangles that the region
  is cut into, and their total area.
\<close>

section \<open>The scan for a point\<close>

lemma segmentScan_inside: "segs_ok s \<Longrightarrow> segmentScan s x \<longleftrightarrow> inside s x"
proof (induction rule: segs_ok_induct)
  case (pair a b s)
  then have "segs_ok (a # b # s)" by (simp add: segs_ok_pair)
  with pair show ?case using inside_first [of a b s x] by (auto simp: inside_pair dest: inside_later)
qed simp

lemma spanScan_inside:
  "suffix_ok (rowsFrom all it) \<Longrightarrow> spanScan all it px py \<longleftrightarrow> inside (rowAt [] (rowsFrom all it) py) px"
proof (induction all it px py rule: spanScan.induct)
  case (1 all span nxt it px py)
  let ?xs = "segmentsOf all (span # nxt # it)"
  have ok: "spanY span < spanY nxt" "segs_ok ?xs" "suffix_ok (rowsFrom all (nxt # it))"
    using 1(3) by (auto simp: suffix_ok_Cons2)
  consider (above) "py < spanY span" | (below) "spanY nxt \<le> py" | (here) "spanY span \<le> py" "py < spanY nxt"
    by linarith
  then show ?case
  proof cases
    case above then show ?thesis by simp
  next
    case below
    then show ?thesis using 1(1) ok by simp
  next
    case here
    then have "\<not> spanScan all (nxt # it) px py" using 1(2) ok segmentScan_inside [OF ok(2)] by (cases it) auto
    with here show ?thesis using segmentScan_inside [OF ok(2)] by simp
  qed
next
  case "2_1" then show ?case by (simp add: suffix_ok_def)
next
  case "2_2" then show ?case by simp
qed

lemma spanScan_shape:
  assumes "shape_ok s"
  shows "spanScan (m_segments s) (m_spans s) px py \<longleftrightarrow> (px, py) \<in> shape_points s"
proof (cases "m_spans s = []")
  case True
  then show ?thesis by (simp add: mem_shape_points shape_rows_def)
next
  case False
  then have "suffix_ok (rowsFrom (m_segments s) (m_spans s))"
    using canonical_suffix_ok [of "shape_rows s"] assms by (simp add: shape_ok_def shape_rows_def)
  then show ?thesis by (simp add: spanScan_inside mem_shape_points shape_rows_def)
qed

section \<open>The rectangles\<close>

text \<open>A tiling: rectangles with points, of which no two share one.\<close>

definition tiling :: "IntRect list \<Rightarrow> bool" where
  "tiling rs \<longleftrightarrow> (\<forall>r\<in>set rs. \<not> rect_isEmpty r) \<and> sorted_wrt (\<lambda>r r'. rect_points r \<inter> rect_points r' = {}) rs"

definition tiled :: "IntRect list \<Rightarrow> (int \<times> int) set" where
  "tiled rs = (\<Union>r\<in>set rs. rect_points r)"

lemma tiled_simps [simp]:
  "tiled [] = {}"
  "tiled (r # rs) = rect_points r \<union> tiled rs"
  "tiled (rs @ rs') = tiled rs \<union> tiled rs'"
  by (auto simp: tiled_def)

lemma tiling_Nil [simp]: "tiling []"
  by (simp add: tiling_def)

lemma tiling_Cons: "tiling (r # rs) \<longleftrightarrow> \<not> rect_isEmpty r \<and> rect_points r \<inter> tiled rs = {} \<and> tiling rs"
  by (auto simp: tiling_def tiled_def)

lemma tiling_append: "tiling (rs @ rs') \<longleftrightarrow> tiling rs \<and> tiling rs' \<and> tiled rs \<inter> tiled rs' = {}"
  by (induction rs) (auto simp: tiling_Cons)

lemma rect_points_rectOf: "rect_points (rectOf x y w h) = {(x', y'). x \<le> x' \<and> x' < x + w \<and> y \<le> y' \<and> y' < y + h}"
  by (auto simp: rectOf_def mem_rect_points)

lemma rectOf_isEmpty: "rect_isEmpty (rectOf x y w h) \<longleftrightarrow> w \<le> 0 \<or> h \<le> 0"
  by (simp add: rectOf_def rect_isEmpty_def)

lemma segmentRects_tile:
  assumes "segs_ok s" "0 < h"
  shows "tiling (segmentRects y h s) \<and> tiled (segmentRects y h s) = {(x', y'). inside s x' \<and> y \<le> y' \<and> y' < y + h}"
  using assms(1)
proof (induction rule: segs_ok_induct)
  case (pair a b s)
  then have "segs_ok (a # b # s)" by (simp add: segs_ok_pair)
  note p = inside_pair [OF this] inside_later [OF this]
  show ?case using pair assms(2)
    by (auto simp: tiling_Cons rectOf_isEmpty rect_points_rectOf p(1) dest: p(2))
qed simp

lemma spanRects_tile:
  "suffix_ok (rowsFrom all it) \<Longrightarrow>
     tiling (spanRects all it) \<and> tiled (spanRects all it) = {(x, y). inside (rowAt [] (rowsFrom all it) y) x}"
proof (induction all it rule: spanRects.induct)
  case (1 all span nxt it)
  let ?xs = "segmentsOf all (span # nxt # it)"
  have ok: "spanY span < spanY nxt" "segs_ok ?xs" "suffix_ok (rowsFrom all (nxt # it))"
    using 1(2) by (auto simp: suffix_ok_Cons2)
  have h: "0 < spanY nxt - spanY span" using ok(1) by simp
  have before: "\<not> inside (rowAt [] (rowsFrom all (nxt # it)) y) x" if "y < spanY nxt" for x y
    using rowAt_before_hd [OF ok(3)] that by simp
  show ?case
    using 1(1) [OF ok(3)] segmentRects_tile [OF ok(2) h, of "spanY span"] before ok(1)
    by (auto simp: tiling_append split: if_splits)
next
  case "2_1" then show ?case by (simp add: suffix_ok_def)
next
  case "2_2" then show ?case by simp
qed

lemma shape_rects_tile:
  assumes "shape_ok s"
  shows "tiling (spanRects (m_segments s) (m_spans s)) \<and> tiled (spanRects (m_segments s) (m_spans s)) = shape_points s"
proof (cases "m_spans s = []")
  case True
  then show ?thesis by (auto simp: mem_shape_points shape_rows_def)
next
  case False
  then have "suffix_ok (rowsFrom (m_segments s) (m_spans s))"
    using canonical_suffix_ok [of "shape_rows s"] assms by (simp add: shape_ok_def shape_rows_def)
  then show ?thesis using spanRects_tile by (auto simp: mem_shape_points shape_rows_def)
qed

section \<open>The area\<close>

lemma rect_points_product:
  "rect_points r = {m_x r ..< m_x r + m_width r} \<times> {m_y r ..< m_y r + m_height r}"
  by (auto simp: mem_rect_points)

lemma finite_rect_points [simp]: "finite (rect_points r)"
  by (simp add: rect_points_product)

lemma finite_tiled [simp]: "finite (tiled rs)"
  by (simp add: tiled_def)

lemma card_rect_points: "\<not> rect_isEmpty r \<Longrightarrow> int (card (rect_points r)) = m_width r * m_height r"
  by (simp add: rect_points_product card_cartesian_product rect_isEmpty_def)

lemma areaLoop_tiling:
  assumes "tiling rs" "card (tiled rs) < 2 ^ 31"
  shows "areaLoop rs acc = Done (acc + of_nat (card (tiled rs)))"
  using assms
proof (induction rs acc rule: areaLoop.induct)
  case (2 rect rects acc)
  have card: "card (tiled (rect # rects)) = card (rect_points rect) + card (tiled rects)"
    using "2.prems"(1) by (simp add: tiling_Cons card_Un_disjoint)
  have area: "int (card (rect_points rect)) = m_width rect * m_height rect"
    using "2.prems"(1) card_rect_points by (simp add: tiling_Cons)
  have "int (card (rect_points rect)) < 2 ^ 31" using "2.prems"(2) card by simp
  then have bound: "\<not> (m_width rect * m_height rect < - (2 ^ 31) \<or> 2 ^ 31 \<le> m_width rect * m_height rect)"
    using area by linarith
  have "word_of_int (m_width rect * m_height rect) = (of_nat (card (rect_points rect)) :: 32 word)"
    by (simp flip: area)
  moreover have "areaLoop rects (acc + word_of_int (m_width rect * m_height rect)) =
      Done (acc + word_of_int (m_width rect * m_height rect) + of_nat (card (tiled rects)))"
    using bound "2.prems" card by (intro "2.IH" [OF refl]) (simp_all add: tiling_Cons)
  ultimately show ?case using bound by (simp only: areaLoop.simps Let_def if_False card of_nat_add add.assoc)
qed simp

section \<open>Validity\<close>

lemma segmentsValid_ok: "segs_ok s \<Longrightarrow> segmentsValid s"
  by (induction rule: segs_ok_induct) auto

lemma spansValid_ok: "suffix_ok (rowsFrom all it) \<Longrightarrow> spansValid all it"
  by (induction all it rule: spansValid.induct) (auto simp: suffix_ok_Cons2 segmentsValid_ok)

lemma shape_isValid_ok: "shape_ok s \<Longrightarrow> shape_isValid s"
  using canonical_suffix_ok [of "shape_rows s"] spansValid_ok
  by (cases "m_spans s = []") (auto simp: shape_isValid_def shape_ok_def shape_rows_def)

end
