(* ===== verification/Region_Regions.thy ===== *)
theory Region_Regions
  imports Region_Queries
begin

text \<open>
  The operations of \<open>Region\<close> with their shortcuts by the bounds. A region is well-formed when its
  shape is canonical, its points lie in the plane, and its bounds are those of its points; an
  empty region may have any empty rectangle as bounds, since \<open>translate\<close> moves it.
\<close>

definition region_points :: "Region \<Rightarrow> (int \<times> int) set" where
  "region_points r = shape_points (m_shape r)"

definition bounds_ok :: "IntRect \<Rightarrow> (int \<times> int) set \<Rightarrow> bool" where
  "bounds_ok b A \<longleftrightarrow> (if A = {} then rect_isEmpty b else is_bounds b A)"

definition region_ok :: "Region \<Rightarrow> bool" where
  "region_ok r \<longleftrightarrow> shape_ok (m_shape r) \<and> region_points r \<subseteq> plane \<and> bounds_ok (m_bounds r) (region_points r)"

lemma bounds_ok_subset: "bounds_ok b A \<Longrightarrow> A \<subseteq> rect_points b"
  using is_bounds_subset by (auto simp: bounds_ok_def split: if_splits)

lemma bounds_ok_empty: "bounds_ok b A \<Longrightarrow> rect_isEmpty b \<longleftrightarrow> A = {}"
  using is_bounds_empty by (auto simp: bounds_ok_def split: if_splits)

lemma is_bounds_ok: "is_bounds b A \<Longrightarrow> bounds_ok b A"
  by (simp add: bounds_ok_def) (simp add: is_bounds_def)

lemma region_okI:
  "shape_ok s \<Longrightarrow> shape_points s \<subseteq> plane \<Longrightarrow> bounds_ok b (shape_points s) \<Longrightarrow>
     region_ok \<lparr>m_bounds = b, m_shape = s\<rparr> \<and> region_points \<lparr>m_bounds = b, m_shape = s\<rparr> = shape_points s"
  by (simp add: region_ok_def region_points_def)

lemma region_bounds: "region_ok r \<Longrightarrow> bounds_ok (m_bounds r) (region_points r)"
  by (simp add: region_ok_def)

lemma region_isEmpty_iff: "region_ok r \<Longrightarrow> region_isEmpty r \<longleftrightarrow> region_points r = {}"
  using bounds_ok_empty region_bounds by (simp add: region_isEmpty_def)

lemma region_subset_bounds: "region_ok r \<Longrightarrow> region_points r \<subseteq> rect_points (m_bounds r)"
  using bounds_ok_subset region_bounds by blast

section \<open>Constructors\<close>

lemma shape_points_emptyShape [simp]: "shape_points emptyShape = {}"
  by (simp add: shape_points_def shape_rows_def emptyShape_def)

lemma emptyRegion_ok: "region_ok emptyRegion \<and> region_points emptyRegion = {}"
  by (simp add: emptyRegion_def region_ok_def region_points_def bounds_ok_def)

lemma shapeOfRect_encode: "shapeOfRect r = encode [(m_y r, [m_x r, rect_maxX r]), (rect_maxY r, [])]"
  by (simp add: shapeOfRect_def encode_def appendEmptySpan_def appendSegment_def emptyShape_def)

lemma shapeOfRect_ok:
  assumes "\<not> rect_isEmpty r"
  shows "shape_ok (shapeOfRect r) \<and> shape_points (shapeOfRect r) = rect_points r"
proof
  have lt: "m_x r < rect_maxX r" "m_y r < rect_maxY r"
    using assms by (simp_all add: rect_isEmpty_def rect_maxX_def rect_maxY_def)
  then show "shape_ok (shapeOfRect r)"
    unfolding shape_ok_iff shapeOfRect_encode
    by (intro exI [of _ "[(m_y r, [m_x r, rect_maxX r]), (rect_maxY r, [])]"])
      (simp add: canonical_def current_def segs_ok_pair)
  have "segs_ok [m_x r, rect_maxX r]" using lt by (simp add: segs_ok_pair)
  then show "shape_points (shapeOfRect r) = rect_points r"
    using lt by (auto simp: shapeOfRect_encode shape_points_def inside_pair rect_points_def split: if_splits)
qed

lemma regionOf_ok:
  assumes "\<not> rect_isEmpty r" "rect_points r \<subseteq> plane"
  shows "region_ok (regionOf r) \<and> region_points (regionOf r) = rect_points r"
  using assms shapeOfRect_ok is_bounds_ok [OF is_bounds_rect]
  by (simp add: region_ok_def region_points_def regionOf_def)

lemma region_isRect_points:
  assumes "region_ok r" "region_isRect r"
  shows "region_points r = rect_points (m_bounds r)"
proof (cases "region_points r = {}")
  case True
  then show ?thesis using bounds_ok_empty [OF region_bounds [OF assms(1)]] rect_isEmpty_iff by auto
next
  case False
  define R where "R = shape_rows (m_shape r)"
  have c: "canonical R" and s: "m_shape r = encode R" using assms(1) by (auto simp: region_ok_def shape_ok_def R_def)
  have ne: "R \<noteq> []" using False by (auto simp: region_points_def shape_points_def R_def)
  have R: "suffix_ok R" "snd (hd R) \<noteq> []" using canonical_suffix_ok [OF c ne] by auto
  have len: "length R \<le> 2" "length (concat (map snd R)) \<le> 2"
    using assms(2) by (auto simp: region_isRect_def shape_isRect_def s encode_def)
  obtain y xs y' xs' R' where "R = (y, xs) # (y', xs') # R'"
    using R by (cases rule: rows_cases [OF R(1)]) auto
  with len(1) R(1) have R2: "R = [(y, xs), (y', [])]" "y < y'" "segs_ok xs" by (auto simp: suffix_ok_Cons2)
  obtain a b where xs: "xs = [a, b]"
    using R(2) len(2) R2(1,3) by (cases xs rule: remdups_adj.cases) (auto simp: segs_ok_def)
  have ab: "a < b" using R2(3) by (simp add: xs segs_ok_pair)
  let ?q = "rectOf a y (b - a) (y' - y)"
  have "region_points r = rect_points ?q"
    using R2 by (auto simp: region_points_def shape_points_def rect_points_rectOf xs inside_pair
        simp flip: R_def split: if_splits)
  moreover have "is_bounds ?q (rect_points ?q)" using ab R2(2) by (intro is_bounds_rect) (simp add: rectOf_isEmpty)
  ultimately have "m_bounds r = ?q"
    using is_bounds_unique region_bounds [OF assms(1)] False by (auto simp: bounds_ok_def)
  then show ?thesis using \<open>region_points r = rect_points ?q\<close> by simp
qed

section \<open>Comparisons\<close>

lemma region_containsPoint_iff:
  assumes "region_ok r"
  shows "region_containsPoint r px py \<longleftrightarrow> (px, py) \<in> region_points r"
  using region_subset_bounds [OF assms] spanScan_shape [of "m_shape r" px py] assms
  by (auto simp: region_containsPoint_def rect_containsPoint_iff region_points_def region_ok_def)

lemma region_intersects_iff:
  assumes "region_ok r" "region_ok s"
  shows "region_intersects r s \<longleftrightarrow> region_points r \<inter> region_points s \<noteq> {}"
  using region_subset_bounds [OF assms(1)] region_subset_bounds [OF assms(2)] assms
  by (auto simp: region_intersects_def rect_intersects_iff compareShapes_intersects region_points_def region_ok_def)

text \<open>The bounds decide first: the points of both touch all sides of their bounds.\<close>

lemma is_bounds_contains:
  assumes "is_bounds b A" "A \<noteq> {}" "A \<subseteq> rect_points c"
  shows "rect_contains c b"
proof -
  obtain y y' x x' where "(m_x b, y) \<in> A" "(rect_maxX b - 1, y') \<in> A" "(x, m_y b) \<in> A" "(x', rect_maxY b - 1) \<in> A"
    using assms(1,2) by (auto simp: is_bounds_def)
  then have "(m_x b, y) \<in> rect_points c" "(rect_maxX b - 1, y') \<in> rect_points c" "(x, m_y b) \<in> rect_points c"
    "(x', rect_maxY b - 1) \<in> rect_points c"
    using assms(3) by auto
  then show ?thesis by (simp add: rect_contains_def rect_points_def)
qed

lemma region_contains_iff:
  assumes "region_ok r" "region_ok s"
  shows "region_contains r s \<longleftrightarrow>
     (if region_points s = {} then rect_contains (m_bounds r) (m_bounds s) else region_points s \<subseteq> region_points r)"
proof -
  have cmp: "compareShapes CompareContains (m_shape r) (m_shape s) \<longleftrightarrow> region_points s \<subseteq> region_points r"
    using assms by (simp add: compareShapes_contains region_points_def region_ok_def)
  have "rect_contains (m_bounds r) (m_bounds s)" if "region_points s \<noteq> {}" "region_points s \<subseteq> region_points r"
    using that region_bounds [OF assms(2)] region_subset_bounds [OF assms(1)]
    by (intro is_bounds_contains [of _ "region_points s"]) (auto simp: bounds_ok_def)
  then show ?thesis by (auto simp: region_contains_def cmp)
qed

section \<open>The algebra\<close>

lemma region_fields: "r\<lparr>m_shape := s, m_bounds := b\<rparr> = \<lparr>m_bounds = b, m_shape = s\<rparr>"
  by (cases r) simp

lemma region_unite_ok:
  assumes "region_ok r" "region_ok s"
  shows "region_ok (region_unite r s) \<and> region_points (region_unite r s) = region_points r \<union> region_points s"
proof -
  let ?A = "region_points r" and ?B = "region_points s"
  have b: "bounds_ok (m_bounds r) ?A" "bounds_ok (m_bounds s) ?B" using assms region_bounds by auto
  consider (empty) "?B = {}"
    | (inner) "?B \<noteq> {}" "region_isRect r \<and> rect_contains (m_bounds r) (m_bounds s)"
    | (outer) "?B \<noteq> {}" "\<not> (region_isRect r \<and> rect_contains (m_bounds r) (m_bounds s))"
        "region_isRect s \<and> rect_contains (m_bounds s) (m_bounds r)"
    | (subset) "?B \<noteq> {}" "\<not> (region_isRect r \<and> rect_contains (m_bounds r) (m_bounds s))"
        "\<not> (region_isRect s \<and> rect_contains (m_bounds s) (m_bounds r))" "\<not> region_isRect r \<and> region_contains r s"
    | (merge) "?B \<noteq> {}" "\<not> (region_isRect r \<and> rect_contains (m_bounds r) (m_bounds s))"
        "\<not> (region_isRect s \<and> rect_contains (m_bounds s) (m_bounds r))" "\<not> (\<not> region_isRect r \<and> region_contains r s)"
    by blast
  then show ?thesis
  proof cases
    case empty
    then show ?thesis using assms by (simp add: region_unite_def region_isEmpty_iff)
  next
    case inner
    then have "?B \<subseteq> ?A"
      using region_isRect_points [OF assms(1)] region_subset_bounds [OF assms(2)] rect_contains_subset by blast
    with inner show ?thesis using assms by (auto simp: region_unite_def region_isEmpty_iff)
  next
    case outer
    then have "?A \<subseteq> ?B"
      using region_isRect_points [OF assms(2)] region_subset_bounds [OF assms(1)] rect_contains_subset by blast
    moreover have "\<not> region_isEmpty s" using outer(1) assms(2) by (simp add: region_isEmpty_iff)
    then have "region_unite r s = s"
      unfolding region_unite_def if_not_P [OF outer(2)] if_P [OF outer(3)] by simp
    ultimately show ?thesis using assms by auto
  next
    case subset
    then have "?B \<subseteq> ?A" using region_contains_iff [OF assms] by simp
    with subset show ?thesis using assms by (auto simp: region_unite_def region_isEmpty_iff)
  next
    case merge
    let ?u = "shapeOperation UnionOperation (m_shape r) (m_shape s)"
    have u: "shape_ok ?u" "shape_points ?u = ?A \<union> ?B"
      using shapeOperation_correct [of "m_shape r" "m_shape s" UnionOperation] assms
      by (simp_all add: region_ok_def region_points_def)
    have "is_bounds (rect_unite (m_bounds r) (m_bounds s)) (?A \<union> ?B)"
    proof (cases "?A = {}")
      case True
      then have "rect_unite (m_bounds r) (m_bounds s) = m_bounds s"
        using b merge(1) bounds_ok_empty by (auto simp: rect_unite_def)
      then show ?thesis using b merge(1) True by (simp add: bounds_ok_def)
    qed (use b merge(1) in \<open>intro is_bounds_unite; simp add: bounds_ok_def\<close>)
    then have "bounds_ok (rect_unite (m_bounds r) (m_bounds s)) (shape_points ?u)" using is_bounds_ok u(2) by simp
    moreover have "region_unite r s = \<lparr>m_bounds = rect_unite (m_bounds r) (m_bounds s), m_shape = ?u\<rparr>"
    proof -
      have "\<not> region_isEmpty s" using merge(1) assms(2) by (simp add: region_isEmpty_iff)
      then show ?thesis
        unfolding region_unite_def if_not_P [OF merge(2)] if_not_P [OF merge(3)] if_not_P [OF merge(4)]
        by (simp add: region_fields)
    qed
    ultimately show ?thesis using region_okI [OF u(1)] u(2) assms by (simp add: region_ok_def)
  qed
qed

lemma shape_result_ok:
  assumes "region_ok r" "region_ok s" "op \<noteq> UnionOperation"
  shows "region_ok (r\<lparr>m_shape := shapeOperation op (m_shape r) (m_shape s),
       m_bounds := shape_bounds (shapeOperation op (m_shape r) (m_shape s))\<rparr>) \<and>
     region_points (r\<lparr>m_shape := shapeOperation op (m_shape r) (m_shape s),
       m_bounds := shape_bounds (shapeOperation op (m_shape r) (m_shape s))\<rparr>) = opSet op (region_points r) (region_points s)"
proof -
  let ?u = "shapeOperation op (m_shape r) (m_shape s)"
  have u: "shape_ok ?u" "shape_points ?u = opSet op (region_points r) (region_points s)"
    using shapeOperation_correct [of "m_shape r" "m_shape s" op] assms
    by (simp_all add: region_ok_def region_points_def)
  moreover from u(2) have "shape_points ?u \<subseteq> plane" using assms by (cases op) (auto simp: region_ok_def)
  ultimately show ?thesis
    using region_okI [OF u(1) _ is_bounds_ok [OF shape_bounds_correct]] by (simp add: region_fields)
qed

lemma region_intersect_ok:
  assumes "region_ok r" "region_ok s"
  shows "region_ok (region_intersect r s) \<and> region_points (region_intersect r s) = region_points r \<inter> region_points s"
proof -
  have sub: "region_points r \<subseteq> rect_points (m_bounds r)" "region_points s \<subseteq> rect_points (m_bounds s)"
    using assms region_subset_bounds by auto
  consider (empty) "rect_isEmpty (m_bounds r)"
    | (apart) "\<not> rect_isEmpty (m_bounds r)" "\<not> rect_intersects (m_bounds r) (m_bounds s)"
    | (meet) "\<not> rect_isEmpty (m_bounds r)" "rect_intersects (m_bounds r) (m_bounds s)" by blast
  then show ?thesis
  proof cases
    case empty
    then show ?thesis using assms bounds_ok_empty [OF region_bounds [OF assms(1)]] by (simp add: region_intersect_def)
  next
    case apart
    then have "region_intersect r s = emptyRegion"
      by (simp add: region_intersect_def emptyRegion_def)
    then show ?thesis using apart sub emptyRegion_ok by (auto simp: rect_intersects_iff)
  next
    case meet
    then show ?thesis using shape_result_ok [OF assms, of IntersectOperation] by (simp add: region_intersect_def Let_def)
  qed
qed

lemma region_subtract_ok:
  assumes "region_ok r" "region_ok s"
  shows "region_ok (region_subtract r s) \<and> region_points (region_subtract r s) = region_points r - region_points s"
proof -
  have sub: "region_points r \<subseteq> rect_points (m_bounds r)" "region_points s \<subseteq> rect_points (m_bounds s)"
    using assms region_subset_bounds by auto
  consider (empty) "rect_isEmpty (m_bounds r) \<or> region_isEmpty s"
    | (apart) "\<not> rect_isEmpty (m_bounds r)" "\<not> region_isEmpty s" "\<not> rect_intersects (m_bounds r) (m_bounds s)"
    | (meet) "\<not> rect_isEmpty (m_bounds r)" "\<not> region_isEmpty s" "rect_intersects (m_bounds r) (m_bounds s)" by blast
  then show ?thesis
  proof cases
    case empty
    then show ?thesis using assms bounds_ok_empty [OF region_bounds [OF assms(1)]] region_isEmpty_iff [OF assms(2)]
      by (auto simp: region_subtract_def)
  next
    case apart
    then show ?thesis using assms sub by (auto simp: region_subtract_def rect_intersects_iff)
  next
    case meet
    then show ?thesis using shape_result_ok [OF assms, of SubtractOperation] by (simp add: region_subtract_def Let_def)
  qed
qed

section \<open>Translation\<close>

definition shift_row :: "int \<Rightarrow> int \<Rightarrow> row \<Rightarrow> row" where
  "shift_row dx dy row = (fst row + dy, map (\<lambda>x. x + dx) (snd row))"

lemma shape_translate_encode: "shape_translate (encode R) dx dy = encode (map (shift_row dx dy) R)"
proof -
  have "map (\<lambda>span. span\<lparr>spanY := spanY span + dy\<rparr>) (spansFrom n R) = spansFrom n (map (shift_row dx dy) R)" for n
    by (induction n R rule: spansFrom.induct) (simp_all add: shift_row_def)
  then show ?thesis by (simp add: shape_translate_def encode_def map_concat shift_row_def comp_def)
qed

lemma rowAt_shift: "rowAt (map (\<lambda>x. x + dx) r) (map (shift_row dx dy) R) y = map (\<lambda>x. x + dx) (rowAt r R (y - dy))"
  by (induction R arbitrary: r) (auto simp: shift_row_def)

lemma segs_ok_shift: "segs_ok s \<Longrightarrow> segs_ok (map (\<lambda>x. x + d) s)" for d :: int
  by (induction rule: segs_ok_induct) (auto simp: segs_ok_pair)

lemma canonical_shift: "canonical R \<Longrightarrow> canonical (map (shift_row dx dy) R)"
proof -
  assume R: "canonical R"
  have "inj (map (\<lambda>x. x + dx))" by (simp add: inj_on_def)
  then have "chain r R \<Longrightarrow> chain (map (\<lambda>x. x + dx) r) (map (shift_row dx dy) R)" for r
    by (induction r R rule: chain.induct) (auto simp: shift_row_def dest: injD)
  from this [of "[]"] have "chain [] (map (shift_row dx dy) R)" using R by (simp add: canonical_def)
  moreover have "rows_ok (map (shift_row dx dy) R)"
    using R by (auto simp: canonical_def rows_ok_def shift_row_def segs_ok_shift sorted_wrt_map)
  moreover have "current (map (shift_row dx dy) R) = []"
    using R by (auto simp: canonical_def current_def last_map shift_row_def split: if_splits)
  ultimately show ?thesis by (simp add: canonical_def)
qed

definition shift_points :: "int \<Rightarrow> int \<Rightarrow> (int \<times> int) set \<Rightarrow> (int \<times> int) set" where
  "shift_points dx dy A = {(x, y). (x - dx, y - dy) \<in> A}"

lemma shape_translate_ok:
  assumes "shape_ok s"
  shows "shape_ok (shape_translate s dx dy) \<and> shape_points (shape_translate s dx dy) = shift_points dx dy (shape_points s)"
proof -
  obtain R where R: "canonical R" "s = encode R" using assms by (auto simp: shape_ok_iff)
  have "shape_ok (shape_translate s dx dy)"
    using canonical_shift [OF R(1)] by (auto simp: shape_ok_iff R(2) shape_translate_encode)
  moreover have "inside (rowAt [] (map (shift_row dx dy) R) y) x \<longleftrightarrow> inside (rowAt [] R (y - dy)) (x - dx)" for x y
    using rowAt_shift [of dx "[]" dy R y] by (simp add: inside_shift)
  ultimately show ?thesis by (simp add: R(2) shape_translate_encode shape_points_def shift_points_def)
qed

lemma bounds_ok_shift: "bounds_ok b A \<Longrightarrow> bounds_ok (rect_move b dx dy) (shift_points dx dy A)"
proof -
  assume b: "bounds_ok b A"
  have mv: "m_x (rect_move b dx dy) = m_x b + dx" "m_y (rect_move b dx dy) = m_y b + dy"
    "rect_maxX (rect_move b dx dy) = rect_maxX b + dx" "rect_maxY (rect_move b dx dy) = rect_maxY b + dy"
    "rect_isEmpty (rect_move b dx dy) = rect_isEmpty b"
    by (simp_all add: rect_move_def rect_maxX_def rect_maxY_def rect_isEmpty_def)
  have mem: "(x + dx, y + dy) \<in> shift_points dx dy A \<longleftrightarrow> (x, y) \<in> A" for x y by (simp add: shift_points_def)
  show ?thesis
  proof (cases "A = {}")
    case True
    then show ?thesis using b mv by (simp add: bounds_ok_def shift_points_def)
  next
    case False
    then have tight: "A \<subseteq> rect_points b" "\<exists>y. (m_x b, y) \<in> A" "\<exists>y. (rect_maxX b - 1, y) \<in> A" "\<exists>x. (x, m_y b) \<in> A"
      "\<exists>x. (x, rect_maxY b - 1) \<in> A"
      using b by (auto simp: bounds_ok_def is_bounds_def)
    have "shift_points dx dy A \<subseteq> rect_points (rect_move b dx dy)"
      using tight(1) by (force simp: shift_points_def rect_points_def mv)
    moreover have "\<exists>y. (m_x b + dx, y) \<in> shift_points dx dy A" using tight(2) mem by blast
    moreover have "\<exists>y. (rect_maxX b + dx - 1, y) \<in> shift_points dx dy A"
      using tight(3) mem [of "rect_maxX b - 1"] by (auto simp: algebra_simps)
    moreover have "\<exists>x. (x, m_y b + dy) \<in> shift_points dx dy A" using tight(4) mem by blast
    moreover have "\<exists>x. (x, rect_maxY b + dy - 1) \<in> shift_points dx dy A"
      using tight(5) mem [of _ "rect_maxY b - 1"] by (auto simp: algebra_simps)
    ultimately have "is_bounds (rect_move b dx dy) (shift_points dx dy A)" by (auto simp: is_bounds_def mv)
    then show ?thesis by (rule is_bounds_ok)
  qed
qed

lemma region_translate_ok:
  assumes "region_ok r" "shift_points dx dy (region_points r) \<subseteq> plane"
  shows "region_ok (region_translate r dx dy) \<and>
     region_points (region_translate r dx dy) = shift_points dx dy (region_points r)"
  using assms shape_translate_ok [of "m_shape r" dx dy] bounds_ok_shift
  by (simp add: region_translate_def region_ok_def region_points_def)

section \<open>Equality\<close>

lemma span_eq_iff [simp]: "span_eq a b \<longleftrightarrow> a = b"
  by (cases a; cases b) (simp add: span_eq_def)

lemma shape_eq_iff [simp]: "shape_eq a b \<longleftrightarrow> a = b"
proof -
  have "span_eq = (=)" by (intro ext) simp
  then show ?thesis by (cases a; cases b) (auto simp: shape_eq_def list.rel_eq)
qed

lemma rect_eq_iff [simp]: "rect_eq a b \<longleftrightarrow> a = b"
  by (cases a; cases b) (simp add: rect_eq_def)

lemma region_eq_points:
  assumes "region_ok r" "region_ok s"
  shows "region_eq r s \<longleftrightarrow>
     region_points r = region_points s \<and> (region_points r = {} \<longrightarrow> m_bounds r = m_bounds s)"
proof -
  have "m_shape r = m_shape s \<longleftrightarrow> region_points r = region_points s"
    using shape_points_inject assms by (auto simp: region_ok_def region_points_def)
  moreover have "m_bounds r = m_bounds s" if "region_points r = region_points s" "region_points r \<noteq> {}"
    using that region_bounds [OF assms(1)] region_bounds [OF assms(2)] is_bounds_unique by (auto simp: bounds_ok_def)
  ultimately show ?thesis by (auto simp: region_eq_def)
qed

section \<open>Encoding a region\<close>

text \<open>
  What is encoded of a region is its segments and its spans; the decoder sets them in a new region
  and computes the bounds.
\<close>

lemma region_decoded:
  assumes "region_ok r" "\<not> region_isEmpty r"
  shows "region_updateBoundsFromShape
     (region_setShapeSpans (region_setShapeSegments emptyRegion (m_segments (m_shape r))) (m_spans (m_shape r))) = r"
proof -
  have "is_bounds (shape_bounds (m_shape r)) (region_points r)"
    using shape_bounds_correct assms by (simp add: region_ok_def region_points_def)
  moreover have "is_bounds (m_bounds r) (region_points r)"
    using region_bounds [OF assms(1)] region_isEmpty_iff assms by (simp add: bounds_ok_def)
  ultimately have "shape_bounds (m_shape r) = m_bounds r" by (rule is_bounds_unique)
  then show ?thesis
    by (cases r; cases "m_shape r") (simp add: region_updateBoundsFromShape_def region_setShapeSpans_def region_setShapeSegments_def
        emptyRegion_def emptyShape_def)
qed

lemma region_isValid_ok: "region_ok r \<Longrightarrow> region_isValid r"
  by (simp add: region_isValid_def region_ok_def shape_isValid_ok)

end
