(* ===== verification/Region_Theorems.thy ===== *)
theory Region_Theorems
  imports Region_Regions
begin

text \<open>
  The interface of the region algebra, its interpretation on the code's operations, and the
  properties of regions.
\<close>

section \<open>The interface\<close>

locale point_algebra =
  fixes pts :: "'r \<Rightarrow> 'p set"
    and ok :: "'r \<Rightarrow> bool"
    and join :: "'r \<Rightarrow> 'r \<Rightarrow> 'r"
    and meet :: "'r \<Rightarrow> 'r \<Rightarrow> 'r"
    and cut :: "'r \<Rightarrow> 'r \<Rightarrow> 'r"
  assumes join_law: "ok r \<Longrightarrow> ok s \<Longrightarrow> ok (join r s) \<and> pts (join r s) = pts r \<union> pts s"
    and meet_law: "ok r \<Longrightarrow> ok s \<Longrightarrow> ok (meet r s) \<and> pts (meet r s) = pts r \<inter> pts s"
    and cut_law: "ok r \<Longrightarrow> ok s \<Longrightarrow> ok (cut r s) \<and> pts (cut r s) = pts r - pts s"
begin

lemma fold_join: "ok r \<Longrightarrow> \<forall>s\<in>set rs. ok s \<Longrightarrow> ok (foldl join r rs) \<and> pts (foldl join r rs) = pts r \<union> (\<Union>s\<in>set rs. pts s)"
  by (induction rs arbitrary: r) (auto simp: join_law)

lemma fold_meet: "ok r \<Longrightarrow> \<forall>s\<in>set rs. ok s \<Longrightarrow> ok (foldl meet r rs) \<and> pts (foldl meet r rs) = pts r \<inter> (\<Inter>s\<in>set rs. pts s)"
  by (induction rs arbitrary: r) (auto simp: meet_law)

lemma fold_cut: "ok r \<Longrightarrow> \<forall>s\<in>set rs. ok s \<Longrightarrow> ok (foldl cut r rs) \<and> pts (foldl cut r rs) = pts r - (\<Union>s\<in>set rs. pts s)"
  by (induction rs arbitrary: r) (auto simp: cut_law)

lemma cut_join_meet: "ok r \<Longrightarrow> ok s \<Longrightarrow> pts (join (cut r s) (meet r s)) = pts r"
  using join_law [of "cut r s" "meet r s"] cut_law meet_law by auto

end

interpretation region: point_algebra region_points region_ok region_unite region_intersect region_subtract
  by unfold_locales (rule region_unite_ok region_intersect_ok region_subtract_ok; assumption)+

section \<open>The algebra of regions\<close>

text \<open>
  C28. Uniting, intersecting and subtracting well-formed regions are the operations on their sets
  of points, shortcuts by the bounds included, and the result is well-formed again: canonical
  shape, tight bounds. Translating moves the points, as long as they stay in the plane.
\<close>

theorem region_algebra:
  assumes "region_ok a" and "region_ok b"
  shows "region_ok (region_unite a b) \<and> region_points (region_unite a b) = region_points a \<union> region_points b \<and>
     region_ok (region_intersect a b) \<and> region_points (region_intersect a b) = region_points a \<inter> region_points b \<and>
     region_ok (region_subtract a b) \<and> region_points (region_subtract a b) = region_points a - region_points b \<and>
     (shift_points dx dy (region_points a) \<subseteq> plane \<longrightarrow>
        region_ok (region_translate a dx dy) \<and> region_points (region_translate a dx dy) = shift_points dx dy (region_points a))"
  using region.join_law [OF assms] region.meet_law [OF assms] region.cut_law [OF assms]
    region_translate_ok [OF assms(1)] by blast

lemma example_rects:
  "\<not> rect_isEmpty (rectOf 0 0 4 4) \<and> rect_points (rectOf 0 0 4 4) \<subseteq> plane"
  "\<not> rect_isEmpty (rectOf 2 2 4 4) \<and> rect_points (rectOf 2 2 4 4) \<subseteq> plane"
  by (auto simp: rectOf_isEmpty rect_points_rectOf plane_def coordinate_def)

lemma example_regions:
  "region_ok (regionOf (rectOf 0 0 4 4)) \<and> region_points (regionOf (rectOf 0 0 4 4)) = rect_points (rectOf 0 0 4 4)"
  "region_ok (regionOf (rectOf 2 2 4 4)) \<and> region_points (regionOf (rectOf 2 2 4 4)) = rect_points (rectOf 2 2 4 4)"
  using regionOf_ok example_rects by blast+

theorem region_algebra_witness:
  "region_points (region_subtract (regionOf (rectOf 0 0 4 4)) (regionOf (rectOf 2 2 4 4))) =
     rect_points (rectOf 0 0 4 4) - rect_points (rectOf 2 2 4 4) \<and>
   region_points (region_translate (regionOf (rectOf 0 0 4 4)) 5 0) = shift_points 5 0 (rect_points (rectOf 0 0 4 4))"
proof -
  have shift: "shift_points 5 0 (rect_points (rectOf 0 0 4 4)) \<subseteq> plane"
    by (auto simp: shift_points_def rect_points_rectOf plane_def coordinate_def)
  show ?thesis
    using region_algebra [of "regionOf (rectOf 0 0 4 4)" "regionOf (rectOf 2 2 4 4)" 5 0] example_regions shift by simp
qed

text \<open>
  C29. The queries of well-formed regions answer about their points: emptiness, membership of a
  point, intersection, inclusion (of a region that has points; an empty one is compared by its
  bounds alone), and equality, which a canonical shape decides. A well-formed region is valid, and
  decoding the segments and spans of one that has points gives it back.
\<close>

theorem region_queries:
  assumes "region_ok a" and "region_ok b"
  shows "(region_isEmpty a \<longleftrightarrow> region_points a = {}) \<and>
     (region_containsPoint a px py \<longleftrightarrow> (px, py) \<in> region_points a) \<and>
     (region_intersects a b \<longleftrightarrow> region_points a \<inter> region_points b \<noteq> {}) \<and>
     (region_contains a b \<longleftrightarrow>
        (if region_isEmpty b then rect_contains (m_bounds a) (m_bounds b) else region_points b \<subseteq> region_points a)) \<and>
     (region_eq a b \<longleftrightarrow> region_points a = region_points b \<and> (region_isEmpty a \<longrightarrow> rect_eq (m_bounds a) (m_bounds b))) \<and>
     region_isValid a \<and>
     (\<not> region_isEmpty a \<longrightarrow>
        region_updateBoundsFromShape
          (region_setShapeSpans (region_setShapeSegments emptyRegion (m_segments (m_shape a))) (m_spans (m_shape a))) = a)"
  using region_isValid_ok [OF assms(1)] region_decoded [OF assms(1)] region_isEmpty_iff [OF assms(1)] region_isEmpty_iff [OF assms(2)] region_containsPoint_iff [OF assms(1)]
    region_intersects_iff [OF assms] region_contains_iff [OF assms] region_eq_points [OF assms] by simp

theorem region_queries_witness:
  "region_containsPoint (regionOf (rectOf 0 0 4 4)) 3 3 \<and>
   region_intersects (regionOf (rectOf 0 0 4 4)) (regionOf (rectOf 2 2 4 4)) \<and>
   \<not> region_contains (regionOf (rectOf 0 0 4 4)) (regionOf (rectOf 2 2 4 4))"
proof -
  have "(3, 3) \<in> rect_points (rectOf 0 0 4 4)" "(3, 3) \<in> rect_points (rectOf 2 2 4 4)"
    "(5, 5) \<in> rect_points (rectOf 2 2 4 4)" "(5, 5) \<notin> rect_points (rectOf 0 0 4 4)"
    by (simp_all add: rect_points_rectOf)
  moreover have "\<not> region_isEmpty (regionOf (rectOf 2 2 4 4))"
    by (simp add: region_isEmpty_def regionOf_def rectOf_isEmpty)
  ultimately show ?thesis
    using region_queries [of "regionOf (rectOf 0 0 4 4)" "regionOf (rectOf 2 2 4 4)" 3 3] example_regions by auto
qed

text \<open>
  C30. A region united from rectangles of the plane is cut by \<open>rects\<close> into rectangles with points,
  of which no two overlap and which cover exactly what was united; \<open>totalArea\<close> is their number of
  points, when that fits 31 bits.
\<close>

theorem united_rects:
  assumes "\<forall>rect\<in>set rs. \<not> rect_isEmpty rect \<and> rect_points rect \<subseteq> plane"
  shows "tiling (region_rects (foldl region_unite emptyRegion (map regionOf rs))) \<and>
     tiled (region_rects (foldl region_unite emptyRegion (map regionOf rs))) = (\<Union>rect\<in>set rs. rect_points rect) \<and>
     (card (\<Union>rect\<in>set rs. rect_points rect) < 2 ^ 31 \<longrightarrow>
        region_totalArea (foldl region_unite emptyRegion (map regionOf rs)) =
          Done (of_nat (card (\<Union>rect\<in>set rs. rect_points rect))))"
proof -
  let ?r = "foldl region_unite emptyRegion (map regionOf rs)" and ?A = "\<Union>rect\<in>set rs. rect_points rect"
  have "\<forall>s\<in>set (map regionOf rs). region_ok s" using assms regionOf_ok by auto
  then have r: "region_ok ?r" "region_points ?r = (\<Union>s\<in>set (map regionOf rs). region_points s)"
    using region.fold_join [of emptyRegion "map regionOf rs"] emptyRegion_ok by auto
  have "(\<Union>s\<in>set (map regionOf rs). region_points s) = ?A" using assms regionOf_ok by auto
  then have tile: "tiling (region_rects ?r)" "tiled (region_rects ?r) = ?A"
    using shape_rects_tile [of "m_shape ?r"] r by (auto simp: region_rects_def region_ok_def region_points_def)
  then show ?thesis using areaLoop_tiling [of "region_rects ?r" 0] by (simp add: region_totalArea_def)
qed

theorem united_rects_witness:
  "tiled (region_rects (foldl region_unite emptyRegion (map regionOf [rectOf 0 0 4 4, rectOf 2 2 4 4]))) =
     rect_points (rectOf 0 0 4 4) \<union> rect_points (rectOf 2 2 4 4)"
  using united_rects [of "[rectOf 0 0 4 4, rectOf 2 2 4 4]"] example_rects by simp

section \<open>Outside the invariant\<close>

text \<open>The empty region is a subset of any region, but \<open>contains\<close> compares its bounds first.\<close>

lemma contains_empty_region: "\<not> region_contains (regionOf (rectOf 10 10 5 5)) emptyRegion"
  by code_simp

text \<open>
  The region of an empty rectangle keeps a span and two segments; uniting something with it
  carries them along, beyond the bounds.
\<close>

lemma unite_region_of_empty_rect:
  "region_rects (region_unite (regionOf (rectOf 100 100 0 0)) (regionOf (rectOf 0 0 10 10))) =
     [rectOf 0 0 10 10, rectOf 100 100 0 0] \<and>
   m_bounds (region_unite (regionOf (rectOf 100 100 0 0)) (regionOf (rectOf 0 0 10 10))) = rectOf 0 0 10 10"
  by code_simp

end
