(* ===== verification/WTF_UTF8.thy ===== *)
theory WTF_UTF8
  imports Prelude
begin

text \<open>
  The conversions between UTF-8 and UTF-16 of WTF: \<open>wtf/unicode/UTF8.cpp\<close>, \<open>String::fromUTF8\<close>
  (\<open>wtf/text/WTFString.cpp\<close>) and \<open>StringImpl::utf8\<close> (\<open>wtf/text/StringImpl.cpp\<close>). A conversion reads from
  the front of the source and writes at the end of the target, whose capacity is a number of units;
  it answers what is left of the one and what has been written of the other.
\<close>

unbundle bit_operations_syntax

section \<open>Types\<close>

type_synonym UChar32 = "32 word"

datatype ConversionResult = conversionOK | sourceExhausted | targetExhausted | sourceIllegal

datatype ConversionMode =
  LenientConversion | StrictConversion | StrictConversionReplacingUnpairedSurrogatesWithFFFD

text \<open>A string holds 8-bit or 16-bit characters.\<close>

datatype String = String8 "byte list" | String16 "uchar list"

fun characters :: "String \<Rightarrow> uchar list" where
  "characters (String8 cs) = map ucast cs"
| "characters (String16 cs) = cs"

definition replacementCharacter :: uchar where "replacementCharacter = 0xFFFD"

section \<open>From UTF-8\<close>

definition isASCII :: "byte \<Rightarrow> bool" where
  "isASCII c \<longleftrightarrow> c AND NOT 0x7F = 0"

definition inlineUTF8SequenceLengthNonASCII :: "byte \<Rightarrow> nat" where
  "inlineUTF8SequenceLengthNonASCII b0 =
     (if b0 AND 0xC0 \<noteq> 0xC0 then 0
      else if b0 AND 0xE0 = 0xC0 then 2
      else if b0 AND 0xF0 = 0xE0 then 3
      else if b0 AND 0xF8 = 0xF0 then 4
      else 0)"

definition inlineUTF8SequenceLength :: "byte \<Rightarrow> nat" where
  "inlineUTF8SequenceLength b0 = (if isASCII b0 then 1 else inlineUTF8SequenceLengthNonASCII b0)"

text \<open>The cases of \<open>isLegalUTF8\<close> fall through, from the last byte to the first.\<close>

definition isLegalUTF8 :: "byte list \<Rightarrow> nat \<Rightarrow> bool" where
  "isLegalUTF8 source n \<longleftrightarrow>
     (if n < 1 \<or> 4 < n then False
      else if n = 4 \<and> (source ! 3 < 0x80 \<or> source ! 3 > 0xBF) then False
      else if 3 \<le> n \<and> (source ! 2 < 0x80 \<or> source ! 2 > 0xBF) then False
      else if 2 \<le> n \<and> source ! 1 > 0xBF then False
      else if 2 \<le> n \<and>
        (if source ! 0 = 0xE0 then source ! 1 < 0xA0
         else if source ! 0 = 0xED then source ! 1 > 0x9F
         else if source ! 0 = 0xF0 then source ! 1 < 0x90
         else if source ! 0 = 0xF4 then source ! 1 > 0x8F
         else source ! 1 < 0x80) then False
      else if 0x80 \<le> source ! 0 \<and> source ! 0 < 0xC2 then False
      else if source ! 0 > 0xF4 then False
      else True)"

definition offsetsFromUTF8 :: "UChar32 list" where
  "offsetsFromUTF8 = [0x00000000, 0x00003080, 0x000E2080, 0x03C82080, 0xFA082080, 0x82082080]"

fun readUTF8Loop :: "byte list \<Rightarrow> nat \<Rightarrow> UChar32 \<Rightarrow> UChar32" where
  "readUTF8Loop source 0 character = character"
| "readUTF8Loop source (Suc 0) character = character + ucast (hd source)"
| "readUTF8Loop source (Suc n) character = readUTF8Loop (tl source) n (push_bit 6 (character + ucast (hd source)))"

definition readUTF8Sequence :: "byte list \<Rightarrow> nat \<Rightarrow> UChar32" where
  "readUTF8Sequence source n = readUTF8Loop source n 0 - offsetsFromUTF8 ! (n - 1)"

text \<open>The macros of ICU, on unsigned values.\<close>

definition is_BMP :: "UChar32 \<Rightarrow> bool" where "is_BMP c \<longleftrightarrow> c \<le> 0xFFFF"
definition is_SURROGATE :: "UChar32 \<Rightarrow> bool" where "is_SURROGATE c \<longleftrightarrow> c AND 0xFFFFF800 = 0xD800"
definition is_SUPPLEMENTARY :: "UChar32 \<Rightarrow> bool" where "is_SUPPLEMENTARY c \<longleftrightarrow> c - 0x10000 \<le> 0xFFFFF"
definition LEAD :: "UChar32 \<Rightarrow> uchar" where "LEAD c = ucast (drop_bit 10 c + 0xD7C0)"
definition TRAIL :: "UChar32 \<Rightarrow> uchar" where "TRAIL c = ucast ((c AND 0x3FF) OR 0xDC00)"

text \<open>The result, the rest of the source, the target and \<open>orAllData\<close>.\<close>

function convertUTF8ToUTF16 ::
  "bool \<Rightarrow> nat \<Rightarrow> byte list \<Rightarrow> uchar list \<Rightarrow> uchar \<Rightarrow> ConversionResult \<times> byte list \<times> uchar list \<times> uchar" where
  "convertUTF8ToUTF16 strict room source target orAllData =
     (if source = [] then (conversionOK, source, target, orAllData)
      else
        let n = inlineUTF8SequenceLength (hd source)
        in if length source < n then (sourceExhausted, source, target, orAllData)
           else if \<not> isLegalUTF8 source n then (sourceIllegal, source, target, orAllData)
           else
             let character = readUTF8Sequence source n; rest = drop n source
             in if room \<le> length target then (targetExhausted, source, target, orAllData)
                else if is_BMP character then
                  if is_SURROGATE character then
                    if strict then (sourceIllegal, source, target, orAllData)
                    else convertUTF8ToUTF16 strict room rest (target @ [replacementCharacter]) (orAllData OR replacementCharacter)
                  else convertUTF8ToUTF16 strict room rest (target @ [ucast character]) (orAllData OR ucast character)
                else if is_SUPPLEMENTARY character then
                  if room \<le> length target + 1 then (targetExhausted, source, target, orAllData)
                  else convertUTF8ToUTF16 strict room rest (target @ [LEAD character, TRAIL character]) 0xFFFF
                else if strict then (sourceIllegal, source, target, orAllData)
                else convertUTF8ToUTF16 strict room rest (target @ [replacementCharacter]) (orAllData OR replacementCharacter))"
  by pat_completeness auto
termination
  by (relation "measure (\<lambda>(strict, room, source, target, orAllData). length source)") (auto simp: isLegalUTF8_def split: if_splits)

declare convertUTF8ToUTF16.simps [simp del]

text \<open>
  \<open>String::fromUTF8\<close> of a pointer that is not null, for at most \<open>UINT_MAX\<close> bytes: with more it crashes. That of the data of a \<open>Vector\<close> gets a null pointer
  when the vector is empty, and answers a null string.
\<close>

definition String_fromUTF8 :: "byte list \<Rightarrow> String option" where
  "String_fromUTF8 bytes =
     (if bytes = [] then Some (String8 [])
      else if list_all isASCII bytes then Some (String8 bytes)
      else
        case convertUTF8ToUTF16 True (length bytes) bytes [] 0 of
          (result, rest, units, ored) \<Rightarrow> if result \<noteq> conversionOK then None else Some (String16 units))"

definition String_fromUTF8_data :: "byte list \<Rightarrow> String option" where
  "String_fromUTF8_data bytes = (if bytes = [] then None else String_fromUTF8 bytes)"

section \<open>To UTF-8\<close>

definition firstByteMark :: "UChar32 list" where
  "firstByteMark = [0x00, 0x00, 0xC0, 0xE0, 0xF0, 0xF8, 0xFC]"

text \<open>The bytes of a character, written from the last to the first.\<close>

fun writeUTF8Loop :: "nat \<Rightarrow> nat \<Rightarrow> UChar32 \<Rightarrow> byte list \<Rightarrow> byte list" where
  "writeUTF8Loop bytesToWrite 0 ch bytes = bytes"
| "writeUTF8Loop bytesToWrite (Suc 0) ch bytes = ucast (ch OR firstByteMark ! bytesToWrite) # bytes"
| "writeUTF8Loop bytesToWrite (Suc n) ch bytes =
     writeUTF8Loop bytesToWrite n (drop_bit 6 ch) (ucast ((ch OR 0x80) AND 0xBF) # bytes)"

function convertLatin1ToUTF8 :: "nat \<Rightarrow> byte list \<Rightarrow> byte list \<Rightarrow> ConversionResult \<times> byte list \<times> byte list" where
  "convertLatin1ToUTF8 room source target =
     (case source of
        [] \<Rightarrow> (conversionOK, source, target)
      | c # rest \<Rightarrow>
          let ch = ucast c; bytesToWrite = (if ch < 0x80 then 1 else 2)
          in if length target + bytesToWrite > room then (targetExhausted, source, target)
             else convertLatin1ToUTF8 room rest (target @ writeUTF8Loop bytesToWrite bytesToWrite ch []))"
  by pat_completeness auto
termination by (relation "measure (\<lambda>(room, source, target). length source)") auto

declare convertLatin1ToUTF8.simps [simp del]

text \<open>What the loop of \<open>convertUTF16ToUTF8\<close> reads: a character and the rest, or why it stops.\<close>

definition readUTF16 :: "bool \<Rightarrow> uchar list \<Rightarrow> ConversionResult + (UChar32 \<times> uchar list)" where
  "readUTF16 strict source =
     (let ch = ucast (hd source) :: UChar32; rest = tl source
      in if 0xD800 \<le> ch \<and> ch \<le> 0xDBFF then
           if rest \<noteq> [] then
             let ch2 = ucast (hd rest) :: UChar32
             in if 0xDC00 \<le> ch2 \<and> ch2 \<le> 0xDFFF then
                  Inr (push_bit 10 (ch - 0xD800) + (ch2 - 0xDC00) + 0x0010000, tl rest)
                else if strict then Inl sourceIllegal
                else Inr (ch, rest)
           else Inl sourceExhausted
         else if strict \<and> 0xDC00 \<le> ch \<and> ch \<le> 0xDFFF then Inl sourceIllegal
         else Inr (ch, rest))"

definition bytesToWriteFor :: "UChar32 \<Rightarrow> nat \<times> UChar32" where
  "bytesToWriteFor ch =
     (if ch < 0x80 then (1, ch)
      else if ch < 0x800 then (2, ch)
      else if ch < 0x10000 then (3, ch)
      else if ch < 0x110000 then (4, ch)
      else (3, ucast replacementCharacter))"

lemma readUTF16_rest: "source \<noteq> [] \<Longrightarrow> readUTF16 strict source = Inr (ch, rest) \<Longrightarrow> length rest < length source"
  by (cases source; cases "tl source") (auto simp: readUTF16_def Let_def split: if_splits)

function convertUTF16ToUTF8 ::
  "bool \<Rightarrow> nat \<Rightarrow> uchar list \<Rightarrow> byte list \<Rightarrow> ConversionResult \<times> uchar list \<times> byte list" where
  "convertUTF16ToUTF8 strict room source target =
     (if source = [] then (conversionOK, source, target)
      else
        case readUTF16 strict source of
          Inl result \<Rightarrow> (result, source, target)
        | Inr (ch, rest) \<Rightarrow>
            let (bytesToWrite, ch) = bytesToWriteFor ch
            in if length target + bytesToWrite > room then (targetExhausted, source, target)
               else convertUTF16ToUTF8 strict room rest (target @ writeUTF8Loop bytesToWrite bytesToWrite ch []))"
  by pat_completeness auto

termination
  by (relation "measure (\<lambda>(strict, room, source, target). length source)") (auto dest: readUTF16_rest)

declare convertUTF16ToUTF8.simps [simp del]

definition putUTF8Triple :: "uchar \<Rightarrow> byte list" where
  "putUTF8Triple ch =
     [ucast ((drop_bit 12 ch AND 0x0F) OR 0xE0), ucast ((drop_bit 6 ch AND 0x3F) OR 0x80), ucast ((ch AND 0x3F) OR 0x80)]"

lemma convertUTF16_rest:
  "convertUTF16ToUTF8 strict room source target = (result, rest, target') \<Longrightarrow>
     length rest \<le> length source \<and> (rest = [] \<longleftrightarrow> result = conversionOK)"
proof (induction strict room source target rule: convertUTF16ToUTF8.induct)
  case (1 strict room source target)
  note eq = convertUTF16ToUTF8.simps [of strict room source target]
  show ?case
  proof (cases "source = []")
    case False
    show ?thesis
    proof (cases "readUTF16 strict source")
      case (Inl r)
      then have "r \<noteq> conversionOK" by (auto simp: readUTF16_def Let_def split: if_splits)
      then show ?thesis using 1(2) False Inl by (auto simp: eq)
    next
      case (Inr p)
      then obtain ch rest' where p: "readUTF16 strict source = Inr (ch, rest')" by (cases p) auto
      obtain n w where w: "bytesToWriteFor ch = (n, w)" by (cases "bytesToWriteFor ch")
      show ?thesis
      proof (cases "length target + n > room")
        case True
        then show ?thesis using 1(2) False p w by (auto simp: eq)
      next
        case Fits: False
        then have "length rest \<le> length rest' \<and> (rest = [] \<longleftrightarrow> result = conversionOK)"
          using 1 False p w by (auto simp: eq)
        then show ?thesis using readUTF16_rest [OF False p] by simp
      qed
    qed
  qed (use 1(2) convertUTF16ToUTF8.simps [of strict room "[]" target] in simp)
qed

text \<open>
  The loop of \<open>utf8Impl\<close> that replaces unpaired surrogates. Writing three bytes past the end of the
  buffer would be undefined.
\<close>

function replacingLoop :: "nat \<Rightarrow> uchar list \<Rightarrow> byte list \<Rightarrow> byte list outcome" where
  "replacingLoop room source target =
     (if source = [] then Done target
      else
        case convertUTF16ToUTF8 True room source target of
          (result, rest, target') \<Rightarrow>
            if result \<noteq> conversionOK then
              if length target' + 3 > room then Undef
              else replacingLoop room (tl rest) (target' @ putUTF8Triple replacementCharacter)
            else replacingLoop room rest target')"
  by pat_completeness auto
termination
  by (relation "measure (\<lambda>(room, source, target). length source)")
    (auto dest!: sym [of _ "convertUTF16ToUTF8 _ _ _ _"] convertUTF16_rest simp: neq_Nil_conv)

declare replacingLoop.simps [simp del]

definition utf8Impl :: "uchar list \<Rightarrow> nat \<Rightarrow> ConversionMode \<Rightarrow> byte list outcome" where
  "utf8Impl source room mode =
     (if mode = StrictConversionReplacingUnpairedSurrogatesWithFFFD then replacingLoop room source []
      else
        let strict = (mode = StrictConversion)
        in case convertUTF16ToUTF8 strict room source [] of
             (result, rest, target) \<Rightarrow>
               if result = sourceIllegal then Null
               else if result = sourceExhausted then
                 if strict then Null
                 else if length target + 3 > room then Undef
                 else Done (target @ putUTF8Triple (hd rest))
               else Done target)"

text \<open>\<open>StringImpl::utf8\<close>; a null \<open>CString\<close> is \<open>Null\<close>.\<close>

definition StringImpl_utf8 :: "ConversionMode \<Rightarrow> String \<Rightarrow> byte list outcome" where
  "StringImpl_utf8 mode s =
     (let n = length (characters s)
      in if n = 0 then Done []
         else if n > 0xFFFFFFFF div 3 then Null
         else
           case s of
             String8 cs \<Rightarrow> (case convertLatin1ToUTF8 (n * 3) cs [] of (result, rest, target) \<Rightarrow> Done target)
           | String16 cs \<Rightarrow> utf8Impl cs (n * 3) mode)"

section \<open>The encodings\<close>

text \<open>UTF-8 and UTF-16 of a code point, in numbers.\<close>

definition scalar :: "nat \<Rightarrow> bool" where
  "scalar c \<longleftrightarrow> c < 0xD800 \<or> 0xE000 \<le> c \<and> c \<le> 0x10FFFF"

definition utf8Bytes :: "nat \<Rightarrow> byte list" where
  "utf8Bytes c =
     map of_nat
       (if c < 0x80 then [c]
        else if c < 0x800 then [0xC0 + c div 64, 0x80 + c mod 64]
        else if c < 0x10000 then [0xE0 + c div 4096, 0x80 + c div 64 mod 64, 0x80 + c mod 64]
        else [0xF0 + c div 262144, 0x80 + c div 4096 mod 64, 0x80 + c div 64 mod 64, 0x80 + c mod 64])"

definition utf16Units :: "nat \<Rightarrow> uchar list" where
  "utf16Units c =
     map of_nat (if c < 0x10000 then [c] else [0xD800 + (c - 0x10000) div 1024, 0xDC00 + (c - 0x10000) mod 1024])"

lemma every_byte: "list_all P (map of_nat [0..<256]) \<Longrightarrow> P (b :: byte)"
proof -
  assume all: "list_all P (map of_nat [0..<256])"
  have "unat b < 256" using unsigned_less [of b] by simp
  moreover have "\<forall>n<256. P (of_nat n)" using all by (simp add: list_all_iff)
  ultimately have "P (of_nat (unat b))" by blast
  then show "P b" by simp
qed

lemma isASCII_iff: "isASCII b \<longleftrightarrow> b < 0x80"
  by (rule every_byte [of "\<lambda>b. isASCII b \<longleftrightarrow> b < 0x80"]) code_simp

lemma sequenceLength:
  "inlineUTF8SequenceLength b =
     (if b < 0x80 then 1 else if b < 0xC0 then 0 else if b < 0xE0 then 2 else if b < 0xF0 then 3 else if b < 0xF8 then 4 else 0)"
  by (rule every_byte) code_simp

end
