(* ===== verification/UTF8_Decoding.thy ===== *)
theory UTF8_Decoding
  imports WTF_UTF8
begin

text \<open>
  Decoding UTF-8: \<open>utf8_decodes\<close> (the encoding of a scalar value is legal and reads as that value),
  \<open>legal_scalar\<close> (what \<open>isLegalUTF8\<close> accepts encodes a scalar value, where it looks at the second byte
  at all), and by induction along the text \<open>fromUTF8_encoded\<close> and \<open>fromUTF8_only\<close>.
\<close>

unbundle bit_operations_syntax

section \<open>Sequences of bytes\<close>

lemma unat_eq_numeral: "(b :: byte) = numeral k \<longleftrightarrow> unat b = unat (numeral k :: byte)"
  by (rule word_eq_iff_unsigned)

lemmas byte_nat = word_less_nat_alt word_le_nat_alt unat_eq_numeral

lemma numeral_4_eq_4: "4 = Suc (Suc (Suc (Suc 0)))"
  by simp

lemma read1: "readUTF8Sequence (a # s) 1 = of_nat (unat a)"
  by (simp add: readUTF8Sequence_def offsetsFromUTF8_def)

lemma word_of_nat_minus: "m \<le> n \<Longrightarrow> (of_nat n :: UChar32) - of_nat m = of_nat (n - m)"
  by (simp add: of_nat_diff)

lemma read2:
  assumes "0x3080 \<le> unat a * 64 + unat b"
  shows "readUTF8Sequence (a # b # s) 2 = of_nat (unat a * 64 + unat b - 0x3080)"
proof -
  have "readUTF8Sequence (a # b # s) 2 = (of_nat (unat a * 64 + unat b) :: UChar32) - of_nat 0x3080"
    by (simp add: readUTF8Sequence_def offsetsFromUTF8_def numeral_2_eq_2 push_bit_eq_mult)
  then show ?thesis using word_of_nat_minus [OF assms] by metis
qed

lemma read3:
  assumes "0xE2080 \<le> (unat a * 64 + unat b) * 64 + unat c"
  shows "readUTF8Sequence (a # b # c # s) 3 = of_nat ((unat a * 64 + unat b) * 64 + unat c - 0xE2080)"
proof -
  have "readUTF8Sequence (a # b # c # s) 3 = (of_nat ((unat a * 64 + unat b) * 64 + unat c) :: UChar32) - of_nat 0xE2080"
    by (simp add: readUTF8Sequence_def offsetsFromUTF8_def numeral_3_eq_3 push_bit_eq_mult)
  then show ?thesis using word_of_nat_minus [OF assms] by metis
qed

lemma read4:
  assumes "0x3C82080 \<le> ((unat a * 64 + unat b) * 64 + unat c) * 64 + unat d"
  shows "readUTF8Sequence (a # b # c # d # s) 4 = of_nat (((unat a * 64 + unat b) * 64 + unat c) * 64 + unat d - 0x3C82080)"
proof -
  have "readUTF8Sequence (a # b # c # d # s) (Suc (Suc (Suc (Suc 0)))) =
      (of_nat (((unat a * 64 + unat b) * 64 + unat c) * 64 + unat d) :: UChar32) - of_nat 0x3C82080"
    by (simp add: readUTF8Sequence_def offsetsFromUTF8_def push_bit_eq_mult)
  then show ?thesis using word_of_nat_minus [OF assms] by (metis numeral_4_eq_4)
qed

lemma legal1: "isLegalUTF8 (a # s) 1 \<longleftrightarrow> (unat a < 0x80 \<or> 0xC2 \<le> unat a \<and> unat a \<le> 0xF4)"
  by (auto simp: isLegalUTF8_def byte_nat)

lemma legal2:
  "isLegalUTF8 (a # b # s) 2 \<longleftrightarrow>
     unat b \<le> 0xBF \<and>
     (if unat a = 0xE0 then 0xA0 \<le> unat b
      else if unat a = 0xED then unat b \<le> 0x9F
      else if unat a = 0xF0 then 0x90 \<le> unat b
      else if unat a = 0xF4 then unat b \<le> 0x8F
      else 0x80 \<le> unat b) \<and> (unat a < 0x80 \<or> 0xC2 \<le> unat a \<and> unat a \<le> 0xF4)"
  by (auto simp: isLegalUTF8_def byte_nat)

lemma legal3:
  "isLegalUTF8 (a # b # c # s) 3 \<longleftrightarrow> 0x80 \<le> unat c \<and> unat c \<le> 0xBF \<and> isLegalUTF8 (a # b # c # s) 2"
  by (auto simp: isLegalUTF8_def byte_nat)

lemma legal4:
  "isLegalUTF8 (a # b # c # d # s) 4 \<longleftrightarrow> 0x80 \<le> unat d \<and> unat d \<le> 0xBF \<and> isLegalUTF8 (a # b # c # d # s) 3"
  by (auto simp: isLegalUTF8_def byte_nat)

lemma unat_byte: "n < 256 \<Longrightarrow> unat (of_nat n :: byte) = n"
  by (simp add: unat_of_nat)

lemma digits:
  "(c :: nat) = c div 64 * 64 + c mod 64"
  "c div 64 = c div 4096 * 64 + c div 64 mod 64"
  "c div 4096 = c div 262144 * 64 + c div 4096 mod 64"
  using div_mult_mod_eq [of c 64] div_mult_mod_eq [of "c div 64" 64] div_mult_mod_eq [of "c div 4096" 64]
    div_mult2_eq [of c 64 64] div_mult2_eq [of c 4096 64] by simp_all

lemma sequenceLength_nat:
  "inlineUTF8SequenceLength b =
     (if unat b < 0x80 then 1 else if unat b < 0xC0 then 0 else if unat b < 0xE0 then 2 else if unat b < 0xF0 then 3
      else if unat b < 0xF8 then 4 else 0)"
  by (simp add: sequenceLength byte_nat)

text \<open>Sequences of two, three and four bytes, in numbers.\<close>

definition decodes :: "byte list \<Rightarrow> nat \<Rightarrow> nat \<Rightarrow> bool" where
  "decodes bytes n c \<longleftrightarrow>
     inlineUTF8SequenceLength (hd bytes) = n \<and> isLegalUTF8 bytes n \<and> readUTF8Sequence bytes n = of_nat c"

lemma decodes1: "unat a < 0x80 \<Longrightarrow> decodes (a # s) 1 (unat a)"
  unfolding decodes_def read1 legal1 by (simp add: sequenceLength_nat)

lemma decodes2:
  assumes "unat a = 0xC0 + x" "unat b = 0x80 + z" "2 \<le> x" "x < 32" "z < 64"
  shows "decodes (a # b # s) 2 (x * 64 + z)"
proof -
  have "unat a * 64 + unat b = x * 64 + z + 0x3080" using assms by simp
  then show ?thesis using read2 [of a b s] assms unfolding decodes_def legal2 by (simp add: sequenceLength_nat)
qed

lemma decodes3:
  assumes "unat a = 0xE0 + x" "unat b = 0x80 + y" "unat c = 0x80 + z" "x < 16" "y < 64" "z < 64"
    and "x = 0 \<Longrightarrow> 32 \<le> y" and "x = 13 \<Longrightarrow> y \<le> 31"
  shows "decodes (a # b # c # s) 3 ((x * 64 + y) * 64 + z)"
proof -
  have "(unat a * 64 + unat b) * 64 + unat c = (x * 64 + y) * 64 + z + 0xE2080" using assms by simp
  then show ?thesis using read3 [of a b c s] assms unfolding decodes_def legal3 legal2 by (simp add: sequenceLength_nat)
qed

lemma decodes4:
  assumes "unat a = 0xF0 + x" "unat b = 0x80 + y" "unat c = 0x80 + z" "unat d = 0x80 + w" "x < 5" "y < 64" "z < 64" "w < 64"
    and "x = 0 \<Longrightarrow> 16 \<le> y" and "x = 4 \<Longrightarrow> y \<le> 15"
  shows "decodes (a # b # c # d # s) 4 (((x * 64 + y) * 64 + z) * 64 + w)"
proof -
  have "((unat a * 64 + unat b) * 64 + unat c) * 64 + unat d = ((x * 64 + y) * 64 + z) * 64 + w + 0x3C82080" using assms by simp
  then show ?thesis
    using read4 [of a b c d s] assms unfolding decodes_def legal4 legal3 legal2 by (simp add: sequenceLength_nat)
qed

lemma utf8_decodes:
  assumes "scalar c"
  shows "decodes (utf8Bytes c @ s) (length (utf8Bytes c)) c"
proof -
  note c = assms [unfolded scalar_def] and d = digits [of c]
  have low: "c mod 64 < 64" "c div 64 mod 64 < 64" "c div 4096 mod 64 < 64" by simp_all
  consider (one) "c < 0x80" | (two) "0x80 \<le> c" "c < 0x800" | (three) "0x800 \<le> c" "c < 0x10000" | (four) "0x10000 \<le> c"
    by linarith
  then show ?thesis
  proof cases
    case one
    then show ?thesis using decodes1 [of "of_nat c" s] by (simp add: utf8Bytes_def unat_byte)
  next
    case two
    have x: "2 \<le> c div 64" "c div 64 < 32" using two by linarith+
    have "decodes (of_nat (0xC0 + c div 64) # of_nat (0x80 + c mod 64) # s) 2 (c div 64 * 64 + c mod 64)"
      by (rule decodes2) (use x low in \<open>simp_all only: unat_byte\<close>; linarith)+
    then show ?thesis using two by (simp add: utf8Bytes_def numeral_2_eq_2)
  next
    case three
    have x: "c div 4096 < 16" using three by linarith
    have "decodes (of_nat (0xE0 + c div 4096) # of_nat (0x80 + c div 64 mod 64) # of_nat (0x80 + c mod 64) # s) 3
        ((c div 4096 * 64 + c div 64 mod 64) * 64 + c mod 64)"
    proof (rule decodes3)
      show "c div 4096 = 0 \<Longrightarrow> 32 \<le> c div 64 mod 64" using three d(1,2) low by linarith
      show "c div 4096 = 13 \<Longrightarrow> c div 64 mod 64 \<le> 31" using c d(1,2) low by linarith
    qed ((rule unat_byte)?, use x low in linarith)+
    then show ?thesis using three d by (simp add: utf8Bytes_def numeral_3_eq_3)
  next
    case four
    have x: "c div 262144 < 5" using four c by linarith
    have "decodes (of_nat (0xF0 + c div 262144) # of_nat (0x80 + c div 4096 mod 64) # of_nat (0x80 + c div 64 mod 64) #
        of_nat (0x80 + c mod 64) # s) 4 (((c div 262144 * 64 + c div 4096 mod 64) * 64 + c div 64 mod 64) * 64 + c mod 64)"
    proof (rule decodes4)
      show "c div 262144 = 0 \<Longrightarrow> 16 \<le> c div 4096 mod 64" using four d low by linarith
      show "c div 262144 = 4 \<Longrightarrow> c div 4096 mod 64 \<le> 15" using c d low by linarith
    qed ((rule unat_byte)?, use x low in linarith)+
    then show ?thesis using four d by (simp add: utf8Bytes_def numeral_4_eq_4)
  qed
qed

section \<open>Code points as words\<close>

lemma unat_code: "c \<le> 0x10FFFF \<Longrightarrow> unat (of_nat c :: UChar32) = c"
  by (simp add: unat_of_nat)

lemma is_BMP_of_nat: "c \<le> 0x10FFFF \<Longrightarrow> is_BMP (of_nat c) \<longleftrightarrow> c < 0x10000"
  by (auto simp: is_BMP_def word_le_nat_alt unat_code)

lemma is_SUPPLEMENTARY_of_nat: "c \<le> 0x10FFFF \<Longrightarrow> 0x10000 \<le> c \<Longrightarrow> is_SUPPLEMENTARY (of_nat c)"
proof -
  assume c: "c \<le> 0x10FFFF" "0x10000 \<le> c"
  have "(of_nat c :: UChar32) - of_nat 0x10000 = of_nat (c - 0x10000)" by (rule word_of_nat_minus [OF c(2)])
  moreover have "unat (of_nat (c - 0x10000) :: UChar32) = c - 0x10000" using c by (intro unat_code) simp
  ultimately show ?thesis using c by (simp add: is_SUPPLEMENTARY_def word_le_nat_alt)
qed

lemma is_SURROGATE_iff: "is_SURROGATE w \<longleftrightarrow> 0xD800 \<le> unat w \<and> unat w < 0xE000"
proof -
  have "w AND NOT (mask 11) = push_bit 11 (drop_bit 11 w)"
    by (rule bit_word_eqI) (auto simp: bit_simps)
  moreover have "(0xFFFFF800 :: UChar32) = NOT (mask 11)" by (simp add: mask_eq_exp_minus_1)
  ultimately have "w AND 0xFFFFF800 = push_bit 11 (drop_bit 11 w)" by metis
  moreover have "push_bit 11 (drop_bit 11 w) = 0xD800 \<longleftrightarrow> unat w div 2048 = 27"
  proof -
    have "unat w div 2048 * 2048 \<le> unat w" "unat w < 2 ^ 32" using unsigned_less [of w] by simp_all
    then have "unat (push_bit 11 (drop_bit 11 w)) = unat w div 2048 * 2048"
      unfolding unsigned_push_bit_eq unat_drop_bit_eq by (simp add: take_bit_eq_mod push_bit_eq_mult drop_bit_eq_div)
    then show ?thesis by (auto simp: word_eq_iff_unsigned [where ?'a = nat])
  qed
  ultimately show ?thesis by (auto simp: is_SURROGATE_def)
qed

lemma code_from_unat: "unat (w :: UChar32) = n \<Longrightarrow> w = of_nat n"
  by auto

lemma unit_of_nat: "(ucast (of_nat n :: UChar32) :: uchar) = of_nat n"
  by (rule bit_word_eqI) (simp add: bit_simps)

lemma units_of_supplementary:
  assumes "0x10000 \<le> c" "c \<le> 0x10FFFF"
  shows "[LEAD (of_nat c), TRAIL (of_nat c)] = utf16Units c"
proof -
  have "bit (0xDC00 :: UChar32) k \<Longrightarrow> 10 \<le> k" for k
    by (rule ccontr) (use bit_push_bit_iff [of 10 "0x37 :: UChar32" k] in simp)
  then have "((of_nat c :: UChar32) AND mask 10) OR 0xDC00 = take_bit 10 (of_nat c) + 0xDC00"
    unfolding take_bit_eq_mask [symmetric] by (intro disjunctive_add [symmetric]) (metis bit_take_bit_iff not_less)
  then have "((of_nat c :: UChar32) AND 0x3FF) OR 0xDC00 = take_bit 10 (of_nat c) + 0xDC00"
    by (simp add: mask_eq_exp_minus_1)
  moreover have "unat (take_bit 10 (of_nat c :: UChar32)) = c mod 1024"
    unfolding unsigned_take_bit_eq unat_code [OF assms(2)] by (simp add: take_bit_eq_mod)
  then have "take_bit 10 (of_nat c :: UChar32) = of_nat (c mod 1024)" by (rule code_from_unat)
  ultimately have "((of_nat c :: UChar32) AND 0x3FF) OR 0xDC00 = of_nat (0xDC00 + c mod 1024)" by simp
  then have trail: "TRAIL (of_nat c) = of_nat (0xDC00 + c mod 1024)"
    unfolding TRAIL_def by (simp only: unit_of_nat)
  have "unat (drop_bit 10 (of_nat c :: UChar32)) = c div 1024"
    unfolding unat_drop_bit_eq unat_code [OF assms(2)] by (simp add: drop_bit_eq_div)
  then have "drop_bit 10 (of_nat c :: UChar32) + 0xD7C0 = of_nat (0xD7C0 + c div 1024)"
    using code_from_unat by fastforce
  then have lead: "LEAD (of_nat c) = of_nat (0xD7C0 + c div 1024)" unfolding LEAD_def by (simp only: unit_of_nat)
  have "c = (c - 0x10000) + 1024 * 64" using assms(1) by simp
  then have "c div 1024 = 64 + (c - 0x10000) div 1024" "c mod 1024 = (c - 0x10000) mod 1024"
    by (metis add.commute div_mult_self2 zero_neq_numeral, metis mod_mult_self2)
  then show ?thesis using assms(1) by (simp add: utf16Units_def lead trail)
qed

section \<open>Decoding\<close>

text \<open>
  Where the second byte is below the range of continuation bytes, after the first byte 0xED or 0xF4,
  \<open>isLegalUTF8\<close> does not see it.
\<close>

definition unbroken :: "byte list \<Rightarrow> bool" where
  "unbroken = successively (\<lambda>a b. \<not> ((a = 0xED \<or> a = 0xF4) \<and> b < 0x80))"

lemma utf8Bytes_nonempty [simp]: "utf8Bytes c \<noteq> []"
  by (simp add: utf8Bytes_def)

lemma byte_of_unat: "unat (b :: byte) = n \<Longrightarrow> of_nat n = b"
  by auto

lemma last_digit: "z < 64 \<Longrightarrow> (u * 64 + z) div 64 = u \<and> (u * 64 + z) mod 64 = (z :: nat)"
  by simp

lemma legal_scalar:
  assumes "bytes \<noteq> []" and "unbroken bytes" and "inlineUTF8SequenceLength (hd bytes) \<le> length bytes"
    and "isLegalUTF8 bytes (inlineUTF8SequenceLength (hd bytes))"
  shows "\<exists>c. scalar c \<and> take (inlineUTF8SequenceLength (hd bytes)) bytes = utf8Bytes c"
proof -
  obtain a s where s: "bytes = a # s" using assms(1) by (cases bytes) auto
  note legal = assms(4) [unfolded s list.sel(1)] and fits = assms(3) [unfolded s list.sel(1)]
  consider (one) "unat a < 0x80" "inlineUTF8SequenceLength a = 1" | (none) "inlineUTF8SequenceLength a = 0"
    | (two) "0xC0 \<le> unat a" "unat a < 0xE0" "inlineUTF8SequenceLength a = 2"
    | (three) "0xE0 \<le> unat a" "unat a < 0xF0" "inlineUTF8SequenceLength a = 3"
    | (four) "0xF0 \<le> unat a" "unat a < 0xF8" "inlineUTF8SequenceLength a = 4"
    by (cases "unat a < 0x80"; cases "unat a < 0xC0"; cases "unat a < 0xE0"; cases "unat a < 0xF0"; cases "unat a < 0xF8")
      (auto simp: sequenceLength_nat)
  then show ?thesis
  proof cases
    case none
    then show ?thesis using legal by (simp add: isLegalUTF8_def)
  next
    case one
    then show ?thesis by (intro exI [of _ "unat a"]) (simp add: s scalar_def utf8Bytes_def)
  next
    case two
    then obtain b s' where b: "s = b # s'" using fits by (cases s) auto
    have l: "0x80 \<le> unat b" "unat b \<le> 0xBF" "0xC2 \<le> unat a"
      using legal two unfolding two(3) b legal2 by (auto split: if_splits)
    define x z where "x = unat a - 0xC0" and "z = unat b - 0x80"
    then have n: "unat a = 0xC0 + x" "unat b = 0x80 + z" "2 \<le> x" "x < 32" "z < 64" using two l by simp_all
    then have "(x * 64 + z) div 64 = x" "(x * 64 + z) mod 64 = z" by simp_all
    moreover have "0x80 \<le> x * 64 + z" "x * 64 + z < 0x800" using n by simp_all
    ultimately show ?thesis
      using n(1,2) by (intro exI [of _ "x * 64 + z"]) (simp add: s b two(3) scalar_def utf8Bytes_def byte_of_unat del: of_nat_add of_nat_mult)
  next
    case three
    then obtain b c s' where b: "s = b # c # s'" using fits by (cases s; cases "tl s") auto
    have l: "0x80 \<le> unat b" "unat b \<le> 0xBF" "0x80 \<le> unat c" "unat c \<le> 0xBF" "unat a = 0xE0 \<Longrightarrow> 0xA0 \<le> unat b"
      "unat a = 0xED \<Longrightarrow> unat b \<le> 0x9F"
      using legal three assms(2) unfolding three(3) b legal3 legal2 by (auto simp: s b unbroken_def byte_nat split: if_splits)
    define x y z where "x = unat a - 0xE0" and "y = unat b - 0x80" and "z = unat c - 0x80"
    then have n: "unat a = 0xE0 + x" "unat b = 0x80 + y" "unat c = 0x80 + z" "x < 16" "y < 64" "z < 64" using three l by simp_all
    define cp where "cp = (x * 64 + y) * 64 + z"
    have d: "cp div 64 = x * 64 + y" "cp mod 64 = z" unfolding cp_def using last_digit n(6) by blast+
    have "cp div 4096 = cp div 64 div 64" using div_mult2_eq [of cp 64 64] by simp
    then have d': "cp div 64 mod 64 = y" "cp div 4096 = x" unfolding d using last_digit n(5) by presburger+
    have lo: "1 \<le> x \<or> 32 \<le> y" using l(5) n by (cases "x = 0") simp_all
    have hi: "x \<le> 12 \<or> x = 13 \<and> y \<le> 31 \<or> 14 \<le> x" using l(6) n by (cases "x = 13") (simp, linarith)
    have flat: "cp = 4096 * x + 64 * y + z" by (simp add: cp_def)
    have "0x800 \<le> cp" unfolding flat using lo by (rule disjE) linarith+
    moreover have "cp < 0x10000" unfolding flat using n(4-6) by linarith
    moreover have "cp < 0xD800 \<or> 0xE000 \<le> cp"
      unfolding flat using hi n(5,6) by (elim disjE conjE) (rule disjI1, linarith, rule disjI1, linarith, rule disjI2, linarith)
    ultimately have "0x800 \<le> cp" "cp < 0x10000" "scalar cp" unfolding scalar_def by linarith+
    then show ?thesis
      using n(1-5) by (intro exI [of _ cp]) (simp add: d(2) d' s b three(3) utf8Bytes_def byte_of_unat del: of_nat_add of_nat_mult)
  next
    case four
    then obtain b c d s' where b: "s = b # c # d # s'" using fits by (cases s; cases "tl s"; cases "tl (tl s)") auto
    have l: "0x80 \<le> unat b" "unat b \<le> 0xBF" "0x80 \<le> unat c" "unat c \<le> 0xBF" "0x80 \<le> unat d" "unat d \<le> 0xBF"
      "unat a = 0xF0 \<Longrightarrow> 0x90 \<le> unat b" "unat a = 0xF4 \<Longrightarrow> unat b \<le> 0x8F" "unat a \<le> 0xF4"
      using legal four assms(2) unfolding four(3) b legal4 legal3 legal2 by (auto simp: s b unbroken_def byte_nat split: if_splits)
    define x y z w where "x = unat a - 0xF0" and "y = unat b - 0x80" and "z = unat c - 0x80" and "w = unat d - 0x80"
    then have n: "unat a = 0xF0 + x" "unat b = 0x80 + y" "unat c = 0x80 + z" "unat d = 0x80 + w" "x \<le> 4" "y < 64" "z < 64" "w < 64"
      using four l by simp_all
    define cp where "cp = ((x * 64 + y) * 64 + z) * 64 + w"
    have d: "cp div 64 = (x * 64 + y) * 64 + z" "cp mod 64 = w" unfolding cp_def using last_digit n(8) by blast+
    have "cp div 4096 = cp div 64 div 64" using div_mult2_eq [of cp 64 64] by simp
    then have d': "cp div 64 mod 64 = z" "cp div 4096 = x * 64 + y" unfolding d using last_digit n(7) by presburger+
    have "cp div 262144 = cp div 4096 div 64" using div_mult2_eq [of cp 4096 64] by simp
    then have d'': "cp div 4096 mod 64 = y" "cp div 262144 = x" unfolding d' using last_digit n(6) by presburger+
    have lo: "1 \<le> x \<or> 16 \<le> y" using l(7) n by (cases "x = 0") simp_all
    have hi: "x \<le> 3 \<or> y \<le> 15" using l(8) n by (cases "x = 4") simp_all
    have flat: "cp = 262144 * x + 4096 * y + 64 * z + w" by (simp add: cp_def)
    have "0x10000 \<le> cp" unfolding flat using lo by (rule disjE) linarith+
    moreover have "cp \<le> 0x10FFFF" unfolding flat using hi n(5-8) by (elim disjE) linarith+
    ultimately have "0x10000 \<le> cp" "scalar cp" unfolding scalar_def by linarith+
    then show ?thesis
      using n(1-4,6,7) by (intro exI [of _ cp]) (simp add: d(2) d'(1) d'' s b four(3) utf8Bytes_def byte_of_unat numeral_4_eq_4 del: of_nat_add of_nat_mult)
  qed
qed

lemma length_utf8Bytes: "length (utf8Bytes c) = (if c < 0x80 then 1 else if c < 0x800 then 2 else if c < 0x10000 then 3 else 4)"
  by (simp add: utf8Bytes_def)

lemma length_utf16Units: "length (utf16Units c) = (if c < 0x10000 then 1 else 2)"
  by (simp add: utf16Units_def)

lemma decode_step:
  assumes "scalar c"
  shows "convertUTF8ToUTF16 strict room (utf8Bytes c @ s) target ored =
     (if room < length target + length (utf16Units c) then (targetExhausted, utf8Bytes c @ s, target, ored)
      else convertUTF8ToUTF16 strict room s (target @ utf16Units c) (if c < 0x10000 then ored OR of_nat c else 0xFFFF))"
proof -
  note d = utf8_decodes [OF assms, of s, unfolded decodes_def] and c = assms [unfolded scalar_def]
  have le: "c \<le> 0x10FFFF" using c by auto
  have "\<not> is_SURROGATE (of_nat c)" using c unfolding is_SURROGATE_iff unat_code [OF le] by auto
  moreover have "utf16Units c = [of_nat c]" if "c < 0x10000" using that by (simp add: utf16Units_def)
  moreover have "utf16Units c = [LEAD (of_nat c), TRAIL (of_nat c)]" if "\<not> c < 0x10000"
    using that le units_of_supplementary [of c] by simp
  moreover have "is_SUPPLEMENTARY (of_nat c)" if "\<not> c < 0x10000" using that le is_SUPPLEMENTARY_of_nat by simp
  ultimately show ?thesis
    using d unfolding convertUTF8ToUTF16.simps [of strict room "utf8Bytes c @ s" target ored] Let_def
    by (simp add: is_BMP_of_nat [OF le] unit_of_nat del: hd_append2)
qed

lemma decode_all:
  assumes "list_all scalar cs" and "length target + length (concat (map utf8Bytes cs)) \<le> room"
  shows "\<exists>ored'. convertUTF8ToUTF16 strict room (concat (map utf8Bytes cs)) target ored =
     (conversionOK, [], target @ concat (map utf16Units cs), ored')"
  using assms
proof (induction cs arbitrary: target ored)
  case Nil
  then show ?case by (simp add: convertUTF8ToUTF16.simps)
next
  case (Cons c cs)
  have "length (utf16Units c) \<le> length (utf8Bytes c)" by (simp add: length_utf8Bytes length_utf16Units)
  then show ?case using Cons.prems Cons.IH [of "target @ utf16Units c"] by (simp add: decode_step)
qed

lemma unbroken_drop: "unbroken bytes \<Longrightarrow> unbroken (drop n bytes)"
  using successively_append_iff [of _ "take n bytes" "drop n bytes"] by (simp add: unbroken_def)

lemma decode_only:
  assumes "convertUTF8ToUTF16 strict room source target ored = (conversionOK, rest, units, ored')" and "unbroken source"
  shows "\<exists>cs. list_all scalar cs \<and> source = concat (map utf8Bytes cs) \<and> units = target @ concat (map utf16Units cs)"
  using assms
proof (induction "length source" arbitrary: source target ored rule: less_induct)
  case less
  show ?case
  proof (cases "source = []")
    case True
    then show ?thesis using less(2) by (intro exI [of _ "[]"]) (simp add: convertUTF8ToUTF16.simps)
  next
    case False
    let ?n = "inlineUTF8SequenceLength (hd source)"
    have "?n \<le> length source" "isLegalUTF8 source ?n"
      using less(2) False by (auto simp: convertUTF8ToUTF16.simps [of strict room source] Let_def split: if_splits)
    then obtain c where c: "scalar c" "take ?n source = utf8Bytes c" using legal_scalar [OF False less(3)] by blast
    then have source: "source = utf8Bytes c @ drop ?n source" by (metis append_take_drop_id)
    have loop: "convertUTF8ToUTF16 strict room (drop ?n source) (target @ utf16Units c) (if c < 0x10000 then ored OR of_nat c else 0xFFFF) =
        (conversionOK, rest, units, ored')"
      using less(2) decode_step [OF c(1), of strict room "drop ?n source" target ored] unfolding source [symmetric] by (auto split: if_splits)
    have shorter: "length (drop ?n source) < length source" using c(2) False utf8Bytes_nonempty [of c] by (cases ?n) auto
    from less(1) [OF shorter loop unbroken_drop [OF less(3)]]
    obtain cs where "list_all scalar cs" "drop ?n source = concat (map utf8Bytes cs)" "units = (target @ utf16Units c) @ concat (map utf16Units cs)"
      by blast
    then show ?thesis using source c(1) by (intro exI [of _ "c # cs"]) simp
  qed
qed

lemma ascii_encoding: "list_all isASCII (utf8Bytes c) \<longleftrightarrow> c < 0x80" if "c \<le> 0x10FFFF"
proof -
  have "unat (of_nat (0xC0 + c div 64) :: byte) = 0xC0 + c div 64" if "c < 0x800" using that by (intro unat_byte) linarith
  moreover have "unat (of_nat (0xE0 + c div 4096) :: byte) = 0xE0 + c div 4096" if "c < 0x10000" using that by (intro unat_byte) linarith
  moreover have "unat (of_nat (0xF0 + c div 262144) :: byte) = 0xF0 + c div 262144"
    using \<open>c \<le> 0x10FFFF\<close> by (intro unat_byte) linarith
  ultimately show ?thesis
    by (auto simp: utf8Bytes_def isASCII_iff byte_nat unat_byte simp del: of_nat_add split: if_splits)
qed

lemma scalar_le: "scalar c \<Longrightarrow> c \<le> 0x10FFFF"
  by (auto simp: scalar_def)

lemma unit_of_byte: "(ucast (b :: byte) :: uchar) = of_nat (unat b)"
  by (rule bit_word_eqI) (simp add: bit_simps bit_unsigned_iff)

lemma ascii_units: "list_all (\<lambda>c. c < 0x80) cs \<Longrightarrow> concat (map utf16Units cs) = map ucast (concat (map utf8Bytes cs))"
  by (induction cs) (auto simp: utf16Units_def utf8Bytes_def unit_of_byte unat_byte)

lemma ascii_points: "list_all isASCII bytes \<Longrightarrow>
    list_all (\<lambda>c. c < 0x80) (map unat bytes) \<and> concat (map utf8Bytes (map unat bytes)) = bytes"
  by (induction bytes) (auto simp: isASCII_iff byte_nat utf8Bytes_def)

lemma fromUTF8_encoded:
  assumes "list_all scalar cs"
  shows "\<exists>s. String_fromUTF8 (concat (map utf8Bytes cs)) = Some s \<and> characters s = concat (map utf16Units cs)"
proof (cases "list_all isASCII (concat (map utf8Bytes cs))")
  case True
  then have "list_all (\<lambda>c. c < 0x80) cs" using assms ascii_encoding scalar_le by (auto simp: list_all_iff)
  from ascii_units [OF this] True show ?thesis by (auto simp: String_fromUTF8_def)
next
  case False
  then show ?thesis
    using decode_all [OF assms, of "[]" "length (concat (map utf8Bytes cs))" True 0] by (auto simp: String_fromUTF8_def)
qed

lemma fromUTF8_only:
  assumes "String_fromUTF8 bytes = Some s" and "unbroken bytes"
  shows "\<exists>cs. list_all scalar cs \<and> bytes = concat (map utf8Bytes cs) \<and> characters s = concat (map utf16Units cs)"
proof (cases "list_all isASCII bytes")
  case True
  note points = ascii_points [OF True]
  have "characters s = map ucast bytes" using assms(1) True by (auto simp: String_fromUTF8_def split: if_splits)
  then show ?thesis
    using points ascii_units [of "map unat bytes"] by (intro exI [of _ "map unat bytes"]) (auto simp: list_all_iff scalar_def)
next
  case False
  then obtain rest units o' where "convertUTF8ToUTF16 True (length bytes) bytes [] 0 = (conversionOK, rest, units, o')" "s = String16 units"
    using assms(1) by (auto simp: String_fromUTF8_def split: if_splits prod.splits)
  then show ?thesis using decode_only assms(2) by fastforce
qed

end
