(* ===== verification/UTF8_Encoding.thy ===== *)
theory UTF8_Encoding
  imports UTF8_Decoding
begin

text \<open>
  Encoding in UTF-8: what the strict conversion writes before the first surrogate without a partner
  (\<open>strict_conversion\<close>), the loop that replaces such surrogates, the lenient conversion, Latin-1, and from
  these the three modes of \<open>StringImpl::utf8\<close> (\<open>utf8_of_string\<close>).
\<close>

unbundle bit_operations_syntax

text \<open>The code points of UTF-16 text; a surrogate without its partner stands for itself.\<close>

fun codePoints :: "uchar list \<Rightarrow> nat list" where
  "codePoints [] = []"
| "codePoints [a] = [unat a]"
| "codePoints (a # b # s) =
     (if 0xD800 \<le> unat a \<and> unat a \<le> 0xDBFF \<and> 0xDC00 \<le> unat b \<and> unat b \<le> 0xDFFF then
        (0x10000 + (unat a - 0xD800) * 1024 + (unat b - 0xDC00)) # codePoints s
      else unat a # codePoints (b # s))"

definition replaced :: "nat \<Rightarrow> nat" where
  "replaced c = (if scalar c then c else 0xFFFD)"

lemma byte_of_code: "(ucast (w :: UChar32) :: byte) = of_nat (unat w mod 256)"
  by (rule bit_word_eqI) (simp add: bit_simps flip: take_bit_eq_mod [of 8, simplified])

lemma mod_64: "(n :: nat) mod 256 mod 64 = n mod 64"
  using mod_mod_cancel [of 64 256 n] by simp

lemma continuation_byte: "(ucast (((w :: UChar32) OR 0x80) AND 0xBF) :: byte) = of_nat (0x80 + unat w mod 64)"
proof -
  have "(ucast (((w :: UChar32) OR 0x80) AND 0xBF) :: byte) = (ucast w OR 0x80) AND 0xBF"
    by (simp add: unsigned_or_eq unsigned_and_eq)
  also have "((b :: byte) OR 0x80) AND 0xBF = of_nat (0x80 + unat b mod 64)" for b
    by (rule every_byte [of "\<lambda>b. (b OR 0x80) AND 0xBF = of_nat (0x80 + unat b mod 64)"]) code_simp
  also have "unat (ucast w :: byte) mod 64 = unat w mod 64"
    by (simp only: byte_of_code unat_byte [OF mod_less_divisor] mod_64)
  finally show ?thesis .
qed

lemma lead_byte:
  "unat w < 32 \<Longrightarrow> (ucast ((w :: UChar32) OR 0xC0) :: byte) = of_nat (0xC0 + unat w)"
  "unat w < 16 \<Longrightarrow> (ucast (w OR 0xE0) :: byte) = of_nat (0xE0 + unat w)"
  "unat w < 8 \<Longrightarrow> (ucast (w OR 0xF0) :: byte) = of_nat (0xF0 + unat w)"
proof -
  have u: "unat w < 256 \<Longrightarrow> unat (ucast w :: byte) = unat w" by (simp only: byte_of_code unat_byte mod_less)
  have split: "(ucast (w OR v) :: byte) = ucast w OR ucast v" for v :: UChar32 by (simp add: unsigned_or_eq)
  have "list_all (\<lambda>n. (of_nat n :: byte) OR 0xC0 = of_nat (0xC0 + n)) [0..<32]" by code_simp
  then have "b OR 0xC0 = of_nat (0xC0 + unat b)" if "unat b < 32" for b :: byte
    using that by (auto simp: list_all_iff dest!: bspec [of _ _ "unat b"])
  then show "unat w < 32 \<Longrightarrow> (ucast ((w :: UChar32) OR 0xC0) :: byte) = of_nat (0xC0 + unat w)"
    using u by (simp add: split)
  have "list_all (\<lambda>n. (of_nat n :: byte) OR 0xE0 = of_nat (0xE0 + n)) [0..<16]" by code_simp
  then have "b OR 0xE0 = of_nat (0xE0 + unat b)" if "unat b < 16" for b :: byte
    using that by (auto simp: list_all_iff dest!: bspec [of _ _ "unat b"])
  then show "unat w < 16 \<Longrightarrow> (ucast (w OR 0xE0) :: byte) = of_nat (0xE0 + unat w)"
    using u by (simp add: split)
  have "list_all (\<lambda>n. (of_nat n :: byte) OR 0xF0 = of_nat (0xF0 + n)) [0..<8]" by code_simp
  then have "b OR 0xF0 = of_nat (0xF0 + unat b)" if "unat b < 8" for b :: byte
    using that by (auto simp: list_all_iff dest!: bspec [of _ _ "unat b"])
  then show "unat w < 8 \<Longrightarrow> (ucast (w OR 0xF0) :: byte) = of_nat (0xF0 + unat w)"
    using u by (simp add: split)
qed

lemma unat_shift: "unat (drop_bit 6 w) = unat (w :: UChar32) div 64"
  unfolding unat_drop_bit_eq by (simp add: drop_bit_eq_div)

lemma written_bytes:
  assumes "c \<le> 0x10FFFF"
  shows "bytesToWriteFor (of_nat c) = (length (utf8Bytes c), of_nat c)"
    and "writeUTF8Loop (length (utf8Bytes c)) (length (utf8Bytes c)) (of_nat c) [] = utf8Bytes c"
proof -
  note u = unat_code [OF assms]
  show "bytesToWriteFor (of_nat c) = (length (utf8Bytes c), of_nat c)"
    using assms u by (simp add: bytesToWriteFor_def length_utf8Bytes word_less_nat_alt)
  have d: "c div 64 div 64 = c div 4096" "c div 4096 div 64 = c div 262144"
    using div_mult2_eq [of c 64 64] div_mult2_eq [of c 4096 64] by simp_all
  consider (one) "c < 0x80" | (two) "0x80 \<le> c" "c < 0x800" | (three) "0x800 \<le> c" "c < 0x10000" | (four) "0x10000 \<le> c"
    by linarith
  then show "writeUTF8Loop (length (utf8Bytes c)) (length (utf8Bytes c)) (of_nat c) [] = utf8Bytes c"
  proof cases
    case one
    then show ?thesis
      by (simp add: utf8Bytes_def firstByteMark_def byte_of_code u)
  next
    case two
    have "unat (drop_bit 6 (of_nat c :: UChar32)) < 32" unfolding unat_shift u using two by linarith
    note lead = lead_byte(1) [OF this, unfolded unat_shift u]
    then show ?thesis using two
      by (simp add: utf8Bytes_def firstByteMark_def continuation_byte u del: of_nat_add)
  next
    case three
    have "unat (drop_bit 6 (drop_bit 6 (of_nat c :: UChar32))) < 16" unfolding unat_shift u d using three by linarith
    note lead = lead_byte(2) [OF this, unfolded unat_shift u d]
    then show ?thesis using three
      by (simp add: utf8Bytes_def firstByteMark_def continuation_byte unat_shift u del: of_nat_add drop_bit_drop_bit)
  next
    case four
    have "unat (drop_bit 6 (drop_bit 6 (drop_bit 6 (of_nat c :: UChar32)))) < 8" unfolding unat_shift u d using assms by linarith
    note lead = lead_byte(3) [OF this, unfolded unat_shift u d]
    then show ?thesis using four
      by (simp add: utf8Bytes_def firstByteMark_def continuation_byte unat_shift u d del: of_nat_add drop_bit_drop_bit)
  qed
qed

definition highSurrogate :: "uchar \<Rightarrow> bool" where
  "highSurrogate a \<longleftrightarrow> 0xD800 \<le> unat a \<and> unat a \<le> 0xDBFF"

definition lowSurrogate :: "uchar \<Rightarrow> bool" where
  "lowSurrogate a \<longleftrightarrow> 0xDC00 \<le> unat a \<and> unat a \<le> 0xDFFF"

lemmas surrogates = highSurrogate_def lowSurrogate_def

lemma unit_less: "unat (a :: uchar) < 65536"
  using unsigned_less [of a] by simp

lemma unat_unit: "unat (ucast (a :: uchar) :: UChar32) = unat a"
  unfolding unsigned_ucast_eq using unit_less [of a] by (intro take_bit_nat_eq_self) simp

lemma surrogate_words:
  "0xD800 \<le> (ucast (a :: uchar) :: UChar32) \<and> (ucast a :: UChar32) \<le> 0xDBFF \<longleftrightarrow> highSurrogate a"
  "0xDC00 \<le> (ucast (a :: uchar) :: UChar32) \<and> (ucast a :: UChar32) \<le> 0xDFFF \<longleftrightarrow> lowSurrogate a"
  by (simp_all add: surrogates word_le_nat_alt unat_unit)

lemma codePoints_pair: 
  "codePoints (a # b # s) =
     (if highSurrogate a \<and> lowSurrogate b then (0x10000 + (unat a - 0xD800) * 1024 + (unat b - 0xDC00)) # codePoints s
      else unat a # codePoints (b # s))"
  by (simp add: surrogates)

lemma codePoints_single: "\<not> highSurrogate a \<Longrightarrow> codePoints (a # s) = unat a # codePoints s"
  by (cases s) (simp_all add: codePoints_pair del: codePoints.simps(3))

lemma code_unit: "(ucast (a :: uchar) :: UChar32) = of_nat (unat a)"
  by (metis code_from_unat unat_unit)

lemma readUTF16_Cons:
  "readUTF16 strict (a # s) =
     (if highSurrogate a then
        (case s of
           [] \<Rightarrow> Inl sourceExhausted
         | b # s' \<Rightarrow>
             if lowSurrogate b then Inr (of_nat (0x10000 + (unat a - 0xD800) * 1024 + (unat b - 0xDC00)), s')
             else if strict then Inl sourceIllegal
             else Inr (of_nat (unat a), s))
      else if strict \<and> lowSurrogate a then Inl sourceIllegal
      else Inr (of_nat (unat a), s))"
proof -
  have pair: "push_bit 10 ((ucast a :: UChar32) - 0xD800) + (ucast b - 0xDC00) + 0x10000 =
      of_nat (0x10000 + (unat a - 0xD800) * 1024 + (unat b - 0xDC00))" if "highSurrogate a" "lowSurrogate b" for b
  proof -
    have "(of_nat (unat a) :: UChar32) - of_nat 0xD800 = of_nat (unat a - 0xD800)"
      "(of_nat (unat b) :: UChar32) - of_nat 0xDC00 = of_nat (unat b - 0xDC00)"
      using that by (intro word_of_nat_minus; simp add: surrogates)+
    then have "(ucast a :: UChar32) - 0xD800 = of_nat (unat a - 0xD800)" "(ucast b :: UChar32) - 0xDC00 = of_nat (unat b - 0xDC00)"
      by (simp_all only: code_unit of_nat_numeral)
    then show ?thesis by (simp add: push_bit_eq_mult)
  qed
  show ?thesis
  proof (cases s)
    case Nil
    show ?thesis unfolding Nil readUTF16_def Let_def list.sel surrogate_words
      by (simp only: code_unit list.case simp_thms if_False)
  next
    case (Cons b s')
    have "b # s' \<noteq> []" by simp
    then show ?thesis unfolding Cons readUTF16_def Let_def list.sel surrogate_words
      by (cases "highSurrogate a"; cases "lowSurrogate b")
        (simp_all only: pair list.case simp_thms if_True if_False, simp_all only: code_unit)
  qed
qed

lemma encode_step:
  assumes "readUTF16 strict source = Inr (of_nat c, rest)" and "source \<noteq> []" and "c \<le> 0x10FFFF"
    and "length target + length (utf8Bytes c) \<le> room"
  shows "convertUTF16ToUTF8 strict room source target = convertUTF16ToUTF8 strict room rest (target @ utf8Bytes c)"
  using assms written_bytes [OF assms(3)]
  by (simp add: convertUTF16ToUTF8.simps [of strict room source target])

abbreviation encoded :: "nat list \<Rightarrow> byte list" where
  "encoded cs \<equiv> concat (map utf8Bytes cs)"

lemma scalar_unit: "scalar (unat a) \<longleftrightarrow> \<not> highSurrogate a \<and> \<not> lowSurrogate a"
  using unit_less [of a] by (auto simp: scalar_def surrogates)

lemma scalar_pair:
  "highSurrogate a \<Longrightarrow> lowSurrogate b \<Longrightarrow> scalar (0x10000 + (unat a - 0xD800) * 1024 + (unat b - 0xDC00))"
  by (auto simp: scalar_def surrogates)

lemma length_unit: "length (utf8Bytes (unat (a :: uchar))) \<le> 3"
  using unit_less [of a] by (simp add: length_utf8Bytes)

lemma length_sequence: "length (utf8Bytes c) \<le> 4"
  by (simp add: length_utf8Bytes)

text \<open>
  The strict conversion writes the code points up to the first surrogate without a partner, and
  stops there.
\<close>

definition stopsAt :: "uchar list \<Rightarrow> byte list \<Rightarrow> ConversionResult \<times> uchar list \<times> byte list \<Rightarrow> bool" where
  "stopsAt source target r \<longleftrightarrow>
     (\<exists>cs. list_all scalar cs \<and> snd (snd r) = target @ encoded cs \<and>
        length (encoded cs) + 3 * length (fst (snd r)) \<le> 3 * length source \<and>
        (fst r = conversionOK \<and> fst (snd r) = [] \<and> codePoints source = cs \<or>
         (fst r = sourceIllegal \<or> fst r = sourceExhausted) \<and>
         (\<exists>a s. fst (snd r) = a # s \<and> \<not> scalar (unat a) \<and> codePoints source = cs @ unat a # codePoints s)))"

lemma stopsAt_cons:
  assumes "stopsAt rest (target @ utf8Bytes c) r" and "scalar c" and "codePoints source = c # codePoints rest"
    and "length (utf8Bytes c) + 3 * length rest \<le> 3 * length source"
  shows "stopsAt source target r"
proof -
  obtain cs where "list_all scalar cs" "snd (snd r) = (target @ utf8Bytes c) @ encoded cs"
    "length (encoded cs) + 3 * length (fst (snd r)) \<le> 3 * length rest"
    "fst r = conversionOK \<and> fst (snd r) = [] \<and> codePoints rest = cs \<or>
         (fst r = sourceIllegal \<or> fst r = sourceExhausted) \<and>
         (\<exists>a s. fst (snd r) = a # s \<and> \<not> scalar (unat a) \<and> codePoints rest = cs @ unat a # codePoints s)"
    using assms(1) unfolding stopsAt_def by blast
  then show ?thesis unfolding stopsAt_def using assms(2-4) by (intro exI [of _ "c # cs"]) auto
qed

lemma stopsAt_here:
  "\<not> scalar (unat a) \<Longrightarrow> codePoints (a # s) = unat a # codePoints s \<Longrightarrow> e = sourceIllegal \<or> e = sourceExhausted \<Longrightarrow>
     stopsAt (a # s) target (e, a # s, target)"
  unfolding stopsAt_def by (intro exI [of _ "[]"]) auto

lemma convert_stop:
  "source \<noteq> [] \<Longrightarrow> readUTF16 strict source = Inl e \<Longrightarrow> convertUTF16ToUTF8 strict room source target = (e, source, target)"
  by (simp add: convertUTF16ToUTF8.simps [of strict room source target])

lemma strict_conversion:
  "length target + 3 * length source \<le> room \<Longrightarrow> stopsAt source target (convertUTF16ToUTF8 True room source target)"
proof (induction source arbitrary: target rule: codePoints.induct)
  case 1
  show ?case by (simp add: convertUTF16ToUTF8.simps stopsAt_def)
next
  case (2 a)
  show ?case
  proof (cases "scalar (unat a)")
    case True
    then have "readUTF16 True [a] = Inr (of_nat (unat a), [])" by (simp add: scalar_unit readUTF16_Cons)
    from encode_step [OF this, of target room] True 2 length_unit [of a]
    show ?thesis
      by (intro stopsAt_cons [of "[]" target "unat a"]) (auto simp: scalar_le convertUTF16ToUTF8.simps stopsAt_def)
  next
    case False
    then have "readUTF16 True [a] = Inl (if highSurrogate a then sourceExhausted else sourceIllegal)"
      by (auto simp: scalar_unit readUTF16_Cons)
    from convert_stop [OF _ this, of room target] show ?thesis using stopsAt_here [OF False, of "[]"] by simp
  qed
next
  case (3 a b s)
  note points = codePoints_pair [of a b s]
  consider (pair) "highSurrogate a" "lowSurrogate b" | (plain) "scalar (unat a)"
    | (lone) "\<not> scalar (unat a)" "\<not> (highSurrogate a \<and> lowSurrogate b)"
    by (auto simp: scalar_unit)
  then show ?case
  proof cases
    case pair
    let ?c = "0x10000 + (unat a - 0xD800) * 1024 + (unat b - 0xDC00)"
    have "readUTF16 True (a # b # s) = Inr (of_nat ?c, s)" using pair by (simp add: readUTF16_Cons del: of_nat_add of_nat_mult)
    from encode_step [OF this, of target room] 3(1) [of "target @ utf8Bytes ?c"] 3(3) pair length_sequence [of ?c] scalar_pair [OF pair]
    show ?thesis by (intro stopsAt_cons [of s target ?c]) (auto simp: scalar_le points surrogates)
  next
    case plain
    then have "readUTF16 True (a # b # s) = Inr (of_nat (unat a), b # s)" by (simp add: scalar_unit readUTF16_Cons)
    from encode_step [OF this, of target room] 3(2) [of "target @ utf8Bytes (unat a)"] 3(3) plain length_unit [of a]
    show ?thesis by (intro stopsAt_cons [of "b # s" target "unat a"]) (auto simp: scalar_le scalar_unit points surrogates)
  next
    case lone
    then have "readUTF16 True (a # b # s) = Inl sourceIllegal" by (auto simp: scalar_unit readUTF16_Cons)
    from convert_stop [OF _ this, of room target] show ?thesis using stopsAt_here [OF lone(1), of "b # s"] lone(2) points by auto
  qed
qed

lemma triple_byte:
  assumes "0x800 \<le> unat a"
  shows "putUTF8Triple a = utf8Bytes (unat a)"
proof -
  have mid: "(ucast ((w AND 0x3F) OR 0x80) :: byte) = of_nat (0x80 + unat w mod 64)" for w :: uchar
  proof -
    have "(ucast ((w AND 0x3F) OR 0x80) :: byte) = (ucast w AND 0x3F) OR 0x80"
      by (simp add: unsigned_or_eq unsigned_and_eq)
    also have "((b :: byte) AND 0x3F) OR 0x80 = of_nat (0x80 + unat b mod 64)" for b
      by (rule every_byte [of "\<lambda>b. (b AND 0x3F) OR 0x80 = of_nat (0x80 + unat b mod 64)"]) code_simp
    also have "unat (ucast w :: byte) mod 64 = unat w mod 64"
      by (simp add: unsigned_ucast_eq take_bit_eq_mod mod_64)
    finally show ?thesis .
  qed
  have top: "unat (drop_bit 12 a) = unat a div 4096" unfolding unat_drop_bit_eq by (simp add: drop_bit_eq_div)
  have "unat (ucast (drop_bit 12 a) :: byte) = unat (drop_bit 12 a) mod 256"
    unfolding unsigned_ucast_eq by (simp only: take_bit_eq_mod) simp
  then have "unat (ucast (drop_bit 12 a) :: byte) = unat a div 4096" "unat (ucast (drop_bit 12 a) :: byte) < 16"
    unfolding top using unit_less [of a] by simp_all
  moreover have "list_all (\<lambda>n. ((of_nat n :: byte) AND 0x0F) OR 0xE0 = of_nat (0xE0 + n)) [0..<16]" by code_simp
  then have "((b :: byte) AND 0x0F) OR 0xE0 = of_nat (0xE0 + unat b)" if "unat b < 16" for b
    using that by (auto simp: list_all_iff dest!: bspec [of _ _ "unat b"])
  moreover have "(ucast ((drop_bit 12 a AND 0x0F) OR 0xE0) :: byte) = (ucast (drop_bit 12 a) AND 0x0F) OR 0xE0"
    by (simp add: unsigned_or_eq unsigned_and_eq)
  ultimately have "(ucast ((drop_bit 12 a AND 0x0F) OR 0xE0) :: byte) = of_nat (0xE0 + unat a div 4096)"
    using byte_of_unat [of "ucast (drop_bit 12 a)" "unat a div 4096"] by simp
  then show ?thesis
    using assms unit_less [of a] unfolding putUTF8Triple_def mid unat_drop_bit_eq
    by (simp add: utf8Bytes_def drop_bit_eq_div del: of_nat_add)
qed

lemma replacing_conversion:
  "length target + 3 * length source \<le> room \<Longrightarrow>
     replacingLoop room source target = Done (target @ encoded (map replaced (codePoints source)))"
proof (induction "length source" arbitrary: source target rule: less_induct)
  case less
  show ?case
  proof (cases "source = []")
    case True
    then show ?thesis by (simp add: replacingLoop.simps)
  next
    case False
    obtain r rest t where c: "convertUTF16ToUTF8 True room source target = (r, rest, t)"
      by (cases "convertUTF16ToUTF8 True room source target")
    then have stop: "stopsAt source target (r, rest, t)" using strict_conversion [OF less(2)] by simp
    then obtain cs where cs: "list_all scalar cs" "t = target @ encoded cs" "length (encoded cs) + 3 * length rest \<le> 3 * length source"
      and ends: "r = conversionOK \<and> rest = [] \<and> codePoints source = cs \<or>
         r \<noteq> conversionOK \<and> (\<exists>a s. rest = a # s \<and> \<not> scalar (unat a) \<and> codePoints source = cs @ unat a # codePoints s)"
      unfolding stopsAt_def by auto
    have same: "map replaced cs = cs" using cs(1) by (auto simp: replaced_def list_all_iff intro: map_idI)
    from ends show ?thesis
    proof
      assume "r = conversionOK \<and> rest = [] \<and> codePoints source = cs"
      then show ?thesis using False c cs(2) same by (simp add: replacingLoop.simps [of room source] replacingLoop.simps [of room "[]"])
    next
      assume "r \<noteq> conversionOK \<and> (\<exists>a s. rest = a # s \<and> \<not> scalar (unat a) \<and> codePoints source = cs @ unat a # codePoints s)"
      then obtain a s where a: "r \<noteq> conversionOK" "rest = a # s" "\<not> scalar (unat a)" "codePoints source = cs @ unat a # codePoints s" by blast
      have put: "putUTF8Triple replacementCharacter = utf8Bytes (replaced (unat a))"
        using a(3) triple_byte [of replacementCharacter] by (simp add: replaced_def replacementCharacter_def)
      have three: "length (utf8Bytes (replaced (unat a))) = 3" using a(3) by (simp add: replaced_def length_utf8Bytes)
      have "length s < length source" "length (t @ utf8Bytes (replaced (unat a))) + 3 * length s \<le> room"
        using cs(2,3) a(2) three less(2) by auto
      from less(1) [OF this] show ?thesis
        using False c cs a same put three less(2) by (simp add: replacingLoop.simps [of room source target])
    qed
  qed
qed

lemma lenient_conversion:
  assumes "length target + 3 * length source \<le> room"
  shows "\<exists>rest t. convertUTF16ToUTF8 False room source target = (if rest = [] then conversionOK else sourceExhausted, rest, t) \<and>
     (rest = [] \<and> t = target @ encoded (codePoints source) \<or>
      (\<exists>a. rest = [a] \<and> highSurrogate a \<and> length t + 3 \<le> room \<and> t @ utf8Bytes (unat a) = target @ encoded (codePoints source)))"
  using assms
proof (induction source arbitrary: target rule: codePoints.induct)
  case 1
  show ?case by (simp add: convertUTF16ToUTF8.simps)
next
  case (2 a)
  have le: "unat a \<le> 0x10FFFF" using unit_less [of a] by simp
  show ?case
  proof (cases "highSurrogate a")
    case True
    then have "readUTF16 False [a] = Inl sourceExhausted" by (simp add: readUTF16_Cons)
    from convert_stop [OF _ this, of room target] show ?thesis using True 2 by (intro exI [of _ "[a]"] exI [of _ target]) simp
  next
    case False
    then have "readUTF16 False [a] = Inr (of_nat (unat a), [])" by (simp add: readUTF16_Cons)
    from encode_step [OF this _ le, of target room] show ?thesis using 2 length_unit [of a]
      by (intro exI [of _ "[]"] exI [of _ "target @ utf8Bytes (unat a)"]) (simp add: convertUTF16ToUTF8.simps)
  qed
next
  case (3 a b s)
  note points = codePoints_pair [of a b s]
  have le: "unat a \<le> 0x10FFFF" using unit_less [of a] by simp
  show ?case
  proof (cases "highSurrogate a \<and> lowSurrogate b")
    case True
    define c where "c = 0x10000 + (unat a - 0xD800) * 1024 + (unat b - 0xDC00)"
    have c: "c \<le> 0x10FFFF" "codePoints (a # b # s) = c # codePoints s" "readUTF16 False (a # b # s) = Inr (of_nat c, s)"
      using True points scalar_pair [of a b] unfolding c_def by (auto simp: scalar_le readUTF16_Cons)
    have "length (target @ utf8Bytes c) + 3 * length s \<le> room" using 3(3) length_sequence [of c] by simp
    from encode_step [OF c(3) _ c(1), of target room] 3(1) [OF _ this] this True show ?thesis
      unfolding c(2) by (simp add: surrogates)
  next
    case False
    then have "readUTF16 False (a # b # s) = Inr (of_nat (unat a), b # s)" by (simp add: readUTF16_Cons)
    from encode_step [OF this _ le, of target room] 3(2) [of "target @ utf8Bytes (unat a)"] 3(3) False length_unit [of a]
    show ?thesis by (auto simp: points surrogates)
  qed
qed

section \<open>Strings\<close>

lemma byte_less: "unat (b :: byte) < 256"
  using unsigned_less [of b] by simp

lemma unat_latin1: "unat (ucast (a :: byte) :: uchar) = unat a" "unat (ucast a :: UChar32) = unat a"
  unfolding unsigned_ucast_eq using byte_less [of a] by (intro take_bit_nat_eq_self; simp)+

lemma latin1_scalar: "list_all scalar (codePoints (map ucast (cs :: byte list)))"
proof (induction cs)
  case (Cons a cs)
  have "\<not> highSurrogate (ucast a)" "scalar (unat a)"
    unfolding highSurrogate_def unat_latin1 using byte_less [of a] by (simp_all add: scalar_def)
  then show ?case using Cons codePoints_single [of "ucast a" "map ucast cs"] by (simp add: unat_latin1)
qed simp

lemma latin1_conversion:
  "length target + 3 * length source \<le> room \<Longrightarrow>
     convertLatin1ToUTF8 room source target = (conversionOK, [], target @ encoded (codePoints (map ucast source)))"
proof (induction source arbitrary: target)
  case Nil
  then show ?case by (simp add: convertLatin1ToUTF8.simps)
next
  case (Cons a s)
  note u = unat_latin1 [of a] byte_less [of a]
  have "\<not> highSurrogate (ucast a)" unfolding highSurrogate_def u using u(3) by simp
  note points = codePoints_single [OF this, of "map ucast s", unfolded u]
  have w: "(ucast a :: UChar32) = of_nat (unat a)" using u(2) by (rule code_from_unat)
  have n: "(if (ucast a :: UChar32) < 0x80 then 1 else 2) = length (utf8Bytes (unat a))"
    unfolding word_less_nat_alt u using u(3) by (simp add: length_utf8Bytes)
  have "unat a \<le> 0x10FFFF" "length (utf8Bytes (unat a)) \<le> 2" using u(3) by (simp_all add: length_utf8Bytes)
  then show ?case
    using Cons.prems Cons.IH [of "target @ utf8Bytes (unat a)"] written_bytes(2) [of "unat a"]
    unfolding convertLatin1ToUTF8.simps [of room "a # s"] Let_def list.case n
    by (simp add: points flip: w)
qed

lemma utf8_of_string:
  assumes "length (characters s) \<le> 0xFFFFFFFF div 3"
  shows "StringImpl_utf8 StrictConversionReplacingUnpairedSurrogatesWithFFFD s = Done (encoded (map replaced (codePoints (characters s)))) \<and>
     StringImpl_utf8 LenientConversion s = Done (encoded (codePoints (characters s))) \<and>
     StringImpl_utf8 StrictConversion s =
       (if list_all scalar (codePoints (characters s)) then Done (encoded (codePoints (characters s))) else Null)"
proof (cases "characters s = []")
  case True
  then show ?thesis by (simp add: StringImpl_utf8_def)
next
  case False
  have same: "map replaced (codePoints (characters s)) = codePoints (characters s)" if "list_all scalar (codePoints (characters s))"
    using that by (auto simp: replaced_def list_all_iff intro: map_idI)
  show ?thesis
  proof (cases s)
    case (String8 cs)
    then show ?thesis
      using False assms same latin1_scalar [of cs] latin1_conversion [of "[]" cs "length cs * 3"]
      by (simp add: StringImpl_utf8_def Let_def)
  next
    case (String16 cs)
    let ?room = "length cs * 3"
    have room: "length ([] :: byte list) + 3 * length cs \<le> ?room" by simp
    have s: "StringImpl_utf8 mode s = utf8Impl cs ?room mode" for mode
      using False assms String16 by (simp add: StringImpl_utf8_def Let_def)
    obtain rest t where "convertUTF16ToUTF8 False ?room cs [] = (if rest = [] then conversionOK else sourceExhausted, rest, t)"
      "rest = [] \<and> t = encoded (codePoints cs) \<or>
        (\<exists>a. rest = [a] \<and> highSurrogate a \<and> length t + 3 \<le> ?room \<and> t @ utf8Bytes (unat a) = encoded (codePoints cs))"
      using lenient_conversion [OF room] by auto
    then have lenient: "utf8Impl cs ?room LenientConversion = Done (encoded (codePoints cs))"
      by (auto simp: utf8Impl_def triple_byte surrogates)
    obtain r rest' t' where c: "convertUTF16ToUTF8 True ?room cs [] = (r, rest', t')"
      by (cases "convertUTF16ToUTF8 True ?room cs []")
    then have "stopsAt cs [] (r, rest', t')" using strict_conversion [OF room] by simp
    then have "utf8Impl cs ?room StrictConversion =
        (if list_all scalar (codePoints cs) then Done (encoded (codePoints cs)) else Null)"
      using c by (auto simp: stopsAt_def utf8Impl_def)
    then show ?thesis
      using String16 s lenient replacing_conversion [OF room] by (simp add: utf8Impl_def)
  qed
qed

end
