(* ===== verification/UTF8_Theorems.thy ===== *)
theory UTF8_Theorems
  imports UTF8_Encoding
begin

text \<open>
  The properties of the conversions between UTF-8 and UTF-16.
\<close>

section \<open>What is refused\<close>

lemma surrogate_rejected:
  assumes "\<not> scalar c" and "c \<le> 0x10FFFF"
  shows "convertUTF8ToUTF16 strict room (utf8Bytes c @ s) target ored = (sourceIllegal, utf8Bytes c @ s, target, ored)"
proof -
  have c: "0xD800 \<le> c" "c \<le> 0xDFFF" using assms by (auto simp: scalar_def)
  have top: "c div 4096 = 13" using c by linarith
  have "c div 64 = 64 * (c div 4096) + c div 64 mod 64" using digits [of c] by simp
  then have mid: "32 \<le> c div 64 mod 64" using c unfolding top by linarith
  have bytes: "utf8Bytes c = [0xED, of_nat (0x80 + c div 64 mod 64), of_nat (0x80 + c mod 64)]"
    using c top by (simp add: utf8Bytes_def)
  have second: "unat (of_nat (0x80 + c div 64 mod 64) :: byte) = 0x80 + c div 64 mod 64" by (intro unat_byte) linarith
  have n: "inlineUTF8SequenceLength 0xED = 3" by code_simp
  have "\<not> isLegalUTF8 (utf8Bytes c @ s) 3"
    using mid unfolding bytes append_Cons legal3 legal2 second by simp
  then show ?thesis
    unfolding convertUTF8ToUTF16.simps [of strict room "utf8Bytes c @ s"] by (simp add: bytes n Let_def del: of_nat_add)
qed

lemma decode_stops:
  assumes "list_all (\<lambda>c. c \<le> 0x10FFFF) cs" and "\<not> list_all scalar cs"
  shows "fst (convertUTF8ToUTF16 strict room (encoded cs) target ored) \<noteq> conversionOK"
  using assms
proof (induction cs arbitrary: target ored)
  case (Cons c cs)
  show ?case
  proof (cases "scalar c")
    case True
    then show ?thesis using Cons by (simp add: decode_step)
  next
    case False
    then show ?thesis using Cons.prems by (simp add: surrogate_rejected)
  qed
qed simp

lemma points_bounded: "list_all (\<lambda>c. c \<le> 0x10FFFF) (codePoints s)"
proof (induction s rule: codePoints.induct)
  case (2 a)
  show ?case using unit_less [of a] by simp
next
  case (3 a b s)
  have "unat a \<le> 0x10FFFF" using unit_less [of a] by simp
  then show ?case
    using 3 scalar_le [OF scalar_pair [of a b]] by (cases "highSurrogate a \<and> lowSurrogate b") (simp_all add: codePoints_pair surrogates)
qed simp

lemma units_of_points: "concat (map utf16Units (codePoints s)) = s"
proof (induction s rule: codePoints.induct)
  case (2 a)
  show ?case using unit_less [of a] by (simp add: utf16Units_def)
next
  case (3 a b s)
  have plain: "utf16Units (unat a) = [a]" using unit_less [of a] by (simp add: utf16Units_def)
  show ?case
  proof (cases "highSurrogate a \<and> lowSurrogate b")
    case True
    have low: "unat b - 0xDC00 < 1024" using True by (auto simp: surrogates)
    have "((unat a - 0xD800) * 1024 + (unat b - 0xDC00)) div 1024 = unat a - 0xD800"
      "((unat a - 0xD800) * 1024 + (unat b - 0xDC00)) mod 1024 = unat b - 0xDC00"
      using low by simp_all
    then have "utf16Units (0x10000 + (unat a - 0xD800) * 1024 + (unat b - 0xDC00)) =
        [of_nat (0xD800 + (unat a - 0xD800)), of_nat (0xDC00 + (unat b - 0xDC00))]"
      by (simp add: utf16Units_def del: of_nat_add)
    moreover have "0xD800 + (unat a - 0xD800) = unat a" "0xDC00 + (unat b - 0xDC00) = unat b"
      using True by (auto simp: surrogates)
    ultimately have "utf16Units (0x10000 + (unat a - 0xD800) * 1024 + (unat b - 0xDC00)) = [a, b]"
      by simp
    then show ?thesis using True 3 by (simp add: codePoints_pair surrogates)
  next
    case False
    then show ?thesis using 3 plain by (auto simp: codePoints_pair surrogates)
  qed
qed simp

lemma ascii_all_scalar: "list_all isASCII (encoded cs) \<Longrightarrow> list_all (\<lambda>c. c \<le> 0x10FFFF) cs \<Longrightarrow> list_all scalar cs"
  using ascii_encoding by (auto simp: list_all_iff scalar_def)

lemma fromUTF8_stops:
  assumes "list_all (\<lambda>c. c \<le> 0x10FFFF) cs" and "\<not> list_all scalar cs"
  shows "String_fromUTF8 (encoded cs) = None"
proof -
  have "encoded cs \<noteq> []" using assms by (cases cs) auto
  moreover have "\<not> list_all isASCII (encoded cs)" using assms ascii_all_scalar by blast
  ultimately show ?thesis
    using decode_stops [OF assms, of True "length (encoded cs)" "[]" 0]
    by (cases "convertUTF8ToUTF16 True (length (encoded cs)) (encoded cs) [] 0") (simp add: String_fromUTF8_def)
qed

lemma broken_accepted:
  assumes "b < 0x80 \<and> 0x80 \<le> c \<and> c \<le> 0xBF"
  shows "String_fromUTF8 [0xED, b, c] = Some (String16 [of_nat (0xAF80 + 64 * unat b + unat c)])"
proof -
  have b: "unat b < 0x80" "0x80 \<le> unat c" "unat c \<le> 0xBF" using assms by (simp_all add: byte_nat)
  define cp where "cp = 0xAF80 + 64 * unat b + unat c"
  have cp: "cp \<le> 0x10FFFF" "cp < 0xD800" using b by (simp_all add: cp_def)
  have n: "inlineUTF8SequenceLength 0xED = 3" "unat (0xED :: byte) = 0xED" by code_simp+
  have legal: "isLegalUTF8 [0xED, b, c] 3" using b unfolding legal3 legal2 n by simp
  have "(unat (0xED :: byte) * 64 + unat b) * 64 + unat c - 0xE2080 = cp" unfolding n cp_def by simp
  then have read: "readUTF8Sequence [0xED, b, c] 3 = of_nat cp" using read3 [of "0xED" b c "[]"] n by simp
  have surrogate: "\<not> is_SURROGATE (of_nat cp)" using cp unfolding is_SURROGATE_iff unat_code [OF cp(1)] by simp
  have end_of_text: "convertUTF8ToUTF16 True 3 [] units ored = (conversionOK, [], units, ored)" for units ored
    by (simp add: convertUTF8ToUTF16.simps)
  have "convertUTF8ToUTF16 True 3 [0xED, b, c] [] 0 = (conversionOK, [], [of_nat cp], of_nat cp)"
    using cp(2) by (simp add: convertUTF8ToUTF16.simps [of True 3 "[0xED, b, c]"] n(1) legal read is_BMP_of_nat [OF cp(1)] surrogate
        unit_of_nat end_of_text)
  moreover have "\<not> isASCII 0xED" by code_simp
  ultimately show ?thesis
    unfolding cp_def [symmetric] String_fromUTF8_def by (simp flip: numeral_3_eq_3)
qed

section \<open>Properties\<close>

text \<open>
  C39. Decoding: the UTF-8 encodings of scalar values are decoded to their UTF-16 encodings, whatever the
  text; and nothing else is accepted, except where the first byte 0xED or 0xF4 of a sequence is followed
  by a byte below 0x80, which \<open>isLegalUTF8\<close> does not look at. There ill-formed text is accepted and the
  bytes, 0xED and any byte of ASCII among them, become a character of another block.
\<close>

theorem fromUTF8_decodes:
  "(list_all scalar cs \<longrightarrow> map_option characters (String_fromUTF8 (encoded cs)) = Some (concat (map utf16Units cs))) \<and>
   (unbroken bytes \<longrightarrow> (String_fromUTF8 bytes \<noteq> None \<longleftrightarrow> (\<exists>cs. list_all scalar cs \<and> bytes = encoded cs))) \<and>
   (b < 0x80 \<and> 0x80 \<le> c \<and> c \<le> 0xBF \<longrightarrow> String_fromUTF8 [0xED, b, c] = Some (String16 [of_nat (0xAF80 + 64 * unat b + unat c)]))"
proof (intro conjI impI)
  assume "list_all scalar cs"
  from fromUTF8_encoded [OF this]
  show "map_option characters (String_fromUTF8 (encoded cs)) = Some (concat (map utf16Units cs))" by auto
next
  assume "unbroken bytes"
  then show "String_fromUTF8 bytes \<noteq> None \<longleftrightarrow> (\<exists>cs. list_all scalar cs \<and> bytes = encoded cs)"
    using fromUTF8_only fromUTF8_encoded by fastforce
next
  assume "b < 0x80 \<and> 0x80 \<le> c \<and> c \<le> 0xBF"
  then show "String_fromUTF8 [0xED, b, c] = Some (String16 [of_nat (0xAF80 + 64 * unat b + unat c)])"
    by (rule broken_accepted)
qed

theorem fromUTF8_decodes_witness:
  "map_option characters (String_fromUTF8 [0xF0, 0x9F, 0x98, 0x80]) = Some [0xD83D, 0xDE00] \<and>
   String_fromUTF8 [0xC3] = None \<and> String_fromUTF8 [0xED, 0x01, 0x80] = Some (String16 [0xB040])"
proof -
  note d = fromUTF8_decodes [of "[0x1F600]" "[]" "0x01" "0x80"]
  have "list_all scalar [0x1F600]" "encoded [0x1F600] = [0xF0, 0x9F, 0x98, 0x80]"
    "concat (map utf16Units [0x1F600]) = [0xD83D, 0xDE00]" "(0x01 :: byte) < 0x80 \<and> (0x80 :: byte) \<le> 0x80 \<and> (0x80 :: byte) \<le> 0xBF"
    "of_nat (0xAF80 + 64 * unat (0x01 :: byte) + unat (0x80 :: byte)) = (0xB040 :: uchar)"
    by (simp_all add: scalar_def utf8Bytes_def utf16Units_def)
  moreover have "String_fromUTF8 [0xC3] = None" by code_simp
  ultimately show ?thesis using d by simp
qed

text \<open>
  C40. Encoding, in the three modes and for 8-bit and 16-bit strings: replacing writes the code points of
  the text with U+FFFD for each surrogate without a partner, and what it writes is decoded to exactly
  that; the lenient mode writes such surrogates as they are, and its output is decoded only if there are
  none; the strict mode then answers null. Without such surrogates all modes write the same, and
  decoding gives the string back. The length bound is the code's.
\<close>

theorem utf8_roundtrip:
  assumes "length (characters s) \<le> 0xFFFFFFFF div 3"
  shows "let cs = codePoints (characters s); clean = map replaced cs
    in StringImpl_utf8 StrictConversionReplacingUnpairedSurrogatesWithFFFD s = Done (encoded clean) \<and>
       map_option characters (String_fromUTF8 (encoded clean)) = Some (concat (map utf16Units clean)) \<and>
       StringImpl_utf8 LenientConversion s = Done (encoded cs) \<and>
       (if list_all scalar cs then
          clean = cs \<and> StringImpl_utf8 StrictConversion s = Done (encoded cs) \<and>
          map_option characters (String_fromUTF8 (encoded cs)) = Some (characters s)
        else StringImpl_utf8 StrictConversion s = Null \<and> String_fromUTF8 (encoded cs) = None)"
proof -
  define cs where "cs = codePoints (characters s)"
  have "scalar (replaced c)" for c by (simp add: replaced_def scalar_def)
  then have clean: "list_all scalar (map replaced cs)" by (simp add: list_all_iff)
  have same: "map replaced cs = cs" if "list_all scalar cs" using that by (auto simp: replaced_def list_all_iff intro: map_idI)
  have units: "concat (map utf16Units cs) = characters s" unfolding cs_def by (rule units_of_points)
  have stops: "String_fromUTF8 (encoded cs) = None" if "\<not> list_all scalar cs"
    using fromUTF8_stops [OF points_bounded that [unfolded cs_def]] by (simp add: cs_def)
  show ?thesis
    using utf8_of_string [OF assms] fromUTF8_encoded [OF clean] same fromUTF8_encoded [of cs] stops
    unfolding Let_def cs_def [symmetric] units by auto
qed

theorem utf8_roundtrip_witness:
  "StringImpl_utf8 StrictConversionReplacingUnpairedSurrogatesWithFFFD (String16 [0xE9, 0xD83D, 0xDE00, 0xD800]) =
     Done [0xC3, 0xA9, 0xF0, 0x9F, 0x98, 0x80, 0xEF, 0xBF, 0xBD] \<and>
   String_fromUTF8 [0xC3, 0xA9, 0xF0, 0x9F, 0x98, 0x80, 0xED, 0xA0, 0x80] = None \<and>
   map_option characters (String_fromUTF8 (encoded (codePoints [0xE9, 0xD83D, 0xDE00]))) = Some [0xE9, 0xD83D, 0xDE00]"
proof -
  have e: "encoded (map replaced (codePoints [0xE9, 0xD83D, 0xDE00, 0xD800])) = [0xC3, 0xA9, 0xF0, 0x9F, 0x98, 0x80, 0xEF, 0xBF, 0xBD]"
    "encoded (codePoints [0xE9, 0xD83D, 0xDE00, 0xD800]) = [0xC3, 0xA9, 0xF0, 0x9F, 0x98, 0x80, 0xED, 0xA0, 0x80]"
    "\<not> list_all scalar (codePoints [0xE9, 0xD83D, 0xDE00, 0xD800])" "list_all scalar (codePoints [0xE9, 0xD83D, 0xDE00])"
    by (simp_all add: scalar_def utf8Bytes_def replaced_def)
  show ?thesis
    using utf8_roundtrip [of "String16 [0xE9, 0xD83D, 0xDE00, 0xD800]"] utf8_roundtrip [of "String16 [0xE9, 0xD83D, 0xDE00]"] e
    by (simp add: Let_def del: codePoints.simps)
qed

end
