(* ===== verification/WebSocket_Frame.thy ===== *)
theory WebSocket_Frame
  imports Prelude
begin

text \<open>
  \<open>WebSocketFrame\<close> (\<open>Modules/websockets/WebSocketFrame.cpp\<close>): parsing a frame at the front of a buffer,
  which unmasks it in place, and making the bytes of a frame. A pointer into the buffer is an index;
  the pointer \<open>payload\<close> is the list of the bytes it points to. The masking key that
  \<open>cryptographicallyRandomValues\<close> provides and the largest \<open>size_t\<close> are parameters.
\<close>

unbundle bit_operations_syntax

section \<open>Frames\<close>

type_synonym uint64 = "64 word"

text \<open>The code casts any number below 16 to \<open>OpCode\<close>: a value of the enumeration is its number.\<close>

type_synonym OpCode = byte

definition OpCodeContinuation :: OpCode where "OpCodeContinuation = 0x0"
definition OpCodeText :: OpCode where "OpCodeText = 0x1"
definition OpCodeBinary :: OpCode where "OpCodeBinary = 0x2"
definition OpCodeClose :: OpCode where "OpCodeClose = 0x8"
definition OpCodePing :: OpCode where "OpCodePing = 0x9"
definition OpCodePong :: OpCode where "OpCodePong = 0xA"
definition OpCodeInvalid :: OpCode where "OpCodeInvalid = 0x10"

lemmas opCodes = OpCodeContinuation_def OpCodeText_def OpCodeBinary_def OpCodeClose_def OpCodePing_def
  OpCodePong_def OpCodeInvalid_def

datatype ParseFrameResult = FrameOK | FrameIncomplete | FrameError

record WebSocketFrame =
  opCode :: OpCode
  final :: bool
  compress :: bool
  reserved2 :: bool
  reserved3 :: bool
  masked :: bool
  payload :: "byte list"
  payloadLength :: nat

definition isNonControlOpCode :: "OpCode \<Rightarrow> bool" where
  "isNonControlOpCode code \<longleftrightarrow> code = OpCodeContinuation \<or> code = OpCodeText \<or> code = OpCodeBinary"

definition isControlOpCode :: "OpCode \<Rightarrow> bool" where
  "isControlOpCode code \<longleftrightarrow> code = OpCodeClose \<or> code = OpCodePing \<or> code = OpCodePong"

definition isReservedOpCode :: "OpCode \<Rightarrow> bool" where
  "isReservedOpCode code \<longleftrightarrow> \<not> isNonControlOpCode code \<and> \<not> isControlOpCode code"

definition newFrame :: "OpCode \<Rightarrow> bool \<Rightarrow> bool \<Rightarrow> bool \<Rightarrow> byte list \<Rightarrow> nat \<Rightarrow> WebSocketFrame" where
  "newFrame code final' compress' masked' payload' payloadLength' =
     \<lparr>opCode = code, final = final', compress = compress', reserved2 = False, reserved3 = False,
      masked = masked', payload = payload', payloadLength = payloadLength'\<rparr>"

definition finalBit :: byte where "finalBit = 0x80"
definition compressBit :: byte where "compressBit = 0x40"
definition reserved2Bit :: byte where "reserved2Bit = 0x20"
definition reserved3Bit :: byte where "reserved3Bit = 0x10"
definition opCodeMask :: byte where "opCodeMask = 0xF"
definition maskBit :: byte where "maskBit = 0x80"
definition payloadLengthMask :: byte where "payloadLengthMask = 0x7F"
definition maxPayloadLengthWithoutExtendedLengthField :: nat where "maxPayloadLengthWithoutExtendedLengthField = 125"
definition payloadLengthWithTwoByteExtendedLengthField :: nat where "payloadLengthWithTwoByteExtendedLengthField = 126"
definition payloadLengthWithEightByteExtendedLengthField :: nat where "payloadLengthWithEightByteExtendedLengthField = 127"
definition maskingKeyWidthInBytes :: nat where "maskingKeyWidthInBytes = 4"
definition maxPayloadLength :: uint64 where "maxPayloadLength = 0x7FFFFFFFFFFFFFFF"

lemmas frameBits = finalBit_def compressBit_def reserved2Bit_def reserved3Bit_def opCodeMask_def maskBit_def
  payloadLengthMask_def

lemmas frameSizes = maxPayloadLengthWithoutExtendedLengthField_def payloadLengthWithTwoByteExtendedLengthField_def
  payloadLengthWithEightByteExtendedLengthField_def maskingKeyWidthInBytes_def

definition needsExtendedLengthField :: "nat \<Rightarrow> bool" where
  "needsExtendedLengthField n \<longleftrightarrow> n > maxPayloadLengthWithoutExtendedLengthField"

section \<open>Decimal numbers in messages\<close>

text \<open>\<open>String::number\<close> writes the digits from the last to the first.\<close>

fun numberLoop :: "nat \<Rightarrow> string \<Rightarrow> string" where
  "numberLoop number p =
     (let p' = char_of (number mod 10 + 48) # p
      in if number div 10 = 0 then p' else numberLoop (number div 10) p')"

declare numberLoop.simps [simp del]

definition String_number :: "nat \<Rightarrow> string" where
  "String_number n = numberLoop n []"

definition String_number_int :: "int \<Rightarrow> string" where
  "String_number_int n = (if n < 0 then CHR ''-'' # String_number (nat (- n)) else String_number (nat n))"

section \<open>Masking\<close>

text \<open>
  The loop over \<open>payload[i] ^= maskingKey[i % 4]\<close>, with both pointers into the same buffer, and what
  it does to the payload.
\<close>

fun maskLoop :: "nat \<Rightarrow> nat \<Rightarrow> nat \<Rightarrow> nat \<Rightarrow> byte list \<Rightarrow> byte list" where
  "maskLoop keyStart payloadStart i 0 buf = buf"
| "maskLoop keyStart payloadStart i (Suc n) buf =
     maskLoop keyStart payloadStart (Suc i) n
       (buf[payloadStart + i := buf ! (payloadStart + i) XOR buf ! (keyStart + i mod maskingKeyWidthInBytes)])"

definition applyMask :: "byte list \<Rightarrow> byte list \<Rightarrow> byte list" where
  "applyMask key xs = map (\<lambda>i. xs ! i XOR key ! (i mod 4)) [0..<length xs]"

lemma length_maskLoop [simp]: "length (maskLoop k p i n buf) = length buf"
  by (induction k p i n buf rule: maskLoop.induct) auto

lemma length_applyMask [simp]: "length (applyMask key xs) = length xs"
  by (simp add: applyMask_def)

lemma nth_applyMask: "i < length xs \<Longrightarrow> applyMask key xs ! i = xs ! i XOR key ! (i mod 4)"
  by (simp add: applyMask_def)

lemma applyMask_applyMask [simp]: "applyMask key (applyMask key xs) = xs"
  by (rule nth_equalityI) (simp_all add: nth_applyMask xor.assoc)

lemma maskLoop_nth:
  assumes "k + 4 \<le> p" "p + i + n \<le> length buf" "j < length buf"
  shows "maskLoop k p i n buf ! j =
     (if p + i \<le> j \<and> j < p + i + n then buf ! j XOR buf ! (k + (j - p) mod 4) else buf ! j)"
  using assms
proof (induction n arbitrary: i buf)
  case (Suc n)
  let ?buf = "buf[p + i := buf ! (p + i) XOR buf ! (k + i mod 4)]"
  have far: "k + m mod 4 < p" for m
  proof -
    have "m mod 4 < 4" by simp
    then show ?thesis using Suc.prems(1) by linarith
  qed
  have other: "?buf ! (k + m mod 4) = buf ! (k + m mod 4)" for m
    using far [of m] by (simp add: nth_list_update)
  have "maskLoop k p (Suc i) n ?buf ! j =
      (if p + Suc i \<le> j \<and> j < p + Suc i + n then ?buf ! j XOR ?buf ! (k + (j - p) mod 4) else ?buf ! j)"
    using Suc.prems by (intro Suc.IH) auto
  then show ?case using Suc.prems other by (cases "j = p + i") (auto simp: frameSizes nth_list_update)
qed auto

lemma maskLoop_applyMask:
  assumes "length key = 4"
  shows "maskLoop (length h) (length h + 4) 0 (length xs) (h @ key @ xs @ rest) = h @ key @ applyMask key xs @ rest"
proof (rule nth_equalityI)
  fix j
  assume j: "j < length (maskLoop (length h) (length h + 4) 0 (length xs) (h @ key @ xs @ rest))"
  have small: "m mod 4 < 4" for m :: nat by simp
  have key: "(h @ key @ xs @ rest) ! (length h + m mod 4) = key ! (m mod 4)" for m
    using assms small [of m] by (simp add: nth_append)
  show "maskLoop (length h) (length h + 4) 0 (length xs) (h @ key @ xs @ rest) ! j =
      (h @ key @ applyMask key xs @ rest) ! j"
    using j assms key [of "j - length h - 4"]
    by (subst maskLoop_nth) (auto simp: nth_append nth_applyMask)
qed simp

section \<open>Parsing\<close>

record ParseFrameOutcome =
  parseResult :: ParseFrameResult
  parsedData :: "byte list"
  parsedFrame :: WebSocketFrame
  parsedEnd :: "nat option"
  parsedError :: "string option"

datatype PayloadLength = PayloadLength uint64 nat | LengthIncomplete | LengthError string

fun extendedLengthLoop :: "byte list \<Rightarrow> nat \<Rightarrow> nat \<Rightarrow> uint64 \<Rightarrow> uint64" where
  "extendedLengthLoop data p 0 payloadLength64 = payloadLength64"
| "extendedLengthLoop data p (Suc n) payloadLength64 =
     extendedLengthLoop data (p + 1) n (push_bit 8 payloadLength64 OR ucast (data ! p))"

definition parsePayloadLength :: "byte list \<Rightarrow> PayloadLength" where
  "parsePayloadLength data =
     (let payloadLength64 = ucast (data ! 1 AND payloadLengthMask)
      in if payloadLength64 > of_nat maxPayloadLengthWithoutExtendedLengthField then
           let extendedPayloadLengthSize =
                 (if payloadLength64 = of_nat payloadLengthWithTwoByteExtendedLengthField then 2 else 8)
           in if length data - 2 < extendedPayloadLengthSize then LengthIncomplete
              else
                let payloadLength64 = extendedLengthLoop data 2 extendedPayloadLengthSize 0
                in if extendedPayloadLengthSize = 2 \<and>
                      payloadLength64 \<le> of_nat maxPayloadLengthWithoutExtendedLengthField
                   then LengthError ''The minimal number of bytes MUST be used to encode the length''
                   else if extendedPayloadLengthSize = 8 \<and> payloadLength64 \<le> 0xFFFF
                   then LengthError ''The minimal number of bytes MUST be used to encode the length''
                   else PayloadLength payloadLength64 (2 + extendedPayloadLengthSize)
         else PayloadLength payloadLength64 2)"

definition parseFrame :: "uint64 \<Rightarrow> byte list \<Rightarrow> WebSocketFrame \<Rightarrow> ParseFrameOutcome" where
  "parseFrame sizeMax data frame =
     (let stop = (\<lambda>result message.
            \<lparr>parseResult = result, parsedData = data, parsedFrame = frame, parsedEnd = None, parsedError = message\<rparr>)
      in if length data < 2 then stop FrameIncomplete None
         else
           let firstByte = data ! 0; secondByte = data ! 1;
               masked' = (secondByte AND maskBit \<noteq> 0)
           in case parsePayloadLength data of
                LengthIncomplete \<Rightarrow> stop FrameIncomplete None
              | LengthError message \<Rightarrow> stop FrameError (Some message)
              | PayloadLength payloadLength64 p \<Rightarrow>
                  let maskingKeyLength = (if masked' then maskingKeyWidthInBytes else 0)
                  in if payloadLength64 > maxPayloadLength \<or> payloadLength64 + of_nat maskingKeyLength > sizeMax
                     then stop FrameError
                            (Some (''WebSocket frame length too large: '' @ String_number (unat payloadLength64) @ '' bytes''))
                     else
                       let payloadLength' = unat payloadLength64
                       in if length data - p < maskingKeyLength + payloadLength' then stop FrameIncomplete None
                          else
                            let data' = (if masked' then maskLoop p (p + maskingKeyWidthInBytes) 0 payloadLength' data else data);
                                start = p + maskingKeyLength
                            in \<lparr>parseResult = FrameOK, parsedData = data',
                                parsedFrame =
                                  frame\<lparr>opCode := firstByte AND opCodeMask, final := firstByte AND finalBit \<noteq> 0,
                                    compress := firstByte AND compressBit \<noteq> 0,
                                    reserved2 := firstByte AND reserved2Bit \<noteq> 0,
                                    reserved3 := firstByte AND reserved3Bit \<noteq> 0, masked := masked',
                                    payload := take payloadLength' (drop start data'), payloadLength := payloadLength'\<rparr>,
                                parsedEnd = Some (start + payloadLength'), parsedError = None\<rparr>)"

section \<open>Making\<close>

fun fillLengthLoop :: "nat \<Rightarrow> nat \<Rightarrow> uint64 \<Rightarrow> byte list \<Rightarrow> byte list" where
  "fillLengthLoop i 0 remaining buf = buf"
| "fillLengthLoop i (Suc n) remaining buf =
     fillLengthLoop (Suc i) n (drop_bit 8 remaining) (buf[7 - i := ucast (remaining AND 0xFF)])"

definition appendFramePayload :: "byte list \<Rightarrow> WebSocketFrame \<Rightarrow> byte list \<Rightarrow> byte list" where
  "appendFramePayload maskingKey frame frameData =
     (let maskingKeyStart = length frameData;
          frameData = (if masked frame then frameData @ replicate maskingKeyWidthInBytes 0 else frameData);
          payloadStart = length frameData;
          frameData = frameData @ take (payloadLength frame) (payload frame)
      in if masked frame then
           let frameData = take maskingKeyStart frameData @ maskingKey @ drop (maskingKeyStart + maskingKeyWidthInBytes) frameData
           in maskLoop maskingKeyStart payloadStart 0 (payloadLength frame) frameData
         else frameData)"

definition frameHeader :: "WebSocketFrame \<Rightarrow> byte list" where
  "frameHeader frame =
     (let n = of_nat (payloadLength frame) :: uint64;
          first = (if final frame then finalBit else 0) OR (if compress frame then compressBit else 0) OR opCode frame;
          second = (if masked frame then maskBit else 0)
      in if payloadLength frame \<le> maxPayloadLengthWithoutExtendedLengthField then [first, second OR ucast n]
         else if payloadLength frame \<le> 0xFFFF then
           [first, second OR of_nat payloadLengthWithTwoByteExtendedLengthField,
            ucast (drop_bit 8 (n AND 0xFF00)), ucast (n AND 0xFF)]
         else
           [first, second OR of_nat payloadLengthWithEightByteExtendedLengthField] @
             fillLengthLoop 0 8 n (replicate 8 0))"

definition makeFrameData :: "byte list \<Rightarrow> WebSocketFrame \<Rightarrow> byte list" where
  "makeFrameData maskingKey frame = appendFramePayload maskingKey frame (frameHeader frame)"

section \<open>The length of the payload\<close>

lemma extendedLengthLoop_numeral:
  "extendedLengthLoop data p (numeral k) acc =
     extendedLengthLoop data (p + 1) (pred_numeral k) (push_bit 8 acc OR ucast (data ! p))"
  by (simp add: numeral_eq_Suc)

lemma fillLengthLoop_numeral:
  "fillLengthLoop i (numeral k) r buf =
     fillLengthLoop (i + 1) (pred_numeral k) (drop_bit 8 r) (buf[7 - i := ucast (r AND 0xFF)])"
  by (simp add: numeral_eq_Suc)

lemma byte_mask: "(0xFF :: uint64) = mask 8"
  by (simp add: mask_eq_exp_minus_1)

lemma low_byte: "ucast (x AND 0xFF) = (ucast x :: byte)" for x :: uint64
  unfolding byte_mask by (rule bit_word_eqI) (auto simp: bit_simps)

lemma add_byte:
  fixes n :: uint64
  shows "push_bit 8 (drop_bit (m + 8) n) OR ucast (ucast (drop_bit m n) :: byte) = drop_bit m n"
proof (rule bit_word_eqI)
  fix i
  assume "i < LENGTH(64)"
  then show "bit (push_bit 8 (drop_bit (m + 8) n) OR ucast (ucast (drop_bit m n) :: byte)) i = bit (drop_bit m n) i"
    by (cases "i < 8") (auto simp: bit_simps bit_imp_le_length intro: arg_cong [where f = "bit n"])
qed

lemma fillLength_bytes:
  "fillLengthLoop 0 8 n (replicate 8 0) =
     [ucast (drop_bit 56 n), ucast (drop_bit 48 n), ucast (drop_bit 40 n), ucast (drop_bit 32 n),
      ucast (drop_bit 24 n), ucast (drop_bit 16 n), ucast (drop_bit 8 n), ucast n]"
proof -
  have "replicate 8 (0 :: byte) = [0, 0, 0, 0, 0, 0, 0, 0]" by (simp add: numeral_eq_Suc)
  then show ?thesis by (simp add: fillLengthLoop_numeral low_byte drop_bit_drop_bit)
qed

lemma eight_bytes:
  fixes n :: uint64
  shows "extendedLengthLoop (a # b # ucast (drop_bit 56 n) # ucast (drop_bit 48 n) # ucast (drop_bit 40 n) # ucast (drop_bit 32 n) #
      ucast (drop_bit 24 n) # ucast (drop_bit 16 n) # ucast (drop_bit 8 n) # ucast n # rest) 2 8 0 = n"
proof -
  have "drop_bit 64 n = 0" by (rule bit_word_eqI) (auto simp: bit_simps bit_imp_le_length dest: bit_imp_le_length)
  then show ?thesis
    using add_byte [of 56 n] add_byte [of 48 n] add_byte [of 40 n] add_byte [of 32 n] add_byte [of 24 n] add_byte [of 16 n]
      add_byte [of 8 n] add_byte [of 0 n]
    by (simp add: extendedLengthLoop_numeral)
qed

lemma two_bytes:
  fixes n :: uint64
  assumes "n \<le> 0xFFFF"
  shows "extendedLengthLoop (a # b # ucast (drop_bit 8 (n AND 0xFF00)) # ucast (n AND 0xFF) # rest) 2 2 0 = n"
proof -
  have "take_bit 16 n = n"
    using assms by (simp add: take_bit_eq_mod word_unat_eq_iff unat_mod word_le_nat_alt)
  moreover have "drop_bit 16 (take_bit 16 n) = 0" by (rule bit_word_eqI) (auto simp: bit_simps)
  ultimately have "drop_bit 16 n = 0" by simp
  moreover have "ucast (drop_bit 8 (n AND 0xFF00)) = (ucast (drop_bit 8 n) :: byte)"
  proof -
    have "(0xFF00 :: uint64) = push_bit 8 (mask 8)" by (simp add: mask_eq_exp_minus_1 push_bit_eq_mult)
    then have mask: "0xFF00 = push_bit 8 (mask 8 :: uint64)" .
    show ?thesis unfolding mask by (rule bit_word_eqI) (auto simp: bit_simps)
  qed
  ultimately show ?thesis using add_byte [of 8 n] add_byte [of 0 n]
    by (simp add: extendedLengthLoop_numeral low_byte)
qed


section \<open>The header\<close>

definition headerLength :: "nat \<Rightarrow> nat" where
  "headerLength n = (if n \<le> 125 then 2 else if n \<le> 0xFFFF then 4 else 10)"

lemma length_frameHeader: "length (frameHeader f) = headerLength (payloadLength f)"
  by (simp add: frameHeader_def Let_def headerLength_def fillLength_bytes frameSizes)

lemma second_byte:
  fixes m :: byte
  assumes "m \<le> 0x7F"
  shows "((if q then maskBit else 0) OR m) AND payloadLengthMask = m"
    "((if q then maskBit else 0) OR m) AND maskBit \<noteq> 0 \<longleftrightarrow> q"
proof -
  have m: "take_bit 7 m = m" using assms by (simp add: take_bit_eq_mod word_unat_eq_iff unat_mod word_le_nat_alt)
  have bits: "bit m i \<Longrightarrow> i < 7" for i
    using m bit_take_bit_iff [of 7 m i] by auto
  have mask: "maskBit = 2 ^ 7" "payloadLengthMask = mask 7"
    by (simp_all add: frameBits mask_eq_exp_minus_1)
  have "\<not> bit m 7" using bits by blast
  then have no: "m AND 2 ^ 7 = 0" "2 ^ 7 AND m = 0" by (simp_all only: and_exp_eq_0_iff_not_bit and.commute [of "2 ^ 7"] not_False_eq_True)
  have "2 ^ 7 AND mask 7 = (0 :: byte)" by (simp add: mask_eq_exp_minus_1)
  moreover have "m AND mask 7 = m" using m by (simp add: take_bit_eq_mask)
  ultimately show "((if q then maskBit else 0) OR m) AND payloadLengthMask = m"
    by (simp add: mask(2)) (simp add: mask bit.conj_disj_distrib2)
  show "((if q then maskBit else 0) OR m) AND maskBit \<noteq> 0 \<longleftrightarrow> q"
    using no by (simp add: mask(1) bit.conj_disj_distrib2)
qed

lemma first_byte:
  assumes "code \<le> 0xF" and b: "b = (if fin then finalBit else 0) OR (if cmpr then compressBit else 0) OR code"
  shows "b AND opCodeMask = code" "b AND finalBit \<noteq> 0 \<longleftrightarrow> fin" "b AND compressBit \<noteq> 0 \<longleftrightarrow> cmpr"
    "b AND reserved2Bit = 0" "b AND reserved3Bit = 0"
proof -
  have "unat code \<le> 15" using assms(1) by (simp add: word_le_nat_alt)
  then have "unat code \<in> {0, 1, 2, 3, 4, 5, 6, 7, 8, 9, 10, 11, 12, 13, 14, 15}"
    by (simp only: insert_iff empty_iff) arith
  then have "code \<in> {0, 1, 2, 3, 4, 5, 6, 7, 8, 9, 10, 11, 12, 13, 14, 15}"
    by (auto simp flip: word_unat_eq_iff simp add: word_unat_eq_iff)
  then show "b AND opCodeMask = code" "b AND finalBit \<noteq> 0 \<longleftrightarrow> fin" "b AND compressBit \<noteq> 0 \<longleftrightarrow> cmpr"
      "b AND reserved2Bit = 0" "b AND reserved3Bit = 0"
    unfolding b frameBits by (cases fin; cases cmpr; auto)+
qed


lemma unat_of_nat_64: "n \<le> unat maxPayloadLength \<Longrightarrow> unat (of_nat n :: uint64) = n"
  by (simp add: unat_of_nat maxPayloadLength_def)

lemma second_nth: "frameHeader f ! 1 = (if masked f then maskBit else 0) OR (if payloadLength f \<le> 125 then of_nat (payloadLength f) else if payloadLength f \<le> 0xFFFF then 126 else 127)"
proof -
  have "ucast (of_nat n :: uint64) = (of_nat n :: byte)" for n
    by (rule bit_word_eqI) (auto simp: bit_simps)
  then show ?thesis by (simp add: frameHeader_def Let_def frameSizes)
qed

lemma byte_le: "n \<le> 127 \<Longrightarrow> (of_nat n :: byte) \<le> 0x7F"
  by (simp add: word_le_nat_alt unat_of_nat)

lemma header_bits:
  shows "(frameHeader f ! 1) AND payloadLengthMask =
       (if payloadLength f \<le> 125 then of_nat (payloadLength f) else if payloadLength f \<le> 0xFFFF then 126 else 127)"
    and "(frameHeader f ! 1) AND maskBit \<noteq> 0 \<longleftrightarrow> masked f"
  unfolding second_nth by (simp_all add: second_byte byte_le del: not_less)

lemma parsePayloadLength_header:
  assumes "payloadLength f \<le> unat maxPayloadLength"
  shows "parsePayloadLength (frameHeader f @ rest) =
      PayloadLength (of_nat (payloadLength f)) (headerLength (payloadLength f))"
proof -
  let ?n = "payloadLength f" and ?d = "frameHeader f @ rest"
  have len: "length (frameHeader f) = headerLength ?n" by (rule length_frameHeader)
  then have d1: "?d ! 1 = frameHeader f ! 1" by (simp add: nth_append headerLength_def)
  have n: "unat (of_nat ?n :: uint64) = ?n" using assms by (rule unat_of_nat_64)
  have narrow: "(ucast (of_nat k :: byte) :: uint64) = of_nat k" if "k \<le> 125" for k
    using that by (simp add: word_unat_eq_iff unat_of_nat unsigned_ucast_eq take_bit_eq_mod unat_mod)
  have field: "(ucast (?d ! 1 AND payloadLengthMask) :: uint64) = (if ?n \<le> 125 then of_nat ?n else if ?n \<le> 0xFFFF then 126 else 127)"
    unfolding d1 header_bits using narrow by simp
  consider "?n \<le> 125" | "125 < ?n" "?n \<le> 0xFFFF" | "0xFFFF < ?n" by linarith
  then show ?thesis
  proof cases
    case 1
    then have "\<not> of_nat maxPayloadLengthWithoutExtendedLengthField < (of_nat ?n :: uint64)"
      by (simp add: word_less_nat_alt n frameSizes)
    then show ?thesis unfolding parsePayloadLength_def field Let_def using 1 by (simp add: headerLength_def)
  next
    case 2
    have d: "?d = ?d ! 0 # ?d ! 1 # ucast (drop_bit 8 (of_nat ?n AND 0xFF00 :: uint64)) # ucast (of_nat ?n AND 0xFF :: uint64) # rest"
      using 2 by (simp add: frameHeader_def Let_def frameSizes)
    have "(of_nat ?n :: uint64) \<le> 0xFFFF" "\<not> (of_nat ?n :: uint64) \<le> 125" using 2 by (simp_all add: word_le_nat_alt n)
    then have "extendedLengthLoop ?d 2 2 0 = of_nat ?n" by (subst d) (rule two_bytes)
    then show ?thesis unfolding parsePayloadLength_def field Let_def
      using 2 \<open>\<not> _ \<le> 125\<close> by (simp add: headerLength_def len frameSizes)
  next
    case 3
    have d: "?d = ?d ! 0 # ?d ! 1 # ucast (drop_bit 56 (of_nat ?n :: uint64)) # ucast (drop_bit 48 (of_nat ?n :: uint64)) #
        ucast (drop_bit 40 (of_nat ?n :: uint64)) # ucast (drop_bit 32 (of_nat ?n :: uint64)) # ucast (drop_bit 24 (of_nat ?n :: uint64)) #
        ucast (drop_bit 16 (of_nat ?n :: uint64)) # ucast (drop_bit 8 (of_nat ?n :: uint64)) # ucast (of_nat ?n :: uint64) # rest"
      using 3 by (simp add: frameHeader_def Let_def frameSizes fillLength_bytes)
    have "\<not> (of_nat ?n :: uint64) \<le> 0xFFFF" using 3 by (simp add: word_le_nat_alt n)
    moreover have "extendedLengthLoop ?d 2 8 0 = of_nat ?n" by (subst d) (rule eight_bytes)
    ultimately show ?thesis unfolding parsePayloadLength_def field Let_def
      using 3 by (simp add: headerLength_def len frameSizes)
  qed
qed


section \<open>More bytes do not change what was parsed\<close>

lemma extendedLengthLoop_append:
  "p + n \<le> length data \<Longrightarrow> extendedLengthLoop (data @ ys) p n acc = extendedLengthLoop data p n acc"
  by (induction data p n acc rule: extendedLengthLoop.induct) (auto simp: nth_append)

lemma maskLoop_append:
  "k + 4 \<le> p \<Longrightarrow> p + i + n \<le> length buf \<Longrightarrow> maskLoop k p i n (buf @ ys) = maskLoop k p i n buf @ ys"
proof (induction k p i n buf rule: maskLoop.induct)
  case (2 k p i n buf)
  have "i mod 4 < 4" by simp
  then have "k + i mod 4 < length buf" using 2(2,3) by linarith
  then show ?case using 2 by (simp add: frameSizes nth_append list_update_append)
qed simp

lemma maskLoop_drop: "k + 4 \<le> p \<Longrightarrow> p + i + n \<le> length buf \<Longrightarrow> drop (p + i + n) (maskLoop k p i n buf) = drop (p + i + n) buf"
  by (rule nth_equalityI) (auto simp: maskLoop_nth)

lemma parsePayloadLength_append:
  assumes "2 \<le> length data" and "parsePayloadLength data \<noteq> LengthIncomplete"
  shows "parsePayloadLength (data @ ys) = parsePayloadLength data"
proof -
  have "(data @ ys) ! 1 = data ! 1" using assms(1) by (simp add: nth_append)
  then show ?thesis
    using assms by (auto simp: parsePayloadLength_def Let_def extendedLengthLoop_append split: if_splits)
qed

lemma parsePayloadLength_bounds:
  "2 \<le> length data \<Longrightarrow> parsePayloadLength data = PayloadLength n p \<Longrightarrow> 2 \<le> p \<and> p \<le> length data"
  by (auto simp: parsePayloadLength_def Let_def split: if_splits)

lemma parseFrame_append:
  assumes "parseResult (parseFrame sizeMax data f) \<noteq> FrameIncomplete"
  shows "parseFrame sizeMax (data @ ys) f =
     (parseFrame sizeMax data f)\<lparr>parsedData := parsedData (parseFrame sizeMax data f) @ ys\<rparr>"
proof -
  have len: "2 \<le> length data" using assms by (auto simp: parseFrame_def Let_def split: if_splits)
  have complete: "parsePayloadLength data \<noteq> LengthIncomplete"
    using assms len by (auto simp: parseFrame_def Let_def)
  have nth: "(data @ ys) ! 0 = data ! 0" "(data @ ys) ! 1 = data ! 1" using len by (auto simp: nth_append)
  show ?thesis
  proof (cases "parsePayloadLength data")
    case (PayloadLength n p)
    note bounds = parsePayloadLength_bounds [OF len PayloadLength]
    show ?thesis
      using len assms bounds
      unfolding parseFrame_def parsePayloadLength_append [OF len complete] nth PayloadLength Let_def PayloadLength.case
      by (cases "data ! 1 AND maskBit = 0") (auto simp: maskLoop_append frameSizes split: if_splits)
  qed (use len complete in \<open>simp_all add: parseFrame_def parsePayloadLength_append [OF len complete] Let_def\<close>)
qed

lemma parseFrame_OK:
  assumes "parseResult (parseFrame sizeMax data f) = FrameOK"
  obtains e where "parsedEnd (parseFrame sizeMax data f) = Some e" "2 \<le> e" "e \<le> length data"
    "drop e (parsedData (parseFrame sizeMax data f)) = drop e data"
    "payloadLength (parsedFrame (parseFrame sizeMax data f)) = length (payload (parsedFrame (parseFrame sizeMax data f)))"
proof -
  have len: "2 \<le> length data" using assms by (auto simp: parseFrame_def Let_def split: if_splits)
  show ?thesis
  proof (cases "parsePayloadLength data")
    case (PayloadLength n p)
    note bounds = parsePayloadLength_bounds [OF len PayloadLength]
    show ?thesis
      using len assms bounds
      by (intro that [of "p + (if data ! 1 AND maskBit \<noteq> 0 then 4 else 0) + unat n"])
        (auto simp: parseFrame_def Let_def PayloadLength frameSizes maskLoop_drop [where i = 0, simplified] split: if_splits)
  qed (use len assms in \<open>auto simp: parseFrame_def Let_def\<close>)
qed

lemma length_parsedData: "length (parsedData (parseFrame sizeMax data f)) = length data"
  by (simp add: parseFrame_def Let_def split: PayloadLength.split)

section \<open>A frame that is made is parsed\<close>

lemma makeFrameData_shape:
  assumes "length key = 4" and "payloadLength f = length (payload f)"
  shows "makeFrameData key f = frameHeader f @ (if masked f then key @ applyMask key (payload f) else payload f)"
proof -
  have "take (length h) (h @ replicate 4 0 @ xs) @ key @ drop (length h + 4) (h @ replicate 4 0 @ xs) = h @ key @ xs"
    for h xs :: "byte list"
    by (simp add: append_take_drop_id)
  then show ?thesis
    using maskLoop_applyMask [OF assms(1), of "frameHeader f" "payload f" "[]"] assms
    by (simp add: makeFrameData_def appendFramePayload_def Let_def frameSizes)
qed

definition fittingFrame :: "uint64 \<Rightarrow> WebSocketFrame \<Rightarrow> bool" where
  "fittingFrame sizeMax f \<longleftrightarrow>
     payloadLength f = length (payload f) \<and> length (payload f) \<le> unat maxPayloadLength \<and>
     length (payload f) + maskingKeyWidthInBytes \<le> unat sizeMax \<and> opCode f \<le> opCodeMask"

lemma parse_made:
  assumes "length key = 4" and "fittingFrame sizeMax f"
  defines "d \<equiv> makeFrameData key f"
  shows "parseFrame sizeMax (d @ rest) f0 =
     \<lparr>parseResult = FrameOK, parsedData = take (length d - length (payload f)) d @ payload f @ rest,
      parsedFrame = f\<lparr>reserved2 := False, reserved3 := False\<rparr>, parsedEnd = Some (length d), parsedError = None\<rparr>"
proof -
  let ?n = "payloadLength f" and ?body = "if masked f then key @ applyMask key (payload f) else payload f"
  let ?d = "frameHeader f @ ?body @ rest" and ?h = "headerLength (payloadLength f)"
  have fits: "?n = length (payload f)" "?n \<le> unat maxPayloadLength" "?n + 4 \<le> unat sizeMax" "opCode f \<le> 0xF"
    using assms(2) by (simp_all add: fittingFrame_def frameSizes frameBits)
  have d: "d = frameHeader f @ ?body" unfolding d_def by (rule makeFrameData_shape [OF assms(1) fits(1)])
  have len: "length (frameHeader f) = ?h" by (rule length_frameHeader)
  have h: "2 \<le> ?h" by (simp add: headerLength_def)
  have bytes: "?d ! 0 = frameHeader f ! 0" "?d ! 1 = frameHeader f ! 1" using h by (simp_all add: nth_append len)
  have first: "frameHeader f ! 0 = (if final f then finalBit else 0) OR (if compress f then compressBit else 0) OR opCode f"
    by (simp add: frameHeader_def Let_def)
  note first_bits = first_byte [OF fits(4) first]
  have n: "unat (of_nat ?n :: uint64) = ?n" using fits(2) by (rule unat_of_nat_64)
  have m1: "\<not> maxPayloadLength < of_nat ?n" using fits(2) n by (simp add: word_less_nat_alt)
  have m2: "\<not> sizeMax < of_nat ?n + of_nat (if masked f then maskingKeyWidthInBytes else 0)"
    using fits by (simp add: word_less_nat_alt unat_word_ariths unat_of_nat frameSizes maxPayloadLength_def)
  have m3: "\<not> length ?d - ?h < (if masked f then maskingKeyWidthInBytes else 0) + ?n"
    using assms(1) fits(1) by (simp add: len frameSizes)
  have m4: "(if masked f then maskLoop ?h (?h + maskingKeyWidthInBytes) 0 ?n ?d else ?d) =
      take (length d - length (payload f)) d @ payload f @ rest"
    using maskLoop_applyMask [OF assms(1), of "frameHeader f" "applyMask key (payload f)" rest] fits(1) assms(1)
    by (simp add: d len frameSizes)
  have m5: "take ?n (drop (?h + (if masked f then maskingKeyWidthInBytes else 0))
      (take (length d - length (payload f)) d @ payload f @ rest)) = payload f"
    using assms(1) fits(1) by (simp add: d len frameSizes)
  have m6: "?h + (if masked f then maskingKeyWidthInBytes else 0) + ?n = length d"
    using assms(1) fits(1) by (simp add: d len frameSizes)
  have m7: "d @ rest = ?d" "\<not> length ?d < 2" using h by (simp_all add: d len)
  show ?thesis
    unfolding m7(1) parseFrame_def Let_def parsePayloadLength_header [OF fits(2), of "?body @ rest"] PayloadLength.case
      bytes header_bits(2) n m4 m5 m6
    using m1 m2 m3 m7(2) first_bits by simp
qed

lemma made_prefix:
  assumes "length key = 4" and "fittingFrame sizeMax f" and "n < length (makeFrameData key f)"
  shows "parseResult (parseFrame sizeMax (take n (makeFrameData key f)) f0) = FrameIncomplete"
proof (rule ccontr)
  let ?d = "makeFrameData key f" and ?p = "parseFrame sizeMax (take n (makeFrameData key f)) f0"
  assume complete: "parseResult ?p \<noteq> FrameIncomplete"
  have "parseFrame sizeMax ?d f0 = ?p\<lparr>parsedData := parsedData ?p @ drop n ?d\<rparr>"
    using parseFrame_append [OF complete, of "drop n ?d"] by simp
  moreover have "parseResult (parseFrame sizeMax ?d f0) = FrameOK \<and> parsedEnd (parseFrame sizeMax ?d f0) = Some (length ?d)"
    using parse_made [OF assms(1,2), of "[]"] by simp
  ultimately have "parseResult ?p = FrameOK" "parsedEnd ?p = Some (length ?d)" by simp_all
  then show False using assms(3) by (auto elim: parseFrame_OK)
qed

end
