(* ===== verification/WebSocket_Handshake.thy ===== *)
theory WebSocket_Handshake
  imports WTF_UTF8 WebSocket_Frame
begin

text \<open>
  The client's side of the opening handshake: \<open>WebSocketHandshake::readServerHandshake\<close>
  (\<open>WebSocketHandshake.cpp\<close>), \<open>parseHTTPHeader\<close> (\<open>platform/network/HTTPParsers.cpp\<close>), the header map of
  the response, and the extensions that the server accepts (\<open>WebSocketExtensionDispatcher.cpp\<close>,
  \<open>WebSocketExtensionParser.cpp\<close>, \<open>WebSocketDeflateFramer.cpp\<close>). A pointer into the response is the list of
  the bytes from there to its end. Making the handshake and its expected answer is left out.
\<close>

unbundle bit_operations_syntax

section \<open>What is outside\<close>

text \<open>
  What the channel calls outside: the platform's socket, which answers how many bytes it took at its
  \<open>n\<close>-th call; the random bytes of the \<open>n\<close>-th frame; white space beyond ASCII as ICU knows it; the
  contexts of zlib, of type \<open>'z\<close>.
\<close>

record 'z Environment =
  largestSize :: uint64
  platformSend :: "nat \<Rightarrow> byte list \<Rightarrow> int"
  maskingKey :: "nat \<Rightarrow> byte list"
  isUnicodeSpace :: "uchar \<Rightarrow> bool"
  createDeflater :: "int \<Rightarrow> bool \<Rightarrow> ('z \<times> 'z) option"
  deflateBytes :: "'z \<Rightarrow> byte list \<Rightarrow> 'z \<times> byte list option"
  inflateBytes :: "'z \<Rightarrow> byte list \<Rightarrow> 'z \<times> byte list option"
  resetDeflater :: "'z \<Rightarrow> 'z"
  resetInflater :: "'z \<Rightarrow> 'z"

section \<open>Strings\<close>

text \<open>Literals and numbers as characters; the bytes of a literal.\<close>

definition ascii :: "string \<Rightarrow> uchar list" where
  "ascii s = map (\<lambda>c. of_nat (of_char c)) s"

definition asciiBytes :: "string \<Rightarrow> byte list" where
  "asciiBytes s = map (\<lambda>c. of_nat (of_char c)) s"

text \<open>\<open>String(p, n)\<close> reads Latin-1.\<close>

definition latin1 :: "byte list \<Rightarrow> uchar list" where
  "latin1 bytes = map ucast bytes"

definition equalIgnoringCase :: "uchar list \<Rightarrow> uchar list \<Rightarrow> bool" where
  "equalIgnoringCase a b \<longleftrightarrow> map foldCase a = map foldCase b"

definition maxInputSampleSize :: nat where "maxInputSampleSize = 128"

definition trimInputSample :: "byte list \<Rightarrow> uchar list" where
  "trimInputSample p =
     (let s = latin1 (take maxInputSampleSize p) in if length p > maxInputSampleSize then s @ [0x2026] else s)"

text \<open>\<open>String::split\<close> without empty entries; the separator is not empty.\<close>

fun splitLoop :: "uchar list \<Rightarrow> uchar list \<Rightarrow> uchar list \<Rightarrow> uchar list list" where
  "splitLoop separator entry [] = (if entry \<noteq> [] then [entry] else [])"
| "splitLoop separator entry (c # cs) =
     (if take (length separator) (c # cs) = separator \<and> separator \<noteq> [] then
        (if entry \<noteq> [] then [entry] else []) @ splitLoop separator [] (drop (length separator - 1) cs)
      else splitLoop separator (entry @ [c]) cs)"

definition subProtocolSeparator :: "uchar list" where
  "subProtocolSeparator = ascii '', ''"

section \<open>Numbers\<close>

definition isASCIIDigit :: "uchar \<Rightarrow> bool" where
  "isASCIIDigit c \<longleftrightarrow> 0x30 \<le> c \<and> c \<le> 0x39"

definition isSpaceOrNewline :: "'z Environment \<Rightarrow> uchar \<Rightarrow> bool" where
  "isSpaceOrNewline env c \<longleftrightarrow> (if c \<le> 0x7F then c = 0x20 \<or> 0x09 \<le> c \<and> c \<le> 0x0D else isUnicodeSpace env c)"

definition lengthOfCharactersAsInteger :: "'z Environment \<Rightarrow> uchar list \<Rightarrow> nat" where
  "lengthOfCharactersAsInteger env s =
     (let spaces = length (takeWhile (isSpaceOrNewline env) s);
          rest = drop spaces s;
          sign = (if rest \<noteq> [] \<and> (hd rest = 0x2B \<or> hd rest = 0x2D) then 1 else 0);
          digits = length (takeWhile isASCIIDigit (drop sign rest))
      in spaces + sign + digits)"

text \<open>The digits of \<open>toIntegralType<int>\<close> in base ten; \<open>None\<close> when the number does not fit.\<close>

fun digitsLoop :: "bool \<Rightarrow> int \<Rightarrow> uchar list \<Rightarrow> int option" where
  "digitsLoop isNegative number [] = Some number"
| "digitsLoop isNegative number (c # cs) =
     (if \<not> isASCIIDigit c then Some number
      else
        let digitValue = uint (c - 0x30)
        in if number > 0x7FFFFFFF div 10 \<or>
              number = 0x7FFFFFFF div 10 \<and> digitValue > 0x7FFFFFFF mod 10 + (if isNegative then 1 else 0) then None
           else digitsLoop isNegative (10 * number + digitValue) cs)"

definition toInt :: "'z Environment \<Rightarrow> uchar list \<Rightarrow> int" where
  "toInt env s =
     (let data = dropWhile (isSpaceOrNewline env) (take (lengthOfCharactersAsInteger env s) s);
          isNegative = (data \<noteq> [] \<and> hd data = 0x2D);
          data = (if data \<noteq> [] \<and> (hd data = 0x2D \<or> hd data = 0x2B) then tl data else data)
      in if data = [] \<or> \<not> isASCIIDigit (hd data) then 0
         else
           case digitsLoop isNegative 0 data of
             None \<Rightarrow> 0
           | Some number \<Rightarrow> if isNegative then - number else number)"

section \<open>The header map\<close>

text \<open>
  The map of the response, in the order of insertion. A name is compared as \<open>CaseFoldingHash\<close> compares it;
  names that are not ASCII are told apart by case here, and no lookup of the code asks for one.
\<close>

type_synonym HTTPHeaderMap = "(uchar list \<times> uchar list) list"

fun header_get :: "HTTPHeaderMap \<Rightarrow> uchar list \<Rightarrow> uchar list option" where
  "header_get [] name = None"
| "header_get ((key, val) # headers) name = (if equalIgnoringCase key name then Some val else header_get headers name)"

fun header_add :: "HTTPHeaderMap \<Rightarrow> uchar list \<Rightarrow> uchar list \<Rightarrow> HTTPHeaderMap" where
  "header_add [] name val = [(name, val)]"
| "header_add ((key, old) # headers) name val =
     (if equalIgnoringCase key name then (key, old @ ascii '', '' @ val) # headers
      else (key, old) # header_add headers name val)"

section \<open>The state\<close>

datatype HandshakeMode = HandshakeIncomplete | HandshakeNormal | HandshakeFailed | HandshakeConnected

text \<open>
  The processor of the deflate extension, the only one there is; the parameters of an extension, of
  which one without a value has a null string.
\<close>

record DeflateProcessor =
  p_responseProcessed :: bool
  p_failureReason :: "uchar list"

type_synonym parameters = "(uchar list \<times> uchar list option) list"

record WebSocketHandshake =
  hs_mode :: HandshakeMode
  hs_clientProtocol :: "uchar list"
  hs_expectedAccept :: "uchar list"
  hs_statusCode :: int
  hs_statusText :: "uchar list"
  hs_headers :: HTTPHeaderMap
  hs_failureReason :: "uchar list"
  hs_processors :: "DeflateProcessor list"
  hs_acceptedExtensions :: "(uchar list \<times> parameters) list"

text \<open>What \<open>enableDeflate\<close> makes: the two contexts, or null pointers.\<close>

type_synonym 'z framer = "('z \<times> 'z) option"

definition hs_fail :: "uchar list \<Rightarrow> WebSocketHandshake \<Rightarrow> WebSocketHandshake" where
  "hs_fail reason hs = hs\<lparr>hs_failureReason := reason\<rparr>"


section \<open>The status line\<close>

text \<open>Where the scan of the line ends: at the end of the data, at a null byte, or at a line feed.\<close>

datatype StatusScan = NoNewline | EmbeddedNull nat | StatusLine nat "nat option" "nat option"

fun statusLoop :: "byte list \<Rightarrow> nat \<Rightarrow> nat option \<Rightarrow> nat option \<Rightarrow> StatusScan" where
  "statusLoop [] i space1 space2 = NoNewline"
| "statusLoop (b # bytes) i space1 space2 =
     (if b = 0x20 then
        (if space1 = None then statusLoop bytes (i + 1) (Some i) space2
         else if space2 = None then statusLoop bytes (i + 1) space1 (Some i)
         else statusLoop bytes (i + 1) space1 space2)
      else if b = 0 then EmbeddedNull i
      else if b = 0x0A then StatusLine i space1 space2
      else statusLoop bytes (i + 1) space1 space2)"

text \<open>The length of the line, the status code (\<open>-1\<close> if there is none), its text and a reason.\<close>

definition readStatusLine :: "'z Environment \<Rightarrow> byte list \<Rightarrow> int \<times> int \<times> uchar list \<times> uchar list option" where
  "readStatusLine env header =
     (case statusLoop header 0 None None of
        NoNewline \<Rightarrow> (-1, -1, [], None)
      | EmbeddedNull i \<Rightarrow> (int (i + 1), -1, [], Some (ascii ''Status line contains embedded null''))
      | StatusLine i space1 space2 \<Rightarrow>
          let lineLength = i + 1
          in if lineLength > 1024 then (1024, -1, [], Some (ascii ''Status line is too long''))
             else if lineLength < 2 \<or> header ! (lineLength - 2) \<noteq> 0x0D then
               (int lineLength, -1, [], Some (ascii ''Status line does not end with CRLF''))
             else
               case (space1, space2) of
                 (Some s1, Some s2) \<Rightarrow>
                   let statusCodeString = latin1 (take (s2 - s1 - 1) (drop (s1 + 1) header))
                   in if length statusCodeString \<noteq> 3 then (int lineLength, -1, [], None)
                      else if \<not> list_all isASCIIDigit statusCodeString then
                        (int lineLength, -1, [], Some (ascii ''Invalid status code: '' @ statusCodeString))
                      else
                        (int lineLength, toInt env statusCodeString, latin1 (take (lineLength - s2 - 3) (drop (s2 + 1) header)), None)
               | _ \<Rightarrow>
                   (int lineLength, -1, [],
                    Some (ascii ''No response code found: '' @ trimInputSample (take (lineLength - 2) header))))"

section \<open>Header fields\<close>

text \<open>The name up to the colon, the empty line, or a reason.\<close>

datatype NameScan = NameEnd "byte list" "byte list" | EmptyLine nat | NameError "uchar list"

fun nameLoop :: "byte list \<Rightarrow> byte list \<Rightarrow> NameScan" where
  "nameLoop name [] = NameEnd name []"
| "nameLoop name (b # bytes) =
     (if b = 0x0D then
        if name = [] then
          if bytes \<noteq> [] \<and> hd bytes = 0x0A then EmptyLine 2
          else NameError (ascii ''CR doesn't follow LF at '' @ trimInputSample (b # bytes))
        else NameError (ascii ''Unexpected CR in name at '' @ trimInputSample name)
      else if b = 0x0A then NameError (ascii ''Unexpected LF in name at '' @ trimInputSample name)
      else if b = 0x3A then NameEnd name bytes
      else nameLoop (name @ [b]) bytes)"

datatype ValueScan = ValueEnd "byte list" "byte list" | ValueError "uchar list"

fun valueLoop :: "bool \<Rightarrow> byte list \<Rightarrow> byte list \<Rightarrow> ValueScan" where
  "valueLoop strict val [] = ValueEnd val []"
| "valueLoop strict val (b # bytes) =
     (if b = 0x0D then ValueEnd val bytes
      else if b = 0x0A then
        if strict then ValueError (ascii ''Unexpected LF in value at '' @ trimInputSample val) else ValueEnd val bytes
      else valueLoop strict (val @ [b]) bytes)"

text \<open>What \<open>parseHTTPHeader\<close> consumed and found; a null name ends the header.\<close>

datatype ParsedHeader = HeaderError "uchar list" | HeaderEnd nat | HeaderField nat String String

definition parseHTTPHeader :: "bool \<Rightarrow> byte list \<Rightarrow> ParsedHeader" where
  "parseHTTPHeader strict start =
     (case nameLoop [] start of
        NameError reason \<Rightarrow> HeaderError reason
      | EmptyLine n \<Rightarrow> HeaderEnd n
      | NameEnd name rest \<Rightarrow>
          case valueLoop strict [] (dropWhile (\<lambda>b. b = 0x20) rest) of
            ValueError reason \<Rightarrow> HeaderError reason
          | ValueEnd val p \<Rightarrow>
              if p = [] \<or> strict \<and> hd p \<noteq> 0x0A then
                HeaderError (ascii ''CR doesn't follow LF after value at '' @ trimInputSample p)
              else
                case String_fromUTF8_data name of
                  None \<Rightarrow> HeaderError (ascii ''Invalid UTF-8 sequence in header name'')
                | Some nameStr \<Rightarrow>
                    (case String_fromUTF8_data val of
                       None \<Rightarrow> HeaderError (ascii ''Invalid UTF-8 sequence in header value'')
                     | Some valueStr \<Rightarrow> HeaderField (length start - length p) nameStr valueStr))"

text \<open>\<open>strnstr(header, "\\r\\n\\r\\n", len)\<close>, which stops at a null byte.\<close>

definition blankLine :: "byte list" where "blankLine = [0x0D, 0x0A, 0x0D, 0x0A]"

fun hasBlankLine :: "byte list \<Rightarrow> bool" where
  "hasBlankLine [] = False"
| "hasBlankLine (b # bytes) \<longleftrightarrow>
     b \<noteq> 0 \<and> 4 \<le> length (b # bytes) \<and> (take 4 (b # bytes) = blankLine \<or> hasBlankLine bytes)"


section \<open>Extensions\<close>

text \<open>The parser of the header value. A function answers what it read, if anything, and the rest.\<close>

definition isASCIIPrintable :: "byte \<Rightarrow> bool" where
  "isASCIIPrintable c \<longleftrightarrow> 0x20 \<le> c \<and> c \<le> 0x7E"

definition separatorCharacters :: "byte list" where
  "separatorCharacters = asciiBytes ''()<>@,;:'' @ [0x5C, 0x22] @ asciiBytes ''/[]?={} '' @ [0x09]"

definition isSeparator :: "byte \<Rightarrow> bool" where
  "isSeparator c \<longleftrightarrow> c \<in> set separatorCharacters"

definition skipSpaces :: "byte list \<Rightarrow> byte list" where
  "skipSpaces = dropWhile (\<lambda>c. c = 0x20 \<or> c = 0x09)"

definition consumeToken :: "byte list \<Rightarrow> uchar list option \<times> byte list" where
  "consumeToken current =
     (let start = skipSpaces current;
          token = takeWhile (\<lambda>c. isASCIIPrintable c \<and> \<not> isSeparator c) start
      in if token \<noteq> [] then (Some (latin1 token), drop (length token) start) else (None, start))"

text \<open>The characters up to the closing quote; \<open>None\<close> at the end of the data.\<close>

fun quotedLoop :: "byte list \<Rightarrow> byte list \<Rightarrow> (byte list \<times> byte list) option" where
  "quotedLoop buffer [] = None"
| "quotedLoop buffer (c # cs) =
     (if c = 0x22 then Some (buffer, c # cs)
      else if c = 0x5C then (case cs of [] \<Rightarrow> None | d # ds \<Rightarrow> quotedLoop (buffer @ [d]) ds)
      else quotedLoop (buffer @ [c]) cs)"

definition consumeQuotedString :: "byte list \<Rightarrow> uchar list option \<times> byte list" where
  "consumeQuotedString current =
     (let current = skipSpaces current
      in if current = [] \<or> hd current \<noteq> 0x22 then (None, current)
         else
           case quotedLoop [] (tl current) of
             None \<Rightarrow> (None, [])
           | Some (buffer, rest) \<Rightarrow>
               (case String_fromUTF8_data buffer of
                  None \<Rightarrow> (None, rest)
                | Some s \<Rightarrow> (Some (characters s), tl rest)))"

definition consumeQuotedStringOrToken :: "byte list \<Rightarrow> uchar list option \<times> byte list" where
  "consumeQuotedStringOrToken current =
     (case consumeQuotedString current of
        (Some s, rest) \<Rightarrow> (Some s, rest)
      | (None, rest) \<Rightarrow> consumeToken rest)"

definition consumeCharacter :: "byte \<Rightarrow> byte list \<Rightarrow> bool \<times> byte list" where
  "consumeCharacter c current =
     (let current = skipSpaces current
      in if current \<noteq> [] \<and> hd current = c then (True, tl current) else (False, current))"

text \<open>\<open>HashMap::add\<close> leaves an entry that is there.\<close>

definition addParameter :: "uchar list \<Rightarrow> uchar list option \<Rightarrow> parameters \<Rightarrow> parameters" where
  "addParameter key val params = (if map_of params key = None then params @ [(key, val)] else params)"

lemma length_skipSpaces: "length (skipSpaces s) \<le> length s"
  by (simp add: skipSpaces_def length_dropWhile_le)

lemma consumeToken_shrinks: "length (snd (consumeToken s)) \<le> length s"
  using length_skipSpaces [of s] by (auto simp: consumeToken_def Let_def)

lemma quotedLoop_shrinks: "quotedLoop buffer s = Some (b, rest) \<Longrightarrow> length rest \<le> length s"
  by (induction buffer s rule: quotedLoop.induct) (fastforce split: if_splits list.splits)+

lemma consumeQuoted_shrinks: "length (snd (consumeQuotedString s)) \<le> length s"
  using length_skipSpaces [of s] quotedLoop_shrinks [of "[]" "tl (skipSpaces s)"]
  by (fastforce simp: consumeQuotedString_def Let_def split: option.splits prod.splits)

lemma consumeQuotedStringOrToken_shrinks: "length (snd (consumeQuotedStringOrToken s)) \<le> length s"
  using consumeQuoted_shrinks [of s] consumeToken_shrinks [of "snd (consumeQuotedString s)"]
  by (auto simp: consumeQuotedStringOrToken_def split: prod.splits option.splits)

lemma consumeCharacter_shrinks:
  "length (snd (consumeCharacter c s)) \<le> length s" "fst (consumeCharacter c s) \<Longrightarrow> length (snd (consumeCharacter c s)) < length s"
  using length_skipSpaces [of s] by (auto simp: consumeCharacter_def Let_def neq_Nil_conv split: if_splits)

lemma parameter_shrinks:
  assumes "(True, rest) = consumeCharacter c s" and "(t, rest1) = consumeToken rest"
    and "(b, rest2) = consumeCharacter d rest1"
  shows "length rest2 < length s"
  using consumeCharacter_shrinks(2) [of c s] consumeToken_shrinks [of rest] consumeCharacter_shrinks(1) [of d rest1]
  by (simp flip: assms)

lemma parameter_value_shrinks:
  assumes "(True, rest) = consumeCharacter c s" and "(t, rest1) = consumeToken rest"
    and "(b, rest2) = consumeCharacter d rest1" and "(v, rest3) = consumeQuotedStringOrToken rest2"
  shows "length rest3 < length s"
  using parameter_shrinks [OF assms(1-3)] consumeQuotedStringOrToken_shrinks [of rest2] by (simp flip: assms)

text \<open>The loop over the parameters: they and the rest, or \<open>None\<close>.\<close>

function parametersLoop :: "parameters \<Rightarrow> byte list \<Rightarrow> (parameters \<times> byte list) option" where
  "parametersLoop params current =
     (case consumeCharacter 0x3B current of
        (False, rest) \<Rightarrow> Some (params, rest)
      | (True, rest) \<Rightarrow>
          (case consumeToken rest of
             (None, _) \<Rightarrow> None
           | (Some parameterToken, rest) \<Rightarrow>
               (case consumeCharacter 0x3D rest of
                  (True, rest) \<Rightarrow>
                    (case consumeQuotedStringOrToken rest of
                       (None, _) \<Rightarrow> None
                     | (Some val, rest) \<Rightarrow> parametersLoop (addParameter parameterToken (Some val) params) rest)
                | (False, rest) \<Rightarrow> parametersLoop (addParameter parameterToken None params) rest)))"
  by pat_completeness auto

termination
  by (relation "measure (\<lambda>(params, s). length s)") (auto intro: parameter_shrinks parameter_value_shrinks)

definition parseExtension :: "byte list \<Rightarrow> (uchar list \<times> parameters \<times> byte list) option" where
  "parseExtension current =
     (case consumeToken current of
        (None, _) \<Rightarrow> None
      | (Some extensionToken, rest) \<Rightarrow>
          (case parametersLoop [] rest of
             None \<Rightarrow> None
           | Some (params, rest) \<Rightarrow>
               if rest = [] then Some (extensionToken, params, rest)
               else
                 case consumeCharacter 0x2C rest of
                   (True, rest) \<Rightarrow> Some (extensionToken, params, rest)
                 | (False, _) \<Rightarrow> None))"

text \<open>
  \<open>WebSocketExtensionDeflateFrame::processResponse\<close>: whether it accepts the parameters, the processor,
  and the contexts.
\<close>

definition processResponse ::
  "'z Environment \<Rightarrow> parameters \<Rightarrow> DeflateProcessor \<Rightarrow> 'z framer \<Rightarrow> bool \<times> DeflateProcessor \<times> 'z framer" where
  "processResponse env params p framer =
     (let refuse = (\<lambda>reason p. (False, p\<lparr>p_failureReason := ascii reason\<rparr>, framer))
      in if p_responseProcessed p then refuse ''Received duplicate deflate-frame response'' p
         else
           let p = p\<lparr>p_responseProcessed := True\<rparr>;
               bits = map_of params (ascii ''max_window_bits'');
               windowBits = (case bits of None \<Rightarrow> 15 | Some None \<Rightarrow> 0 | Some (Some s) \<Rightarrow> toInt env s);
               takeover = map_of params (ascii ''no_context_takeover'');
               expectedNumParameters = (if bits = None then 0 else 1) + (if takeover = None then 0 else 1)
           in if bits \<noteq> None \<and> (windowBits < 8 \<or> windowBits > 15) then refuse ''Received invalid max_window_bits parameter'' p
              else if takeover \<noteq> None \<and> takeover \<noteq> Some None then refuse ''Received invalid no_context_takeover parameter'' p
              else if expectedNumParameters \<noteq> length params then refuse ''Received unexpected deflate-frame parameter'' p
              else (True, p, createDeflater env windowBits (takeover = None)))"

text \<open>The bytes of a string; a null \<open>CString\<close> has none.\<close>

definition utf8Data :: "ConversionMode \<Rightarrow> String \<Rightarrow> byte list" where
  "utf8Data mode s = (case StringImpl_utf8 mode s of Done bytes \<Rightarrow> bytes | _ \<Rightarrow> [])"

text \<open>
  The loop of \<open>processHeaderValue\<close>: a reason if the server's extensions are refused. The search for
  a processor finds the first one, as all have the same token.
\<close>

definition deflateFrameToken :: "uchar list" where
  "deflateFrameToken = ascii ''x-webkit-deflate-frame''"

lemma parametersLoop_shrinks: "parametersLoop params s = Some (params', rest) \<Longrightarrow> length rest \<le> length s"
proof (induction params s rule: parametersLoop.induct)
  case (1 params s)
  obtain semicolon s1 where c: "consumeCharacter 0x3B s = (semicolon, s1)" by (cases "consumeCharacter 0x3B s")
  have s1: "length s1 \<le> length s" using consumeCharacter_shrinks(1) [of "0x3B" s] c by simp
  obtain token s2 where t: "consumeToken s1 = (token, s2)" by (cases "consumeToken s1")
  have s2: "length s2 \<le> length s1" using consumeToken_shrinks [of s1] t by simp
  obtain equals s3 where e: "consumeCharacter 0x3D s2 = (equals, s3)" by (cases "consumeCharacter 0x3D s2")
  have s3: "length s3 \<le> length s2" using consumeCharacter_shrinks(1) [of "0x3D" s2] e by simp
  obtain val s4 where q: "consumeQuotedStringOrToken s3 = (val, s4)" by (cases "consumeQuotedStringOrToken s3")
  have s4: "length s4 \<le> length s3" using consumeQuotedStringOrToken_shrinks [of s3] q by simp
  show ?case
    using 1 c s1 t s2 e s3 q s4 by (cases semicolon; cases token; cases equals; cases val) fastforce+
qed

declare parametersLoop.simps [simp del]

lemma consumeToken_Some: "consumeToken s = (Some token, rest) \<Longrightarrow> length rest < length s"
proof -
  define n where "n = length (takeWhile (\<lambda>c. isASCIIPrintable c \<and> \<not> isSeparator c) (skipSpaces s))"
  assume "consumeToken s = (Some token, rest)"
  then have "rest = drop n (skipSpaces s)" "0 < n" "skipSpaces s \<noteq> []"
    by (auto simp: n_def consumeToken_def Let_def split: if_splits)
  then have "length rest < length (skipSpaces s)" by simp
  then show ?thesis using length_skipSpaces [of s] by linarith
qed

lemma parseExtension_shrinks:
  assumes "parseExtension s = Some (token, params, rest)"
  shows "length rest < length s"
proof -
  obtain s1 s2 where s1: "consumeToken s = (Some token, s1)" and s2: "parametersLoop [] s1 = Some (params, s2)"
    and rest: "rest = s2 \<or> consumeCharacter 0x2C s2 = (True, rest)"
    using assms by (auto simp: parseExtension_def split: prod.splits option.splits if_splits bool.splits)
  then show ?thesis
    using consumeToken_Some [OF s1] parametersLoop_shrinks [OF s2] consumeCharacter_shrinks(1) [of "0x2C" s2] by auto
qed

function extensionsLoop ::
  "'z Environment \<Rightarrow> byte list \<Rightarrow> WebSocketHandshake \<Rightarrow> 'z framer \<Rightarrow> uchar list option \<times> WebSocketHandshake \<times> 'z framer" where
  "extensionsLoop env current hs framer =
     (let fail = (\<lambda>reason hs framer. (Some reason, hs\<lparr>hs_acceptedExtensions := []\<rparr>, framer))
      in if current = [] then (None, hs, framer)
         else
           case parseExtension current of
             None \<Rightarrow> fail (ascii ''Sec-WebSocket-Extensions header is invalid'') hs framer
           | Some (extensionToken, params, rest) \<Rightarrow>
               case hs_processors hs of
                 [] \<Rightarrow> fail (ascii ''Received unexpected extension: '' @ extensionToken) hs framer
               | p # ps \<Rightarrow>
                   if extensionToken \<noteq> deflateFrameToken then
                     fail (ascii ''Received unexpected extension: '' @ extensionToken) hs framer
                   else
                     let (ok, p, framer) = processResponse env params p framer; hs = hs\<lparr>hs_processors := p # ps\<rparr>
                     in if ok then
                          extensionsLoop env rest
                            (hs\<lparr>hs_acceptedExtensions := hs_acceptedExtensions hs @ [(extensionToken, params)]\<rparr>) framer
                        else fail (p_failureReason p) hs framer)"
  by pat_completeness auto
termination
  by (relation "measure (\<lambda>(env, s, hs, framer). length s)") (auto intro: parseExtension_shrinks)

declare extensionsLoop.simps [simp del]

definition processHeaderValue ::
  "'z Environment \<Rightarrow> String \<Rightarrow> WebSocketHandshake \<Rightarrow> 'z framer \<Rightarrow> uchar list option \<times> WebSocketHandshake \<times> 'z framer" where
  "processHeaderValue env headerValue hs framer =
     (if characters headerValue = [] then (None, hs, framer)
      else if hs_processors hs = [] then
        (Some (ascii ''Received unexpected Sec-WebSocket-Extensions header''), hs\<lparr>hs_acceptedExtensions := []\<rparr>, framer)
      else extensionsLoop env (utf8Data LenientConversion headerValue) hs framer)"

section \<open>The response\<close>

text \<open>Which of the fields that may appear only once have been seen.\<close>

record SawFields =
  sawExtensions :: bool
  sawAccept :: bool
  sawProtocol :: bool

text \<open>One field: a reason if the response is refused.\<close>

definition handleField ::
  "'z Environment \<Rightarrow> String \<Rightarrow> String \<Rightarrow> SawFields \<Rightarrow> WebSocketHandshake \<Rightarrow> 'z framer \<Rightarrow>
     uchar list option \<times> SawFields \<times> WebSocketHandshake \<times> 'z framer" where
  "handleField env name val saw hs framer =
     (let key = characters name; added = hs\<lparr>hs_headers := header_add (hs_headers hs) key (characters val)\<rparr>
      in if equalIgnoringCase (ascii ''sec-websocket-extensions'') key then
           if sawExtensions saw then
             (Some (ascii ''The Sec-WebSocket-Extensions header MUST NOT appear more than once in an HTTP response''), saw, hs, framer)
           else
             case processHeaderValue env val hs framer of
               (Some reason, hs, framer) \<Rightarrow> (Some reason, saw, hs, framer)
             | (None, hs, framer) \<Rightarrow> (None, saw\<lparr>sawExtensions := True\<rparr>, hs, framer)
         else if equalIgnoringCase (ascii ''Sec-WebSocket-Accept'') key then
           if sawAccept saw then
             (Some (ascii ''The Sec-WebSocket-Accept header MUST NOT appear more than once in an HTTP response''), saw, hs, framer)
           else (None, saw\<lparr>sawAccept := True\<rparr>, added, framer)
         else if equalIgnoringCase (ascii ''Sec-WebSocket-Protocol'') key then
           if sawProtocol saw then
             (Some (ascii ''The Sec-WebSocket-Protocol header MUST NOT appear more than once in an HTTP response''), saw, hs, framer)
           else (None, saw\<lparr>sawProtocol := True\<rparr>, added, framer)
         else (None, saw, added, framer))"

text \<open>The loop of \<open>readHTTPHeaders\<close>: where the header ends, or \<open>None\<close>.\<close>

function readHTTPHeaders ::
  "'z Environment \<Rightarrow> nat \<Rightarrow> byte list \<Rightarrow> SawFields \<Rightarrow> WebSocketHandshake \<Rightarrow> 'z framer \<Rightarrow>
     nat option \<times> WebSocketHandshake \<times> 'z framer" where
  "readHTTPHeaders env p rest saw hs framer =
     (if rest = [] then (Some p, hs, framer)
      else
        case parseHTTPHeader True rest of
          HeaderError reason \<Rightarrow> (None, hs_fail reason hs, framer)
        | HeaderEnd n \<Rightarrow> (Some (p + n), hs, framer)
        | HeaderField n name val \<Rightarrow>
            if characters name = [] then (Some (p + n), hs, framer)
            else
              case handleField env name val saw hs framer of
                (Some reason, saw, hs, framer) \<Rightarrow> (None, hs_fail reason hs, framer)
              | (None, saw, hs, framer) \<Rightarrow> readHTTPHeaders env (p + n + 1) (drop (n + 1) rest) saw hs framer)"
  by pat_completeness auto
termination by (relation "measure (\<lambda>(env, p, rest, saw, hs, framer). length rest)") auto

declare readHTTPHeaders.simps [simp del]

definition quoted :: "string \<Rightarrow> string" where
  "quoted s = CHR 0x27 # s @ [CHR 0x27]"

definition checkResponseHeaders :: "WebSocketHandshake \<Rightarrow> uchar list option" where
  "checkResponseHeaders hs =
     (let serverProtocol = header_get (hs_headers hs) (ascii ''Sec-WebSocket-Protocol'');
          serverUpgrade = header_get (hs_headers hs) (ascii ''Upgrade'');
          serverConnection = header_get (hs_headers hs) (ascii ''Connection'');
          serverAccept = header_get (hs_headers hs) (ascii ''Sec-WebSocket-Accept'');
          reason = (\<lambda>s. Some (ascii (''Error during WebSocket handshake: '' @ s)))
      in if serverUpgrade = None then reason (quoted ''Upgrade'' @ '' header is missing'')
         else if serverConnection = None then reason (quoted ''Connection'' @ '' header is missing'')
         else if serverAccept = None then reason (quoted ''Sec-WebSocket-Accept'' @ '' header is missing'')
         else if \<not> equalIgnoringCase (the serverUpgrade) (ascii ''websocket'') then
           reason (quoted ''Upgrade'' @ '' header value is not '' @ quoted ''WebSocket'')
         else if \<not> equalIgnoringCase (the serverConnection) (ascii ''upgrade'') then
           reason (quoted ''Connection'' @ '' header value is not '' @ quoted ''Upgrade'')
         else if serverAccept \<noteq> Some (hs_expectedAccept hs) then reason ''Sec-WebSocket-Accept mismatch''
         else
           case serverProtocol of
             None \<Rightarrow> None
           | Some protocol \<Rightarrow>
               if hs_clientProtocol hs = [] then reason ''Sec-WebSocket-Protocol mismatch''
               else if protocol \<notin> set (splitLoop subProtocolSeparator [] (hs_clientProtocol hs)) then
                 reason ''Sec-WebSocket-Protocol mismatch''
               else None)"

text \<open>
  \<open>readServerHandshake\<close>: the length of the header, or \<open>-1\<close>; the handshake; the contexts. A length is
  returned as an \<open>int\<close>.
\<close>

definition asInt :: "nat \<Rightarrow> int" where
  "asInt n = sint (of_nat n :: 32 word)"

definition readServerHandshake ::
  "'z Environment \<Rightarrow> byte list \<Rightarrow> WebSocketHandshake \<Rightarrow> 'z framer \<Rightarrow> int \<times> WebSocketHandshake \<times> 'z framer" where
  "readServerHandshake env header hs framer =
     (let hs = hs\<lparr>hs_mode := HandshakeIncomplete\<rparr>; len = asInt (length header)
      in case readStatusLine env header of
           (lineLength, statusCode, statusText, reason) \<Rightarrow>
             let hs = (case reason of None \<Rightarrow> hs | Some r \<Rightarrow> hs_fail r hs)
             in if lineLength = -1 then (-1, hs, framer)
                else if statusCode = -1 then (len, hs\<lparr>hs_mode := HandshakeFailed\<rparr>, framer)
                else
                  let hs = hs\<lparr>hs_statusCode := statusCode, hs_statusText := statusText, hs_headers := []\<rparr>
                  in if statusCode \<noteq> 101 then
                       (len,
                        hs_fail (ascii (''Unexpected response code: '' @ String_number_int statusCode)) (hs\<lparr>hs_mode := HandshakeFailed\<rparr>),
                        framer)
                     else
                       let hs = hs\<lparr>hs_mode := HandshakeNormal\<rparr>
                       in if \<not> hasBlankLine header then (-1, hs\<lparr>hs_mode := HandshakeIncomplete\<rparr>, framer)
                          else
                            case readHTTPHeaders env (nat lineLength) (drop (nat lineLength) header)
                                   \<lparr>sawExtensions = False, sawAccept = False, sawProtocol = False\<rparr> hs framer of
                              (None, hs, framer) \<Rightarrow> (len, hs\<lparr>hs_mode := HandshakeFailed\<rparr>, framer)
                            | (Some p, hs, framer) \<Rightarrow>
                                (case checkResponseHeaders hs of
                                   Some reason \<Rightarrow> (asInt p, (hs_fail reason hs)\<lparr>hs_mode := HandshakeFailed\<rparr>, framer)
                                 | None \<Rightarrow> (asInt p, hs\<lparr>hs_mode := HandshakeConnected\<rparr>, framer)))"

end
