(* ===== verification/WebSocket_Channel.thy ===== *)
theory WebSocket_Channel
  imports WebSocket_Handshake
begin

text \<open>
  \<open>WebSocketChannel\<close> (\<open>Modules/websockets/WebSocketChannel.cpp\<close>) over a \<open>SocketStreamHandle\<close>
  (\<open>SocketStreamHandleBase.cpp\<close>, \<open>platformClose\<close> of \<open>cf/SocketStreamHandleCFNet.cpp\<close>), once the handle
  exists. The objects the channel points to are part of its state; a null pointer is \<open>False\<close> or
  \<open>None\<close>, and following it is \<open>Undef\<close>. The calls to the client are recorded in \<open>m_calls\<close>. What a handler
  does to the channel in return is not part of them: mostly the channel has nothing left to do then but
  to read on, and such a call is an operation of its own between two rounds of \<open>processBuffer\<close>; the handler
  of an error, which \<open>fail\<close> calls before it disconnects, is taken not to call back.
\<close>

unbundle bit_operations_syntax

section \<open>The parts of the state\<close>

datatype SocketStreamState = Connecting | Open | Closing | Closed

datatype ConnectingSubstate = New | ExecutingPACFile | WaitingForCredentials | WaitingForConnect | Connected

record SocketStreamHandle =
  h_state :: SocketStreamState
  h_connectingSubstate :: ConnectingSubstate
  h_streams :: bool \<comment> \<open>\<open>m_readStream\<close> and \<open>m_writeStream\<close> are not null\<close>
  h_buffer :: "byte list"
  h_sends :: nat \<comment> \<open>the number of calls of \<open>platformSend\<close> so far\<close>
  h_written :: "byte list" \<comment> \<open>what the platform has taken\<close>

datatype OutgoingFrameQueueStatus = OutgoingFrameQueueOpen | OutgoingFrameQueueClosing | OutgoingFrameQueueClosed

datatype BlobLoaderStatus = BlobLoaderNotStarted | BlobLoaderStarted | BlobLoaderFinished | BlobLoaderFailed

datatype QueuedFrame =
  QueuedFrameString OpCode "byte list"
  | QueuedFrameVector OpCode "byte list"
  | QueuedFrameBlob OpCode

datatype ClientCall =
  DidConnect
  | DidReceiveMessage String
  | DidReceiveBinaryData "byte list"
  | DidReceiveMessageError
  | DidUpdateBufferedAmount nat
  | DidStartClosingHandshake
  | DidClose nat bool uchar "String option"

definition CloseEventCodeNotSpecified :: int where "CloseEventCodeNotSpecified = -1"
definition CloseEventCodeNoStatusRcvd :: uchar where "CloseEventCodeNoStatusRcvd = 1005"
definition CloseEventCodeAbnormalClosure :: uchar where "CloseEventCodeAbnormalClosure = 1006"
definition CloseEventCodeTLSHandshake :: uchar where "CloseEventCodeTLSHandshake = 1015"
definition ABORT_ERR :: int where "ABORT_ERR = 3"
definition bufferSize :: nat where "bufferSize = 100 * 1024 * 1024"

lemmas closeCodes = CloseEventCodeNotSpecified_def CloseEventCodeNoStatusRcvd_def CloseEventCodeAbnormalClosure_def
  CloseEventCodeTLSHandshake_def

record 'z WebSocketChannel =
  m_document :: bool
  m_client :: bool
  m_calls :: "ClientCall list"
  m_consoleMessages :: "uchar list list"
  m_handshake :: WebSocketHandshake
  m_handle :: "SocketStreamHandle option"
  m_buffer :: "byte list"
  m_resumeTimer :: bool
  m_suspended :: bool
  m_closing :: bool
  m_receivedClosingHandshake :: bool
  m_closingTimer :: bool
  m_closed :: bool
  m_shouldDiscardReceivedData :: bool
  m_unhandledBufferedAmount :: nat
  m_hasContinuousFrame :: bool
  m_continuousFrameOpCode :: OpCode
  m_continuousFrameData :: "byte list"
  m_closeEventCode :: uchar
  m_closeEventReason :: "String option"
  m_outgoingFrameQueue :: "QueuedFrame list"
  m_outgoingFrameQueueStatus :: OutgoingFrameQueueStatus
  m_blobLoaderStatus :: BlobLoaderStatus
  m_blobResult :: "byte list"
  m_framesSent :: nat
  m_deflateEnabled :: bool
  m_deflater :: 'z
  m_inflater :: 'z

section \<open>Small operations\<close>

definition callClient :: "ClientCall \<Rightarrow> 'z WebSocketChannel \<Rightarrow> 'z WebSocketChannel outcome" where
  "callClient call c = (if m_client c then Done (c\<lparr>m_calls := m_calls c @ [call]\<rparr>) else Undef)"

definition resetDeflateContext :: "'z Environment \<Rightarrow> 'z WebSocketChannel \<Rightarrow> 'z WebSocketChannel" where
  "resetDeflateContext env c = (if m_deflateEnabled c then c\<lparr>m_deflater := resetDeflater env (m_deflater c)\<rparr> else c)"

definition resetInflateContext :: "'z Environment \<Rightarrow> 'z WebSocketChannel \<Rightarrow> 'z WebSocketChannel" where
  "resetInflateContext env c = (if m_deflateEnabled c then c\<lparr>m_inflater := resetInflater env (m_inflater c)\<rparr> else c)"

definition didFail_framer :: "'z Environment \<Rightarrow> 'z WebSocketChannel \<Rightarrow> 'z WebSocketChannel" where
  "didFail_framer env c = resetInflateContext env (resetDeflateContext env c)"

definition skipBuffer :: "nat \<Rightarrow> 'z WebSocketChannel \<Rightarrow> 'z WebSocketChannel outcome" where
  "skipBuffer len c = (if len \<le> length (m_buffer c) then Done (c\<lparr>m_buffer := drop len (m_buffer c)\<rparr>) else Undef)"

definition appendToBuffer :: "'z Environment \<Rightarrow> byte list \<Rightarrow> 'z WebSocketChannel \<Rightarrow> 'z WebSocketChannel option" where
  "appendToBuffer env data c =
     (if length (m_buffer c) + length data > unat (largestSize env) then None
      else Some (c\<lparr>m_buffer := m_buffer c @ data\<rparr>))"

definition setHandleState :: "SocketStreamState \<Rightarrow> 'z WebSocketChannel \<Rightarrow> 'z WebSocketChannel" where
  "setHandleState s c = c\<lparr>m_handle := map_option (h_state_update (\<lambda>_. s)) (m_handle c)\<rparr>"

section \<open>Failure and disconnection\<close>

text \<open>
  Disconnecting the handle calls \<open>didCloseSocketStream\<close>, which may cancel a blob that is being loaded
  and so fail again; \<open>m_closed\<close> ends the circle.
\<close>

definition failedChannel :: "'z Environment \<Rightarrow> uchar list \<Rightarrow> 'z WebSocketChannel \<Rightarrow> 'z WebSocketChannel" where
  "failedChannel env reason c =
     (let c = (if m_document c then c\<lparr>m_consoleMessages := m_consoleMessages c @ [reason]\<rparr> else c);
          c = c\<lparr>m_shouldDiscardReceivedData := True\<rparr>;
          c = (if m_buffer c \<noteq> [] then c\<lparr>m_buffer := []\<rparr> else c);
          c = didFail_framer env c
      in c\<lparr>m_hasContinuousFrame := False, m_continuousFrameData := []\<rparr>)"

definition didCloseRest :: "'z WebSocketChannel \<Rightarrow> 'z WebSocketChannel outcome" where
  "didCloseRest c =
     (case m_handle c of
        None \<Rightarrow> Done c
      | Some h \<Rightarrow>
          let c = c\<lparr>m_unhandledBufferedAmount := length (h_buffer h)\<rparr>
          in if m_suspended c then Done c
             else if m_client c then
               Done (c\<lparr>m_client := False, m_document := False, m_handle := None,
                 m_calls := m_calls c @
                   [DidClose (m_unhandledBufferedAmount c) (m_receivedClosingHandshake c) (m_closeEventCode c)
                     (m_closeEventReason c)]\<rparr>)
             else Done (c\<lparr>m_client := False, m_document := False, m_handle := None\<rparr>))"

lemma failedChannel_fields [simp]:
  "m_closed (failedChannel env reason c) = m_closed c"
  "m_handle (failedChannel env reason c) = m_handle c"
  "m_client (failedChannel env reason c) = m_client c"
  by (simp_all add: failedChannel_def didFail_framer_def resetInflateContext_def resetDeflateContext_def Let_def)

lemma callClient_Done: "callClient call c = Done c' \<longleftrightarrow> m_client c \<and> c' = c\<lparr>m_calls := m_calls c @ [call]\<rparr>"
  by (auto simp: callClient_def)

function fail :: "'z Environment \<Rightarrow> uchar list \<Rightarrow> 'z WebSocketChannel \<Rightarrow> 'z WebSocketChannel outcome"
  and disconnectHandle :: "'z Environment \<Rightarrow> 'z WebSocketChannel \<Rightarrow> 'z WebSocketChannel outcome"
  and didCloseSocketStream :: "'z Environment \<Rightarrow> 'z WebSocketChannel \<Rightarrow> 'z WebSocketChannel outcome"
  and abortOutgoingFrameQueue :: "'z Environment \<Rightarrow> 'z WebSocketChannel \<Rightarrow> 'z WebSocketChannel outcome"
  and didFail :: "'z Environment \<Rightarrow> int \<Rightarrow> 'z WebSocketChannel \<Rightarrow> 'z WebSocketChannel outcome" where
  "fail env reason c =
     obind (callClient DidReceiveMessageError (failedChannel env reason c)) (\<lambda>c.
       if m_handle c \<noteq> None \<and> \<not> m_closed c then disconnectHandle env c else Done c)"
| "disconnectHandle env c =
     (case m_handle c of
        None \<Rightarrow> Undef
      | Some h \<Rightarrow>
          if h_streams h then
            obind (didCloseSocketStream env (c\<lparr>m_handle := Some (h\<lparr>h_streams := False\<rparr>)\<rparr>)) (\<lambda>c.
              Done (setHandleState Closed c))
          else if h_connectingSubstate h = New \<or> h_connectingSubstate h = ExecutingPACFile then
            obind (didCloseSocketStream env c) (\<lambda>c. Done (setHandleState Closed c))
          else Done (setHandleState Closed c))"
| "didCloseSocketStream env c =
     (let c = c\<lparr>m_closed := True, m_closingTimer := False\<rparr>
      in obind (if m_outgoingFrameQueueStatus c \<noteq> OutgoingFrameQueueClosed then abortOutgoingFrameQueue env c else Done c)
           didCloseRest)"
| "abortOutgoingFrameQueue env c =
     (let c = c\<lparr>m_outgoingFrameQueue := [], m_outgoingFrameQueueStatus := OutgoingFrameQueueClosed\<rparr>
      in if m_blobLoaderStatus c = BlobLoaderStarted then didFail env ABORT_ERR c else Done c)"
| "didFail env errorCode c =
     fail env (ascii (''Failed to load Blob: error code = '' @ String_number_int errorCode))
       (c\<lparr>m_blobLoaderStatus := BlobLoaderFailed\<rparr>)"
  by pat_completeness auto

termination
  by (relation "measure
        (case_sum
          (case_sum (\<lambda>(env, reason, c). if m_closed c then 0 else 10) (\<lambda>(env, c). 4))
          (case_sum (\<lambda>(env, c). 3)
            (case_sum (\<lambda>(env, c). if m_closed c then 2 else 12)
              (\<lambda>(env, errorCode, c). if m_closed c then 1 else 11))))")
    (auto simp: callClient_Done)

declare fail.simps [simp del] disconnectHandle.simps [simp del] didCloseSocketStream.simps [simp del]
  abortOutgoingFrameQueue.simps [simp del] didFail.simps [simp del]

section \<open>Sending\<close>

text \<open>
  \<open>SocketStreamHandleBase::send\<close> answers whether the bytes were taken, and how many bytes are buffered
  where it reports that to its client.
\<close>

definition socketSend :: "'z Environment \<Rightarrow> byte list \<Rightarrow> SocketStreamHandle \<Rightarrow> SocketStreamHandle \<times> bool \<times> nat option" where
  "socketSend env data h =
     (if h_state h = Connecting \<or> h_state h = Closing then (h, False, None)
      else if h_buffer h \<noteq> [] then
        if length (h_buffer h) + length data > bufferSize then (h, False, None)
        else let h = h\<lparr>h_buffer := h_buffer h @ data\<rparr> in (h, True, Some (length (h_buffer h)))
      else
        let (bytesWritten, h) =
              (if h_state h = Open then (platformSend env (h_sends h) data, h\<lparr>h_sends := h_sends h + 1\<rparr>) else (0, h))
        in if bytesWritten < 0 then (h, False, None)
           else
             let h = h\<lparr>h_written := h_written h @ take (nat bytesWritten) data\<rparr>
             in if int (length (h_buffer h)) + int (length data) - bytesWritten > int bufferSize then (h, False, None)
                else if bytesWritten < int (length data) then
                  let h = h\<lparr>h_buffer := h_buffer h @ drop (nat bytesWritten) data\<rparr>
                  in (h, True, Some (length (h_buffer h)))
                else (h, True, None))"

definition handleSend :: "'z Environment \<Rightarrow> byte list \<Rightarrow> 'z WebSocketChannel \<Rightarrow> ('z WebSocketChannel \<times> bool) outcome" where
  "handleSend env data c =
     (case m_handle c of
        None \<Rightarrow> Undef
      | Some h \<Rightarrow>
          let (h, sent, bufferedAmount) = socketSend env data h;
              c = c\<lparr>m_handle := Some h\<rparr>;
              c = (case bufferedAmount of
                     Some n \<Rightarrow> if m_client c then c\<lparr>m_calls := m_calls c @ [DidUpdateBufferedAmount n]\<rparr> else c
                   | None \<Rightarrow> c)
          in Done (c, sent))"

definition closeHandle :: "'z Environment \<Rightarrow> 'z WebSocketChannel \<Rightarrow> 'z WebSocketChannel outcome" where
  "closeHandle env c =
     (case m_handle c of
        None \<Rightarrow> Undef
      | Some h \<Rightarrow>
          if h_state h = Closed then Done c
          else
            let c = setHandleState Closing c
            in if h_buffer h \<noteq> [] then Done c else disconnectHandle env c)"

text \<open>\<open>WebSocketDeflateFramer::deflate\<close>: the channel, the frame and whether it succeeded.\<close>

definition deflateFrame ::
  "'z Environment \<Rightarrow> WebSocketFrame \<Rightarrow> 'z WebSocketChannel \<Rightarrow> 'z WebSocketChannel \<times> WebSocketFrame \<times> bool" where
  "deflateFrame env frame c =
     (if \<not> m_deflateEnabled c \<or> \<not> isNonControlOpCode (opCode frame) \<or> payloadLength frame = 0 then (c, frame, True)
      else
        case deflateBytes env (m_deflater c) (payload frame) of
          (z, None) \<Rightarrow> (c\<lparr>m_deflater := z\<rparr>, frame, False)
        | (z, Some bytes) \<Rightarrow>
            (c\<lparr>m_deflater := z\<rparr>, frame\<lparr>compress := True, payload := bytes, payloadLength := length bytes\<rparr>, True))"

definition sendFrame ::
  "'z Environment \<Rightarrow> OpCode \<Rightarrow> byte list \<Rightarrow> 'z WebSocketChannel \<Rightarrow> ('z WebSocketChannel \<times> bool) outcome" where
  "sendFrame env code data c =
     (let frame = newFrame code True False True data (length data);
          (c, frame, succeeded) = deflateFrame env frame c
      in if \<not> succeeded then
           obind (fail env (ascii ''Failed to compress frame'') c) (\<lambda>c. Done (resetDeflateContext env c, False))
         else
           let frameData = makeFrameData (maskingKey env (m_framesSent c)) frame
           in obind (handleSend env frameData (c\<lparr>m_framesSent := m_framesSent c + 1\<rparr>)) (\<lambda>(c, sent).
                Done (resetDeflateContext env c, sent)))"

definition sendOrFail :: "'z Environment \<Rightarrow> OpCode \<Rightarrow> byte list \<Rightarrow> 'z WebSocketChannel \<Rightarrow> 'z WebSocketChannel outcome" where
  "sendOrFail env code data c =
     obind (sendFrame env code data c) (\<lambda>(c, sent).
       if sent then Done c else fail env (ascii ''Failed to send WebSocket frame.'') c)"

text \<open>What failing and disconnecting leave alone.\<close>

definition quiet :: "'z WebSocketChannel \<Rightarrow> 'z WebSocketChannel \<Rightarrow> bool" where
  "quiet c c' \<longleftrightarrow>
     (m_buffer c' = m_buffer c \<or> m_buffer c' = []) \<and>
     (m_client c' = m_client c \<and> m_document c' = m_document c \<or> \<not> m_client c' \<and> \<not> m_document c') \<and>
     (m_shouldDiscardReceivedData c \<longrightarrow> m_shouldDiscardReceivedData c') \<and> (m_closing c \<longrightarrow> m_closing c') \<and>
     m_suspended c' = m_suspended c \<and> m_handshake c' = m_handshake c \<and>
     m_receivedClosingHandshake c' = m_receivedClosingHandshake c \<and> m_deflateEnabled c' = m_deflateEnabled c"

definition settles :: "'z WebSocketChannel \<Rightarrow> 'z WebSocketChannel \<Rightarrow> bool" where
  "settles c c' \<longleftrightarrow> length (m_outgoingFrameQueue c') \<le> length (m_outgoingFrameQueue c) \<and> quiet c c'"

lemmas settles_defs = settles_def quiet_def

lemma quiet_refl [simp]: "quiet c c"
  by (simp add: quiet_def)

lemma quiet_trans: "quiet a b \<Longrightarrow> quiet b c \<Longrightarrow> quiet a c"
  unfolding quiet_def by (elim conjE, intro conjI) (simp | blast | (elim disjE; simp))+

lemma settles_refl [simp]: "settles c c"
  by (simp add: settles_defs)

lemma settles_trans: "settles a b \<Longrightarrow> settles b c \<Longrightarrow> settles a c"
  unfolding settles_def using quiet_trans le_trans by blast

lemma settles_failed: "settles c (failedChannel env reason c)"
  by (simp add: settles_defs failedChannel_def didFail_framer_def resetInflateContext_def resetDeflateContext_def Let_def)

lemma settles_handle: "settles c (c\<lparr>m_handle := h\<rparr>)" "settles c (setHandleState s c)"
  by (simp_all add: settles_defs setHandleState_def)

lemma settles_closed: "settles c (c\<lparr>m_closed := b, m_closingTimer := b'\<rparr>)"
  by (simp add: settles_defs)

lemma settles_didCloseRest: "didCloseRest c = Done c' \<Longrightarrow> settles c c'"
  by (cases "m_handle c"; cases "m_suspended c"; cases "m_client c") (auto simp: didCloseRest_def settles_defs Let_def)

lemma settles_callClient: "callClient call c = Done c' \<Longrightarrow> settles c c'"
  by (auto simp: callClient_def settles_defs split: if_splits)

lemma settles_fail:
  "fail env reason c = Done c' \<Longrightarrow> settles c c'"
  "disconnectHandle env c = Done c' \<Longrightarrow> settles c c'"
  "didCloseSocketStream env c = Done c' \<Longrightarrow> settles c c'"
  "abortOutgoingFrameQueue env c = Done c' \<Longrightarrow> settles c c'"
  "didFail env e c = Done c' \<Longrightarrow> settles c c'"
proof (induction env reason c and env c and env c and env c and env e c arbitrary: c' and c' and c' and c' and c'
    rule: fail_disconnectHandle_didCloseSocketStream_abortOutgoingFrameQueue_didFail.induct)
  case (1 env reason c)
  then obtain x where x: "callClient DidReceiveMessageError (failedChannel env reason c) = Done x"
    and rest: "(if m_handle x \<noteq> None \<and> \<not> m_closed x then disconnectHandle env x else Done x) = Done c'"
    by (auto simp: fail.simps [of env reason c] obind_Done_iff)
  have "settles x c'" using 1(1) [OF x] rest by (auto split: if_splits)
  then show ?case using settles_trans [OF settles_failed settles_trans [OF settles_callClient [OF x]]] by blast
next
  case (2 env c)
  then show ?case
    by (auto simp: disconnectHandle.simps [of env c] obind_Done_iff
        intro: settles_handle settles_trans [OF settles_handle(1) settles_trans [OF _ settles_handle(2)]]
          settles_trans [OF _ settles_handle(2)]
        split: option.splits if_splits)
next
  case (3 env c)
  let ?c = "c\<lparr>m_closed := True, m_closingTimer := False\<rparr>"
  obtain x where x: "(if m_outgoingFrameQueueStatus ?c \<noteq> OutgoingFrameQueueClosed then abortOutgoingFrameQueue env ?c else Done ?c) = Done x"
    and rest: "didCloseRest x = Done c'"
    using 3(2) by (auto simp: didCloseSocketStream.simps [of env c] obind_Done_iff Let_def)
  have "settles ?c x" using 3(1) x by (auto split: if_splits)
  then show ?case using settles_trans [OF settles_closed settles_trans [OF _ settles_didCloseRest [OF rest]]] by blast
next
  case (4 env c)
  have "settles c (c\<lparr>m_outgoingFrameQueue := [], m_outgoingFrameQueueStatus := OutgoingFrameQueueClosed\<rparr>)"
    by (simp add: settles_defs)
  then show ?case using 4 by (auto simp: abortOutgoingFrameQueue.simps [of env c] Let_def intro: settles_trans split: if_splits)
next
  case (5 env e c)
  have "settles c (c\<lparr>m_blobLoaderStatus := BlobLoaderFailed\<rparr>)" by (simp add: settles_defs)
  then show ?case using 5 by (auto simp: didFail.simps [of env e c] intro: settles_trans)
qed

lemma settles_context: "settles c (resetDeflateContext env c)" "settles c (resetInflateContext env c)"
  by (simp_all add: settles_defs resetDeflateContext_def resetInflateContext_def)

lemma settles_handleSend: "handleSend env data c = Done (c', sent) \<Longrightarrow> settles c c'"
proof (cases "m_handle c")
  case (Some h)
  obtain h' s n where "socketSend env data h = (h', s, n)" by (rule prod_cases3)
  then show "handleSend env data c = Done (c', sent) \<Longrightarrow> settles c c'"
    using Some by (cases n; cases "m_client c") (auto simp: handleSend_def settles_defs Let_def)
qed (simp add: handleSend_def)

lemma settles_deflateFrame: "deflateFrame env frame c = (c', frame', ok) \<Longrightarrow> settles c c'"
  by (auto simp: deflateFrame_def settles_defs split: if_splits prod.splits option.splits)

lemma settles_sendFrame:
  assumes "sendFrame env code data c = Done (c', sent)"
  shows "settles c c'"
proof -
  let ?f = "newFrame code True False True data (length data)"
  obtain c1 f1 ok where d: "deflateFrame env ?f c = (c1, f1, ok)" by (cases "deflateFrame env ?f c")
  have 1: "settles c c1" by (rule settles_deflateFrame [OF d])
  have 2: "settles c1 (c1\<lparr>m_framesSent := n\<rparr>)" for n by (simp add: settles_defs)
  have "settles c1 c'"
  proof (cases ok)
    case True
    then show ?thesis
      using assms settles_trans [OF 2 settles_trans [OF settles_handleSend settles_context(1)]]
      by (auto simp: sendFrame_def d Let_def obind_Done_iff)
  next
    case False
    then show ?thesis
      using assms settles_trans [OF settles_fail(1) settles_context(1)]
      by (auto simp: sendFrame_def d Let_def obind_Done_iff)
  qed
  then show ?thesis using 1 settles_trans by blast
qed

lemma settles_sendOrFail: "sendOrFail env code data c = Done c' \<Longrightarrow> settles c c'"
  by (auto simp: sendOrFail_def obind_Done_iff intro: settles_trans [OF settles_sendFrame settles_fail(1)] settles_sendFrame
      split: if_splits)

section \<open>The outgoing queue\<close>

text \<open>
  A blob that is not loaded yet goes back to the front of the queue, and the loop stops. Loading
  reports later, by \<open>didFinishLoading\<close> or \<open>didFail\<close>.
\<close>

lemma sendOrFail_queue:
  "sendOrFail env code bytes c = Done c' \<Longrightarrow> length (m_outgoingFrameQueue c') \<le> length (m_outgoingFrameQueue c)"
  using settles_sendOrFail [of env code bytes c c'] by (auto simp: settles_defs)

function outgoingLoop :: "'z Environment \<Rightarrow> 'z WebSocketChannel \<Rightarrow> 'z WebSocketChannel outcome" where
  "outgoingLoop env c =
     (case m_outgoingFrameQueue c of
        [] \<Rightarrow>
          if m_outgoingFrameQueueStatus c = OutgoingFrameQueueClosing then
            closeHandle env (c\<lparr>m_outgoingFrameQueueStatus := OutgoingFrameQueueClosed\<rparr>)
          else Done c
      | QueuedFrameString code bytes # frames \<Rightarrow>
          obind (sendOrFail env code bytes (c\<lparr>m_outgoingFrameQueue := frames\<rparr>)) (outgoingLoop env)
      | QueuedFrameVector code bytes # frames \<Rightarrow>
          obind (sendOrFail env code bytes (c\<lparr>m_outgoingFrameQueue := frames\<rparr>)) (outgoingLoop env)
      | QueuedFrameBlob code # frames \<Rightarrow>
          (case m_blobLoaderStatus c of
             BlobLoaderNotStarted \<Rightarrow> Done (c\<lparr>m_blobLoaderStatus := BlobLoaderStarted\<rparr>)
           | BlobLoaderStarted \<Rightarrow> Done c
           | BlobLoaderFailed \<Rightarrow> Done c
           | BlobLoaderFinished \<Rightarrow>
               obind (sendOrFail env code (m_blobResult c)
                   (c\<lparr>m_outgoingFrameQueue := frames, m_blobLoaderStatus := BlobLoaderNotStarted\<rparr>))
                 (outgoingLoop env)))"
  by pat_completeness auto

termination
  by (relation "measure (\<lambda>(env, c). length (m_outgoingFrameQueue c))") (auto dest!: sendOrFail_queue)

declare outgoingLoop.simps [simp del]

definition processOutgoingFrameQueue :: "'z Environment \<Rightarrow> 'z WebSocketChannel \<Rightarrow> 'z WebSocketChannel outcome" where
  "processOutgoingFrameQueue env c =
     (if m_outgoingFrameQueueStatus c = OutgoingFrameQueueClosed then Done c else outgoingLoop env c)"

definition enqueueTextFrame :: "byte list \<Rightarrow> 'z WebSocketChannel \<Rightarrow> 'z WebSocketChannel" where
  "enqueueTextFrame bytes c = c\<lparr>m_outgoingFrameQueue := m_outgoingFrameQueue c @ [QueuedFrameString OpCodeText bytes]\<rparr>"

definition enqueueRawFrame :: "OpCode \<Rightarrow> byte list \<Rightarrow> 'z WebSocketChannel \<Rightarrow> 'z WebSocketChannel" where
  "enqueueRawFrame code bytes c = c\<lparr>m_outgoingFrameQueue := m_outgoingFrameQueue c @ [QueuedFrameVector code bytes]\<rparr>"

definition enqueueBlobFrame :: "OpCode \<Rightarrow> 'z WebSocketChannel \<Rightarrow> 'z WebSocketChannel" where
  "enqueueBlobFrame code c = c\<lparr>m_outgoingFrameQueue := m_outgoingFrameQueue c @ [QueuedFrameBlob code]\<rparr>"

definition sendText :: "'z Environment \<Rightarrow> String \<Rightarrow> 'z WebSocketChannel \<Rightarrow> 'z WebSocketChannel outcome" where
  "sendText env message c = processOutgoingFrameQueue env (enqueueTextFrame (utf8Data StrictConversionReplacingUnpairedSurrogatesWithFFFD message) c)"

definition sendBinary :: "'z Environment \<Rightarrow> byte list \<Rightarrow> 'z WebSocketChannel \<Rightarrow> 'z WebSocketChannel outcome" where
  "sendBinary env bytes c = processOutgoingFrameQueue env (enqueueRawFrame OpCodeBinary bytes c)"

definition sendBlob :: "'z Environment \<Rightarrow> 'z WebSocketChannel \<Rightarrow> 'z WebSocketChannel outcome" where
  "sendBlob env c = processOutgoingFrameQueue env (enqueueBlobFrame OpCodeBinary c)"

definition didFinishLoading :: "'z Environment \<Rightarrow> byte list \<Rightarrow> 'z WebSocketChannel \<Rightarrow> 'z WebSocketChannel outcome" where
  "didFinishLoading env result c =
     processOutgoingFrameQueue env (c\<lparr>m_blobLoaderStatus := BlobLoaderFinished, m_blobResult := result\<rparr>)"

section \<open>The closing handshake\<close>

definition startClosingHandshake ::
  "'z Environment \<Rightarrow> int \<Rightarrow> String option \<Rightarrow> 'z WebSocketChannel \<Rightarrow> 'z WebSocketChannel outcome" where
  "startClosingHandshake env code reason c =
     (if m_closing c then Done c
      else
        let buf = (if \<not> m_receivedClosingHandshake c \<and> code \<noteq> CloseEventCodeNotSpecified then
                     [word_of_int (drop_bit 8 code), word_of_int code] @
                       (case reason of None \<Rightarrow> [] | Some s \<Rightarrow> utf8Data LenientConversion s)
                   else [])
        in obind (processOutgoingFrameQueue env (enqueueRawFrame OpCodeClose buf c)) (\<lambda>c.
             let c = c\<lparr>m_closing := True\<rparr>
             in if m_client c then callClient DidStartClosingHandshake c else Done c))"

definition close :: "'z Environment \<Rightarrow> int \<Rightarrow> String option \<Rightarrow> 'z WebSocketChannel \<Rightarrow> 'z WebSocketChannel outcome" where
  "close env code reason c =
     (if m_handle c = None then Done c
      else
        obind (startClosingHandshake env code reason c) (\<lambda>c.
          Done (if m_closing c \<and> \<not> m_closingTimer c then c\<lparr>m_closingTimer := True\<rparr> else c)))"

definition closingTimerFired :: "'z Environment \<Rightarrow> 'z WebSocketChannel \<Rightarrow> 'z WebSocketChannel outcome" where
  "closingTimerFired env c =
     (let c = c\<lparr>m_closingTimer := False\<rparr> in if m_handle c \<noteq> None then disconnectHandle env c else Done c)"

definition disconnect :: "'z Environment \<Rightarrow> 'z WebSocketChannel \<Rightarrow> 'z WebSocketChannel outcome" where
  "disconnect env c =
     (let c = c\<lparr>m_client := False, m_document := False\<rparr>
      in if m_handle c \<noteq> None then disconnectHandle env c else Done c)"

definition suspend :: "'z WebSocketChannel \<Rightarrow> 'z WebSocketChannel" where
  "suspend c = c\<lparr>m_suspended := True\<rparr>"

definition resume :: "'z WebSocketChannel \<Rightarrow> 'z WebSocketChannel" where
  "resume c =
     (let c = c\<lparr>m_suspended := False\<rparr>
      in if (m_buffer c \<noteq> [] \<or> m_closed c) \<and> m_client c \<and> \<not> m_resumeTimer c then c\<lparr>m_resumeTimer := True\<rparr> else c)"

section \<open>Receiving frames\<close>

text \<open>
  \<open>WebSocketDeflateFramer::inflate\<close>: the channel and the frame, or the reason of the failure. An empty
  payload cannot be added to the inflater.
\<close>

definition inflateFrame ::
  "'z Environment \<Rightarrow> WebSocketFrame \<Rightarrow> 'z WebSocketChannel \<Rightarrow> 'z WebSocketChannel \<times> (uchar list + WebSocketFrame)" where
  "inflateFrame env frame c =
     (if \<not> m_deflateEnabled c \<and> compress frame then
        (c, Inl (ascii ''Compressed bit must be 0 if no negotiated deflate-frame extension''))
      else if \<not> compress frame then (c, Inr frame)
      else if \<not> isNonControlOpCode (opCode frame) then (c, Inl (ascii ''Received unexpected compressed frame''))
      else if payloadLength frame = 0 then (c, Inl (ascii ''Failed to decompress frame''))
      else
        case inflateBytes env (m_inflater c) (payload frame) of
          (z, None) \<Rightarrow> (c\<lparr>m_inflater := z\<rparr>, Inl (ascii ''Failed to decompress frame''))
        | (z, Some bytes) \<Rightarrow>
            (c\<lparr>m_inflater := z\<rparr>, Inr (frame\<lparr>compress := False, payload := bytes, payloadLength := length bytes\<rparr>)))"

definition bit_string :: "bool \<Rightarrow> string" where
  "bit_string b = String_number (if b then 1 else 0)"

text \<open>The checks of \<open>processFrame\<close> before the switch: the reason for which a frame is refused.\<close>

definition refusal :: "WebSocketFrame \<Rightarrow> bool \<Rightarrow> uchar list option" where
  "refusal frame hasContinuousFrame =
     (if isReservedOpCode (opCode frame) then
        Some (ascii (''Unrecognized frame opcode: '' @ String_number (unat (opCode frame))))
      else if reserved2 frame \<or> reserved3 frame then
        Some (ascii (''One or more reserved bits are on: reserved2 = '' @ bit_string (reserved2 frame) @
          '', reserved3 = '' @ bit_string (reserved3 frame)))
      else if masked frame then Some (ascii ''A server must not mask any frames that it sends to the client.'')
      else if isControlOpCode (opCode frame) \<and> \<not> final frame then
        Some (ascii (''Received fragmented control frame: opcode = '' @ String_number (unat (opCode frame))))
      else if isControlOpCode (opCode frame) \<and> needsExtendedLengthField (payloadLength frame) then
        Some (ascii (''Received control frame having too long payload: '' @ String_number (payloadLength frame) @ '' bytes''))
      else if hasContinuousFrame \<and> opCode frame \<noteq> OpCodeContinuation \<and> \<not> isControlOpCode (opCode frame) then
        Some (ascii ''Received new data frame but previous continuous frame is unfinished.'')
      else None)"

definition decodeText :: "byte list \<Rightarrow> String option" where
  "decodeText bytes = (if bytes \<noteq> [] then String_fromUTF8 bytes else Some (String8 []))"

definition deliverText :: "'z Environment \<Rightarrow> String option \<Rightarrow> 'z WebSocketChannel \<Rightarrow> 'z WebSocketChannel outcome" where
  "deliverText env message c =
     (case message of
        None \<Rightarrow> fail env (ascii ''Could not decode a text frame as UTF-8.'') c
      | Some text \<Rightarrow> callClient (DidReceiveMessage text) c)"

definition finishContinuousFrame :: "'z Environment \<Rightarrow> 'z WebSocketChannel \<Rightarrow> 'z WebSocketChannel outcome" where
  "finishContinuousFrame env c =
     (let continuousFrameData = m_continuousFrameData c;
          c = c\<lparr>m_continuousFrameData := [], m_hasContinuousFrame := False\<rparr>
      in if m_continuousFrameOpCode c = OpCodeText then deliverText env (decodeText continuousFrameData) c
         else if m_continuousFrameOpCode c = OpCodeBinary then callClient (DidReceiveBinaryData continuousFrameData) c
         else Done c)"

definition receivedContinuation ::
  "'z Environment \<Rightarrow> WebSocketFrame \<Rightarrow> nat \<Rightarrow> 'z WebSocketChannel \<Rightarrow> 'z WebSocketChannel outcome" where
  "receivedContinuation env frame frameEnd c =
     obind (skipBuffer frameEnd (c\<lparr>m_continuousFrameData := m_continuousFrameData c @ payload frame\<rparr>)) (\<lambda>c.
       if final frame then finishContinuousFrame env c else Done c)"

definition startContinuousFrame ::
  "WebSocketFrame \<Rightarrow> OpCode \<Rightarrow> nat \<Rightarrow> 'z WebSocketChannel \<Rightarrow> 'z WebSocketChannel outcome" where
  "startContinuousFrame frame code frameEnd c =
     skipBuffer frameEnd
       (c\<lparr>m_hasContinuousFrame := True, m_continuousFrameOpCode := code,
          m_continuousFrameData := m_continuousFrameData c @ payload frame\<rparr>)"

definition receivedText ::
  "'z Environment \<Rightarrow> WebSocketFrame \<Rightarrow> nat \<Rightarrow> 'z WebSocketChannel \<Rightarrow> 'z WebSocketChannel outcome" where
  "receivedText env frame frameEnd c =
     (if final frame then obind (skipBuffer frameEnd c) (deliverText env (decodeText (payload frame)))
      else startContinuousFrame frame OpCodeText frameEnd c)"

definition receivedBinary ::
  "WebSocketFrame \<Rightarrow> nat \<Rightarrow> 'z WebSocketChannel \<Rightarrow> 'z WebSocketChannel outcome" where
  "receivedBinary frame frameEnd c =
     (if final frame then obind (skipBuffer frameEnd c) (callClient (DidReceiveBinaryData (payload frame)))
      else startContinuousFrame frame OpCodeBinary frameEnd c)"

text \<open>The code that a close frame carries, or the reason for which it is broken.\<close>

definition closeCode :: "WebSocketFrame \<Rightarrow> uchar list + uchar" where
  "closeCode frame =
     (if payloadLength frame = 0 then Inr CloseEventCodeNoStatusRcvd
      else if payloadLength frame = 1 then Inl (ascii ''Received a broken close frame containing an invalid size body.'')
      else
        let highByte = payload frame ! 0; lowByte = payload frame ! 1;
            code = push_bit 8 (ucast highByte) OR ucast lowByte
        in if code = CloseEventCodeNoStatusRcvd \<or> code = CloseEventCodeAbnormalClosure \<or> code = CloseEventCodeTLSHandshake
           then Inl (ascii ''Received a broken close frame containing a reserved status code.'')
           else Inr code)"

definition receivedClose ::
  "'z Environment \<Rightarrow> WebSocketFrame \<Rightarrow> nat \<Rightarrow> 'z WebSocketChannel \<Rightarrow> ('z WebSocketChannel \<times> bool) outcome" where
  "receivedClose env frame frameEnd c =
     (case closeCode frame of
        Inl reason \<Rightarrow>
          obind (fail env reason (c\<lparr>m_closeEventCode := CloseEventCodeAbnormalClosure\<rparr>)) (\<lambda>c. Done (c, False))
      | Inr code \<Rightarrow>
          let c = c\<lparr>m_closeEventCode := code,
                m_closeEventReason :=
                  (if payloadLength frame \<ge> 3 then String_fromUTF8 (drop 2 (payload frame)) else Some (String8 []))\<rparr>
          in obind (skipBuffer frameEnd c) (\<lambda>c.
               let c = c\<lparr>m_receivedClosingHandshake := True\<rparr>
               in obind (startClosingHandshake env (uint (m_closeEventCode c)) (m_closeEventReason c) c) (\<lambda>c.
                    obind (if m_closing c then
                             processOutgoingFrameQueue env (c\<lparr>m_outgoingFrameQueueStatus := OutgoingFrameQueueClosing\<rparr>)
                           else Done c) (\<lambda>c.
                      Done (c, m_buffer c \<noteq> [])))))"

definition receivedPing ::
  "'z Environment \<Rightarrow> WebSocketFrame \<Rightarrow> nat \<Rightarrow> 'z WebSocketChannel \<Rightarrow> 'z WebSocketChannel outcome" where
  "receivedPing env frame frameEnd c =
     obind (skipBuffer frameEnd (enqueueRawFrame OpCodePong (payload frame) c)) (processOutgoingFrameQueue env)"

definition continuing :: "'z WebSocketChannel outcome \<Rightarrow> ('z WebSocketChannel \<times> bool) outcome" where
  "continuing r = obind r (\<lambda>c. Done (c, m_buffer c \<noteq> []))"

definition failing :: "'z Environment \<Rightarrow> uchar list \<Rightarrow> 'z WebSocketChannel \<Rightarrow> ('z WebSocketChannel \<times> bool) outcome" where
  "failing env reason c = obind (fail env reason c) (\<lambda>c. Done (c, False))"

definition dispatchFrame ::
  "'z Environment \<Rightarrow> WebSocketFrame \<Rightarrow> nat \<Rightarrow> 'z WebSocketChannel \<Rightarrow> ('z WebSocketChannel \<times> bool) outcome" where
  "dispatchFrame env frame frameEnd c =
     (case refusal frame (m_hasContinuousFrame c) of
        Some reason \<Rightarrow> failing env reason c
      | None \<Rightarrow>
          if opCode frame = OpCodeContinuation then
            if \<not> m_hasContinuousFrame c then failing env (ascii ''Received unexpected continuation frame.'') c
            else continuing (receivedContinuation env frame frameEnd c)
          else if opCode frame = OpCodeText then continuing (receivedText env frame frameEnd c)
          else if opCode frame = OpCodeBinary then continuing (receivedBinary frame frameEnd c)
          else if opCode frame = OpCodeClose then receivedClose env frame frameEnd c
          else if opCode frame = OpCodePing then continuing (receivedPing env frame frameEnd c)
          else continuing (skipBuffer frameEnd c))"

text \<open>The result of \<open>inflate\<close> lives until \<open>processFrame\<close> ends, and then resets the inflater.\<close>

definition processFrame :: "'z Environment \<Rightarrow> 'z WebSocketChannel \<Rightarrow> ('z WebSocketChannel \<times> bool) outcome" where
  "processFrame env c =
     (let r = parseFrame (largestSize env) (m_buffer c) (newFrame OpCodeInvalid False False False [] 0);
          c = c\<lparr>m_buffer := parsedData r\<rparr>
      in case parseResult r of
           FrameIncomplete \<Rightarrow> Done (c, False)
         | FrameError \<Rightarrow> failing env (case parsedError r of Some e \<Rightarrow> ascii e | None \<Rightarrow> []) c
         | FrameOK \<Rightarrow>
             let (c, inflated) = inflateFrame env (parsedFrame r) c;
                 frameEnd = (case parsedEnd r of Some e \<Rightarrow> e | None \<Rightarrow> 0)
             in obind (case inflated of
                         Inl reason \<Rightarrow> failing env reason c
                       | Inr frame \<Rightarrow> dispatchFrame env frame frameEnd c)
                  (\<lambda>(c, goOn). Done (resetInflateContext env c, goOn)))"

text \<open>The framer's contexts, as the handshake finds and leaves them.\<close>

definition framerOf :: "'z WebSocketChannel \<Rightarrow> 'z framer" where
  "framerOf c = (if m_deflateEnabled c then Some (m_deflater c, m_inflater c) else None)"

definition setFramer :: "'z framer \<Rightarrow> 'z WebSocketChannel \<Rightarrow> 'z WebSocketChannel" where
  "setFramer framer c =
     (case framer of
        None \<Rightarrow> c\<lparr>m_deflateEnabled := False\<rparr>
      | Some (deflater, inflater) \<Rightarrow> c\<lparr>m_deflateEnabled := True, m_deflater := deflater, m_inflater := inflater\<rparr>)"

definition processBuffer :: "'z Environment \<Rightarrow> 'z WebSocketChannel \<Rightarrow> ('z WebSocketChannel \<times> bool) outcome" where
  "processBuffer env c =
     (if m_shouldDiscardReceivedData c then Done (c, False)
      else if m_receivedClosingHandshake c then
        obind (skipBuffer (length (m_buffer c)) c) (\<lambda>c. Done (c, False))
      else if hs_mode (m_handshake c) = HandshakeIncomplete then
        let (headerLength, hs, framer) = readServerHandshake env (m_buffer c) (m_handshake c) (framerOf c);
            c = setFramer framer (c\<lparr>m_handshake := hs\<rparr>)
        in if headerLength \<le> 0 then Done (c, False)
           else if hs_mode hs = HandshakeConnected then
             continuing (obind (skipBuffer (nat headerLength) c) (callClient DidConnect))
           else
             obind (skipBuffer (nat headerLength) c) (\<lambda>c.
               failing env (hs_failureReason hs) (c\<lparr>m_shouldDiscardReceivedData := True\<rparr>))
      else if hs_mode (m_handshake c) \<noteq> HandshakeConnected then Done (c, False)
      else processFrame env c)"

section \<open>What receiving leaves of the buffer\<close>

lemma settles_closeHandle: "closeHandle env c = Done c' \<Longrightarrow> settles c c'"
  by (auto simp: closeHandle_def Let_def intro: settles_handle(2) settles_trans [OF settles_handle(2) settles_fail(2)]
      split: option.splits if_splits)

lemma settles_outgoingLoop: "outgoingLoop env c = Done c' \<Longrightarrow> settles c c'"
proof (induction env c arbitrary: c' rule: outgoingLoop.induct)
  case (1 env c)
  note loop = outgoingLoop.simps [of env c]
  have status: "settles c (c\<lparr>m_outgoingFrameQueueStatus := st\<rparr>)" "settles c (c\<lparr>m_blobLoaderStatus := b\<rparr>)" for st b
    by (simp_all add: settles_defs)
  show ?case
  proof (cases "m_outgoingFrameQueue c")
    case Nil
    then show ?thesis using 1(4) by (auto simp: loop intro: settles_trans [OF status(1) settles_closeHandle] split: if_splits)
  next
    case (Cons f frames)
    have pop: "settles c (c\<lparr>m_outgoingFrameQueue := frames\<rparr>)" "settles c (c\<lparr>m_outgoingFrameQueue := frames, m_blobLoaderStatus := b\<rparr>)" for b
      using Cons by (simp_all add: settles_defs)
    show ?thesis
    proof (cases f)
      case (QueuedFrameString code bytes)
      then show ?thesis using 1 Cons
        by (auto simp: loop obind_Done_iff intro: settles_trans [OF pop(1) settles_trans [OF settles_sendOrFail]])
    next
      case (QueuedFrameVector code bytes)
      then show ?thesis using 1 Cons
        by (auto simp: loop obind_Done_iff intro: settles_trans [OF pop(1) settles_trans [OF settles_sendOrFail]])
    next
      case (QueuedFrameBlob code)
      then show ?thesis using 1 Cons status
        by (auto simp: loop obind_Done_iff intro: settles_trans [OF pop(2) settles_trans [OF settles_sendOrFail]]
            split: BlobLoaderStatus.splits)
    qed
  qed
qed

lemma quiet_process: "processOutgoingFrameQueue env c = Done c' \<Longrightarrow> quiet c c'"
  by (auto simp: processOutgoingFrameQueue_def settles_def dest: settles_outgoingLoop split: if_splits)

lemma quiet_enqueue: "quiet c (enqueueRawFrame code bytes c)"
  by (simp add: quiet_def enqueueRawFrame_def)

lemma quiet_startClosing: 
  assumes "startClosingHandshake env code reason c = Done c'"
  shows "quiet c c'"
proof (cases "m_closing c")
  case False
  then obtain buf x where x: "processOutgoingFrameQueue env (enqueueRawFrame OpCodeClose buf c) = Done x"
    and rest: "(if m_client (x\<lparr>m_closing := True\<rparr>) then callClient DidStartClosingHandshake (x\<lparr>m_closing := True\<rparr>)
      else Done (x\<lparr>m_closing := True\<rparr>)) = Done c'"
    using assms by (auto simp: startClosingHandshake_def obind_Done_iff Let_def)
  have "quiet x c'" using rest by (auto simp: callClient_def quiet_def split: if_splits)
  then show ?thesis using quiet_trans [OF quiet_enqueue quiet_trans [OF quiet_process [OF x]]] by blast
qed (use assms in \<open>simp add: startClosingHandshake_def\<close>)

lemma skipBuffer_Done: "skipBuffer e c = Done c' \<longleftrightarrow> e \<le> length (m_buffer c) \<and> c' = c\<lparr>m_buffer := drop e (m_buffer c)\<rparr>"
  by (auto simp: skipBuffer_def)

lemma continuing_Done: "continuing r = Done (c, b) \<longleftrightarrow> r = Done c \<and> b = (m_buffer c \<noteq> [])"
  by (auto simp: continuing_def obind_Done_iff)

lemma failing_Done: "failing env reason c = Done (c', b) \<longleftrightarrow> fail env reason c = Done c' \<and> \<not> b"
  by (auto simp: failing_def obind_Done_iff)

text \<open>When the loop is to go on, the buffer is what follows the frame.\<close>

definition dropped :: "nat \<Rightarrow> 'z WebSocketChannel \<Rightarrow> 'z WebSocketChannel \<Rightarrow> bool" where
  "dropped e c c' \<longleftrightarrow> m_buffer c' = drop e (m_buffer c) \<or> m_buffer c' = []"

lemma dropped_quiet: "skipBuffer e c = Done x \<Longrightarrow> quiet x c' \<Longrightarrow> dropped e c c'"
  by (auto simp: skipBuffer_Done dropped_def quiet_def)

lemma quiet_deliverText: "deliverText env message c = Done c' \<Longrightarrow> quiet c c'"
  using settles_fail(1) by (auto simp: deliverText_def settles_def dest: settles_callClient split: option.splits)

lemma quiet_callClient: "callClient call c = Done c' \<Longrightarrow> quiet c c'"
  using settles_callClient by (auto simp: settles_def)

lemma quiet_finish: "finishContinuousFrame env c = Done c' \<Longrightarrow> quiet c c'"
proof -
  let ?c = "c\<lparr>m_continuousFrameData := [], m_hasContinuousFrame := False\<rparr>"
  assume "finishContinuousFrame env c = Done c'"
  then have "quiet ?c c'"
    by (auto simp: finishContinuousFrame_def Let_def dest: quiet_deliverText quiet_callClient split: if_splits)
  then show ?thesis using quiet_trans [of c ?c c'] by (simp add: quiet_def)
qed

lemma dropped_received:
  "receivedContinuation env frame e c = Done c' \<Longrightarrow> dropped e c c'"
  "receivedText env frame e c = Done c' \<Longrightarrow> dropped e c c'"
  "receivedBinary frame e c = Done c' \<Longrightarrow> dropped e c c'"
  "receivedPing env frame e c = Done c' \<Longrightarrow> dropped e c c'"
  by (auto simp: receivedContinuation_def receivedText_def receivedBinary_def receivedPing_def startContinuousFrame_def
      enqueueRawFrame_def obind_Done_iff skipBuffer_Done dropped_def quiet_def
      dest!: quiet_finish quiet_deliverText quiet_callClient quiet_process split: if_splits)

lemma dropped_receivedClose:
  assumes "receivedClose env frame e c = Done (c', True)"
  shows "dropped e c c'"
proof -
  obtain code x y z where x: "skipBuffer e x = Done y" "m_buffer x = m_buffer c"
    and "startClosingHandshake env (uint (m_closeEventCode y)) (m_closeEventReason y) (y\<lparr>m_receivedClosingHandshake := True\<rparr>) = Done z"
    and "(if m_closing z then processOutgoingFrameQueue env (z\<lparr>m_outgoingFrameQueueStatus := OutgoingFrameQueueClosing\<rparr>)
      else Done z) = Done c'"
    using assms by (auto simp: receivedClose_def obind_Done_iff Let_def split: sum.splits)
  then show ?thesis
    by (auto simp: skipBuffer_Done dropped_def quiet_def dest!: quiet_startClosing quiet_process split: if_splits)
qed

lemma receivedClose_more: "receivedClose env frame e c = Done (c', True) \<Longrightarrow> m_buffer c' \<noteq> []"
  by (auto simp: receivedClose_def obind_Done_iff Let_def split: sum.splits)

lemma dispatchFrame_buffer:
  assumes "dispatchFrame env frame e c = Done (c', True)"
  shows "m_buffer c' = drop e (m_buffer c) \<and> m_buffer c' \<noteq> []"
proof -
  have "dropped e c c'" "m_buffer c' \<noteq> []"
    using assms
    by (auto simp: dispatchFrame_def continuing_Done failing_Done skipBuffer_Done dropped_def [of e c "c\<lparr>m_buffer := drop e (m_buffer c)\<rparr>"]
        dest: dropped_received dropped_receivedClose receivedClose_more split: option.splits if_splits)
  then show ?thesis by (auto simp: dropped_def)
qed

lemma inflateFrame_buffer: "inflateFrame env frame c = (c', r) \<Longrightarrow> m_buffer c' = m_buffer c"
  by (auto simp: inflateFrame_def split: if_splits prod.splits option.splits)

lemma processFrame_buffer:
  assumes "processFrame env c = Done (c', True)"
  shows "length (m_buffer c') < length (m_buffer c)"
proof -
  let ?r = "parseFrame (largestSize env) (m_buffer c) (newFrame OpCodeInvalid False False False [] 0)"
  have ok: "parseResult ?r = FrameOK"
    using assms by (auto simp: processFrame_def Let_def failing_Done split: ParseFrameResult.splits)
  obtain e where e: "parsedEnd ?r = Some e" "2 \<le> e" "e \<le> length (m_buffer c)" "drop e (parsedData ?r) = drop e (m_buffer c)"
    using parseFrame_OK [OF ok] by metis
  obtain c1 inflated where i: "inflateFrame env (parsedFrame ?r) (c\<lparr>m_buffer := parsedData ?r\<rparr>) = (c1, inflated)"
    by (cases "inflateFrame env (parsedFrame ?r) (c\<lparr>m_buffer := parsedData ?r\<rparr>)")
  obtain frame c2 where d: "dispatchFrame env frame e c1 = Done (c2, True)" and c': "c' = resetInflateContext env c2"
    using assms ok e(1) i by (auto simp: processFrame_def Let_def failing_Done obind_Done_iff split: sum.splits)
  have "m_buffer c' = drop e (m_buffer c)"
    using dispatchFrame_buffer [OF d] inflateFrame_buffer [OF i] e(4) by (simp add: c' resetInflateContext_def)
  then show ?thesis using e(2,3) by simp
qed

lemma processBuffer_buffer:
  assumes "processBuffer env c = Done (c', True)"
  shows "length (m_buffer c') < length (m_buffer c)"
proof (cases "hs_mode (m_handshake c) = HandshakeIncomplete")
  case True
  obtain n hs framer where h: "readServerHandshake env (m_buffer c) (m_handshake c) (framerOf c) = (n, hs, framer)" by (rule prod_cases3)
  have "m_buffer (setFramer framer c) = m_buffer c" for c :: "'a WebSocketChannel"
    by (simp add: setFramer_def split: option.splits prod.splits)
  then show ?thesis
    using assms True
    by (auto simp: processBuffer_def h continuing_Done failing_Done obind_Done_iff skipBuffer_Done callClient_Done Let_def
        split: if_splits)
next
  case False
  then show ?thesis
    using assms processFrame_buffer by (auto simp: processBuffer_def obind_Done_iff split: if_splits)
qed

section \<open>Receiving data\<close>

text \<open>The loop of \<open>didReceiveSocketStreamData\<close> and \<open>resumeTimerFired\<close>.\<close>

function receiveLoop :: "'z Environment \<Rightarrow> 'z WebSocketChannel \<Rightarrow> 'z WebSocketChannel outcome" where
  "receiveLoop env c =
     (if \<not> m_suspended c \<and> m_client c \<and> m_buffer c \<noteq> [] then
        obind (processBuffer env c) (\<lambda>(c, goOn). if goOn then receiveLoop env c else Done c)
      else Done c)"
  by pat_completeness auto

termination
  by (relation "measure (\<lambda>(env, c). length (m_buffer c))") (auto dest!: processBuffer_buffer)

declare receiveLoop.simps [simp del]

definition didReceiveSocketStreamData :: "'z Environment \<Rightarrow> byte list \<Rightarrow> 'z WebSocketChannel \<Rightarrow> 'z WebSocketChannel outcome" where
  "didReceiveSocketStreamData env data c =
     (if \<not> m_document c then Done c
      else if data = [] then disconnectHandle env c
      else if \<not> m_client c then disconnectHandle env (c\<lparr>m_shouldDiscardReceivedData := True\<rparr>)
      else if m_shouldDiscardReceivedData c then Done c
      else
        case appendToBuffer env data c of
          None \<Rightarrow> fail env (ascii ''Ran out of memory while receiving WebSocket data.'') (c\<lparr>m_shouldDiscardReceivedData := True\<rparr>)
        | Some c \<Rightarrow> receiveLoop env c)"

definition resumeTimerFired :: "'z Environment \<Rightarrow> 'z WebSocketChannel \<Rightarrow> 'z WebSocketChannel outcome" where
  "resumeTimerFired env c =
     obind (receiveLoop env (c\<lparr>m_resumeTimer := False\<rparr>)) (\<lambda>c.
       if \<not> m_suspended c \<and> m_client c \<and> m_closed c \<and> m_handle c \<noteq> None then didCloseSocketStream env c else Done c)"

definition didFailSocketStream :: "'z Environment \<Rightarrow> uchar list \<Rightarrow> 'z WebSocketChannel \<Rightarrow> 'z WebSocketChannel outcome" where
  "didFailSocketStream env message c =
     (let c = (if m_document c then c\<lparr>m_consoleMessages := m_consoleMessages c @ [message]\<rparr> else c)
      in disconnectHandle env (c\<lparr>m_shouldDiscardReceivedData := True\<rparr>))"

definition didOpenSocketStream :: "'z Environment \<Rightarrow> byte list \<Rightarrow> 'z WebSocketChannel \<Rightarrow> 'z WebSocketChannel outcome" where
  "didOpenSocketStream env handshakeMessage c =
     (if \<not> m_document c then Done c
      else
        obind (handleSend env handshakeMessage c) (\<lambda>(c, sent).
          if sent then Done c else fail env (ascii ''Failed to send WebSocket handshake.'') c))"

end
