(* ===== verification/WebSocket_Segments.thy ===== *)
theory WebSocket_Segments
  imports WebSocket_Channel
begin

text \<open>
  How the network cuts its data does not matter: the channel does the same with more bytes at the end
  of its buffer, up to those bytes. \<open>ext d c\<close> is the channel \<open>c\<close> with \<open>d\<close> at the end of the buffer; a
  channel that fails discards the buffer, so that from then on both are the same. \<open>parallel\<close> states
  this of an operation, and it is kept by composition.
\<close>

section \<open>Two buffers side by side\<close>

definition ext :: "byte list \<Rightarrow> 'z WebSocketChannel \<Rightarrow> 'z WebSocketChannel" where
  "ext d c = c\<lparr>m_buffer := m_buffer c @ d\<rparr>"

definition halted :: "'z WebSocketChannel \<Rightarrow> bool" where
  "halted c \<longleftrightarrow> m_shouldDiscardReceivedData c \<and> m_buffer c = []"

definition related :: "byte list \<Rightarrow> 'z WebSocketChannel \<Rightarrow> 'z WebSocketChannel \<Rightarrow> bool" where
  "related d x y \<longleftrightarrow> (\<not> m_shouldDiscardReceivedData x \<and> y = ext d x) \<or> (halted x \<and> y = x)"

definition alike :: "byte list \<Rightarrow> 'z WebSocketChannel outcome \<Rightarrow> 'z WebSocketChannel outcome \<Rightarrow> bool" where
  "alike d m n \<longleftrightarrow> (m = Undef \<and> n = Undef) \<or> (m = Null \<and> n = Null) \<or> (\<exists>x y. m = Done x \<and> n = Done y \<and> related d x y)"

definition parallel :: "byte list \<Rightarrow> ('z WebSocketChannel \<Rightarrow> 'z WebSocketChannel outcome) \<Rightarrow> bool" where
  "parallel d f \<longleftrightarrow>
     (\<forall>c. \<not> m_shouldDiscardReceivedData c \<longrightarrow> alike d (f c) (f (ext d c))) \<and> (\<forall>c. halted c \<longrightarrow> alike d (f c) (f c))"

lemma alike_same: "alike d m m \<longleftrightarrow> (\<forall>x. m = Done x \<longrightarrow> related d x x)"
  by (cases m) (auto simp: alike_def)

lemma related_halted: "halted x \<Longrightarrow> related d x x"
  by (simp add: related_def)

lemma parallelI:
  assumes "\<And>c. \<not> m_shouldDiscardReceivedData c \<Longrightarrow> alike d (f c) (f (ext d c))"
    and "\<And>c x. halted c \<Longrightarrow> f c = Done x \<Longrightarrow> halted x"
  shows "parallel d f"
  using assms by (auto simp: parallel_def alike_same intro: related_halted)

lemma alike_bind:
  assumes "alike d m n" and "parallel d f"
  shows "alike d (obind m f) (obind n f)"
  using assms unfolding alike_def parallel_def related_def by auto

lemma parallel_bind:
  assumes "parallel d f" and "parallel d g"
  shows "parallel d (\<lambda>c. obind (f c) g)"
  using assms(1) alike_bind [OF _ assms(2)] unfolding parallel_def by blast

lemma parallel_Done: "(\<And>c. g (ext d c) = ext d (g c)) \<Longrightarrow> (\<And>c. m_shouldDiscardReceivedData (g c) = m_shouldDiscardReceivedData c) \<Longrightarrow>
    (\<And>c. m_buffer (g c) = m_buffer c) \<Longrightarrow> parallel d (\<lambda>c. Done (g c))"
proof (rule parallelI)
  assume g: "\<And>c. g (ext d c) = ext d (g c)" "\<And>c. m_shouldDiscardReceivedData (g c) = m_shouldDiscardReceivedData c"
    "\<And>c. m_buffer (g c) = m_buffer c"
  show "alike d (Done (g c)) (Done (g (ext d c)))" if "\<not> m_shouldDiscardReceivedData c" for c
    unfolding g(1) using that g(2) [of c] by (simp add: alike_def related_def)
  show "halted x" if "halted c" "Done (g c) = Done x" for c x
    using that g(2) [of c] g(3) [of c] by (auto simp: halted_def)
qed

lemma parallel_if:
  assumes "\<And>c. P (ext d c) = P c" and "parallel d f" and "parallel d g"
  shows "parallel d (\<lambda>c. if P c then f c else g c)"
  using assms unfolding parallel_def by auto

lemma parallel_update:
  assumes "parallel d f" and "\<And>c. u (ext d c) = ext d (u c)"
    and "\<And>c. m_shouldDiscardReceivedData (u c) = m_shouldDiscardReceivedData c" and "\<And>c. m_buffer (u c) = m_buffer c"
  shows "parallel d (\<lambda>c. f (u c))"
  using assms unfolding parallel_def halted_def by auto

section \<open>Failure and disconnection\<close>

lemma empty_buffer: "(if m_buffer c \<noteq> [] then c\<lparr>m_buffer := []\<rparr> else c) = c\<lparr>m_buffer := []\<rparr>"
  by (cases c) simp

lemma failed_ext: "failedChannel env reason (ext d c) = failedChannel env reason c"
  unfolding failedChannel_def Let_def empty_buffer by (simp add: ext_def)

lemma failed_halted: "halted (failedChannel env reason c)"
  by (simp add: halted_def failedChannel_def Let_def didFail_framer_def resetInflateContext_def resetDeflateContext_def)

lemma quiet_halted: "halted c \<Longrightarrow> quiet c c' \<Longrightarrow> halted c'"
  by (auto simp: halted_def quiet_def)

lemma fail_ext: "fail env reason (ext d c) = fail env reason c"
  by (simp add: fail.simps [of env reason] failed_ext)

lemma fail_halted: 
  assumes "fail env reason c = Done x"
  shows "halted x"
proof -
  obtain y where y: "callClient DidReceiveMessageError (failedChannel env reason c) = Done y"
    and "(if m_handle y \<noteq> None \<and> \<not> m_closed y then disconnectHandle env y else Done y) = Done x"
    using assms by (auto simp: fail.simps [of env reason] obind_Done_iff)
  then have "quiet y x" using settles_fail(2) by (auto simp: settles_def split: if_splits)
  moreover have "halted y" using quiet_halted [OF failed_halted quiet_callClient [OF y]] .
  ultimately show ?thesis by (rule quiet_halted [rotated])
qed

lemma parallel_fail: "parallel d (fail env reason)"
  by (rule parallelI) (auto simp: fail_ext alike_same intro: related_halted fail_halted)

lemma parallel_didFail: "parallel d (didFail env e)"
proof (rule parallelI)
  show "alike d (didFail env e c) (didFail env e (ext d c))" for c
  proof -
    have "(ext d c)\<lparr>m_blobLoaderStatus := b\<rparr> = ext d (c\<lparr>m_blobLoaderStatus := b\<rparr>)" for b by (simp add: ext_def)
    then show ?thesis
      by (auto simp: didFail.simps [of env e] fail_ext alike_same intro: related_halted fail_halted)
  qed
qed (auto simp: didFail.simps [of env e] intro: fail_halted)

lemma parallel_abort: "parallel d (abortOutgoingFrameQueue env)"
proof -
  have "parallel d (\<lambda>c. if m_blobLoaderStatus c = BlobLoaderStarted then didFail env ABORT_ERR c else Done c)"
    by (intro parallel_if parallel_didFail parallel_Done) (simp_all add: ext_def)
  from parallel_update [OF this, of "\<lambda>c. c\<lparr>m_outgoingFrameQueue := [], m_outgoingFrameQueueStatus := OutgoingFrameQueueClosed\<rparr>"]
  show ?thesis by (simp add: ext_def abortOutgoingFrameQueue.simps [abs_def] Let_def)
qed

lemma parallel_didCloseRest: "parallel d didCloseRest"
proof (rule parallelI)
  show "alike d (didCloseRest c) (didCloseRest (ext d c))" if "\<not> m_shouldDiscardReceivedData c" for c
    using that by (cases "m_handle c"; cases "m_suspended c"; cases "m_client c")
      (simp_all add: didCloseRest_def ext_def Let_def alike_def related_def)
  show "halted x" if "halted c" "didCloseRest c = Done x" for c x
    using that settles_didCloseRest by (auto simp: settles_def intro: quiet_halted)
qed

lemma parallel_didClose: "parallel d (didCloseSocketStream env)"
proof -
  have "parallel d (\<lambda>c. obind (if m_outgoingFrameQueueStatus c \<noteq> OutgoingFrameQueueClosed then abortOutgoingFrameQueue env c else Done c) didCloseRest)"
    by (intro parallel_bind parallel_didCloseRest parallel_if parallel_abort parallel_Done) (simp_all add: ext_def)
  from parallel_update [OF this, of "\<lambda>c. c\<lparr>m_closed := True, m_closingTimer := False\<rparr>"]
  show ?thesis by (simp add: ext_def didCloseSocketStream.simps [abs_def] Let_def)
qed


lemma ext_fields [simp]:
  "m_client (ext d c) = m_client c" "m_document (ext d c) = m_document c" "m_handle (ext d c) = m_handle c"
  "m_closed (ext d c) = m_closed c" "m_closing (ext d c) = m_closing c" "m_suspended (ext d c) = m_suspended c"
  "m_outgoingFrameQueue (ext d c) = m_outgoingFrameQueue c" "m_handshake (ext d c) = m_handshake c"
  "m_outgoingFrameQueueStatus (ext d c) = m_outgoingFrameQueueStatus c" "m_blobResult (ext d c) = m_blobResult c"
  "m_blobLoaderStatus (ext d c) = m_blobLoaderStatus c" "m_hasContinuousFrame (ext d c) = m_hasContinuousFrame c"
  "m_receivedClosingHandshake (ext d c) = m_receivedClosingHandshake c"
  "m_shouldDiscardReceivedData (ext d c) = m_shouldDiscardReceivedData c"
  "m_buffer (ext d c) = m_buffer c @ d"
  by (simp_all add: ext_def)

lemma alike_disconnect:
  fixes c :: "'z WebSocketChannel"
  assumes "\<not> m_shouldDiscardReceivedData c"
  shows "alike d (disconnectHandle env c) (disconnectHandle env (ext d c))"
proof (cases "m_handle c")
  case (Some h)
  have state: "parallel d (\<lambda>c :: 'z WebSocketChannel. Done (setHandleState Closed c))"
    by (rule parallel_Done) (simp_all add: setHandleState_def ext_def)
  have closing: "parallel d (\<lambda>c. obind (didCloseSocketStream env c) (\<lambda>c. Done (setHandleState Closed c)))"
    by (rule parallel_bind [OF parallel_didClose state])
  have "(ext d c)\<lparr>m_handle := x\<rparr> = ext d (c\<lparr>m_handle := x\<rparr>)" for x by (simp add: ext_def)
  then show ?thesis
    using Some assms closing state by (simp add: disconnectHandle.simps [of env] parallel_def)
qed (simp add: disconnectHandle.simps [of env] alike_def)

lemma parallel_quiet:
  assumes "\<And>c. \<not> m_shouldDiscardReceivedData c \<Longrightarrow> alike d (f c) (f (ext d c))" and "\<And>c x. f c = Done x \<Longrightarrow> quiet c x"
  shows "parallel d f"
  using assms quiet_halted by (intro parallelI) blast+

lemma parallel_disconnect: "parallel d (disconnectHandle env)"
proof (rule parallel_quiet)
  show "quiet c x" if "disconnectHandle env c = Done x" for c x
    using settles_fail(2) [OF that] by (simp add: settles_def)
qed (rule alike_disconnect)

lemma parallel_callClient: "parallel d (callClient call)"
proof (rule parallel_quiet)
  show "alike d (callClient call c) (callClient call (ext d c))" if "\<not> m_shouldDiscardReceivedData c" for c
    using that by (simp add: callClient_def alike_def related_def ext_def)
qed (rule quiet_callClient)

section \<open>Sending\<close>

lemma handleSend_ext:
  "handleSend env data (ext d c) = obind (handleSend env data c) (\<lambda>(c, sent). Done (ext d c, sent))"
proof (cases "m_handle c")
  case (Some h)
  obtain h' s n where "socketSend env data h = (h', s, n)" by (rule prod_cases3)
  then show ?thesis using Some by (cases n; cases "m_client c") (simp_all add: handleSend_def Let_def ext_def)
qed (simp add: handleSend_def)

lemma handleSend_discard:
  "handleSend env data c = Done (c', sent) \<Longrightarrow> m_shouldDiscardReceivedData c' = m_shouldDiscardReceivedData c"
proof (cases "m_handle c")
  case (Some h)
  obtain h' s n where "socketSend env data h = (h', s, n)" by (rule prod_cases3)
  then show "handleSend env data c = Done (c', sent) \<Longrightarrow> ?thesis"
    using Some by (cases n; cases "m_client c") (auto simp: handleSend_def Let_def)
qed (simp add: handleSend_def)

lemma deflateFrame_ext:
  "deflateFrame env frame (ext d c) = (let (c', frame', ok) = deflateFrame env frame c in (ext d c', frame', ok))"
  by (simp add: deflateFrame_def ext_def split: prod.split option.split)

lemma deflateFrame_discard:
  "deflateFrame env frame c = (c', frame', ok) \<Longrightarrow> m_shouldDiscardReceivedData c' = m_shouldDiscardReceivedData c"
  by (auto simp: deflateFrame_def split: if_splits prod.splits option.splits)

lemma parallel_reset:
  "parallel d (\<lambda>c. Done (resetDeflateContext env c))" "parallel d (\<lambda>c. Done (resetInflateContext env c))"
  by (rule parallel_Done; simp add: resetDeflateContext_def resetInflateContext_def ext_def)+

lemma parallel_sendOrFail:
  fixes env :: "'z Environment"
  shows "parallel d (sendOrFail env code data)"
proof (rule parallel_quiet)
  fix c :: "'z WebSocketChannel"
  let ?f = "newFrame code True False True data (length data)"
  assume c: "\<not> m_shouldDiscardReceivedData c"
  obtain c1 f1 ok where d: "deflateFrame env ?f c = (c1, f1, ok)" by (rule prod_cases3)
  have d': "deflateFrame env ?f (ext d c) = (ext d c1, f1, ok)" by (simp add: deflateFrame_ext d)
  have c1: "\<not> m_shouldDiscardReceivedData c1" using c deflateFrame_discard [OF d] by simp
  show "alike d (sendOrFail env code data c) (sendOrFail env code data (ext d c))"
  proof (cases ok)
    case False
    have "parallel d (\<lambda>c. obind (fail env (ascii ''Failed to compress frame'') c)
        (\<lambda>c. obind (Done (resetDeflateContext env c)) (fail env (ascii ''Failed to send WebSocket frame.''))))"
      by (rule parallel_bind [OF parallel_fail parallel_bind [OF parallel_reset(1) parallel_fail]])
    then show ?thesis using False c1 by (simp add: sendOrFail_def sendFrame_def d d' parallel_def)
  next
    case True
    let ?data = "makeFrameData (maskingKey env (m_framesSent c1)) f1" and ?c1 = "c1\<lparr>m_framesSent := m_framesSent c1 + 1\<rparr>"
    have ext1: "(ext d c1)\<lparr>m_framesSent := n\<rparr> = ext d (c1\<lparr>m_framesSent := n\<rparr>)" for n by (simp add: ext_def)
    have same: "m_framesSent (ext d c1) = m_framesSent c1" by (simp add: ext_def)
    show ?thesis
    proof (cases "handleSend env ?data ?c1")
      case (Done r)
      obtain c2 sent where r: "r = (c2, sent)" by (cases r)
      have "\<not> m_shouldDiscardReceivedData c2" using c1 handleSend_discard Done r by fastforce
      moreover have "parallel d (\<lambda>c. obind (Done (resetDeflateContext env c)) (fail env (ascii ''Failed to send WebSocket frame.'')))"
        by (rule parallel_bind [OF parallel_reset(1) parallel_fail])
      ultimately show ?thesis
        using True Done r parallel_reset(1) [of d env]
        by (simp add: sendOrFail_def sendFrame_def d d' Let_def ext1 handleSend_ext parallel_def same)
    qed (use True in \<open>simp_all add: sendOrFail_def sendFrame_def d d' Let_def ext1 handleSend_ext alike_def same\<close>)
  qed
next
  show "quiet c x" if "sendOrFail env code data c = Done x" for c x
    using settles_sendOrFail [OF that] by (simp add: settles_def)
qed


lemma alike_Done: "\<not> m_shouldDiscardReceivedData x \<Longrightarrow> y = ext d x \<Longrightarrow> alike d (Done x) (Done y)"
  by (simp add: alike_def related_def)

lemma alike_Undef: "alike d Undef Undef"
  by (simp add: alike_def)

lemma parallel_closeHandle:
  fixes env :: "'z Environment"
  shows "parallel d (closeHandle env)"
proof (rule parallel_quiet)
  fix c :: "'z WebSocketChannel"
  assume c: "\<not> m_shouldDiscardReceivedData c"
  have state: "setHandleState s (ext d c) = ext d (setHandleState s c)" for s by (simp add: setHandleState_def ext_def)
  have "\<not> m_shouldDiscardReceivedData (setHandleState Closing c)" using c by (simp add: setHandleState_def)
  then show "alike d (closeHandle env c) (closeHandle env (ext d c))"
    using c by (cases "m_handle c") (simp_all add: closeHandle_def state alike_disconnect Let_def alike_Done alike_Undef)
next
  show "quiet c x" if "closeHandle env c = Done x" for c x
    using settles_closeHandle [OF that] by (simp add: settles_def)
qed

lemma parallelD: "parallel d f \<Longrightarrow> \<not> m_shouldDiscardReceivedData c \<Longrightarrow> c' = ext d c \<Longrightarrow> alike d (f c) (f c')"
  by (simp add: parallel_def)

lemma alike_bind_same:
  assumes "alike d m n" and "\<And>x. m = Done x \<Longrightarrow> \<not> m_shouldDiscardReceivedData x \<Longrightarrow> alike d (f x) (f (ext d x))"
    and "\<And>x y. f x = Done y \<Longrightarrow> quiet x y"
  shows "alike d (obind m f) (obind n f)"
proof (cases m)
  case (Done x)
  then obtain y where y: "n = Done y" "related d x y" using assms(1) by (auto simp: alike_def)
  show ?thesis
  proof (cases "halted x")
    case True
    then have "y = x" using y(2) by (auto simp: related_def halted_def)
    then show ?thesis using Done y(1) assms(3) True by (auto simp: alike_same intro: related_halted quiet_halted)
  next
    case False
    then show ?thesis using Done y assms(2) by (auto simp: related_def)
  qed
qed (use assms(1) in \<open>auto simp: alike_def\<close>)

lemma alike_outgoingLoop:
  "\<not> m_shouldDiscardReceivedData c \<Longrightarrow> alike d (outgoingLoop env c) (outgoingLoop env (ext d c))"
proof (induction env c rule: outgoingLoop.induct)
  case (1 env c)
  note loop = outgoingLoop.simps [of env c] outgoingLoop.simps [of env "ext d c"]
  have quiet: "quiet x y" if "outgoingLoop env x = Done y" for x y
    using settles_outgoingLoop [OF that] by (simp add: settles_def)
  have pop: "(ext d c)\<lparr>m_outgoingFrameQueue := fs\<rparr> = ext d (c\<lparr>m_outgoingFrameQueue := fs\<rparr>)"
    "(ext d c)\<lparr>m_outgoingFrameQueue := fs, m_blobLoaderStatus := b\<rparr> = ext d (c\<lparr>m_outgoingFrameQueue := fs, m_blobLoaderStatus := b\<rparr>)"
    "(ext d x)\<lparr>m_blobLoaderStatus := b\<rparr> = ext d (x\<lparr>m_blobLoaderStatus := b\<rparr>)"
    "(ext d c)\<lparr>m_outgoingFrameQueueStatus := q\<rparr> = ext d (c\<lparr>m_outgoingFrameQueueStatus := q\<rparr>)" for fs b q x
    by (simp_all add: ext_def)
  have send: "alike d (sendOrFail env code bytes x) (sendOrFail env code bytes (ext d x))" if "\<not> m_shouldDiscardReceivedData x" for code bytes x
    by (rule parallelD [OF parallel_sendOrFail that refl])
  show ?case
  proof (cases "m_outgoingFrameQueue c")
    case Nil
    then show ?thesis
      using 1(4) parallelD [OF parallel_closeHandle, of "c\<lparr>m_outgoingFrameQueueStatus := OutgoingFrameQueueClosed\<rparr>" _ d env]
      by (simp add: loop pop alike_Done)
  next
    case (Cons f frames)
    show ?thesis
    proof (cases f)
      case (QueuedFrameString code bytes)
      show ?thesis using Cons QueuedFrameString 1(4)
        by (simp add: loop pop) (rule alike_bind_same [OF send]; use quiet 1(1) [OF Cons QueuedFrameString] in simp)
    next
      case (QueuedFrameVector code bytes)
      show ?thesis using Cons QueuedFrameVector 1(4)
        by (simp add: loop pop) (rule alike_bind_same [OF send]; use quiet 1(2) [OF Cons QueuedFrameVector] in simp)
    next
      case (QueuedFrameBlob code)
      show ?thesis
      proof (cases "m_blobLoaderStatus c = BlobLoaderFinished")
        case True
        then show ?thesis using Cons QueuedFrameBlob 1(4)
          by (simp add: loop pop) (rule alike_bind_same [OF send]; use quiet 1(3) [OF Cons QueuedFrameBlob True] in simp)
      next
        case False
        then show ?thesis using Cons QueuedFrameBlob 1(4)
          by (cases "m_blobLoaderStatus c") (simp_all add: loop pop alike_Done)
      qed
    qed
  qed
qed

lemma parallel_process: "parallel d (processOutgoingFrameQueue env)"
proof (rule parallel_quiet)
  show "alike d (processOutgoingFrameQueue env c) (processOutgoingFrameQueue env (ext d c))" if "\<not> m_shouldDiscardReceivedData c" for c
    using that by (simp add: processOutgoingFrameQueue_def alike_outgoingLoop alike_Done)
qed (rule quiet_process)

lemma parallel_startClosing:
  fixes env :: "'z Environment"
  shows "parallel d (startClosingHandshake env code reason)"
proof (rule parallel_quiet)
  fix c :: "'z WebSocketChannel"
  assume c: "\<not> m_shouldDiscardReceivedData c"
  let ?tell = "\<lambda>c :: 'z WebSocketChannel. let c = c\<lparr>m_closing := True\<rparr>
             in if m_client c then callClient DidStartClosingHandshake c else Done c"
  have "parallel d (\<lambda>c :: 'z WebSocketChannel. if m_client c then callClient DidStartClosingHandshake c else Done c)"
    by (intro parallel_if parallel_callClient parallel_Done) simp_all
  from parallel_update [OF this, of "\<lambda>c. c\<lparr>m_closing := True\<rparr>"]
  have tell: "parallel d ?tell" by (simp add: ext_def Let_def)
  have enqueue: "enqueueRawFrame code bytes (ext d c) = ext d (enqueueRawFrame code bytes c)" for code bytes
    by (simp add: enqueueRawFrame_def ext_def)
  have "\<not> m_shouldDiscardReceivedData (enqueueRawFrame code bytes c)" for code bytes
    using c by (simp add: enqueueRawFrame_def)
  from parallelD [OF parallel_bind [OF parallel_process tell] this refl]
  show "alike d (startClosingHandshake env code reason c) (startClosingHandshake env code reason (ext d c))"
    using c by (simp add: startClosingHandshake_def enqueue alike_Done)
qed (rule quiet_startClosing)

section \<open>Receiving a frame\<close>

lemma skipBuffer_ext:
  "e \<le> length (m_buffer c) \<Longrightarrow> skipBuffer e (ext d c) = Done (ext d (c\<lparr>m_buffer := drop e (m_buffer c)\<rparr>))"
  "e \<le> length (m_buffer c) \<Longrightarrow> skipBuffer e c = Done (c\<lparr>m_buffer := drop e (m_buffer c)\<rparr>)"
  by (simp_all add: skipBuffer_def ext_def)

lemma ext_buffer: "(ext d c)\<lparr>m_buffer := x @ d\<rparr> = ext d (c\<lparr>m_buffer := x\<rparr>)"
  by (simp add: ext_def)

lemma alike_skip:
  assumes "\<not> m_shouldDiscardReceivedData c" and "e \<le> length (m_buffer c)" and "parallel d f"
  shows "alike d (obind (skipBuffer e c) f) (obind (skipBuffer e (ext d c)) f)"
  using assms by (simp add: skipBuffer_ext ext_buffer parallelD)

lemma parallel_deliverText: "parallel d (deliverText env message)"
  by (cases message) (simp_all add: deliverText_def [abs_def] parallel_fail parallel_callClient)

lemma ext_update:
  "(ext d c)\<lparr>m_continuousFrameData := x\<rparr> = ext d (c\<lparr>m_continuousFrameData := x\<rparr>)"
  "(ext d c)\<lparr>m_hasContinuousFrame := b\<rparr> = ext d (c\<lparr>m_hasContinuousFrame := b\<rparr>)"
  "(ext d c)\<lparr>m_continuousFrameOpCode := q\<rparr> = ext d (c\<lparr>m_continuousFrameOpCode := q\<rparr>)"
  "(ext d c)\<lparr>m_closeEventCode := u\<rparr> = ext d (c\<lparr>m_closeEventCode := u\<rparr>)"
  "(ext d c)\<lparr>m_closeEventReason := v\<rparr> = ext d (c\<lparr>m_closeEventReason := v\<rparr>)"
  "(ext d c)\<lparr>m_receivedClosingHandshake := b\<rparr> = ext d (c\<lparr>m_receivedClosingHandshake := b\<rparr>)"
  "(ext d c)\<lparr>m_outgoingFrameQueueStatus := s\<rparr> = ext d (c\<lparr>m_outgoingFrameQueueStatus := s\<rparr>)"
  "m_continuousFrameData (ext d c) = m_continuousFrameData c"
  "m_continuousFrameOpCode (ext d c) = m_continuousFrameOpCode c"
  "m_closeEventCode (ext d c) = m_closeEventCode c" "m_closeEventReason (ext d c) = m_closeEventReason c"
  "enqueueRawFrame code bytes (ext d c) = ext d (enqueueRawFrame code bytes c)"
  by (simp_all add: ext_def enqueueRawFrame_def)

lemma parallel_finish: "parallel d (finishContinuousFrame env)"
proof (rule parallel_quiet)
  show "alike d (finishContinuousFrame env c) (finishContinuousFrame env (ext d c))" if "\<not> m_shouldDiscardReceivedData c" for c
    using that by (simp add: finishContinuousFrame_def Let_def ext_update alike_Done parallelD [OF parallel_deliverText]
        parallelD [OF parallel_callClient])
qed (rule quiet_finish)

lemma alike_received:
  assumes "\<not> m_shouldDiscardReceivedData c" and "e \<le> length (m_buffer c)"
  shows "alike d (receivedContinuation env frame e c) (receivedContinuation env frame e (ext d c))"
    and "alike d (receivedText env frame e c) (receivedText env frame e (ext d c))"
    and "alike d (receivedBinary frame e c) (receivedBinary frame e (ext d c))"
    and "alike d (receivedPing env frame e c) (receivedPing env frame e (ext d c))"
proof -
  have "parallel d (\<lambda>c. if final frame then finishContinuousFrame env c else Done c)"
    by (intro parallel_if parallel_finish parallel_Done) simp_all
  then show "alike d (receivedContinuation env frame e c) (receivedContinuation env frame e (ext d c))"
    using assms unfolding receivedContinuation_def by (simp add: ext_update alike_skip)
  show "alike d (receivedText env frame e c) (receivedText env frame e (ext d c))"
    using assms by (simp add: receivedText_def startContinuousFrame_def ext_update alike_skip parallel_deliverText
        parallelD [OF parallel_deliverText] skipBuffer_ext ext_buffer alike_Done)
  show "alike d (receivedBinary frame e c) (receivedBinary frame e (ext d c))"
    using assms by (simp add: receivedBinary_def startContinuousFrame_def ext_update alike_skip parallel_callClient
        parallelD [OF parallel_callClient] skipBuffer_ext ext_buffer alike_Done)
  have "m_buffer (enqueueRawFrame code bytes c) = m_buffer c"
    "m_shouldDiscardReceivedData (enqueueRawFrame code bytes c) = m_shouldDiscardReceivedData c" for code bytes
    by (simp_all add: enqueueRawFrame_def)
  then show "alike d (receivedPing env frame e c) (receivedPing env frame e (ext d c))"
    using assms by (simp add: receivedPing_def ext_update alike_skip parallel_process)
qed

lemma failing_continuing: "failing env reason c = continuing (fail env reason c)"
  using fail_halted [of env reason c] by (cases "fail env reason c") (auto simp: failing_def continuing_def halted_def)

text \<open>The answer whether to go on is always whether something is left in the buffer.\<close>

definition answerClose :: "'z Environment \<Rightarrow> 'z WebSocketChannel \<Rightarrow> 'z WebSocketChannel outcome" where
  "answerClose env c =
     obind (startClosingHandshake env (uint (m_closeEventCode c)) (m_closeEventReason c)
         (c\<lparr>m_receivedClosingHandshake := True\<rparr>)) (\<lambda>c.
       if m_closing c then processOutgoingFrameQueue env (c\<lparr>m_outgoingFrameQueueStatus := OutgoingFrameQueueClosing\<rparr>)
       else Done c)"

definition closeFrame ::
  "'z Environment \<Rightarrow> WebSocketFrame \<Rightarrow> nat \<Rightarrow> 'z WebSocketChannel \<Rightarrow> 'z WebSocketChannel outcome" where
  "closeFrame env frame frameEnd c =
     (case closeCode frame of
        Inl reason \<Rightarrow> fail env reason (c\<lparr>m_closeEventCode := CloseEventCodeAbnormalClosure\<rparr>)
      | Inr code \<Rightarrow>
          obind (skipBuffer frameEnd
              (c\<lparr>m_closeEventCode := code,
                 m_closeEventReason := (if payloadLength frame \<ge> 3 then String_fromUTF8 (drop 2 (payload frame)) else Some (String8 []))\<rparr>))
            (answerClose env))"

lemma receivedClose_continuing: "receivedClose env frame e c = continuing (closeFrame env frame e c)"
proof (cases "closeCode frame")
  case (Inl reason)
  then show ?thesis
    using failing_continuing [of env reason] by (simp add: receivedClose_def closeFrame_def failing_def)
next
  case (Inr code)
  show ?thesis
    by (simp add: receivedClose_def closeFrame_def answerClose_def Inr continuing_def Let_def if_distrib [of "\<lambda>m. obind m _"])
qed

definition handledFrame ::
  "'z Environment \<Rightarrow> WebSocketFrame \<Rightarrow> nat \<Rightarrow> 'z WebSocketChannel \<Rightarrow> 'z WebSocketChannel outcome" where
  "handledFrame env frame e c =
     (case refusal frame (m_hasContinuousFrame c) of
        Some reason \<Rightarrow> fail env reason c
      | None \<Rightarrow>
          if opCode frame = OpCodeContinuation then
            if \<not> m_hasContinuousFrame c then fail env (ascii ''Received unexpected continuation frame.'') c
            else receivedContinuation env frame e c
          else if opCode frame = OpCodeText then receivedText env frame e c
          else if opCode frame = OpCodeBinary then receivedBinary frame e c
          else if opCode frame = OpCodeClose then closeFrame env frame e c
          else if opCode frame = OpCodePing then receivedPing env frame e c
          else skipBuffer e c)"

lemma dispatchFrame_continuing: "dispatchFrame env frame e c = continuing (handledFrame env frame e c)"
  by (cases "refusal frame (m_hasContinuousFrame c)")
    (simp_all add: dispatchFrame_def handledFrame_def failing_continuing receivedClose_continuing if_distrib [of continuing]
      cong: if_cong)

lemma parallel_answerClose:
  fixes env :: "'z Environment"
  shows "parallel d (answerClose env)"
proof (rule parallelI)
  fix c :: "'z WebSocketChannel"
  let ?send = "\<lambda>c :: 'z WebSocketChannel. processOutgoingFrameQueue env (c\<lparr>m_outgoingFrameQueueStatus := OutgoingFrameQueueClosing\<rparr>)"
  have "parallel d ?send" by (rule parallel_update [OF parallel_process]) (simp_all add: ext_update)
  then have rest: "parallel d (\<lambda>c. if m_closing c then ?send c else Done c)"
    by (intro parallel_if parallel_Done) simp_all
  note both = parallel_bind [OF parallel_startClosing rest]
  show "alike d (answerClose env c) (answerClose env (ext d c))" if "\<not> m_shouldDiscardReceivedData c"
    using parallelD [OF both, of "c\<lparr>m_receivedClosingHandshake := True\<rparr>"] that by (simp add: answerClose_def ext_update)
  show "halted x" if h: "halted c" and a: "answerClose env c = Done x" for x
  proof -
    obtain y where y: "startClosingHandshake env (uint (m_closeEventCode c)) (m_closeEventReason c)
        (c\<lparr>m_receivedClosingHandshake := True\<rparr>) = Done y"
      and x: "(if m_closing y then ?send y else Done y) = Done x"
      using a by (auto simp: answerClose_def obind_Done_iff)
    have "halted (c\<lparr>m_receivedClosingHandshake := True\<rparr>)" using h by (simp add: halted_def)
    then have "halted y" using quiet_halted quiet_startClosing [OF y] by blast
    moreover from this have "halted (y\<lparr>m_outgoingFrameQueueStatus := OutgoingFrameQueueClosing\<rparr>)" by (simp add: halted_def)
    ultimately show ?thesis
      using x quiet_halted [OF _ quiet_process] by (cases "m_closing y") simp_all
  qed
qed

lemma alike_handledFrame:
  assumes "\<not> m_shouldDiscardReceivedData c" and "e \<le> length (m_buffer c)"
  shows "alike d (handledFrame env frame e c) (handledFrame env frame e (ext d c))"
proof -
  have close: "alike d (closeFrame env frame e c) (closeFrame env frame e (ext d c))"
    using assms
    by (cases "closeCode frame") (simp_all add: closeFrame_def ext_update alike_skip parallel_answerClose parallelD [OF parallel_fail])
  show ?thesis
    using assms close
    by (auto simp: handledFrame_def alike_received parallelD [OF parallel_fail] skipBuffer_ext ext_buffer alike_Done split: option.split)
qed


section \<open>A round of the loop\<close>

lemma inflateFrame_ext:
  "inflateFrame env frame (ext d c) = (let (c', r) = inflateFrame env frame c in (ext d c', r))"
  by (simp add: inflateFrame_def ext_def split: prod.split option.split)

lemma inflateFrame_discard:
  "inflateFrame env frame c = (c', r) \<Longrightarrow>
     m_shouldDiscardReceivedData c' = m_shouldDiscardReceivedData c \<and> m_buffer c' = m_buffer c"
  by (auto simp: inflateFrame_def split: if_splits prod.splits option.splits)

lemma reset_fields:
  "m_buffer (resetInflateContext env c) = m_buffer c" "m_handshake (resetInflateContext env c) = m_handshake c"
  "m_suspended (resetInflateContext env c) = m_suspended c" "m_client (resetInflateContext env c) = m_client c"
  "m_document (resetInflateContext env c) = m_document c"
  by (simp_all add: resetInflateContext_def)

definition parseOf :: "'z Environment \<Rightarrow> byte list \<Rightarrow> ParseFrameOutcome" where
  "parseOf env data = parseFrame (largestSize env) data (newFrame OpCodeInvalid False False False [] 0)"

lemma processFrame_parallel:
  fixes env :: "'z Environment"
  assumes c: "\<not> m_shouldDiscardReceivedData c" and complete: "parseResult (parseOf env (m_buffer c)) \<noteq> FrameIncomplete"
  obtains m n where "processFrame env c = continuing m" "processFrame env (ext d c) = continuing n" "alike d m n"
proof -
  let ?r = "parseOf env (m_buffer c)"
  let ?c = "c\<lparr>m_buffer := parsedData ?r\<rparr>"
  have more: "parseOf env (m_buffer c @ d) = ?r\<lparr>parsedData := parsedData ?r @ d\<rparr>"
    using parseFrame_append complete unfolding parseOf_def by blast
  have c': "(ext d c)\<lparr>m_buffer := parsedData ?r @ d\<rparr> = ext d ?c" by (simp add: ext_def)
  have discard: "\<not> m_shouldDiscardReceivedData ?c" using c by simp
  show ?thesis
  proof (cases "parseResult ?r")
    case FrameOK
    then have ok: "parseResult (parseFrame (largestSize env) (m_buffer c) (newFrame OpCodeInvalid False False False [] 0)) = FrameOK"
      by (simp add: parseOf_def)
    obtain e where e: "parsedEnd ?r = Some e" "e \<le> length (m_buffer c)"
      "drop e (parsedData ?r) = drop e (m_buffer c)"
      using parseFrame_OK [OF ok] unfolding parseOf_def by metis
    obtain c1 inflated where i: "inflateFrame env (parsedFrame ?r) ?c = (c1, inflated)" by fastforce
    have i': "inflateFrame env (parsedFrame ?r) (ext d ?c) = (ext d c1, inflated)" by (simp add: inflateFrame_ext i)
    have c1: "\<not> m_shouldDiscardReceivedData c1" "m_buffer c1 = parsedData ?r"
      using inflateFrame_discard [OF i] c by simp_all
    define f where "f = (\<lambda>c. case inflated of Inl reason \<Rightarrow> fail env reason c | Inr frame \<Rightarrow> handledFrame env frame e c)"
    have e': "e \<le> length (m_buffer c1)" using e(2) c1(2) by (simp add: parseOf_def length_parsedData)
    have "alike d (f c1) (f (ext d c1))"
      using c1 e' by (cases inflated) (simp_all add: f_def parallelD [OF parallel_fail] alike_handledFrame)
    then have "alike d (obind (f c1) (\<lambda>c. Done (resetInflateContext env c))) (obind (f (ext d c1)) (\<lambda>c. Done (resetInflateContext env c)))"
      by (rule alike_bind [OF _ parallel_reset(2)])
    moreover have "processFrame env c = continuing (obind (f c1) (\<lambda>c. Done (resetInflateContext env c)))"
      using FrameOK i e(1) by (cases inflated)
        (simp_all add: processFrame_def parseOf_def [symmetric] Let_def f_def failing_continuing dispatchFrame_continuing continuing_def reset_fields)
    moreover have "processFrame env (ext d c) = continuing (obind (f (ext d c1)) (\<lambda>c. Done (resetInflateContext env c)))"
      using FrameOK i' e(1) by (cases inflated)
        (simp_all add: processFrame_def parseOf_def [symmetric] Let_def f_def failing_continuing dispatchFrame_continuing continuing_def
          reset_fields more c')
    ultimately show ?thesis using that by blast
  next
    case FrameError
    let ?e = "case parsedError ?r of Some e \<Rightarrow> ascii e | None \<Rightarrow> []"
    have "processFrame env c = continuing (fail env ?e ?c)" "processFrame env (ext d c) = continuing (fail env ?e (ext d ?c))"
      using FrameError by (simp_all add: processFrame_def parseOf_def [symmetric] Let_def failing_continuing more c')
    then show ?thesis using that parallelD [OF parallel_fail discard refl] by blast
  qed (use complete in simp)
qed


section \<open>The loop\<close>

text \<open>What a round leaves of the rest of the channel.\<close>

definition tracked :: "'z WebSocketChannel \<Rightarrow> 'z WebSocketChannel \<Rightarrow> bool" where
  "tracked c c' \<longleftrightarrow>
     m_handshake c' = m_handshake c \<and> m_suspended c' = m_suspended c \<and>
     (m_client c' = m_client c \<and> m_document c' = m_document c \<or> \<not> m_client c' \<and> \<not> m_document c')"

lemma tracked_trans: "tracked a b \<Longrightarrow> tracked b c \<Longrightarrow> tracked a c"
  by (auto simp: tracked_def)

lemma tracked_quiet: "quiet c c' \<Longrightarrow> tracked c c'"
  by (simp add: quiet_def tracked_def)

lemma tracked_fail: "fail env reason c = Done c' \<Longrightarrow> tracked c c'"
  using settles_fail(1) [of env reason c c'] by (simp add: settles_def tracked_quiet)

lemma tracked_answerClose:
  assumes "answerClose env c = Done c'"
  shows "tracked c c'"
proof -
  let ?c = "c\<lparr>m_receivedClosingHandshake := True\<rparr>"
  obtain y where y: "startClosingHandshake env (uint (m_closeEventCode c)) (m_closeEventReason c) ?c = Done y"
    and rest: "(if m_closing y then processOutgoingFrameQueue env (y\<lparr>m_outgoingFrameQueueStatus := OutgoingFrameQueueClosing\<rparr>)
      else Done y) = Done c'"
    using assms by (auto simp: answerClose_def obind_Done_iff)
  have "tracked c ?c" "tracked y (y\<lparr>m_outgoingFrameQueueStatus := OutgoingFrameQueueClosing\<rparr>)" "tracked y y"
    by (simp_all add: tracked_def)
  then have y': "tracked c y" using tracked_quiet [OF quiet_startClosing [OF y]] tracked_trans by blast
  show ?thesis
  proof (cases "m_closing y")
    case True
    then have "tracked (y\<lparr>m_outgoingFrameQueueStatus := OutgoingFrameQueueClosing\<rparr>) c'"
      using rest tracked_quiet [OF quiet_process] by auto
    then show ?thesis using y' by (auto simp: tracked_def)
  qed (use rest y' in simp)
qed

lemma tracked_handledFrame:
  assumes "handledFrame env frame e c = Done c'"
  shows "tracked c c'"
proof -
  have close: "tracked c c'" if close: "closeFrame env frame e c = Done c'"
  proof (cases "closeCode frame")
    case (Inl reason)
    then show ?thesis using close by (auto simp: closeFrame_def tracked_def dest: tracked_fail)
  next
    case (Inr code)
    let ?x = "c\<lparr>m_closeEventCode := code,
        m_closeEventReason := (if payloadLength frame \<ge> 3 then String_fromUTF8 (drop 2 (payload frame)) else Some (String8 [])),
        m_buffer := drop e (m_buffer c)\<rparr>"
    have "tracked c ?x" "answerClose env ?x = Done c'"
      using close Inr by (auto simp: closeFrame_def obind_Done_iff skipBuffer_Done tracked_def)
    then show ?thesis using tracked_answerClose tracked_trans by blast
  qed
  show ?thesis
    using assms
    by (auto simp: handledFrame_def receivedContinuation_def receivedText_def receivedBinary_def receivedPing_def
        startContinuousFrame_def enqueueRawFrame_def obind_Done_iff skipBuffer_Done
        intro: tracked_fail close
        dest!: quiet_finish [THEN tracked_quiet] quiet_deliverText [THEN tracked_quiet] quiet_callClient [THEN tracked_quiet]
          quiet_process [THEN tracked_quiet]
        split: option.splits if_splits)
      (auto simp: tracked_def)
qed


lemma tracked_inflate: "inflateFrame env frame c = (c', r) \<Longrightarrow> tracked c c'"
  by (auto simp: inflateFrame_def tracked_def split: if_splits prod.splits option.splits)

lemma tracked_processFrame:
  assumes "processFrame env c = Done (c', b)"
  shows "tracked c c'"
proof -
  let ?r = "parseOf env (m_buffer c)"
  let ?c = "c\<lparr>m_buffer := parsedData ?r\<rparr>"
  have start: "tracked c ?c" by (simp add: tracked_def)
  show ?thesis
  proof (cases "parseResult ?r")
    case FrameOK
    obtain c1 inflated where i: "inflateFrame env (parsedFrame ?r) ?c = (c1, inflated)" by fastforce
    obtain c2 where c2: "(case inflated of Inl reason \<Rightarrow> fail env reason c1
        | Inr frame \<Rightarrow> handledFrame env frame (case parsedEnd ?r of Some e \<Rightarrow> e | None \<Rightarrow> 0) c1) = Done c2"
      and c': "c' = resetInflateContext env c2"
      using assms FrameOK i
      by (auto simp: processFrame_def parseOf_def [symmetric] Let_def obind_Done_iff failing_Done dispatchFrame_continuing
          continuing_Done split: sum.splits)
    have "tracked c1 c2" using c2 by (cases inflated) (simp_all add: tracked_fail tracked_handledFrame)
    then have "tracked c c2" using tracked_trans [OF start tracked_trans [OF tracked_inflate [OF i]]] by blast
    then show ?thesis by (simp add: c' tracked_def reset_fields)
  next
    case FrameIncomplete
    then show ?thesis using assms start by (simp add: processFrame_def parseOf_def [symmetric] Let_def)
  next
    case FrameError
    then show ?thesis
      using assms tracked_trans [OF start tracked_fail]
      by (auto simp add: processFrame_def parseOf_def [symmetric] Let_def failing_Done)
  qed
qed

definition reading :: "'z WebSocketChannel \<Rightarrow> bool" where
  "reading c \<longleftrightarrow> \<not> m_suspended c \<and> m_client c \<and> m_buffer c \<noteq> []"

lemma receiveLoop_idle: "\<not> reading c \<Longrightarrow> receiveLoop env c = Done c"
  by (auto simp: receiveLoop.simps [of env c] reading_def)

lemma receiveLoop_discarding: "m_shouldDiscardReceivedData c \<Longrightarrow> receiveLoop env c = Done c"
  by (simp add: receiveLoop.simps [of env c] processBuffer_def)

lemma receiveLoop_continuing:
  assumes "reading c" and "processBuffer env c = continuing m"
  shows "receiveLoop env c = obind m (receiveLoop env)"
proof (cases m)
  case (Done x)
  then show ?thesis
    using assms receiveLoop_idle [of x env]
    by (auto simp: receiveLoop.simps [of env c] reading_def continuing_def)
qed (use assms in \<open>simp_all add: receiveLoop.simps [of env c] reading_def continuing_def\<close>)

lemma receiveLoop_ext:
  assumes "hs_mode (m_handshake c) = HandshakeConnected" and "\<not> m_shouldDiscardReceivedData c"
  shows "receiveLoop env (ext d c) =
     obind (receiveLoop env c) (\<lambda>x. if m_shouldDiscardReceivedData x then Done x else receiveLoop env (ext d x))"
  using assms
proof (induction "length (m_buffer c)" arbitrary: c rule: less_induct)
  case less
  show ?case
  proof (cases "reading c")
    case False
    then show ?thesis using less.prems by (simp add: receiveLoop_idle)
  next
    case reading: True
    then have reading': "reading (ext d c)" by (simp add: reading_def)
    show ?thesis
    proof (cases "m_receivedClosingHandshake c")
      case True
      let ?x = "c\<lparr>m_buffer := []\<rparr>"
      have empty: "receiveLoop env x = Done (x\<lparr>m_buffer := []\<rparr>)"
        if "reading x" "m_receivedClosingHandshake x" "\<not> m_shouldDiscardReceivedData x" for x
        using that by (simp add: receiveLoop.simps [of env x] reading_def processBuffer_def skipBuffer_def)
      have same: "(ext d c)\<lparr>m_buffer := []\<rparr> = ?x" "(ext d ?x)\<lparr>m_buffer := []\<rparr> = ?x" by (simp_all add: ext_def)
      have c: "receiveLoop env c = Done ?x" "receiveLoop env (ext d c) = Done ?x"
        using empty [OF reading True less.prems(2)] empty [OF reading'] True less.prems(2) same(1) by simp_all
      have "receiveLoop env (ext d ?x) = Done ?x"
      proof (cases "d = []")
        case True
        then have "ext d ?x = ?x" by (simp add: ext_def)
        moreover have "\<not> reading ?x" by (simp add: reading_def)
        ultimately show ?thesis using receiveLoop_idle by metis
      next
        case False
        then have "reading (ext d ?x)" using reading by (simp add: reading_def)
        then show ?thesis using empty [of "ext d ?x"] True less.prems(2) same(2) by simp
      qed
      then show ?thesis using c less.prems(2) by simp
    next
      case False
      then have round: "processBuffer env x = processFrame env x" if "x = c \<or> x = ext d c" for x
        using that less.prems by (auto simp: processBuffer_def)
      show ?thesis
      proof (cases "parseResult (parseOf env (m_buffer c)) = FrameIncomplete")
        case True
        then have "parsedData (parseOf env (m_buffer c)) = m_buffer c"
          by (simp add: parseOf_def parseFrame_def Let_def split: if_splits PayloadLength.splits)
        then have "processFrame env c = Done (c, False)"
          using True by (simp add: processFrame_def parseOf_def [symmetric] Let_def)
        then have "receiveLoop env c = Done c"
          using reading round by (simp add: receiveLoop.simps [of env c] reading_def)
        then show ?thesis using less.prems by simp
      next
        case False
        obtain m n where m: "processFrame env c = continuing m" and n: "processFrame env (ext d c) = continuing n" and mn: "alike d m n"
          using processFrame_parallel [OF less.prems(2) False] by blast
        have loops: "receiveLoop env c = obind m (receiveLoop env)" "receiveLoop env (ext d c) = obind n (receiveLoop env)"
          using receiveLoop_continuing [OF reading] receiveLoop_continuing [OF reading'] round m n by simp_all
        show ?thesis
        proof (cases m)
          case (Done x)
          then obtain y where y: "n = Done y" "related d x y" using mn by (auto simp: alike_def)
          show ?thesis
          proof (cases "m_shouldDiscardReceivedData x")
            case True
            then show ?thesis using y Done loops by (simp add: related_def receiveLoop_discarding)
          next
            case False
            then have y': "y = ext d x" using y(2) by (simp add: related_def halted_def)
            have "processFrame env c = Done (x, m_buffer x \<noteq> [])" using m Done by (simp add: continuing_def)
            then have "hs_mode (m_handshake x) = HandshakeConnected" and "m_buffer x \<noteq> [] \<Longrightarrow> length (m_buffer x) < length (m_buffer c)"
              using tracked_processFrame [of env c x] processFrame_buffer [of env c x] less.prems(1) by (auto simp: tracked_def)
            then show ?thesis
              using less.hyps [of x] False y(1) y' Done loops reading by (cases "m_buffer x = []") (auto simp: reading_def)
          qed
        qed (use mn loops in \<open>auto simp: alike_def\<close>)
      qed
    qed
  qed
qed


lemma processFrame_answer:
  assumes "processFrame env c = Done (x, b)" and "\<not> m_shouldDiscardReceivedData c"
  shows "parseResult (parseOf env (m_buffer c)) = FrameIncomplete \<and> x = c \<and> \<not> b \<or>
     parseResult (parseOf env (m_buffer c)) \<noteq> FrameIncomplete \<and> b = (m_buffer x \<noteq> [])"
proof (cases "parseResult (parseOf env (m_buffer c)) = FrameIncomplete")
  case True
  then have "parsedData (parseOf env (m_buffer c)) = m_buffer c"
    by (simp add: parseOf_def parseFrame_def Let_def split: if_splits PayloadLength.splits)
  then show ?thesis using assms True by (simp add: processFrame_def parseOf_def [symmetric] Let_def)
next
  case False
  obtain m where "processFrame env c = continuing m" using processFrame_parallel [OF assms(2) False] by blast
  then show ?thesis using assms(1) False continuing_Done [of m x b] by auto
qed

text \<open>When the loop ends, no complete frame is waiting.\<close>

lemma receiveLoop_end:
  assumes "receiveLoop env c = Done x" and "hs_mode (m_handshake c) = HandshakeConnected"
  shows "tracked c x \<and> length (m_buffer x) \<le> length (m_buffer c) \<and>
     (reading x \<longrightarrow> m_shouldDiscardReceivedData x \<or> parseResult (parseOf env (m_buffer x)) = FrameIncomplete)"
  using assms
proof (induction "length (m_buffer c)" arbitrary: c rule: less_induct)
  case less
  have same: "tracked c c" by (simp add: tracked_def)
  show ?case
  proof (cases "reading c \<and> \<not> m_shouldDiscardReceivedData c")
    case False
    then have "x = c" using less.prems(1) receiveLoop_idle receiveLoop_discarding by fastforce
    then show ?thesis using False same by auto
  next
    case active: True
    show ?thesis
    proof (cases "m_receivedClosingHandshake c")
      case True
      then have "x = c\<lparr>m_buffer := []\<rparr>"
        using less.prems(1) active by (simp add: receiveLoop.simps [of env c] reading_def processBuffer_def skipBuffer_def)
      then show ?thesis by (simp add: tracked_def reading_def)
    next
      case False
      then have round: "processBuffer env c = processFrame env c" using less.prems active by (simp add: processBuffer_def)
      obtain y b where y: "processFrame env c = Done (y, b)" and rest: "(if b then receiveLoop env y else Done y) = Done x"
        using less.prems(1) active round by (auto simp: receiveLoop.simps [of env c] reading_def obind_Done_iff)
      note track = tracked_processFrame [OF y]
      show ?thesis
      proof (cases b)
        case True
        then have shorter: "length (m_buffer y) < length (m_buffer c)" using y processFrame_buffer by auto
        have "hs_mode (m_handshake y) = HandshakeConnected" using track less.prems(2) by (simp add: tracked_def)
        then have "tracked y x \<and> length (m_buffer x) \<le> length (m_buffer y) \<and>
            (reading x \<longrightarrow> m_shouldDiscardReceivedData x \<or> parseResult (parseOf env (m_buffer x)) = FrameIncomplete)"
          using less.hyps [OF shorter] rest True by simp
        then show ?thesis using shorter tracked_trans [OF track] by auto
      next
        case False
        then have "x = y" using rest by simp
        then show ?thesis
          using processFrame_answer [OF y] active False track by (auto simp: reading_def)
      qed
    qed
  qed
qed

section \<open>Pieces of data\<close>

text \<open>What a channel whose client is gone still holds in its buffer is never looked at.\<close>

definition observed :: "'z WebSocketChannel \<Rightarrow> 'z WebSocketChannel" where
  "observed c = (if m_client c then c else c\<lparr>m_buffer := []\<rparr>)"

definition observe :: "'z WebSocketChannel outcome \<Rightarrow> 'z WebSocketChannel outcome" where
  "observe m = obind m (\<lambda>c. Done (observed c))"

definition connected :: "'z WebSocketChannel \<Rightarrow> bool" where
  "connected c \<longleftrightarrow> hs_mode (m_handshake c) = HandshakeConnected \<and> m_client c = m_document c"

definition room :: "'z Environment \<Rightarrow> nat \<Rightarrow> 'z WebSocketChannel \<Rightarrow> bool" where
  "room env n c \<longleftrightarrow> length (m_buffer c) + n \<le> unat (largestSize env)"

definition deliver :: "'z Environment \<Rightarrow> byte list list \<Rightarrow> 'z WebSocketChannel \<Rightarrow> 'z WebSocketChannel outcome" where
  "deliver env pieces c = foldl (\<lambda>m piece. obind m (didReceiveSocketStreamData env piece)) (Done c) pieces"

lemma deliver_snoc: "deliver env (pieces @ [piece]) c = obind (deliver env pieces c) (didReceiveSocketStreamData env piece)"
  by (simp add: deliver_def)

lemma didReceive_room:
  assumes "piece \<noteq> []" and "connected c" and "room env (length piece) c"
  shows "didReceiveSocketStreamData env piece c =
     (if \<not> m_client c \<or> m_shouldDiscardReceivedData c then Done c else receiveLoop env (ext piece c))"
  using assms by (auto simp: didReceiveSocketStreamData_def connected_def appendToBuffer_def room_def ext_def)

lemma didReceive_connected:
  assumes "piece \<noteq> []" and "connected c" and "room env (length piece) c"
    and "didReceiveSocketStreamData env piece c = Done x"
  shows "connected x \<and> (m_client x \<longrightarrow> m_client c) \<and> length (m_buffer x) \<le> length (m_buffer c) + length piece"
proof (cases "\<not> m_client c \<or> m_shouldDiscardReceivedData c")
  case False
  then have "receiveLoop env (ext piece c) = Done x" "hs_mode (m_handshake (ext piece c)) = HandshakeConnected"
    using assms didReceive_room [OF assms(1-3)] by (simp_all add: connected_def)
  from receiveLoop_end [OF this] show ?thesis using assms(2) by (auto simp: tracked_def connected_def)
qed (use assms didReceive_room [OF assms(1-3)] in auto)

lemma didReceive_append:
  assumes "xs \<noteq> []" "ys \<noteq> []" and "connected c" and "room env (length xs + length ys) c"
  shows "observe (didReceiveSocketStreamData env (xs @ ys) c) =
     observe (obind (didReceiveSocketStreamData env xs c) (didReceiveSocketStreamData env ys))"
proof (cases "\<not> m_client c \<or> m_shouldDiscardReceivedData c")
  case True
  then show ?thesis using assms by (simp add: didReceive_room room_def)
next
  case False
  have room: "room env (length (xs @ ys)) c" "room env (length xs) c" using assms(4) by (simp_all add: room_def)
  have "receiveLoop env (ext ys (ext xs c)) =
      obind (receiveLoop env (ext xs c)) (\<lambda>x. if m_shouldDiscardReceivedData x then Done x else receiveLoop env (ext ys x))"
    using assms(3) False by (intro receiveLoop_ext) (simp_all add: connected_def)
  moreover have "ext ys (ext xs c) = ext (xs @ ys) c" by (simp add: ext_def)
  ultimately have whole: "didReceiveSocketStreamData env (xs @ ys) c =
      obind (didReceiveSocketStreamData env xs c) (\<lambda>x. if m_shouldDiscardReceivedData x then Done x else receiveLoop env (ext ys x))"
    using False assms(1,3) room by (simp add: didReceive_room)
  show ?thesis
  proof (cases "didReceiveSocketStreamData env xs c")
    case (Done x)
    note x = didReceive_connected [OF assms(1,3) room(2) Done]
    then have "room env (length ys) x" using assms(4) by (auto simp: room_def)
    then have ys: "didReceiveSocketStreamData env ys x =
        (if \<not> m_client x \<or> m_shouldDiscardReceivedData x then Done x else receiveLoop env (ext ys x))"
      using didReceive_room assms(2) x by blast
    have "\<not> m_client x \<Longrightarrow> receiveLoop env (ext ys x) = Done (ext ys x) \<and> observed (ext ys x) = observed x"
      by (simp add: receiveLoop_idle reading_def observed_def) (simp add: ext_def)
    then show ?thesis using Done ys by (auto simp: whole observe_def)
  qed (simp_all add: whole)
qed


lemma observed_next:
  assumes "observed x = observed y" and "m_client x = m_document x" and "piece \<noteq> []"
  shows "observe (didReceiveSocketStreamData env piece x) = observe (didReceiveSocketStreamData env piece y)"
proof (cases "m_client x")
  case True
  then have "m_client y" using assms(1) by (auto simp: observed_def split: if_splits)
  then show ?thesis using True assms(1) by (simp add: observed_def)
next
  case False
  have fields: "m_client (observed z) = m_client z" "m_document (observed z) = m_document z" for z :: "'a WebSocketChannel"
    by (simp_all add: observed_def)
  have "\<not> m_client y \<and> \<not> m_document y" using False assms(2) fields assms(1) by metis
  then show ?thesis using False assms by (simp add: didReceiveSocketStreamData_def observe_def)
qed

lemma observe_bind:
  assumes "observe m = observe n" and "\<And>x. m = Done x \<Longrightarrow> m_client x = m_document x" and "piece \<noteq> []"
  shows "observe (obind m (didReceiveSocketStreamData env piece)) = observe (obind n (didReceiveSocketStreamData env piece))"
proof (cases m)
  case (Done x)
  then obtain y where y: "n = Done y" "observed x = observed y"
    using assms(1) by (cases n) (auto simp: observe_def)
  then show ?thesis using observed_next [OF y(2)] Done assms(2,3) by simp
qed (use assms(1) in \<open>cases n; simp add: observe_def\<close>)+

lemma deliver_concat:
  assumes "pieces \<noteq> []" "[] \<notin> set pieces" and "connected c" and "room env (length (concat pieces)) c"
  shows "observe (deliver env pieces c) = observe (didReceiveSocketStreamData env (concat pieces) c)"
  using assms
proof (induction pieces rule: rev_induct)
  case (snoc piece pieces)
  show ?case
  proof (cases "pieces = []")
    case True
    then show ?thesis by (simp add: deliver_def)
  next
    case False
    let ?m = "didReceiveSocketStreamData env (concat pieces) c"
    have nonempty: "concat pieces \<noteq> []" "piece \<noteq> []" using False snoc.prems(2) by (cases pieces; auto)+
    have room: "room env (length (concat pieces)) c" "room env (length (concat pieces) + length piece) c"
      using snoc.prems(4) by (simp_all add: room_def)
    have IH: "observe (deliver env pieces c) = observe ?m" using snoc False room by simp
    have "m_client x = m_document x" if "?m = Done x" for x
      using didReceive_connected [OF nonempty(1) snoc.prems(3) room(1) that] by (simp add: connected_def)
    then have "observe (obind ?m (didReceiveSocketStreamData env piece)) =
        observe (obind (deliver env pieces c) (didReceiveSocketStreamData env piece))"
      using observe_bind [OF IH [symmetric]] nonempty(2) by blast
    then show ?thesis
      using didReceive_append [OF nonempty snoc.prems(3) room(2)] by (simp add: deliver_snoc)
  qed
qed simp

end
