(* ===== verification/WebSocket_Messages.thy ===== *)
theory WebSocket_Messages
  imports WebSocket_Segments
begin

text \<open>
  What a server's frames mean: the reference definition of a receiver over whole frames, and that the
  channel, reading bytes, delivers the messages that the receiver puts together and answers pings.
\<close>

section \<open>The receiver\<close>

text \<open>The fragments of a message so far, with the opcode of the first.\<close>

type_synonym fragments = "(OpCode \<times> byte list) option"

text \<open>What a frame brings about: a call to the client, and an answer to a ping.\<close>

record Received =
  r_fragments :: fragments
  r_calls :: "ClientCall list"
  r_pongs :: "byte list list"

definition messageCall :: "OpCode \<Rightarrow> byte list \<Rightarrow> ClientCall option" where
  "messageCall code bytes =
     (if code = OpCodeText then map_option DidReceiveMessage (decodeText bytes) else Some (DidReceiveBinaryData bytes))"

definition endMessage :: "bool \<Rightarrow> OpCode \<Rightarrow> byte list \<Rightarrow> Received option" where
  "endMessage isLast code bytes =
     (if isLast then map_option (\<lambda>call. \<lparr>r_fragments = None, r_calls = [call], r_pongs = []\<rparr>) (messageCall code bytes)
      else Some \<lparr>r_fragments = Some (code, bytes), r_calls = [], r_pongs = []\<rparr>)"

definition receiveFrame :: "fragments \<Rightarrow> WebSocketFrame \<Rightarrow> Received option" where
  "receiveFrame fragments frame =
     (if opCode frame = OpCodePong then Some \<lparr>r_fragments = fragments, r_calls = [], r_pongs = []\<rparr>
      else if opCode frame = OpCodePing then Some \<lparr>r_fragments = fragments, r_calls = [], r_pongs = [payload frame]\<rparr>
      else if opCode frame = OpCodeContinuation then
        (case fragments of
           None \<Rightarrow> None
         | Some (code, bytes) \<Rightarrow> endMessage (final frame) code (bytes @ payload frame))
      else if opCode frame = OpCodeText \<or> opCode frame = OpCodeBinary then
        (if fragments = None then endMessage (final frame) (opCode frame) (payload frame) else None)
      else None)"

fun receiveFrames :: "fragments \<Rightarrow> WebSocketFrame list \<Rightarrow> Received option" where
  "receiveFrames fragments [] = Some \<lparr>r_fragments = fragments, r_calls = [], r_pongs = []\<rparr>"
| "receiveFrames fragments (frame # frames) =
     (case receiveFrame fragments frame of
        None \<Rightarrow> None
      | Some r \<Rightarrow>
          (case receiveFrames (r_fragments r) frames of
             None \<Rightarrow> None
           | Some r' \<Rightarrow> Some (r'\<lparr>r_calls := r_calls r @ r_calls r', r_pongs := r_pongs r @ r_pongs r'\<rparr>)))"

text \<open>A frame that a server may send, and its bytes.\<close>

definition serverFrame :: "'z Environment \<Rightarrow> WebSocketFrame \<Rightarrow> bool" where
  "serverFrame env f \<longleftrightarrow>
     fittingFrame (largestSize env) f \<and> \<not> masked f \<and> \<not> compress f \<and> \<not> reserved2 f \<and> \<not> reserved3 f \<and>
     (isControlOpCode (opCode f) \<longrightarrow> final f \<and> \<not> needsExtendedLengthField (payloadLength f))"

definition wireBytes :: "WebSocketFrame list \<Rightarrow> byte list" where
  "wireBytes frames = concat (map (makeFrameData [0, 0, 0, 0]) frames)"

definition pongFrame :: "byte list \<Rightarrow> WebSocketFrame" where
  "pongFrame bytes = newFrame OpCodePong True False True bytes (length bytes)"

fun pongBytes :: "'z Environment \<Rightarrow> nat \<Rightarrow> byte list list \<Rightarrow> byte list" where
  "pongBytes env n [] = []"
| "pongBytes env n (p # ps) = makeFrameData (maskingKey env n) (pongFrame p) @ pongBytes env (Suc n) ps"

section \<open>A session in good order\<close>

definition writable :: "'z WebSocketChannel \<Rightarrow> bool" where
  "writable c \<longleftrightarrow> (\<exists>h. m_handle c = Some h \<and> h_state h = Open \<and> h_streams h \<and> h_buffer h = [])"

definition written :: "'z WebSocketChannel \<Rightarrow> byte list" where
  "written c = (case m_handle c of Some h \<Rightarrow> h_written h | None \<Rightarrow> [])"

definition holds_fragments :: "fragments \<Rightarrow> 'z WebSocketChannel \<Rightarrow> bool" where
  "holds_fragments fragments c \<longleftrightarrow>
     (case fragments of
        None \<Rightarrow> \<not> m_hasContinuousFrame c \<and> m_continuousFrameData c = []
      | Some (code, bytes) \<Rightarrow>
          m_hasContinuousFrame c \<and> m_continuousFrameOpCode c = code \<and> m_continuousFrameData c = bytes \<and>
          (code = OpCodeText \<or> code = OpCodeBinary))"

definition session :: "fragments \<Rightarrow> 'z WebSocketChannel \<Rightarrow> bool" where
  "session fragments c \<longleftrightarrow>
     hs_mode (m_handshake c) = HandshakeConnected \<and> m_client c \<and> m_document c \<and> \<not> m_suspended c \<and> \<not> m_closing c \<and>
     \<not> m_closed c \<and> \<not> m_receivedClosingHandshake c \<and> \<not> m_shouldDiscardReceivedData c \<and>
     m_outgoingFrameQueue c = [] \<and> m_outgoingFrameQueueStatus c = OutgoingFrameQueueOpen \<and>
     writable c \<and> holds_fragments fragments c"

text \<open>The platform takes all it is given.\<close>

definition takesAll :: "'z Environment \<Rightarrow> bool" where
  "takesAll env \<longleftrightarrow> (\<forall>n bytes. platformSend env n bytes = int (length bytes))"

lemma outgoingLoop_empty:
  "m_outgoingFrameQueue c = [] \<Longrightarrow> m_outgoingFrameQueueStatus c = OutgoingFrameQueueOpen \<Longrightarrow> outgoingLoop env c = Done c"
  by (simp add: outgoingLoop.simps [of env c])

lemma send_control:
  assumes "takesAll env" and "writable c" and "isControlOpCode code" and "m_outgoingFrameQueue c = []"
    and "m_outgoingFrameQueueStatus c = OutgoingFrameQueueOpen"
  obtains h z where
    "processOutgoingFrameQueue env (enqueueRawFrame code bytes c) =
       Done (c\<lparr>m_handle := Some h, m_framesSent := m_framesSent c + 1, m_deflater := z\<rparr>)"
    "h_state h = Open" "h_streams h" "h_buffer h = []"
    "h_written h = written c @ makeFrameData (maskingKey env (m_framesSent c)) (newFrame code True False True bytes (length bytes))"
proof -
  let ?f = "newFrame code True False True bytes (length bytes)"
  let ?data = "makeFrameData (maskingKey env (m_framesSent c)) ?f"
  obtain h where h: "m_handle c = Some h" "h_state h = Open" "h_streams h" "h_buffer h = []"
    using assms(2) by (auto simp: writable_def)
  let ?h = "h\<lparr>h_sends := h_sends h + 1, h_written := h_written h @ ?data\<rparr>"
  have "\<not> isNonControlOpCode code" using assms(3) by (auto simp: isControlOpCode_def isNonControlOpCode_def opCodes)
  then have deflate: "deflateFrame env ?f x = (x, ?f, True)" for x by (simp add: deflateFrame_def newFrame_def)
  define z where "z = (if m_deflateEnabled c then resetDeflater env (m_deflater c) else m_deflater c)"
  let ?c = "c\<lparr>m_handle := Some ?h, m_framesSent := m_framesSent c + 1, m_deflater := z\<rparr>"
  let ?e = "c\<lparr>m_outgoingFrameQueue := [QueuedFrameVector code bytes]\<rparr>"
  have e: "enqueueRawFrame code bytes c = ?e" using assms(4) by (simp add: enqueueRawFrame_def)
  have "sendOrFail env code bytes (c\<lparr>m_outgoingFrameQueue := []\<rparr>) = Done (?c\<lparr>m_outgoingFrameQueue := []\<rparr>)"
    using h assms(1)
    by (simp add: sendOrFail_def sendFrame_def deflate handleSend_def socketSend_def takesAll_def Let_def resetDeflateContext_def z_def)
  moreover have "?c\<lparr>m_outgoingFrameQueue := []\<rparr> = ?c" using assms(4) by (cases c) simp
  ultimately have "outgoingLoop env ?e = outgoingLoop env ?c"
    by (simp add: outgoingLoop.simps [of env ?e])
  also have "\<dots> = Done ?c" using assms(4,5) by (simp add: outgoingLoop_empty)
  finally have "processOutgoingFrameQueue env (enqueueRawFrame code bytes c) = Done ?c"
    using assms(5) by (simp add: processOutgoingFrameQueue_def e)
  then show ?thesis using that [where h = ?h and z = z] h by (simp add: written_def)
qed


text \<open>One frame: what the channel does is what the receiver says.\<close>

definition follows :: "'z Environment \<Rightarrow> Received \<Rightarrow> byte list \<Rightarrow> 'z WebSocketChannel \<Rightarrow> 'z WebSocketChannel \<Rightarrow> bool" where
  "follows env r rest c c' \<longleftrightarrow>
     session (r_fragments r) c' \<and> m_buffer c' = rest \<and> m_calls c' = m_calls c @ r_calls r \<and>
     written c' = written c @ pongBytes env (m_framesSent c) (r_pongs r) \<and>
     m_framesSent c' = m_framesSent c + length (r_pongs r)"

lemma session_skip: "session fragments (c\<lparr>m_buffer := b\<rparr>) = session fragments c"
  by (simp add: session_def writable_def holds_fragments_def split: option.split)

lemma finish_follows:
  assumes "session (Some (code, bytes)) c" and "messageCall code bytes = Some call"
  shows "finishContinuousFrame env c =
     Done (c\<lparr>m_continuousFrameData := [], m_hasContinuousFrame := False, m_calls := m_calls c @ [call]\<rparr>)"
  using assms
  by (auto simp: session_def holds_fragments_def finishContinuousFrame_def Let_def messageCall_def deliverText_def callClient_def opCodes)

lemma no_refusal:
  assumes "serverFrame env f" and "receiveFrame fragments f = Some r" and "session fragments c"
  shows "refusal f (m_hasContinuousFrame c) = None"
proof -
  have "\<not> isReservedOpCode (opCode f)" using assms(2)
    by (auto simp: receiveFrame_def isReservedOpCode_def isNonControlOpCode_def isControlOpCode_def split: if_splits)
  moreover have "\<not> (m_hasContinuousFrame c \<and> opCode f \<noteq> OpCodeContinuation \<and> \<not> isControlOpCode (opCode f))"
    using assms(2,3)
    by (auto simp: receiveFrame_def session_def holds_fragments_def isControlOpCode_def split: if_splits option.splits)
  ultimately show ?thesis using assms(1) by (auto simp: refusal_def serverFrame_def)
qed

lemma handledFrame_follows:
  assumes env: "takesAll env" and f: "serverFrame env f" and r: "receiveFrame fragments f = Some r"
    and c: "session fragments c" and buffer: "m_buffer c = b @ rest"
  obtains c' where "handledFrame env f (length b) c = Done c'" "follows env r rest c c'"
proof -
  let ?c = "c\<lparr>m_buffer := rest\<rparr>"
  note accept = no_refusal [OF f r c]
  have skip: "skipBuffer (length b) x = Done (x\<lparr>m_buffer := rest\<rparr>)" if "m_buffer x = b @ rest" for x :: "'a WebSocketChannel"
    using that by (simp add: skipBuffer_def)
  consider "opCode f = OpCodePong" | "opCode f = OpCodePing" | "opCode f = OpCodeContinuation"
    | "opCode f = OpCodeText \<or> opCode f = OpCodeBinary"
    using r by (auto simp: receiveFrame_def split: if_splits)
  then show ?thesis
  proof cases
    case 1
    then have "handledFrame env f (length b) c = Done ?c"
      using accept skip [OF buffer] by (simp add: handledFrame_def opCodes)
    moreover have "follows env r rest c ?c"
      using 1 r c by (auto simp: follows_def receiveFrame_def session_skip written_def)
    ultimately show ?thesis by (rule that)
  next
    case 2
    have queue: "m_outgoingFrameQueue ?c = []" "m_outgoingFrameQueueStatus ?c = OutgoingFrameQueueOpen" "writable ?c"
      using c by (simp_all add: session_def writable_def)
    have control: "isControlOpCode OpCodePong" by (simp add: isControlOpCode_def)
    obtain h z where send: "processOutgoingFrameQueue env (enqueueRawFrame OpCodePong (payload f) ?c) =
        Done (?c\<lparr>m_handle := Some h, m_framesSent := m_framesSent ?c + 1, m_deflater := z\<rparr>)"
      and h: "h_state h = Open" "h_streams h" "h_buffer h = []"
        "h_written h = written ?c @ makeFrameData (maskingKey env (m_framesSent ?c)) (pongFrame (payload f))"
      by (rule send_control [OF env queue(3) control queue(1,2), of "payload f"]) (simp add: pongFrame_def)
    let ?c' = "?c\<lparr>m_handle := Some h, m_framesSent := m_framesSent ?c + 1, m_deflater := z\<rparr>"
    have "skipBuffer (length b) (enqueueRawFrame OpCodePong (payload f) c) = Done (enqueueRawFrame OpCodePong (payload f) ?c)"
      using skip [of "enqueueRawFrame OpCodePong (payload f) c"] buffer by (simp add: enqueueRawFrame_def)
    then have "handledFrame env f (length b) c = Done ?c'"
      using 2 accept send by (simp add: handledFrame_def opCodes receivedPing_def)
    moreover have "follows env r rest c ?c'"
      using 2 r c h
      by (auto simp: follows_def receiveFrame_def session_def written_def writable_def holds_fragments_def opCodes
          split: option.splits)
    ultimately show ?thesis by (rule that)
  next
    case 3
    then obtain code bytes where fragments: "fragments = Some (code, bytes)"
      and r': "endMessage (final f) code (bytes @ payload f) = Some r"
      using r by (auto simp: receiveFrame_def opCodes split: option.splits)
    let ?x = "c\<lparr>m_continuousFrameData := bytes @ payload f, m_buffer := rest\<rparr>"
    have data: "m_continuousFrameData c = bytes" "m_hasContinuousFrame c"
      using c by (simp_all add: session_def holds_fragments_def fragments)
    have x: "session (Some (code, bytes @ payload f)) ?x"
      using c by (simp add: session_def holds_fragments_def fragments writable_def)
    have handled: "handledFrame env f (length b) c = (if final f then finishContinuousFrame env ?x else Done ?x)"
      using 3 accept data skip [of "c\<lparr>m_continuousFrameData := bytes @ payload f\<rparr>"] buffer
      by (simp add: handledFrame_def opCodes receivedContinuation_def)
    show ?thesis
    proof (cases "final f")
      case True
      then obtain call where call: "messageCall code (bytes @ payload f) = Some call"
        and r'': "r = \<lparr>r_fragments = None, r_calls = [call], r_pongs = []\<rparr>"
        using r' by (auto simp: endMessage_def)
      show ?thesis
        using True handled finish_follows [OF x call] x
        by (intro that) (auto simp: follows_def r'' session_def holds_fragments_def writable_def written_def)
    next
      case False
      then show ?thesis
        using handled x r' by (intro that) (auto simp: follows_def endMessage_def written_def)
    qed
  next
    case 4
    then have none: "fragments = None" and r': "endMessage (final f) (opCode f) (payload f) = Some r"
      using r by (auto simp: receiveFrame_def opCodes split: if_splits)
    have idle: "m_continuousFrameData c = []" "\<not> m_hasContinuousFrame c" "m_client c"
      using c by (simp_all add: session_def holds_fragments_def none)
    show ?thesis
    proof (cases "final f")
      case True
      then obtain call where call: "messageCall (opCode f) (payload f) = Some call"
        and r'': "r = \<lparr>r_fragments = None, r_calls = [call], r_pongs = []\<rparr>"
        using r' by (auto simp: endMessage_def)
      have "handledFrame env f (length b) c = Done (?c\<lparr>m_calls := m_calls c @ [call]\<rparr>)"
        using 4 True accept call idle skip [OF buffer]
        by (auto simp: handledFrame_def receivedText_def receivedBinary_def messageCall_def deliverText_def callClient_def opCodes)
      moreover have "follows env r rest c (?c\<lparr>m_calls := m_calls c @ [call]\<rparr>)"
        using c none by (simp add: follows_def r'' session_def holds_fragments_def writable_def written_def)
      ultimately show ?thesis by (rule that)
    next
      case False
      let ?x = "?c\<lparr>m_hasContinuousFrame := True, m_continuousFrameOpCode := opCode f, m_continuousFrameData := payload f\<rparr>"
      have "handledFrame env f (length b) c = Done ?x"
        using 4 False accept idle buffer
        by (auto simp: handledFrame_def receivedText_def receivedBinary_def startContinuousFrame_def skip opCodes)
      moreover have "follows env r rest c ?x"
        using c 4 False r' by (auto simp: follows_def endMessage_def session_def holds_fragments_def writable_def written_def)
      ultimately show ?thesis by (rule that)
    qed
  qed
qed


section \<open>The loop over the frames\<close>

lemma round_session:
  fixes env :: "'z Environment"
  assumes f: "serverFrame env f" and c: "session fragments c" and buffer: "m_buffer c = wireBytes [f] @ rest"
  shows "receiveLoop env c =
     obind (handledFrame env f (length (wireBytes [f])) c) (\<lambda>x. receiveLoop env (resetInflateContext env x))"
proof -
  let ?d = "makeFrameData [0, 0, 0, 0] f" and ?r = "parseOf env (m_buffer c)"
  have d: "wireBytes [f] = ?d" by (simp add: wireBytes_def)
  have fits: "fittingFrame (largestSize env) f" "\<not> masked f" using f by (simp_all add: serverFrame_def)
  have "?d = frameHeader f @ payload f"
    using makeFrameData_shape [of "[0, 0, 0, 0]" f] fits by (simp add: fittingFrame_def)
  then have parse: "?r = \<lparr>parseResult = FrameOK, parsedData = m_buffer c, parsedFrame = f,
      parsedEnd = Some (length ?d), parsedError = None\<rparr>"
    using parse_made [of "[0, 0, 0, 0]" "largestSize env" f rest] fits(1) f
    by (simp add: parseOf_def buffer d serverFrame_def)
  have keep: "c\<lparr>m_buffer := m_buffer c\<rparr> = c" by simp
  have "processFrame env c = obind (dispatchFrame env f (length ?d) c) (\<lambda>(c, goOn). Done (resetInflateContext env c, goOn))"
    using f by (simp add: processFrame_def parseOf_def [symmetric] parse Let_def inflateFrame_def serverFrame_def)
  then have "processBuffer env c =
      continuing (obind (handledFrame env f (length ?d) c) (\<lambda>c. Done (resetInflateContext env c)))"
    using c by (simp add: processBuffer_def session_def dispatchFrame_continuing continuing_def reset_fields)
  moreover have "reading c"
    using c length_frameHeader [of f] \<open>?d = _\<close> by (auto simp: reading_def session_def buffer d headerLength_def split: if_splits)
  ultimately have "receiveLoop env c =
      obind (obind (handledFrame env f (length ?d) c) (\<lambda>c. Done (resetInflateContext env c))) (receiveLoop env)"
    by (rule receiveLoop_continuing [rotated])
  then show ?thesis by (simp add: d)
qed

lemma follows_reset: "follows env r rest c c' \<Longrightarrow> follows env r rest c (resetInflateContext env c')"
  by (cases "r_fragments r") (auto simp: follows_def resetInflateContext_def session_def writable_def written_def holds_fragments_def)

lemma pongBytes_append: "pongBytes env n (ps @ qs) = pongBytes env n ps @ pongBytes env (n + length ps) qs"
  by (induction ps arbitrary: n) simp_all

lemma frames_follow:
  assumes env: "takesAll env"
  shows "session fragments c \<Longrightarrow> \<forall>f\<in>set frames. serverFrame env f \<Longrightarrow> receiveFrames fragments frames = Some r \<Longrightarrow>
     m_buffer c = wireBytes frames @ rest \<Longrightarrow>
     \<exists>c'. receiveLoop env c = receiveLoop env c' \<and> follows env r rest c c'"
proof (induction frames arbitrary: fragments c r)
  case Nil
  then show ?case by (intro exI [of _ c]) (auto simp: follows_def wireBytes_def)
next
  case (Cons f frames)
  obtain r1 r2 where r1: "receiveFrame fragments f = Some r1" and r2: "receiveFrames (r_fragments r1) frames = Some r2"
    and r: "r = r2\<lparr>r_calls := r_calls r1 @ r_calls r2, r_pongs := r_pongs r1 @ r_pongs r2\<rparr>"
    using Cons.prems(3) by (auto split: option.splits)
  have f: "serverFrame env f" "\<forall>f\<in>set frames. serverFrame env f" using Cons.prems(2) by simp_all
  have buffer: "m_buffer c = wireBytes [f] @ wireBytes frames @ rest"
    using Cons.prems(4) by (simp add: wireBytes_def)
  obtain c1 where c1: "handledFrame env f (length (wireBytes [f])) c = Done c1" "follows env r1 (wireBytes frames @ rest) c c1"
    by (rule handledFrame_follows [OF env f(1) r1 Cons.prems(1) buffer])
  let ?c1 = "resetInflateContext env c1"
  have step: "receiveLoop env c = receiveLoop env ?c1"
    using round_session [OF f(1) Cons.prems(1) buffer] c1(1) by simp
  have c1': "follows env r1 (wireBytes frames @ rest) c ?c1" by (rule follows_reset [OF c1(2)])
  then obtain c' where "receiveLoop env ?c1 = receiveLoop env c'" "follows env r2 rest ?c1 c'"
    using Cons.IH [OF _ f(2) r2, of ?c1] by (auto simp: follows_def)
  then show ?case
    using step c1' by (intro exI [of _ c']) (simp add: follows_def r pongBytes_append)
qed

section \<open>The closing handshake\<close>

definition closeReason :: "WebSocketFrame \<Rightarrow> String option" where
  "closeReason f = (if payloadLength f \<ge> 3 then String_fromUTF8 (drop 2 (payload f)) else Some (String8 []))"

lemma disconnect_open:
  assumes "m_handle c = Some h" "h_streams h" "m_client c" "\<not> m_suspended c" "m_outgoingFrameQueueStatus c = OutgoingFrameQueueClosed"
  obtains c' where "disconnectHandle env c = Done c'"
    "m_calls c' = m_calls c @ [DidClose (length (h_buffer h)) (m_receivedClosingHandshake c) (m_closeEventCode c) (m_closeEventReason c)]"
    "\<not> m_client c'" "\<not> m_document c'" "m_handle c' = None" "m_buffer c' = m_buffer c"
proof
  let ?c = "c\<lparr>m_closed := True, m_closingTimer := False, m_unhandledBufferedAmount := length (h_buffer h), m_client := False,
      m_document := False, m_handle := None,
      m_calls := m_calls c @ [DidClose (length (h_buffer h)) (m_receivedClosingHandshake c) (m_closeEventCode c) (m_closeEventReason c)]\<rparr>"
  show "disconnectHandle env c = Done ?c"
    using assms by (simp add: disconnectHandle.simps [of env c] didCloseSocketStream.simps [of env] didCloseRest_def setHandleState_def Let_def)
qed simp_all


lemma closing_session:
  fixes env :: "'z Environment"
  assumes env: "takesAll env" and f: "serverFrame env f" "opCode f = OpCodeClose" "closeCode f = Inr code"
    and c: "session fragments c" and buffer: "m_buffer c = wireBytes [f]"
  shows "\<exists>c'. receiveLoop env c = Done c' \<and> \<not> m_client c' \<and> \<not> m_document c' \<and> m_handle c' = None \<and>
     m_calls c' = m_calls c @ [DidStartClosingHandshake, DidClose 0 True code (closeReason f)]"
proof -
  let ?d = "wireBytes [f]" and ?c = "c\<lparr>m_closeEventCode := code, m_closeEventReason := closeReason f, m_buffer := []\<rparr>"
  have refusal: "refusal f (m_hasContinuousFrame c) = None"
    using f by (simp add: refusal_def serverFrame_def isReservedOpCode_def isControlOpCode_def)
  have closeFrame: "closeFrame env f (length ?d) c = answerClose env ?c"
    using f(3) buffer by (simp add: closeFrame_def skipBuffer_def closeReason_def)
  let ?x = "?c\<lparr>m_receivedClosingHandshake := True\<rparr>"
  have queue: "m_outgoingFrameQueue ?x = []" "m_outgoingFrameQueueStatus ?x = OutgoingFrameQueueOpen" "writable ?x"
    using c by (simp_all add: session_def writable_def)
  have control: "isControlOpCode OpCodeClose" by (simp add: isControlOpCode_def)
  obtain h z where send: "processOutgoingFrameQueue env (enqueueRawFrame OpCodeClose [] ?x) =
      Done (?x\<lparr>m_handle := Some h, m_framesSent := m_framesSent ?x + 1, m_deflater := z\<rparr>)"
    and h: "h_state h = Open" "h_streams h" "h_buffer h = []"
    by (rule send_control [OF env queue(3) control queue(1,2), of "[]"])
  let ?y = "?x\<lparr>m_handle := Some h, m_framesSent := m_framesSent ?x + 1, m_deflater := z\<rparr>"
  let ?z = "?y\<lparr>m_closing := True, m_calls := m_calls c @ [DidStartClosingHandshake]\<rparr>"
  have start: "startClosingHandshake env (uint (m_closeEventCode ?c)) (m_closeEventReason ?c) ?x = Done ?z"
    using c send by (simp add: startClosingHandshake_def session_def callClient_def Let_def)
  define w where "w = setHandleState Closing (?z\<lparr>m_outgoingFrameQueueStatus := OutgoingFrameQueueClosed\<rparr>)"
  have "processOutgoingFrameQueue env (?z\<lparr>m_outgoingFrameQueueStatus := OutgoingFrameQueueClosing\<rparr>) = disconnectHandle env w"
    using c h by (simp add: processOutgoingFrameQueue_def outgoingLoop.simps closeHandle_def session_def Let_def w_def
        setHandleState_def)
  then have answer: "answerClose env ?c = disconnectHandle env w"
    using start by (simp add: answerClose_def)
  have w: "m_handle w = Some (h\<lparr>h_state := Closing\<rparr>)" "h_streams (h\<lparr>h_state := Closing\<rparr>)" "m_client w" "\<not> m_suspended w"
    "m_outgoingFrameQueueStatus w = OutgoingFrameQueueClosed"
    using c h by (simp_all add: w_def setHandleState_def session_def)
  obtain c' where c': "disconnectHandle env w = Done c'"
    "m_calls c' = m_calls w @ [DidClose (length (h_buffer (h\<lparr>h_state := Closing\<rparr>))) (m_receivedClosingHandshake w) (m_closeEventCode w) (m_closeEventReason w)]"
    "\<not> m_client c'" "\<not> m_document c'" "m_handle c' = None" "m_buffer c' = m_buffer w"
    by (rule disconnect_open [OF w])
  have fields: "m_calls w = m_calls c @ [DidStartClosingHandshake]" "m_receivedClosingHandshake w" "m_closeEventCode w = code"
    "m_closeEventReason w = closeReason f" "m_buffer w = []"
    by (simp_all add: w_def setHandleState_def)
  have handled: "handledFrame env f (length ?d) c = Done c'"
    using f(2) refusal closeFrame answer c'(1) by (simp add: handledFrame_def opCodes)
  have "receiveLoop env c = receiveLoop env (resetInflateContext env c')"
    using round_session [OF f(1) c, of "[]"] buffer handled by simp
  moreover have "\<not> reading (resetInflateContext env c')" using c'(3) by (simp add: reading_def reset_fields)
  ultimately have "receiveLoop env c = Done (resetInflateContext env c')" using receiveLoop_idle by metis
  then show ?thesis using c' fields h by (intro exI [of _ "resetInflateContext env c'"]) (simp add: resetInflateContext_def)
qed

end
