(* ===== verification/WebSocket_Response.thy ===== *)
theory WebSocket_Response
  imports WebSocket_Handshake
begin

text \<open>
  The syntax of the server's response and what the parsers make of it, in both directions: a header
  field and all fields (\<open>readHTTPHeaders_fields\<close>, \<open>readHTTPHeaders_inverse\<close>), the blank line, and the
  status line (\<open>readStatusLine_line\<close>, \<open>readStatusLine_inverse\<close>).
\<close>

section \<open>Well-formed responses\<close>

text \<open>A field: the bytes of its name, the number of spaces, the bytes of its value.\<close>

type_synonym field = "byte list \<times> nat \<times> byte list"

definition fieldLine :: "field \<Rightarrow> byte list" where
  "fieldLine f = (case f of (name, spaces, val) \<Rightarrow> name @ [0x3A] @ replicate spaces 0x20 @ val @ [0x0D, 0x0A])"

definition wellFormedField :: "field \<Rightarrow> bool" where
  "wellFormedField f \<longleftrightarrow>
     (case f of (name, spaces, val) \<Rightarrow>
        name \<noteq> [] \<and> set name \<inter> {0x0D, 0x0A, 0x3A} = {} \<and> String_fromUTF8 name \<noteq> None \<and>
        val \<noteq> [] \<and> hd val \<noteq> 0x20 \<and> set val \<inter> {0x0D, 0x0A} = {} \<and> String_fromUTF8 val \<noteq> None)"

definition decodedField :: "field \<Rightarrow> String \<times> String" where
  "decodedField f = (case f of (name, spaces, val) \<Rightarrow> (the (String_fromUTF8 name), the (String_fromUTF8 val)))"

section \<open>One field\<close>

lemma nameLoop_name:
  "set name \<inter> {0x0D, 0x0A, 0x3A} = {} \<Longrightarrow> nameLoop acc (name @ 0x3A # rest) = NameEnd (acc @ name) rest"
  by (induction name arbitrary: acc) auto

lemma valueLoop_value:
  "set val \<inter> {0x0D, 0x0A} = {} \<Longrightarrow> valueLoop True acc (val @ 0x0D # rest) = ValueEnd (acc @ val) rest"
  by (induction val arbitrary: acc) auto

lemma dropWhile_spaces:
  "s = [] \<or> hd s \<noteq> 0x20 \<Longrightarrow> dropWhile (\<lambda>b. b = 0x20) (replicate k (0x20 :: byte) @ s) = s"
  by (induction k) (cases s, auto)+

lemma parse_field:
  assumes "wellFormedField f"
  shows "parseHTTPHeader True (fieldLine f @ tail) =
     HeaderField (length (fieldLine f) - 1) (fst (decodedField f)) (snd (decodedField f))"
proof -
  obtain name k val where f: "f = (name, k, val)" by (rule prod_cases3)
  note w = assms [unfolded wellFormedField_def f prod.case]
  obtain n v where nv: "String_fromUTF8 name = Some n" "String_fromUTF8 val = Some v" using w by auto
  let ?rest = "replicate k 0x20 @ val @ [0x0D, 0x0A] @ tail"
  have "nameLoop [] (fieldLine f @ tail) = NameEnd name ?rest"
    using nameLoop_name [of name "[]" ?rest] w by (simp add: f fieldLine_def)
  moreover have "dropWhile (\<lambda>b. b = 0x20) ?rest = val @ [0x0D, 0x0A] @ tail"
    using w by (intro dropWhile_spaces) simp
  moreover have "valueLoop True [] (val @ [0x0D, 0x0A] @ tail) = ValueEnd val (0x0A # tail)"
    using valueLoop_value [of val "[]" "0x0A # tail"] w by simp
  moreover have "length (fieldLine f @ tail) - length (0x0A # tail) = length (fieldLine f) - 1"
    by (simp add: f fieldLine_def)
  ultimately show ?thesis
    using w nv unfolding parseHTTPHeader_def by (simp add: String_fromUTF8_data_def f decodedField_def)
qed

lemma parse_end: "parseHTTPHeader True (0x0D # 0x0A # tail) = HeaderEnd 2"
  by (simp add: parseHTTPHeader_def)

lemma nameLoop_end:
  "nameLoop acc s = NameEnd name rest \<Longrightarrow>
     \<exists>x. name = acc @ x \<and> set x \<inter> {0x0D, 0x0A, 0x3A} = {} \<and> (s = x @ 0x3A # rest \<or> s = x \<and> rest = [])"
proof (induction acc s rule: nameLoop.induct)
  case (2 acc b s)
  show ?case
  proof (cases "b = 0x3A")
    case True
    then show ?thesis using 2(2) by (intro exI [of _ "[]"]) simp
  next
    case False
    then have b: "b \<noteq> 0x0D" "b \<noteq> 0x0A" and rec: "nameLoop (acc @ [b]) s = NameEnd name rest"
      using 2(2) by (auto split: if_splits)
    from 2(1) [OF b False rec] obtain x where "name = (acc @ [b]) @ x" "set x \<inter> {0x0D, 0x0A, 0x3A} = {}"
      "s = x @ 0x3A # rest \<or> s = x \<and> rest = []" by blast
    then show ?thesis using b False by (intro exI [of _ "b # x"]) auto
  qed
qed simp

lemma nameLoop_empty: "nameLoop acc s = EmptyLine n \<Longrightarrow> n = 2 \<and> (\<exists>tail. acc = [] \<and> s = 0x0D # 0x0A # tail)"
  by (induction acc s rule: nameLoop.induct) (auto simp: neq_Nil_conv split: if_splits)

lemma valueLoop_end:
  "valueLoop True acc s = ValueEnd val p \<Longrightarrow>
     \<exists>x. val = acc @ x \<and> set x \<inter> {0x0D, 0x0A} = {} \<and> (s = x @ 0x0D # p \<or> s = x \<and> p = [])"
proof (induction True acc s rule: valueLoop.induct)
  case (2 acc b s)
  show ?case
  proof (cases "b = 0x0D")
    case True
    then show ?thesis using 2(2) by (intro exI [of _ "[]"]) simp
  next
    case False
    then have b: "b \<noteq> 0x0A" and rec: "valueLoop True (acc @ [b]) s = ValueEnd val p" using 2(2) by (auto split: if_splits)
    from 2(1) [OF False b rec] obtain x where "val = (acc @ [b]) @ x" "set x \<inter> {0x0D, 0x0A} = {}"
      "s = x @ 0x0D # p \<or> s = x \<and> p = []" by blast
    then show ?thesis using b False by (intro exI [of _ "b # x"]) auto
  qed
qed simp

lemma spaces_first: "\<exists>k. s = replicate k (0x20 :: byte) @ dropWhile (\<lambda>b. b = 0x20) s"
proof (induction s)
  case (Cons b s)
  then obtain k where "s = replicate k 0x20 @ dropWhile (\<lambda>b. b = 0x20) s" by blast
  then have "b # s = replicate (Suc k) 0x20 @ dropWhile (\<lambda>b. b = 0x20) (b # s)" if "b = 0x20" using that by simp
  moreover have "b # s = replicate 0 0x20 @ dropWhile (\<lambda>b. b = 0x20) (b # s)" if "b \<noteq> 0x20" using that by simp
  ultimately show ?case by blast
qed simp

lemma parse_field_inverse:
  assumes "parseHTTPHeader True s = HeaderField n name val"
  shows "\<exists>f. wellFormedField f \<and> decodedField f = (name, val) \<and> n + 1 = length (fieldLine f) \<and> s = fieldLine f @ drop (n + 1) s"
proof -
  obtain nb rest where nb: "nameLoop [] s = NameEnd nb rest"
    using assms by (auto simp: parseHTTPHeader_def split: NameScan.splits)
  obtain k where k: "rest = replicate k 0x20 @ dropWhile (\<lambda>b. b = 0x20) rest" using spaces_first by blast
  obtain vb p where v: "valueLoop True [] (dropWhile (\<lambda>b. b = 0x20) rest) = ValueEnd vb p"
    using assms nb by (auto simp: parseHTTPHeader_def split: ValueScan.splits)
  then obtain tail where p: "p = 0x0A # tail" and names: "String_fromUTF8_data nb = Some name" "String_fromUTF8_data vb = Some val"
    and n: "n = length s - length p"
    using assms nb by (cases p) (auto simp: parseHTTPHeader_def split: if_splits option.splits)
  have val: "set vb \<inter> {0x0D, 0x0A} = {}" "dropWhile (\<lambda>b. b = 0x20) rest = vb @ 0x0D # 0x0A # tail"
    using valueLoop_end [OF v] p by auto
  then have s: "set nb \<inter> {0x0D, 0x0A, 0x3A} = {}" "s = nb @ 0x3A # rest" using nameLoop_end [OF nb] by auto
  have line: "s = fieldLine (nb, k, vb) @ tail" using s(2) k val(2) by (simp add: fieldLine_def)
  have "hd (dropWhile (\<lambda>b. b = 0x20) rest) \<noteq> 0x20" using hd_dropWhile [of "\<lambda>b. b = 0x20" rest] val(2) by auto
  then have "wellFormedField (nb, k, vb)" "decodedField (nb, k, vb) = (name, val)"
    using names val s(1) by (cases vb; auto simp: wellFormedField_def decodedField_def String_fromUTF8_data_def split: if_splits)+
  moreover have len: "n + 1 = length (fieldLine (nb, k, vb))" using n p line by (simp add: fieldLine_def)
  moreover have "drop (n + 1) s = tail" unfolding len by (subst line) simp
  ultimately show ?thesis using line by (intro exI [of _ "(nb, k, vb)"]) simp
qed

lemma parse_end_inverse: "parseHTTPHeader True s = HeaderEnd n \<Longrightarrow> n = 2 \<and> (\<exists>tail. s = 0x0D # 0x0A # tail)"
  using nameLoop_empty [of "[]" s] by (auto simp: parseHTTPHeader_def split: NameScan.splits ValueScan.splits option.splits if_splits)

section \<open>All fields\<close>

text \<open>What the loop does with the decoded fields.\<close>

fun handleFields ::
  "'z Environment \<Rightarrow> (String \<times> String) list \<Rightarrow> SawFields \<Rightarrow> WebSocketHandshake \<Rightarrow> 'z framer \<Rightarrow>
     (WebSocketHandshake \<times> 'z framer) option" where
  "handleFields env [] saw hs framer = Some (hs, framer)"
| "handleFields env ((name, val) # fs) saw hs framer =
     (case handleField env name val saw hs framer of
        (Some reason, saw, hs, framer) \<Rightarrow> None
      | (None, saw, hs, framer) \<Rightarrow> handleFields env fs saw hs framer)"

abbreviation fieldLines :: "field list \<Rightarrow> byte list" where
  "fieldLines fs \<equiv> concat (map fieldLine fs)"

lemma conversion_grows:
  "convertUTF8ToUTF16 strict room source target ored = (conversionOK, rest, units, o') \<Longrightarrow>
     length target \<le> length units \<and> (source \<noteq> [] \<longrightarrow> length target < length units)"
proof (induction "length source" arbitrary: source target ored rule: less_induct)
  case less
  note eq = convertUTF8ToUTF16.simps [of strict room source target ored]
  show ?case
  proof (cases "source = []")
    case True
    then show ?thesis using less(2) by (simp add: convertUTF8ToUTF16.simps [of strict room "[]"])
  next
    case False
    let ?n = "inlineUTF8SequenceLength (hd source)"
    have "isLegalUTF8 source ?n" using less(2) False by (auto simp: eq Let_def split: if_splits)
    then have "?n \<noteq> 0" by (intro notI) (simp add: isLegalUTF8_def)
    then have shorter: "length (drop ?n source) < length source" using False by simp
    obtain added ored1 where rec: "convertUTF8ToUTF16 strict room (drop ?n source) (target @ added) ored1 = (conversionOK, rest, units, o')"
      and "added \<noteq> []"
      using less(2) False by (auto simp: eq Let_def split: if_splits)
    then have "length target < length (target @ added)" by simp
    then show ?thesis using less(1) [OF shorter rec] by linarith
  qed
qed

lemma decoded_nonempty:
  assumes "String_fromUTF8 bytes = Some s" and "bytes \<noteq> []"
  shows "characters s \<noteq> []"
proof (cases "list_all isASCII bytes")
  case True
  then show ?thesis using assms by (auto simp: String_fromUTF8_def)
next
  case False
  then obtain rest units o' where "convertUTF8ToUTF16 True (length bytes) bytes [] 0 = (conversionOK, rest, units, o')" "s = String16 units"
    using assms by (auto simp: String_fromUTF8_def split: if_splits prod.splits)
  then show ?thesis using conversion_grows assms(2) by fastforce
qed

lemma field_name: "wellFormedField f \<Longrightarrow> characters (fst (decodedField f)) \<noteq> []"
  using decoded_nonempty by (auto simp: wellFormedField_def decodedField_def split: prod.splits)

lemma length_fieldLine: "0 < length (fieldLine f)"
  by (simp add: fieldLine_def split: prod.split)

lemma readHTTPHeaders_fields:
  assumes "list_all wellFormedField fs"
  shows "handleFields env (map decodedField fs) saw hs framer = Some (hs', framer') \<Longrightarrow>
     readHTTPHeaders env p (fieldLines fs @ 0x0D # 0x0A # tail) saw hs framer = (Some (p + length (fieldLines fs) + 2), hs', framer')"
  using assms
proof (induction fs arbitrary: p saw hs framer)
  case Nil
  then show ?case by (simp add: readHTTPHeaders.simps [of env p "0x0D # 0x0A # tail"] parse_end)
next
  case (Cons f fs)
  let ?rest = "fieldLines (f # fs) @ 0x0D # 0x0A # tail" and ?rest2 = "fieldLines fs @ 0x0D # 0x0A # tail"
  obtain name val where d: "decodedField f = (name, val)" by (cases "decodedField f")
  have f: "wellFormedField f" "list_all wellFormedField fs" using Cons.prems(2) by auto
  obtain n where n: "length (fieldLine f) = Suc n" using length_fieldLine [of f] by (cases "length (fieldLine f)") auto
  have parse: "parseHTTPHeader True ?rest = HeaderField n name val"
    using parse_field [OF f(1), of ?rest2] by (simp add: d n)
  have name: "characters name \<noteq> []" using field_name [OF f(1)] d by simp
  obtain saw1 hs1 framer1 where h: "handleField env name val saw hs framer = (None, saw1, hs1, framer1)"
    "handleFields env (map decodedField fs) saw1 hs1 framer1 = Some (hs', framer')"
    using Cons.prems(1) by (auto simp: d split: option.splits prod.splits)
  have "?rest \<noteq> []" "drop (n + 1) ?rest = ?rest2" by (simp_all add: n)
  then have "readHTTPHeaders env p ?rest saw hs framer = readHTTPHeaders env (p + n + 1) ?rest2 saw1 hs1 framer1"
    unfolding readHTTPHeaders.simps [of env p ?rest] parse using name h(1) by simp
  then show ?case using Cons.IH [OF h(2) f(2), of "p + n + 1"] n by simp
qed

lemma readHTTPHeaders_inverse:
  "readHTTPHeaders env p rest saw hs framer = (Some q, hs', framer') \<Longrightarrow>
     \<exists>fs tail. list_all wellFormedField fs \<and> rest = fieldLines fs @ tail \<and>
       (tail = [] \<or> (\<exists>after. tail = 0x0D # 0x0A # after \<and> q = p + length (fieldLines fs) + 2)) \<and>
       handleFields env (map decodedField fs) saw hs framer = Some (hs', framer')"
proof (induction "length rest" arbitrary: p rest saw hs framer rule: less_induct)
  case less
  note loop = readHTTPHeaders.simps [of env p rest saw hs framer]
  show ?case
  proof (cases "rest = []")
    case True
    then show ?thesis using less(2) by (intro exI [of _ "[]"] exI [of _ "[]"]) (simp add: readHTTPHeaders.simps [of env p "[]"])
  next
    case False
    show ?thesis
    proof (cases "parseHTTPHeader True rest")
      case (HeaderError e)
      then show ?thesis using less(2) False by (simp add: loop)
    next
      case (HeaderEnd n)
      then show ?thesis using less(2) False parse_end_inverse [OF HeaderEnd]
        by (intro exI [of _ "[]"] exI [of _ rest]) (auto simp: loop)
    next
      case (HeaderField n name val)
      obtain f where f: "wellFormedField f" "decodedField f = (name, val)" "n + 1 = length (fieldLine f)" "rest = fieldLine f @ drop (n + 1) rest"
        using parse_field_inverse [OF HeaderField] by blast
      have "characters name \<noteq> []" using field_name [OF f(1)] f(2) by simp
      then obtain saw1 hs1 framer1 where h: "handleField env name val saw hs framer = (None, saw1, hs1, framer1)"
        and rec: "readHTTPHeaders env (p + n + 1) (drop (n + 1) rest) saw1 hs1 framer1 = (Some q, hs', framer')"
        using less(2) False HeaderField by (auto simp: loop split: option.splits prod.splits)
      have "length (drop (n + 1) rest) < length rest" using False by (cases rest) auto
      from less(1) [OF this rec] obtain fs tail where fs: "list_all wellFormedField fs" "drop (n + 1) rest = fieldLines fs @ tail"
        "tail = [] \<or> (\<exists>after. tail = 0x0D # 0x0A # after \<and> q = p + n + 1 + length (fieldLines fs) + 2)"
        "handleFields env (map decodedField fs) saw1 hs1 framer1 = Some (hs', framer')"
        by blast
      show ?thesis
        using f fs h by (intro exI [of _ "f # fs"] exI [of _ tail]) (auto simp flip: f(3))
    qed
  qed
qed

section \<open>The blank line\<close>

lemma no_blank_segment:
  "0x0A \<notin> set l \<Longrightarrow> take 2 t \<noteq> [0x0D, 0x0A] \<Longrightarrow> hasBlankLine (l @ 0x0A # t) \<Longrightarrow> hasBlankLine t"
proof (induction l)
  case Nil
  then show ?case by (auto simp: blankLine_def)
next
  case (Cons b l)
  have "take 4 (b # l @ 0x0A # t) \<noteq> blankLine"
    using Cons.prems(1,2) by (cases l) (auto simp: blankLine_def)
  then show ?case using Cons by simp
qed

lemma not_crlf: "t = [] \<or> hd t \<noteq> 0x0D \<Longrightarrow> take 2 t \<noteq> [0x0D, 0x0A]"
  by (cases t) auto

lemma blank_segment:
  "0 \<notin> set l \<Longrightarrow> hasBlankLine t \<Longrightarrow> hasBlankLine (l @ t)"
proof (induction l)
  case (Cons b l)
  then have "hasBlankLine (l @ t)" by simp
  then have "4 \<le> length (l @ t)" by (cases "l @ t") auto
  then show ?case using Cons by simp
qed simp

lemma fieldLine_shape:
  assumes "wellFormedField f"
  shows "\<exists>l. fieldLine f = l @ [0x0A] \<and> 0x0A \<notin> set l \<and> fieldLine f \<noteq> [] \<and> hd (fieldLine f) \<noteq> 0x0D"
proof -
  obtain name k val where f: "f = (name, k, val)" by (rule prod_cases3)
  have "set name \<inter> {0x0D, 0x0A, 0x3A} = {}" "set val \<inter> {0x0D, 0x0A} = {}" "name \<noteq> []"
    using assms by (auto simp: f wellFormedField_def)
  then show ?thesis
    by (intro exI [of _ "name @ [0x3A] @ replicate k 0x20 @ val @ [0x0D]"]) (cases name; auto simp: f fieldLine_def)
qed

lemma no_blank_fields:
  assumes "list_all wellFormedField fs" and "0x0A \<notin> set l"
  shows "\<not> hasBlankLine (l @ 0x0A # fieldLines fs)"
  using assms
proof (induction fs arbitrary: l)
  case Nil
  show ?case using no_blank_segment [of l "[]"] Nil by auto
next
  case (Cons f fs)
  obtain x where x: "fieldLine f = x @ [0x0A]" "0x0A \<notin> set x" "hd (fieldLine f) \<noteq> 0x0D" using Cons.prems(1) fieldLine_shape by fastforce
  have "hd (x @ 0x0A # fieldLines fs) \<noteq> 0x0D" using x(1,3) by (cases x) auto
  then show ?case using no_blank_segment [OF Cons.prems(2) not_crlf, of "fieldLines (f # fs)"] Cons.IH [OF _ x(2)] Cons.prems(1) x(1) by auto
qed

section \<open>The status line\<close>

lemma statusLoop_skip:
  "set x \<inter> {0, 0x0A, 0x20} = {} \<Longrightarrow> statusLoop (x @ s) i space1 space2 = statusLoop s (i + length x) space1 space2"
  by (induction x arbitrary: i) auto

lemma statusLoop_text:
  "set x \<inter> {0, 0x0A} = {} \<Longrightarrow> statusLoop (x @ 0x0A # s) i (Some a) (Some b) = StatusLine (i + length x) (Some a) (Some b)"
  by (induction x arbitrary: i) auto

lemma statusLoop_line:
  assumes "set v \<inter> {0, 0x0A, 0x20} = {}" and "set c \<inter> {0, 0x0A, 0x20} = {}" and "set t \<inter> {0, 0x0A} = {}"
  shows "statusLoop (v @ 0x20 # c @ 0x20 # t @ 0x0A # s) 0 None None =
     StatusLine (length v + length c + length t + 2) (Some (length v)) (Some (length v + length c + 1))"
  using statusLoop_skip [OF assms(1)] statusLoop_skip [OF assms(2)] statusLoop_text [OF assms(3)] by simp

lemma statusLoop_end2:
  "statusLoop s i (Some a) (Some b) = StatusLine n space1 space2 \<Longrightarrow>
     space1 = Some a \<and> space2 = Some b \<and> (\<exists>x r. s = x @ 0x0A # r \<and> set x \<inter> {0, 0x0A} = {} \<and> n = i + length x)"
proof (induction s arbitrary: i)
  case (Cons b' s)
  show ?case
  proof (cases "b' = 0x0A")
    case True
    then show ?thesis using Cons.prems by (auto intro!: exI [of _ "[]"])
  next
    case False
    then have "b' \<noteq> 0" and rec: "statusLoop s (i + 1) (Some a) (Some b) = StatusLine n space1 space2" using Cons.prems by (auto split: if_splits)
    from Cons.IH [OF rec] obtain x r where "space1 = Some a" "space2 = Some b" "s = x @ 0x0A # r" "set x \<inter> {0, 0x0A} = {}"
      "n = i + 1 + length x" by blast
    then show ?thesis using \<open>b' \<noteq> 0\<close> False by (intro conjI exI [of _ "b' # x"] exI [of _ r]) auto
  qed
qed simp

lemma statusLoop_end1:
  "statusLoop s i (Some a) None = StatusLine n space1 (Some b) \<Longrightarrow>
     space1 = Some a \<and> (\<exists>c x r. s = c @ 0x20 # x @ 0x0A # r \<and> set c \<inter> {0, 0x0A, 0x20} = {} \<and> set x \<inter> {0, 0x0A} = {} \<and>
       b = i + length c \<and> n = i + length c + 1 + length x)"
proof (induction s arbitrary: i)
  case (Cons b' s)
  show ?case
  proof (cases "b' = 0x20")
    case True
    then have rec: "statusLoop s (i + 1) (Some a) (Some i) = StatusLine n space1 (Some b)" using Cons.prems by simp
    then show ?thesis using True statusLoop_end2 [OF rec] by (auto intro!: exI [of _ "[]"])
  next
    case False
    then have b': "b' \<noteq> 0" "b' \<noteq> 0x0A" and rec: "statusLoop s (i + 1) (Some a) None = StatusLine n space1 (Some b)"
      using Cons.prems by (auto split: if_splits)
    from Cons.IH [OF rec] obtain c x r where "space1 = Some a" "s = c @ 0x20 # x @ 0x0A # r" "set c \<inter> {0, 0x0A, 0x20} = {}"
      "set x \<inter> {0, 0x0A} = {}" "b = i + 1 + length c" "n = i + 1 + length c + 1 + length x" by blast
    then show ?thesis using b' False by (intro conjI exI [of _ "b' # c"] exI [of _ x] exI [of _ r]) auto
  qed
qed simp

lemma statusLoop_end0:
  "statusLoop s i None None = StatusLine n (Some a) (Some b) \<Longrightarrow>
     \<exists>v c x r. s = v @ 0x20 # c @ 0x20 # x @ 0x0A # r \<and> set v \<inter> {0, 0x0A, 0x20} = {} \<and> set c \<inter> {0, 0x0A, 0x20} = {} \<and>
       set x \<inter> {0, 0x0A} = {} \<and> a = i + length v \<and> b = a + 1 + length c \<and> n = b + 1 + length x"
proof (induction s arbitrary: i)
  case (Cons b' s)
  show ?case
  proof (cases "b' = 0x20")
    case True
    then have rec: "statusLoop s (i + 1) (Some i) None = StatusLine n (Some a) (Some b)" using Cons.prems by simp
    from statusLoop_end1 [OF rec] obtain c x r where "a = i" "s = c @ 0x20 # x @ 0x0A # r" "set c \<inter> {0, 0x0A, 0x20} = {}"
      "set x \<inter> {0, 0x0A} = {}" "b = i + 1 + length c" "n = i + 1 + length c + 1 + length x" by auto
    then show ?thesis using True by (intro exI [of _ "[]"] exI [of _ c] exI [of _ x] exI [of _ r]) simp
  next
    case False
    then have b': "b' \<noteq> 0" "b' \<noteq> 0x0A" and rec: "statusLoop s (i + 1) None None = StatusLine n (Some a) (Some b)"
      using Cons.prems by (auto split: if_splits)
    from Cons.IH [OF rec] obtain v c x r where "s = v @ 0x20 # c @ 0x20 # x @ 0x0A # r" "set v \<inter> {0, 0x0A, 0x20} = {}"
      "set c \<inter> {0, 0x0A, 0x20} = {}" "set x \<inter> {0, 0x0A} = {}" "a = i + 1 + length v" "b = a + 1 + length c" "n = b + 1 + length x" by blast
    then show ?thesis using b' False by (intro exI [of _ "b' # v"] exI [of _ c] exI [of _ x] exI [of _ r]) auto
  qed
qed simp

text \<open>Three digits as a number.\<close>

lemma digit_space: "isASCIIDigit c \<Longrightarrow> \<not> isSpaceOrNewline env c"
  by (auto simp: isASCIIDigit_def isSpaceOrNewline_def word_le_nat_alt)

lemma digit_value: "isASCIIDigit c \<Longrightarrow> uint (c - 0x30) = int (unat c) - 48 \<and> 48 \<le> unat c \<and> unat c \<le> 57"
proof -
  assume "isASCIIDigit c"
  then have c: "48 \<le> unat c" "unat c \<le> 57" by (simp_all add: isASCIIDigit_def word_le_nat_alt)
  have "unat (c - 0x30) = unat c - 48" using c by (subst unat_sub) (simp_all add: word_le_nat_alt)
  then have "uint (c - 0x30) = int (unat c) - 48" using c unfolding uint_nat by simp
  then show ?thesis using c by simp
qed

lemma toInt_three:
  assumes "list_all isASCIIDigit [x, y, z]"
  shows "toInt env [x, y, z] = 100 * (int (unat x) - 48) + 10 * (int (unat y) - 48) + (int (unat z) - 48)"
proof -
  have d: "isASCIIDigit x" "isASCIIDigit y" "isASCIIDigit z" using assms by simp_all
  note v = digit_value [OF d(1)] digit_value [OF d(2)] digit_value [OF d(3)]
  have signs: "x \<noteq> 0x2B" "x \<noteq> 0x2D" using v(1) by auto
  have "lengthOfCharactersAsInteger env [x, y, z] = 3"
    using d signs by (simp add: lengthOfCharactersAsInteger_def digit_space)
  moreover have "digitsLoop False 0 [x, y, z] = Some (100 * (int (unat x) - 48) + 10 * (int (unat y) - 48) + (int (unat z) - 48))"
    using d v by (simp add: Let_def del: of_nat_unat)
  ultimately show ?thesis using d signs by (simp add: toInt_def digit_space Let_def del: digitsLoop.simps)
qed

text \<open>A status line of code 101.\<close>

definition statusLine :: "byte list \<Rightarrow> byte list \<Rightarrow> byte list" where
  "statusLine version statusText = version @ [0x20, 0x31, 0x30, 0x31, 0x20] @ statusText @ [0x0D, 0x0A]"

definition wellFormedStatus :: "byte list \<Rightarrow> byte list \<Rightarrow> bool" where
  "wellFormedStatus version statusText \<longleftrightarrow>
     set version \<inter> {0, 0x0A, 0x20} = {} \<and> set statusText \<inter> {0, 0x0A} = {} \<and> length (statusLine version statusText) \<le> 1024"

lemma readStatusLine_line:
  assumes "wellFormedStatus version statusText"
  shows "readStatusLine env (statusLine version statusText @ s) =
     (int (length (statusLine version statusText)), 101, latin1 statusText, None)"
proof -
  note w = assms [unfolded wellFormedStatus_def]
  define line a b where "line = statusLine version statusText @ s" and "a = length version" and "b = length statusText"
  have loop: "statusLoop line 0 None None = StatusLine (a + b + 6) (Some a) (Some (a + 4))"
    using statusLoop_line [of version "[0x31, 0x30, 0x31]" "statusText @ [0x0D]" s] w by (simp add: line_def a_def b_def statusLine_def)
  have len: "length (statusLine version statusText) = a + b + 7" by (simp add: a_def b_def statusLine_def)
  have cr: "line ! (a + b + 5) = 0x0D" by (simp add: line_def a_def b_def statusLine_def nth_append)
  have code: "take 3 (drop (a + 1) line) = [0x31, 0x30, 0x31]" by (simp add: line_def a_def statusLine_def)
  have reason: "take b (drop (a + 5) line) = statusText" by (simp add: line_def a_def b_def statusLine_def)
  have digits: "list_all isASCIIDigit (latin1 [0x31, 0x30, 0x31])" by (simp add: latin1_def isASCIIDigit_def)
  have "toInt env (latin1 [0x31, 0x30, 0x31]) = 101"
    using toInt_three [of "0x31" "0x30" "0x31" env] by (simp add: latin1_def isASCIIDigit_def)
  moreover have "length (latin1 [0x31, 0x30, 0x31]) = 3" by (simp add: latin1_def)
  moreover have "a + b + 6 + 1 \<le> 1024" using w len by simp
  moreover have "a + b + 6 + 1 - 2 = a + b + 5" "a + 4 - a - 1 = 3" "a + b + 6 + 1 - (a + 4) - 3 = b" "a + 4 + 1 = a + 5" by simp_all
  ultimately show ?thesis
    unfolding line_def [symmetric] len readStatusLine_def loop StatusScan.case Let_def option.case prod.case
    using cr code reason digits by (simp only: if_False if_True simp_thms not_le [symmetric]) (simp add: add.commute)
qed

lemma three_digits:
  assumes "100 * (int x - 48) + 10 * (int y - 48) + (int z - 48) = 101" and "48 \<le> x" "x \<le> 57" "48 \<le> y" "y \<le> 57" "48 \<le> z" "z \<le> 57"
  shows "x = 0x31" "y = 0x30" "z = 0x31"
proof -
  have "int (100 * x + 10 * y + z) = int 5429" using assms(1) by simp
  then have sum: "100 * x + 10 * y + z = 5429" by (simp only: of_nat_eq_iff)
  have "\<not> x < 49" "\<not> 49 < x" using sum assms(2-7) by linarith+
  then show x: "x = 0x31" by simp
  have "\<not> 48 < y" using sum assms(2-7) x by linarith
  then show y: "y = 0x30" using assms(4) by simp
  show "z = 0x31" using sum x y by simp
qed

lemma unat_widened: "unat (ucast (b :: byte) :: uchar) = unat b"
proof -
  have "unat b < 256" using unsigned_less [of b] by simp
  then show ?thesis unfolding unsigned_ucast_eq by (intro take_bit_nat_eq_self) simp
qed

lemma readStatusLine_inverse:
  assumes "readStatusLine env bytes = (n, 101, text', reason)"
  shows "\<exists>version statusText s. wellFormedStatus version statusText \<and> bytes = statusLine version statusText @ s \<and>
     n = int (length (statusLine version statusText)) \<and> text' = latin1 statusText \<and> reason = None"
proof -
  obtain i s1 s2 where loop: "statusLoop bytes 0 None None = StatusLine i (Some s1) (Some s2)"
    using assms by (auto simp: readStatusLine_def Let_def split: StatusScan.splits if_splits option.splits)
  then obtain v c x r where bytes: "bytes = v @ 0x20 # c @ 0x20 # x @ 0x0A # r" "set v \<inter> {0, 0x0A, 0x20} = {}"
    "set c \<inter> {0, 0x0A, 0x20} = {}" "set x \<inter> {0, 0x0A} = {}" "s1 = length v" "s2 = length v + 1 + length c"
    "i = length v + 1 + length c + 1 + length x"
    using statusLoop_end0 [OF loop] by auto
  have code: "latin1 (take (s2 - s1 - 1) (drop (s1 + 1) bytes)) = latin1 c" by (simp add: bytes)
  have ok: "\<not> i + 1 > 1024" "bytes ! (i - 1) = 0x0D" "length c = 3" "list_all isASCIIDigit (latin1 c)"
    "toInt env (latin1 c) = 101" and n: "n = int (i + 1)"
    and text': "text' = latin1 (take (i - s2 - 2) (drop (s2 + 1) bytes))" "reason = None"
    using assms unfolding readStatusLine_def loop StatusScan.case Let_def option.case prod.case code
    by (auto simp: latin1_def split: if_splits)
  have "bytes ! (i - 1) = last (0x20 # x)"
    unfolding bytes by (cases x rule: rev_cases) (simp_all add: nth_append)
  then obtain t where t: "x = t @ [0x0D]" using ok(2) by (cases x rule: rev_cases) auto
  obtain c1 c2 c3 where c: "c = [c1, c2, c3]" using ok(3) by (auto simp: eval_nat_numeral length_Suc_conv)
  have digits: "list_all isASCIIDigit [ucast c1, ucast c2, ucast c3]" using ok(4) by (simp add: c latin1_def)
  then have "100 * (int (unat (ucast c1 :: uchar)) - 48) + 10 * (int (unat (ucast c2 :: uchar)) - 48) + (int (unat (ucast c3 :: uchar)) - 48) = 101"
    using ok(5) toInt_three [OF digits, of env] by (simp add: c latin1_def)
  then have "unat (ucast c1 :: uchar) = 0x31" "unat (ucast c2 :: uchar) = 0x30" "unat (ucast c3 :: uchar) = 0x31"
    using digits digit_value [of "ucast c1"] digit_value [of "ucast c2"] digit_value [of "ucast c3"] three_digits [of "unat (ucast c1 :: uchar)"]
    by (simp_all del: of_nat_unat)
  then have "unat c1 = 0x31" "unat c2 = 0x30" "unat c3 = 0x31" by (simp_all add: unat_widened)
  moreover have "w = of_nat k" if "unat w = k" for w :: byte and k using that by auto
  ultimately have "c1 = of_nat 0x31" "c2 = of_nat 0x30" "c3 = of_nat 0x31" by blast+
  then have "c = [0x31, 0x30, 0x31]" by (simp add: c)
  then have line: "bytes = statusLine v t @ r" "length (statusLine v t) = i + 1" "latin1 t = text'"
    using bytes t text' by (simp_all add: statusLine_def)
  have "wellFormedStatus v t" using bytes(2,4) t ok(1) line(2) by (auto simp: wellFormedStatus_def)
  then show ?thesis using line n text'(2) by (intro exI [of _ v] exI [of _ t] exI [of _ r]) simp
qed

end
