(* ===== verification/WebSocket_Acceptance.thy ===== *)
theory WebSocket_Acceptance
  imports WebSocket_Response
begin

text \<open>
  Which responses are accepted: what the fields of a response mean together (\<open>handleFields_all\<close>,
  \<open>checkResponseHeaders_agrees\<close>), and that \<open>readServerHandshake\<close> opens the connection for the well-formed
  responses that agree with the client's offer (\<open>readServerHandshake_opens\<close>), for no others
  (\<open>readServerHandshake_only\<close>), and waits while such a response is incomplete.
\<close>

section \<open>What the fields mean\<close>

abbreviation extensionsName :: "uchar list" where "extensionsName \<equiv> ascii ''sec-websocket-extensions''"
abbreviation acceptName :: "uchar list" where "acceptName \<equiv> ascii ''Sec-WebSocket-Accept''"
abbreviation protocolName :: "uchar list" where "protocolName \<equiv> ascii ''Sec-WebSocket-Protocol''"

text \<open>The values of the fields of a name, and the value that the header map holds for them.\<close>

definition valuesOf :: "uchar list \<Rightarrow> (String \<times> String) list \<Rightarrow> String list" where
  "valuesOf name fs = map snd (filter (\<lambda>f. equalIgnoringCase name (characters (fst f))) fs)"

definition fieldValue :: "uchar list \<Rightarrow> (String \<times> String) list \<Rightarrow> uchar list option" where
  "fieldValue name fs =
     (case valuesOf name fs of
        [] \<Rightarrow> None
      | val # vals \<Rightarrow> Some (foldl (\<lambda>s v. s @ ascii '', '' @ characters v) (characters val) vals))"

definition addFields :: "HTTPHeaderMap \<Rightarrow> (String \<times> String) list \<Rightarrow> HTTPHeaderMap" where
  "addFields headers fs =
     foldl (\<lambda>h (name, val). header_add h (characters name) (characters val)) headers
       (filter (\<lambda>f. \<not> equalIgnoringCase extensionsName (characters (fst f))) fs)"

lemma equalIgnoringCase_sym: "equalIgnoringCase a b \<longleftrightarrow> equalIgnoringCase b a"
  by (auto simp: equalIgnoringCase_def)

lemma equalIgnoringCase_trans: "equalIgnoringCase a b \<Longrightarrow> equalIgnoringCase a c \<longleftrightarrow> equalIgnoringCase b c"
  by (auto simp: equalIgnoringCase_def)

lemma valuesOf_simps [simp]:
  "valuesOf name [] = []"
  "valuesOf name ((key, val) # fs) = (if equalIgnoringCase name (characters key) then [val] else []) @ valuesOf name fs"
  by (simp_all add: valuesOf_def)

lemma header_get_add:
  "header_get (header_add headers key val) name =
     (if equalIgnoringCase key name then
        Some (case header_get headers name of None \<Rightarrow> val | Some old \<Rightarrow> old @ ascii '', '' @ val)
      else header_get headers name)"
proof (induction headers)
  case (Cons h headers)
  obtain k old where h: "h = (k, old)" by (cases h)
  show ?case using Cons by (auto simp: h equalIgnoringCase_def)
qed simp

lemma addFields_simps [simp]:
  "addFields headers [] = headers"
  "addFields headers ((key, val) # fs) =
     addFields (if equalIgnoringCase extensionsName (characters key) then headers else header_add headers (characters key) (characters val)) fs"
  by (simp_all add: addFields_def)

lemma header_get_fields:
  assumes "\<not> equalIgnoringCase extensionsName name"
  shows "header_get (addFields headers fs) name =
     (case header_get headers name of
        None \<Rightarrow> fieldValue name fs
      | Some val \<Rightarrow> Some (foldl (\<lambda>s v. s @ ascii '', '' @ characters v) val (valuesOf name fs)))"
proof (induction fs arbitrary: headers)
  case Nil
  show ?case by (simp add: fieldValue_def split: option.split)
next
  case (Cons f fs)
  obtain key val where f: "f = (key, val)" by (cases f)
  show ?case
  proof (cases "equalIgnoringCase extensionsName (characters key)")
    case True
    then have "\<not> equalIgnoringCase name (characters key)"
      using assms by (auto simp: equalIgnoringCase_def)
    then show ?thesis using True Cons [of headers] by (simp add: f fieldValue_def split: option.split)
  next
    case False
    then show ?thesis
      using Cons [of "header_add headers (characters key) (characters val)"]
      by (auto simp: f header_get_add fieldValue_def equalIgnoringCase_sym [of name] split: option.split list.split)
  qed
qed

text \<open>
  What \<open>processHeaderValue\<close> does depends on the processors and the accepted extensions only, and
  changes nothing else of the handshake.
\<close>

lemma processHeaderValue_local:
  "\<exists>reason ps accepted framer'. \<forall>hs2. hs_processors hs2 = hs_processors hs \<and> hs_acceptedExtensions hs2 = hs_acceptedExtensions hs \<longrightarrow>
     processHeaderValue env val hs2 framer =
       (reason, hs2\<lparr>hs_processors := ps, hs_acceptedExtensions := accepted\<rparr>, framer')"
proof -
  have loop: "\<exists>reason ps accepted framer'. \<forall>hs2. hs_processors hs2 = hs_processors hs \<and> hs_acceptedExtensions hs2 = hs_acceptedExtensions hs \<longrightarrow>
     extensionsLoop env s hs2 framer = (reason, hs2\<lparr>hs_processors := ps, hs_acceptedExtensions := accepted\<rparr>, framer')" for s
  proof (induction "length s" arbitrary: s hs framer rule: less_induct)
    case less
    note eq = extensionsLoop.simps [of env s]
    have set: "hs2\<lparr>hs_acceptedExtensions := a\<rparr> = hs2\<lparr>hs_processors := hs_processors hs2, hs_acceptedExtensions := a\<rparr>" for hs2 a by simp
    show ?case
    proof (cases "s = []")
      case True
      show ?thesis
        by (rule exI [of _ None], rule exI [of _ "hs_processors hs"], rule exI [of _ "hs_acceptedExtensions hs"], rule exI [of _ framer])
          (auto simp: extensionsLoop.simps [of env "[]"] True)
    next
      case False
      show ?thesis
      proof (cases "parseExtension s")
        case None
        show ?thesis
          by (rule exI, rule exI [of _ "hs_processors hs"], rule exI [of _ "[]"], rule exI [of _ framer])
            (auto simp: eq False None Let_def intro: set)
      next
        case (Some e)
        obtain token params rest where e: "e = (token, params, rest)" by (rule prod_cases3)
        show ?thesis
        proof (cases "hs_processors hs = [] \<or> token \<noteq> deflateFrameToken")
          case True
          show ?thesis
            by (rule exI, rule exI [of _ "hs_processors hs"], rule exI [of _ "[]"], rule exI [of _ framer])
              (use True in \<open>auto simp: eq False Some e Let_def intro: set split: list.split\<close>)
        next
          case Known: False
          then obtain p ps where p: "hs_processors hs = p # ps" by (cases "hs_processors hs") auto
          obtain ok p1 framer1 where r: "processResponse env params p framer = (ok, p1, framer1)" by (rule prod_cases3)
          show ?thesis
          proof (cases ok)
            case True
            let ?hs = "hs\<lparr>hs_processors := p1 # ps, hs_acceptedExtensions := hs_acceptedExtensions hs @ [(token, params)]\<rparr>"
            have "length rest < length s" using parseExtension_shrinks Some e by simp
            from less [OF this, of ?hs framer1] obtain reason ps' accepted framer' where
              rec: "hs_processors hs2 = p1 # ps \<and> hs_acceptedExtensions hs2 = hs_acceptedExtensions hs @ [(token, params)] \<longrightarrow>
                extensionsLoop env rest hs2 framer1 = (reason, hs2\<lparr>hs_processors := ps', hs_acceptedExtensions := accepted\<rparr>, framer')" for hs2
              by auto
            show ?thesis
              by (intro exI [of _ reason] exI [of _ ps'] exI [of _ accepted] exI [of _ framer'])
                (use Known p r True in \<open>auto simp: eq False Some e Let_def rec\<close>)
          next
            case Refused: False
            show ?thesis
              by (rule exI, rule exI [of _ "p1 # ps"], rule exI [of _ "[]"], rule exI [of _ framer1])
                (use Known p r Refused in \<open>auto simp: eq False Some e Let_def\<close>)
          qed
        qed
      qed
    qed
  qed
  show ?thesis
  proof (cases "characters val = []")
    case True
    show ?thesis
      by (rule exI [of _ None], rule exI [of _ "hs_processors hs"], rule exI [of _ "hs_acceptedExtensions hs"], rule exI [of _ framer])
        (auto simp: processHeaderValue_def True)
  next
    case False
    show ?thesis
    proof (cases "hs_processors hs = []")
      case True
      show ?thesis
        by (rule exI, rule exI [of _ "[]"], rule exI [of _ "[]"], rule exI [of _ framer]) (use True False in \<open>auto simp: processHeaderValue_def\<close>)
    next
      case Some: False
      then show ?thesis using loop [of "utf8Data LenientConversion val"] False by (auto simp: processHeaderValue_def)
    qed
  qed
qed

text \<open>All fields at once: none too often, the extensions in order, the others into the map.\<close>

definition atMost :: "bool \<Rightarrow> String list \<Rightarrow> bool" where
  "atMost saw vals \<longleftrightarrow> length vals \<le> (if saw then 0 else 1)"

definition onceEach :: "SawFields \<Rightarrow> (String \<times> String) list \<Rightarrow> bool" where
  "onceEach saw fs \<longleftrightarrow>
     atMost (sawExtensions saw) (valuesOf extensionsName fs) \<and> atMost (sawAccept saw) (valuesOf acceptName fs) \<and>
     atMost (sawProtocol saw) (valuesOf protocolName fs)"

definition negotiated ::
  "'z Environment \<Rightarrow> (String \<times> String) list \<Rightarrow> WebSocketHandshake \<Rightarrow> 'z framer \<Rightarrow> (WebSocketHandshake \<times> 'z framer) option" where
  "negotiated env fs hs framer =
     (case valuesOf extensionsName fs of
        [] \<Rightarrow> Some (hs, framer)
      | val # vals \<Rightarrow>
          (case processHeaderValue env val hs framer of
             (None, hs1, framer1) \<Rightarrow> Some (hs1, framer1)
           | (Some reason, _) \<Rightarrow> None))"

lemma names_differ:
  "\<not> equalIgnoringCase extensionsName acceptName" "\<not> equalIgnoringCase extensionsName protocolName"
  "\<not> equalIgnoringCase acceptName protocolName"
  by (simp_all add: equalIgnoringCase_def ascii_def)

lemma name_of_one:
  assumes "equalIgnoringCase a key" and "\<not> equalIgnoringCase a b"
  shows "\<not> equalIgnoringCase b key"
  using assms by (auto simp: equalIgnoringCase_def)

lemma negotiated_headers:
  "negotiated env fs (hs\<lparr>hs_headers := h\<rparr>) framer = map_option (\<lambda>(hs1, framer1). (hs1\<lparr>hs_headers := h\<rparr>, framer1)) (negotiated env fs hs framer)"
proof (cases "valuesOf extensionsName fs")
  case (Cons val vals)
  obtain reason ps accepted framer' where "hs_processors hs2 = hs_processors hs \<and> hs_acceptedExtensions hs2 = hs_acceptedExtensions hs \<longrightarrow>
     processHeaderValue env val hs2 framer = (reason, hs2\<lparr>hs_processors := ps, hs_acceptedExtensions := accepted\<rparr>, framer')" for hs2
    using processHeaderValue_local [of hs env val framer] by blast
  from this [of hs] this [of "hs\<lparr>hs_headers := h\<rparr>"] show ?thesis by (simp add: negotiated_def Cons split: option.split)
qed (simp add: negotiated_def)

lemma processHeaderValue_keeps_headers: "processHeaderValue env val hs framer = (reason, hs1, framer1) \<Longrightarrow> hs_headers hs1 = hs_headers hs"
  using processHeaderValue_local [of hs env val framer] by auto

lemma handleFields_all:
  "handleFields env fs saw hs framer =
     (if onceEach saw fs then
        map_option (\<lambda>(hs1, framer1). (hs1\<lparr>hs_headers := addFields (hs_headers hs) fs\<rparr>, framer1)) (negotiated env fs hs framer)
      else None)"
proof (induction fs arbitrary: saw hs framer)
  case Nil
  show ?case by (simp add: onceEach_def atMost_def negotiated_def)
next
  case (Cons f fs)
  obtain key val where f: "f = (key, val)" by (cases f)
  let ?k = "characters key"
  consider (ext) "equalIgnoringCase extensionsName ?k" | (acc) "equalIgnoringCase acceptName ?k" | (prot) "equalIgnoringCase protocolName ?k"
    | (other) "\<not> equalIgnoringCase extensionsName ?k" "\<not> equalIgnoringCase acceptName ?k" "\<not> equalIgnoringCase protocolName ?k" by blast
  then show ?case
  proof cases
    case ext
    note n = ext name_of_one [OF ext names_differ(1)] name_of_one [OF ext names_differ(2)]
    show ?thesis
    proof (cases "sawExtensions saw")
      case True
      then show ?thesis using n by (simp add: f handleField_def onceEach_def atMost_def)
    next
      case False
      obtain reason hs1 framer1 where p: "processHeaderValue env val hs framer = (reason, hs1, framer1)" by (rule prod_cases3)
      show ?thesis
      proof (cases reason)
        case None
        have "onceEach (saw\<lparr>sawExtensions := True\<rparr>) fs \<longleftrightarrow> onceEach saw ((key, val) # fs)"
          using False n by (auto simp: onceEach_def atMost_def)
        moreover have "valuesOf extensionsName fs = []" if "onceEach saw ((key, val) # fs)"
          using that False n by (simp add: onceEach_def atMost_def)
        ultimately show ?thesis
          using p None n False Cons [of "saw\<lparr>sawExtensions := True\<rparr>" hs1 framer1] processHeaderValue_keeps_headers [OF p]
          by (simp add: f handleField_def negotiated_def)
      next
        case (Some e)
        then show ?thesis using p n False by (simp add: f handleField_def negotiated_def)
      qed
    qed
  next
    case acc
    have n: "\<not> equalIgnoringCase extensionsName ?k" "\<not> equalIgnoringCase protocolName ?k"
      using acc names_differ by (auto simp: equalIgnoringCase_def)
    show ?thesis
      using acc n Cons [of "saw\<lparr>sawAccept := True\<rparr>" "hs\<lparr>hs_headers := header_add (hs_headers hs) ?k (characters val)\<rparr>" framer]
      by (cases "sawAccept saw")
        (auto simp: f handleField_def onceEach_def atMost_def negotiated_headers negotiated_def [of env "(key, val) # fs"]
          negotiated_def [of env fs] option.map_comp comp_def case_prod_beta)
  next
    case prot
    have n: "\<not> equalIgnoringCase extensionsName ?k" "\<not> equalIgnoringCase acceptName ?k"
      using prot names_differ by (auto simp: equalIgnoringCase_def)
    show ?thesis
      using prot n Cons [of "saw\<lparr>sawProtocol := True\<rparr>" "hs\<lparr>hs_headers := header_add (hs_headers hs) ?k (characters val)\<rparr>" framer]
      by (cases "sawProtocol saw")
        (auto simp: f handleField_def onceEach_def atMost_def negotiated_headers negotiated_def [of env "(key, val) # fs"]
          negotiated_def [of env fs] option.map_comp comp_def case_prod_beta)
  next
    case other
    then show ?thesis
      using Cons [of saw "hs\<lparr>hs_headers := header_add (hs_headers hs) ?k (characters val)\<rparr>" framer]
      by (auto simp: f handleField_def onceEach_def atMost_def negotiated_headers negotiated_def [of env "(key, val) # fs"]
          negotiated_def [of env fs] option.map_comp comp_def case_prod_beta)
  qed
qed

section \<open>Responses\<close>

record ServerResponse =
  s_version :: "byte list"
  s_text :: "byte list"
  s_fields :: "field list"

definition responseBytes :: "ServerResponse \<Rightarrow> byte list" where
  "responseBytes r = statusLine (s_version r) (s_text r) @ fieldLines (s_fields r) @ [0x0D, 0x0A]"

definition wellFormedResponse :: "ServerResponse \<Rightarrow> bool" where
  "wellFormedResponse r \<longleftrightarrow>
     wellFormedStatus (s_version r) (s_text r) \<and> list_all wellFormedField (s_fields r) \<and> 0 \<notin> set (fieldLines (s_fields r))"

text \<open>
  The handshake and the contexts that a response leads to, if it is accepted: the three fields are
  there and have the values asked for, the subprotocol is one of those offered, and the extensions
  are negotiated.
\<close>

definition agrees :: "WebSocketHandshake \<Rightarrow> (String \<times> String) list \<Rightarrow> bool" where
  "agrees hs fs \<longleftrightarrow>
     (case fieldValue (ascii ''Upgrade'') fs of None \<Rightarrow> False | Some val \<Rightarrow> equalIgnoringCase val (ascii ''websocket'')) \<and>
     (case fieldValue (ascii ''Connection'') fs of None \<Rightarrow> False | Some val \<Rightarrow> equalIgnoringCase val (ascii ''upgrade'')) \<and>
     map characters (valuesOf acceptName fs) = [hs_expectedAccept hs] \<and>
     (valuesOf protocolName fs = [] \<or>
      hs_clientProtocol hs \<noteq> [] \<and>
      (\<exists>p \<in> set (splitLoop subProtocolSeparator [] (hs_clientProtocol hs)). map characters (valuesOf protocolName fs) = [p])) \<and>
     length (valuesOf extensionsName fs) \<le> 1"

definition openedBy ::
  "'z Environment \<Rightarrow> ServerResponse \<Rightarrow> WebSocketHandshake \<Rightarrow> 'z framer \<Rightarrow> (WebSocketHandshake \<times> 'z framer) option" where
  "openedBy env r hs framer =
     (let fs = map decodedField (s_fields r)
      in if agrees hs fs then
           negotiated env fs
             (hs\<lparr>hs_mode := HandshakeConnected, hs_statusCode := 101, hs_statusText := latin1 (s_text r), hs_headers := addFields [] fs\<rparr>)
             framer
         else None)"

lemma fieldValue_single:
  "length (valuesOf name fs) \<le> 1 \<Longrightarrow> fieldValue name fs = (case valuesOf name fs of [] \<Rightarrow> None | val # vals \<Rightarrow> Some (characters val))"
  by (cases "valuesOf name fs") (auto simp: fieldValue_def)

lemma checkResponseHeaders_agrees:
  assumes "onceEach \<lparr>sawExtensions = False, sawAccept = False, sawProtocol = False\<rparr> fs" and "hs_headers hs = addFields [] fs"
  shows "checkResponseHeaders hs = None \<longleftrightarrow> agrees hs fs"
proof -
  have names: "\<not> equalIgnoringCase extensionsName (ascii ''Upgrade'')" "\<not> equalIgnoringCase extensionsName (ascii ''Connection'')"
    by (simp_all add: equalIgnoringCase_def ascii_def)
  have get: "header_get (hs_headers hs) name = fieldValue name fs" if "\<not> equalIgnoringCase extensionsName name" for name
    using header_get_fields [OF that, of "[]" fs] by (simp add: assms(2))
  have once: "length (valuesOf acceptName fs) \<le> 1" "length (valuesOf protocolName fs) \<le> 1" "length (valuesOf extensionsName fs) \<le> 1"
    using assms(1) by (simp_all add: onceEach_def atMost_def)
  show ?thesis
    using once
    unfolding checkResponseHeaders_def Let_def get [OF names(1)] get [OF names(2)] get [OF names_differ(1)] get [OF names_differ(2)] agrees_def
      fieldValue_single [OF once(1)] fieldValue_single [OF once(2)]
    by (cases "valuesOf acceptName fs"; cases "valuesOf protocolName fs") (auto split: option.split)
qed

lemma negotiated_local:
  "\<exists>x. \<forall>hs2. hs_processors hs2 = hs_processors hs \<and> hs_acceptedExtensions hs2 = hs_acceptedExtensions hs \<longrightarrow>
     negotiated env fs hs2 framer =
       map_option (\<lambda>(ps, accepted, framer'). (hs2\<lparr>hs_processors := ps, hs_acceptedExtensions := accepted\<rparr>, framer')) x"
proof (cases "valuesOf extensionsName fs")
  case Nil
  show ?thesis by (rule exI [of _ "Some (hs_processors hs, hs_acceptedExtensions hs, framer)"]) (auto simp: negotiated_def Nil)
next
  case (Cons val vals)
  obtain reason ps accepted framer' where p: "hs_processors hs2 = hs_processors hs \<and> hs_acceptedExtensions hs2 = hs_acceptedExtensions hs \<longrightarrow>
     processHeaderValue env val hs2 framer = (reason, hs2\<lparr>hs_processors := ps, hs_acceptedExtensions := accepted\<rparr>, framer')" for hs2
    using processHeaderValue_local [of hs env val framer] by blast
  show ?thesis
    by (rule exI [of _ "if reason = None then Some (ps, accepted, framer') else None"]) (auto simp: negotiated_def Cons p split: option.split)
qed

lemma agrees_onceEach: "agrees hs fs \<Longrightarrow> onceEach \<lparr>sawExtensions = False, sawAccept = False, sawProtocol = False\<rparr> fs"
  using map_eq_Cons_conv [of characters "valuesOf acceptName fs"] by (auto simp: agrees_def onceEach_def atMost_def)

lemma crlf_end: "\<exists>x. statusLine v t @ fieldLines fs = x @ [0x0D, 0x0A]"
proof (cases fs rule: rev_cases)
  case Nil
  then show ?thesis by (simp add: statusLine_def)
next
  case (snoc fs' f)
  obtain name k val where "f = (name, k, val)" by (rule prod_cases3)
  then have "statusLine v t @ fieldLines fs = (statusLine v t @ fieldLines fs' @ name @ [0x3A] @ replicate k 0x20 @ val) @ [0x0D, 0x0A]"
    by (simp add: snoc fieldLine_def)
  then show ?thesis by blast
qed

lemma response_blank:
  assumes "wellFormedResponse r"
  shows "hasBlankLine (responseBytes r @ rest)"
proof -
  obtain x where x: "statusLine (s_version r) (s_text r) @ fieldLines (s_fields r) = x @ [0x0D, 0x0A]" using crlf_end by blast
  have "0 \<notin> set (statusLine (s_version r) (s_text r) @ fieldLines (s_fields r))"
    using assms by (auto simp: wellFormedResponse_def wellFormedStatus_def statusLine_def)
  then have "0 \<notin> set x" unfolding x by simp
  moreover have "hasBlankLine ([0x0D, 0x0A, 0x0D, 0x0A] @ rest)" by (simp add: blankLine_def)
  ultimately have "hasBlankLine (x @ [0x0D, 0x0A, 0x0D, 0x0A] @ rest)" by (rule blank_segment)
  moreover have "responseBytes r @ rest = x @ [0x0D, 0x0A, 0x0D, 0x0A] @ rest"
    using arg_cong [OF x, of "\<lambda>y. y @ [0x0D, 0x0A] @ rest"] by (simp add: responseBytes_def)
  ultimately show ?thesis by simp
qed

lemma no_nul: "0x0A \<notin> set l \<Longrightarrow> hasBlankLine (l @ 0x0A # t) \<Longrightarrow> 0 \<notin> set l"
proof (induction l)
  case (Cons b l)
  show ?case
  proof (cases "take 4 (b # l @ 0x0A # t) = blankLine")
    case True
    then have "b = 0x0D \<and> l = []" using Cons.prems(1) by (cases l) (auto simp: blankLine_def)
    then show ?thesis by simp
  next
    case False
    then show ?thesis using Cons by auto
  qed
qed simp

lemma no_nul_fields:
  assumes "list_all wellFormedField fs" and "0x0A \<notin> set l" and "hasBlankLine (l @ 0x0A # fieldLines fs @ tail)"
  shows "0 \<notin> set (fieldLines fs)"
  using assms
proof (induction fs arbitrary: l)
  case (Cons f fs)
  obtain x where x: "fieldLine f = x @ [0x0A]" "0x0A \<notin> set x" "hd (fieldLine f) \<noteq> 0x0D" using Cons.prems(1) fieldLine_shape by fastforce
  have "hd (x @ 0x0A # fieldLines fs @ tail) \<noteq> 0x0D" using x(1,3) by (cases x) auto
  then have "hasBlankLine (x @ 0x0A # fieldLines fs @ tail)"
    using no_blank_segment [OF Cons.prems(2) not_crlf, of "x @ 0x0A # fieldLines fs @ tail"] Cons.prems(3) x(1) by simp
  then show ?case using Cons.IH [OF _ x(2)] no_nul [OF x(2)] Cons.prems(1) x(1) by auto
qed simp

lemma asInt_small: "n < 2 ^ 31 \<Longrightarrow> asInt n = int n"
  unfolding asInt_def signed_of_nat by (simp add: signed_take_bit_int_eq_self)

lemma status_segment: "\<exists>l. statusLine v t = l @ [0x0A] \<and> (wellFormedStatus v t \<longrightarrow> 0x0A \<notin> set l)"
  by (intro exI [of _ "v @ [0x20, 0x31, 0x30, 0x31, 0x20] @ t @ [0x0D]"]) (auto simp: statusLine_def wellFormedStatus_def)

definition connecting :: "WebSocketHandshake \<Rightarrow> uchar list \<Rightarrow> WebSocketHandshake" where
  "connecting hs text' = hs\<lparr>hs_mode := HandshakeNormal, hs_statusCode := 101, hs_statusText := text', hs_headers := []\<rparr>"

text \<open>The fields and the final checks, once the status line has been read.\<close>

lemma fields_checked:
  assumes "handleFields env (map decodedField (s_fields r)) \<lparr>sawExtensions = False, sawAccept = False, sawProtocol = False\<rparr>
      (connecting hs (latin1 (s_text r))) framer = Some (hs1, framer1)"
  shows "(checkResponseHeaders hs1 = None \<longleftrightarrow> agrees hs (map decodedField (s_fields r))) \<and>
     (agrees hs (map decodedField (s_fields r)) \<longrightarrow> openedBy env r hs framer = Some (hs1\<lparr>hs_mode := HandshakeConnected\<rparr>, framer1))"
proof -
  let ?fs = "map decodedField (s_fields r)" and ?c = "connecting hs (latin1 (s_text r))"
  obtain x where x: "hs_processors hs2 = hs_processors hs \<and> hs_acceptedExtensions hs2 = hs_acceptedExtensions hs \<longrightarrow>
     negotiated env ?fs hs2 framer =
       map_option (\<lambda>(ps, accepted, framer'). (hs2\<lparr>hs_processors := ps, hs_acceptedExtensions := accepted\<rparr>, framer')) x" for hs2
    using negotiated_local [of hs env ?fs framer] by blast
  have once: "onceEach \<lparr>sawExtensions = False, sawAccept = False, sawProtocol = False\<rparr> ?fs"
    using assms by (auto simp: handleFields_all split: if_splits)
  then obtain ps accepted where y: "x = Some (ps, accepted, framer1)"
    "hs1 = ?c\<lparr>hs_processors := ps, hs_acceptedExtensions := accepted, hs_headers := addFields [] ?fs\<rparr>"
    using assms x [of ?c] by (auto simp: handleFields_all connecting_def)
  have "checkResponseHeaders hs1 = None \<longleftrightarrow> agrees hs1 ?fs" by (rule checkResponseHeaders_agrees [OF once]) (simp add: y)
  moreover have "agrees hs1 ?fs \<longleftrightarrow> agrees hs ?fs" by (simp add: agrees_def y connecting_def)
  ultimately show ?thesis using x y by (simp add: openedBy_def connecting_def)
qed

lemma readHTTPHeaders_bounds:
  "readHTTPHeaders env p rest saw hs framer = (Some q, hs', framer') \<Longrightarrow> p \<le> q \<and> q \<le> p + length rest"
proof (induction "length rest" arbitrary: p rest saw hs framer rule: less_induct)
  case less
  note loop = readHTTPHeaders.simps [of env p rest saw hs framer]
  show ?case
  proof (cases "rest = []")
    case True
    then show ?thesis using less(2) by (simp add: readHTTPHeaders.simps [of env p "[]"])
  next
    case False
    show ?thesis
    proof (cases "parseHTTPHeader True rest")
      case (HeaderField n name val)
      obtain f where f: "wellFormedField f" "decodedField f = (name, val)" "n + 1 = length (fieldLine f)" "rest = fieldLine f @ drop (n + 1) rest"
        using parse_field_inverse [OF HeaderField] by blast
      have "characters name \<noteq> []" using field_name [OF f(1)] f(2) by simp
      then obtain saw1 hs1 framer1 where rec: "readHTTPHeaders env (p + n + 1) (drop (n + 1) rest) saw1 hs1 framer1 = (Some q, hs', framer')"
        using less(2) False HeaderField by (auto simp: loop split: option.splits prod.splits)
      have shorter: "length (drop (n + 1) rest) < length rest" using False by (cases rest) auto
      have "length rest = n + 1 + length (drop (n + 1) rest)" using arg_cong [OF f(4), of length] f(3) by simp
      then show ?thesis using less(1) [OF shorter rec] by linarith
    qed (use less(2) False parse_end_inverse [of rest] in \<open>auto simp: loop\<close>)
  qed
qed

lemma readServerHandshake_status:
  assumes "readStatusLine env bytes = (int k, 101, text', None)"
  shows "readServerHandshake env bytes hs framer =
     (if \<not> hasBlankLine bytes then (-1, (connecting hs text')\<lparr>hs_mode := HandshakeIncomplete\<rparr>, framer)
      else
        case readHTTPHeaders env k (drop k bytes) \<lparr>sawExtensions = False, sawAccept = False, sawProtocol = False\<rparr> (connecting hs text') framer of
          (None, hs, framer) \<Rightarrow> (asInt (length bytes), hs\<lparr>hs_mode := HandshakeFailed\<rparr>, framer)
        | (Some p, hs, framer) \<Rightarrow>
            (case checkResponseHeaders hs of
               Some reason \<Rightarrow> (asInt p, (hs_fail reason hs)\<lparr>hs_mode := HandshakeFailed\<rparr>, framer)
             | None \<Rightarrow> (asInt p, hs\<lparr>hs_mode := HandshakeConnected\<rparr>, framer)))"
proof -
  have c: "hs\<lparr>hs_mode := HandshakeIncomplete, hs_statusCode := 101, hs_statusText := text', hs_headers := [], hs_mode := HandshakeNormal\<rparr> = connecting hs text'"
    by (cases hs) (simp add: connecting_def)
  show ?thesis
    unfolding readServerHandshake_def Let_def assms prod.case option.case c by (auto split: prod.split option.split)
qed

lemma readServerHandshake_opens:
  assumes "wellFormedResponse r" and "openedBy env r hs framer = Some (hs', framer')" and "length (responseBytes r) < 2 ^ 31"
  shows "readServerHandshake env (responseBytes r @ rest) hs framer = (int (length (responseBytes r)), hs', framer')"
proof -
  let ?fs = "map decodedField (s_fields r)" and ?saw = "\<lparr>sawExtensions = False, sawAccept = False, sawProtocol = False\<rparr>"
  let ?line = "statusLine (s_version r) (s_text r)" and ?c = "connecting hs (latin1 (s_text r))"
  have w: "wellFormedStatus (s_version r) (s_text r)" "list_all wellFormedField (s_fields r)"
    using assms(1) by (simp_all add: wellFormedResponse_def)
  have bytes: "responseBytes r @ rest = ?line @ fieldLines (s_fields r) @ 0x0D # 0x0A # rest" by (simp add: responseBytes_def)
  have line: "readStatusLine env (responseBytes r @ rest) = (int (length ?line), 101, latin1 (s_text r), None)"
    unfolding bytes by (rule readStatusLine_line [OF w(1)])
  have agree: "agrees hs ?fs" using assms(2) by (auto simp: openedBy_def Let_def split: if_splits)
  obtain x where x: "hs_processors hs2 = hs_processors hs \<and> hs_acceptedExtensions hs2 = hs_acceptedExtensions hs \<longrightarrow>
     negotiated env ?fs hs2 framer =
       map_option (\<lambda>(ps, accepted, framer'). (hs2\<lparr>hs_processors := ps, hs_acceptedExtensions := accepted\<rparr>, framer')) x" for hs2
    using negotiated_local [of hs env ?fs framer] by blast
  have "x \<noteq> None" using assms(2) agree by (auto simp: openedBy_def Let_def x)
  then obtain hs1 framer1 where h: "handleFields env ?fs ?saw ?c framer = Some (hs1, framer1)"
    using agrees_onceEach [OF agree] x [of ?c] by (auto simp: handleFields_all connecting_def)
  note checked = fields_checked [OF h]
  have "readHTTPHeaders env (length ?line) (drop (length ?line) (responseBytes r @ rest)) ?saw ?c framer =
      (Some (length ?line + length (fieldLines (s_fields r)) + 2), hs1, framer1)"
    unfolding bytes using readHTTPHeaders_fields [OF w(2) h, of "length ?line" rest] by simp
  moreover have "length ?line + length (fieldLines (s_fields r)) + 2 = length (responseBytes r)" by (simp add: responseBytes_def)
  ultimately show ?thesis
    unfolding readServerHandshake_status [OF line] using response_blank [OF assms(1), of rest] checked agree assms(2,3)
    by (simp add: asInt_small)
qed

lemma readServerHandshake_only:
  assumes "readServerHandshake env bytes hs framer = (n, hs', framer')" and "hs_mode hs' = HandshakeConnected" and "length bytes < 2 ^ 31"
  shows "\<exists>r rest. wellFormedResponse r \<and> bytes = responseBytes r @ rest \<and> n = int (length (responseBytes r)) \<and>
     openedBy env r hs framer = Some (hs', framer')"
proof -
  let ?saw = "\<lparr>sawExtensions = False, sawAccept = False, sawProtocol = False\<rparr>"
  obtain k code text' reason where l: "readStatusLine env bytes = (k, code, text', reason)" by (rule prod_cases4)
  have "code = 101"
    using assms(1,2) by (auto simp: readServerHandshake_def l Let_def hs_fail_def split: if_splits option.splits)
  with l have l101: "readStatusLine env bytes = (k, 101, text', reason)" by simp
  from readStatusLine_inverse [OF l101] obtain v t s where line: "wellFormedStatus v t" "bytes = statusLine v t @ s"
    "k = int (length (statusLine v t))" "text' = latin1 t" "reason = None" by blast
  note read = readServerHandshake_status [OF l101 [unfolded line(3,5)], of hs framer]
  have dropped: "drop (length (statusLine v t)) bytes = s" by (simp add: line(2))
  obtain p hs1 framer1 where f: "hasBlankLine bytes" "readHTTPHeaders env (length (statusLine v t)) s ?saw (connecting hs text') framer = (Some p, hs1, framer1)"
    "checkResponseHeaders hs1 = None" "n = asInt p" "hs' = hs1\<lparr>hs_mode := HandshakeConnected\<rparr>" "framer' = framer1"
    using assms(1,2) unfolding read dropped by (auto simp: hs_fail_def split: if_splits prod.splits option.splits)
  from readHTTPHeaders_inverse [OF f(2)] obtain fs tail where fs: "list_all wellFormedField fs" "s = fieldLines fs @ tail"
    "tail = [] \<or> (\<exists>after. tail = 0x0D # 0x0A # after \<and> p = length (statusLine v t) + length (fieldLines fs) + 2)"
    "handleFields env (map decodedField fs) ?saw (connecting hs text') framer = Some (hs1, framer1)" by blast
  obtain l where l: "statusLine v t = l @ [0x0A]" "0x0A \<notin> set l" using status_segment line(1) by metis
  have "tail \<noteq> []" using no_blank_fields [OF fs(1) l(2)] f(1) fs(2) line(2) l(1) by auto
  then obtain after where tail: "tail = 0x0D # 0x0A # after" "p = length (statusLine v t) + length (fieldLines fs) + 2" using fs(3) by blast
  define r where "r = \<lparr>s_version = v, s_text = t, s_fields = fs\<rparr>"
  have "0 \<notin> set (fieldLines fs)" using no_nul_fields [OF fs(1) l(2), of tail] f(1) fs(2) line(2) l(1) by simp
  then have r: "wellFormedResponse r" using line(1) fs(1) by (simp add: r_def wellFormedResponse_def)
  have bytes: "bytes = responseBytes r @ after" "p = length (responseBytes r)" using line(2) fs(2) tail by (simp_all add: r_def responseBytes_def)
  have h: "handleFields env (map decodedField (s_fields r)) ?saw (connecting hs (latin1 (s_text r))) framer = Some (hs1, framer1)"
    using fs(4) line(4) by (simp add: r_def)
  have "openedBy env r hs framer = Some (hs', framer')" using fields_checked [OF h] f(3,5,6) by simp
  moreover have "n = int (length (responseBytes r))" using f(4) bytes assms(3) by (simp add: asInt_small)
  ultimately show ?thesis using r bytes(1) by blast
qed

section \<open>Incomplete responses\<close>

text \<open>What waiting for more may change of the handshake.\<close>

definition waiting :: "WebSocketHandshake \<Rightarrow> WebSocketHandshake \<Rightarrow> bool" where
  "waiting hs hs' \<longleftrightarrow>
     hs_mode hs' = HandshakeIncomplete \<and> hs_clientProtocol hs' = hs_clientProtocol hs \<and> hs_expectedAccept hs' = hs_expectedAccept hs \<and>
     hs_failureReason hs' = hs_failureReason hs \<and> hs_processors hs' = hs_processors hs \<and>
     hs_acceptedExtensions hs' = hs_acceptedExtensions hs"

lemma waiting_same: "waiting hs (hs\<lparr>hs_mode := HandshakeIncomplete\<rparr>)"
  by (simp add: waiting_def)

lemma waiting_connecting: "waiting hs ((connecting hs text')\<lparr>hs_mode := HandshakeIncomplete\<rparr>)"
  by (simp add: waiting_def connecting_def)

lemma waiting_trans: "waiting a b \<Longrightarrow> waiting b c \<Longrightarrow> waiting a c"
  by (simp add: waiting_def)

lemma openedBy_waiting:
  assumes "waiting hs hs'"
  shows "openedBy env r hs' framer = openedBy env r hs framer"
proof -
  have "hs'\<lparr>hs_mode := m, hs_statusCode := code, hs_statusText := text', hs_headers := headers\<rparr> =
      hs\<lparr>hs_mode := m, hs_statusCode := code, hs_statusText := text', hs_headers := headers\<rparr>" for m code text' headers
    using assms by (cases hs; cases hs') (simp add: waiting_def)
  moreover have "agrees hs' = agrees hs" using assms by (intro ext) (simp add: agrees_def waiting_def)
  ultimately show ?thesis by (simp add: openedBy_def Let_def)
qed

lemma blank_has_newline: "hasBlankLine t \<Longrightarrow> 0x0A \<in> set t"
proof (induction t)
  case (Cons b t)
  show ?case
  proof (cases "take 4 (b # t) = blankLine")
    case True
    then have "0x0A \<in> set (take 4 (b # t))" by (simp add: blankLine_def)
    then show ?thesis using in_set_takeD by fastforce
  next
    case False
    then show ?thesis using Cons by simp
  qed
qed simp

lemma no_blank_prefix:
  assumes "list_all wellFormedField fs" and "0x0A \<notin> set l" and "m < length (fieldLines fs) + 2"
  shows "\<not> hasBlankLine (l @ 0x0A # take m (fieldLines fs @ [0x0D, 0x0A]))"
  using assms
proof (induction fs arbitrary: l m)
  case Nil
  then have "m = 0 \<or> m = 1" by auto
  then show ?case using no_blank_segment [OF Nil(2), of "take m [0x0D, 0x0A]"] by auto
next
  case (Cons f fs)
  obtain x where x: "fieldLine f = x @ [0x0A]" "0x0A \<notin> set x" "hd (fieldLine f) \<noteq> 0x0D" using Cons.prems(1) fieldLine_shape by fastforce
  let ?t = "take m (fieldLines (f # fs) @ [0x0D, 0x0A])"
  have "?t = [] \<or> hd ?t \<noteq> 0x0D" using x(1,3) by (cases m; cases x) auto
  then have step: "hasBlankLine (l @ 0x0A # ?t) \<Longrightarrow> hasBlankLine ?t" using no_blank_segment [OF Cons.prems(2) not_crlf] by blast
  show ?case
  proof (cases "m \<le> length x")
    case True
    then have "0x0A \<notin> set ?t" using x(1,2) by (auto dest: in_set_takeD)
    then show ?thesis using step blank_has_newline by blast
  next
    case False
    then have "?t = x @ 0x0A # take (m - length x - 1) (fieldLines fs @ [0x0D, 0x0A])"
      using x(1) by (cases "m - length x") auto
    moreover have "m - length x - 1 < length (fieldLines fs) + 2" using Cons.prems(3) False x(1) by simp
    then have "\<not> hasBlankLine (x @ 0x0A # take (m - length x - 1) (fieldLines fs @ [0x0D, 0x0A]))"
      using Cons.prems(1) by (intro Cons.IH [OF _ x(2)]) simp_all
    ultimately show ?thesis using step by metis
  qed
qed

lemma statusLoop_none: "set s \<inter> {0, 0x0A} = {} \<Longrightarrow> statusLoop s i space1 space2 = NoNewline"
  by (induction s arbitrary: i space1 space2) auto

lemma response_prefix_waits:
  assumes "wellFormedResponse r" and "n < length (responseBytes r)"
  shows "\<exists>hs'. readServerHandshake env (take n (responseBytes r)) hs framer = (-1, hs', framer) \<and> waiting hs hs'"
proof -
  let ?line = "statusLine (s_version r) (s_text r)" and ?bytes = "take n (responseBytes r)"
  have w: "wellFormedStatus (s_version r) (s_text r)" "list_all wellFormedField (s_fields r)"
    using assms(1) by (simp_all add: wellFormedResponse_def)
  obtain l where l: "?line = l @ [0x0A]" "0x0A \<notin> set l" using status_segment w(1) by metis
  show ?thesis
  proof (cases "n \<le> length l")
    case True
    then have "?bytes = take n l" using l(1) by (simp add: responseBytes_def)
    moreover have "0 \<notin> set ?line" using w(1) by (auto simp: wellFormedStatus_def statusLine_def)
    ultimately have "set ?bytes \<inter> {0, 0x0A} = {}" using l by (auto dest: in_set_takeD)
    then have "readStatusLine env ?bytes = (-1, -1, [], None)" by (simp add: readStatusLine_def statusLoop_none)
    then show ?thesis using waiting_same by (simp add: readServerHandshake_def)
  next
    case False
    define m where "m = n - length ?line"
    then have n: "n = length ?line + m" using False l(1) by simp
    have m: "?bytes = ?line @ take m (fieldLines (s_fields r) @ [0x0D, 0x0A])" "m < length (fieldLines (s_fields r)) + 2"
      using assms(2) unfolding n responseBytes_def by simp_all
    have "readStatusLine env ?bytes = (int (length ?line), 101, latin1 (s_text r), None)"
      unfolding m(1) by (rule readStatusLine_line [OF w(1)])
    note read = readServerHandshake_status [OF this, of hs framer]
    have "\<not> hasBlankLine ?bytes" using no_blank_prefix [OF w(2) l(2) m(2)] unfolding m(1) l(1) by simp
    then show ?thesis using read waiting_connecting by simp
  qed
qed

text \<open>Whatever the bytes, a result that is not positive leaves the handshake waiting.\<close>

lemma readServerHandshake_waits:
  assumes "readServerHandshake env bytes hs framer = (n, hs', framer')" and "n \<le> 0" and "bytes \<noteq> []" and "length bytes < 2 ^ 31"
  shows "waiting hs hs' \<and> framer' = framer"
proof -
  have len: "0 < asInt (length bytes)" using assms(3,4) by (simp add: asInt_small)
  obtain k code text' reason where l: "readStatusLine env bytes = (k, code, text', reason)" by (rule prod_cases4)
  show ?thesis
  proof (cases "k = -1 \<or> code \<noteq> 101")
    case True
    have "reason = None" if "k = -1"
      using l that by (auto simp: readStatusLine_def Let_def split: StatusScan.splits if_splits option.splits)
    then show ?thesis
      using assms(1,2) True len waiting_same by (auto simp: readServerHandshake_def l Let_def split: if_splits)
  next
    case False
    with l have l101: "readStatusLine env bytes = (k, 101, text', reason)" by simp
    from readStatusLine_inverse [OF l101] obtain v t s where line: "wellFormedStatus v t" "bytes = statusLine v t @ s"
      "k = int (length (statusLine v t))" "text' = latin1 t" "reason = None" by blast
    note read = readServerHandshake_status [OF l101 [unfolded line(3,5)], of hs framer]
    have dropped: "drop (length (statusLine v t)) bytes = s" by (simp add: line(2))
    let ?saw = "\<lparr>sawExtensions = False, sawAccept = False, sawProtocol = False\<rparr>"
    have "0 < asInt p" if r: "readHTTPHeaders env (length (statusLine v t)) s ?saw (connecting hs text') framer = (Some p, hs1, framer1)" for p hs1 framer1
    proof -
      have "p \<le> length bytes \<and> 0 < p"
        using readHTTPHeaders_bounds [OF r] line(2) by (simp add: statusLine_def)
      then show ?thesis using assms(4) by (simp add: asInt_small)
    qed
    then show ?thesis
      using assms(1,2) len waiting_connecting unfolding read dropped
      by (auto split: if_splits prod.splits option.splits)
  qed
qed

end
