(* ===== verification/WebSocket_Opening.thy ===== *)
theory WebSocket_Opening
  imports WebSocket_Messages WebSocket_Acceptance
begin

text \<open>
  The channel during the opening handshake: rounds of its loop, the delivery of an accepted response in
  any pieces with what follows it (\<open>handshake_delivered\<close>), waiting while the response is incomplete, and
  that the client is told of a connection only after such a response (\<open>connects_only\<close>).
\<close>

section \<open>Opening\<close>

definition handshaking :: "'z WebSocketChannel \<Rightarrow> bool" where
  "handshaking c \<longleftrightarrow>
     hs_mode (m_handshake c) = HandshakeIncomplete \<and> m_client c \<and> m_document c \<and> \<not> m_suspended c \<and> \<not> m_closing c \<and>
     \<not> m_closed c \<and> \<not> m_receivedClosingHandshake c \<and> \<not> m_shouldDiscardReceivedData c \<and>
     m_outgoingFrameQueue c = [] \<and> m_outgoingFrameQueueStatus c = OutgoingFrameQueueOpen \<and>
     writable c \<and> holds_fragments None c"

definition opened :: "WebSocketHandshake \<Rightarrow> 'z framer \<Rightarrow> 'z WebSocketChannel \<Rightarrow> 'z WebSocketChannel" where
  "opened hs framer c = setFramer framer (c\<lparr>m_handshake := hs, m_buffer := [], m_calls := m_calls c @ [DidConnect]\<rparr>)"

lemma setFramer_same: "setFramer (framerOf c) c = c"
  by (simp add: setFramer_def framerOf_def)

lemma setFramer_fields:
  "m_buffer (setFramer framer c) = m_buffer c" "m_client (setFramer framer c) = m_client c" "m_calls (setFramer framer c) = m_calls c"
  "m_suspended (setFramer framer c) = m_suspended c" "m_handshake (setFramer framer c) = m_handshake c"
  "m_framesSent (setFramer framer c) = m_framesSent c" "m_handle (setFramer framer c) = m_handle c"
  "setFramer framer c\<lparr>m_buffer := b\<rparr> = setFramer framer (c\<lparr>m_buffer := b\<rparr>)"
  "setFramer framer c\<lparr>m_calls := cs\<rparr> = setFramer framer (c\<lparr>m_calls := cs\<rparr>)"
  by (simp_all add: setFramer_def split: option.split prod.split)

lemma opened_fields [simp]:
  "m_buffer (opened hs framer c) = []" "m_calls (opened hs framer c) = m_calls c @ [DidConnect]"
  "m_framesSent (opened hs framer c) = m_framesSent c" "written (opened hs framer c) = written c"
  by (simp_all add: opened_def setFramer_fields written_def)

lemma opened_session: "handshaking c \<Longrightarrow> hs_mode hs = HandshakeConnected \<Longrightarrow> session None (opened hs framer c)"
  by (auto simp: handshaking_def session_def opened_def setFramer_def writable_def holds_fragments_def split: option.split)

lemma openedBy_mode: "openedBy env r hs framer = Some (hs', framer') \<Longrightarrow> hs_mode hs' = HandshakeConnected"
proof -
  assume o: "openedBy env r hs framer = Some (hs', framer')"
  let ?fs = "map decodedField (s_fields r)"
  let ?hs = "hs\<lparr>hs_mode := HandshakeConnected, hs_statusCode := 101, hs_statusText := latin1 (s_text r), hs_headers := addFields [] ?fs\<rparr>"
  have n: "negotiated env ?fs ?hs framer = Some (hs', framer')" using o by (auto simp: openedBy_def Let_def split: if_splits)
  obtain x where "negotiated env ?fs ?hs framer =
       map_option (\<lambda>(ps, accepted, framer'). (?hs\<lparr>hs_processors := ps, hs_acceptedExtensions := accepted\<rparr>, framer')) x"
    using negotiated_local [of ?hs env ?fs framer] by blast
  then show ?thesis using n by (cases x) auto
qed

lemma receive_handshaking:
  assumes "handshaking c" and "piece \<noteq> []" and "room env (length piece) c"
  shows "didReceiveSocketStreamData env piece c = receiveLoop env (ext piece c)"
  using assms by (simp add: didReceiveSocketStreamData_def handshaking_def appendToBuffer_def room_def ext_def)

text \<open>One round while the handshake is not done.\<close>

lemma handshaking_round:
  assumes "handshaking c" and "m_buffer c \<noteq> []" and "readServerHandshake env (m_buffer c) (m_handshake c) (framerOf c) = (n, hs, framer)"
  shows "receiveLoop env c =
     (if n \<le> 0 then Done (setFramer framer (c\<lparr>m_handshake := hs\<rparr>))
      else if hs_mode hs = HandshakeConnected then
        obind (skipBuffer (nat n) (setFramer framer (c\<lparr>m_handshake := hs\<rparr>))) (\<lambda>c.
          receiveLoop env (c\<lparr>m_calls := m_calls c @ [DidConnect]\<rparr>))
      else
        obind (skipBuffer (nat n) (setFramer framer (c\<lparr>m_handshake := hs\<rparr>))) (\<lambda>c.
          fail env (hs_failureReason hs) (c\<lparr>m_shouldDiscardReceivedData := True\<rparr>)))"
proof -
  have idle: "obind (skipBuffer k x) (\<lambda>c. obind (callClient DidConnect c) (\<lambda>c. if m_buffer c \<noteq> [] then receiveLoop env c else Done c)) =
      obind (skipBuffer k x) (\<lambda>c. receiveLoop env (c\<lparr>m_calls := m_calls c @ [DidConnect]\<rparr>))" if "m_client x" for k x
    using that by (auto simp: skipBuffer_def callClient_def receiveLoop_idle reading_def)
  have bind_Done: "obind m Done = m" for m :: "'a WebSocketChannel outcome" by (cases m) simp_all
  show ?thesis
    using assms idle [of "setFramer framer (c\<lparr>m_handshake := hs\<rparr>)" "nat n"]
    by (simp add: receiveLoop.simps [of env c] processBuffer_def handshaking_def continuing_def failing_def setFramer_fields Let_def bind_Done)
qed

lemma handshaking_waits:
  assumes "handshaking c" and "waiting (m_handshake c) hs" and "framer = framerOf c"
  shows "handshaking (setFramer framer (c\<lparr>m_handshake := hs\<rparr>))"
    and "setFramer framer (c\<lparr>m_handshake := hs\<rparr>) = c\<lparr>m_handshake := hs\<rparr>"
proof -
  have "framerOf c = framerOf (c\<lparr>m_handshake := hs\<rparr>)" by (simp add: framerOf_def)
  then show same: "setFramer framer (c\<lparr>m_handshake := hs\<rparr>) = c\<lparr>m_handshake := hs\<rparr>" using assms(3) setFramer_same by metis
  show "handshaking (setFramer framer (c\<lparr>m_handshake := hs\<rparr>))"
    unfolding same using assms(1,2) by (simp add: handshaking_def waiting_def writable_def holds_fragments_def)
qed

lemma deliver_Nil [simp]: "deliver env [] c = Done c"
  by (simp add: deliver_def)

lemma obind_not_Done: "m = Null \<or> m = Undef \<Longrightarrow> obind m f = m"
  by auto

lemma deliver_Cons: "deliver env (piece # pieces) c = obind (didReceiveSocketStreamData env piece c) (deliver env pieces)"
proof -
  have stuck: "foldl (\<lambda>m p. obind m (didReceiveSocketStreamData env p)) m pieces = m" if "m = Null \<or> m = Undef" for m :: "'a WebSocketChannel outcome"
    using that by (induction pieces) auto
  show ?thesis
    by (cases "didReceiveSocketStreamData env piece c") (simp_all add: deliver_def [abs_def] stuck)
qed

text \<open>A response that is accepted, in any pieces, together with what follows it.\<close>

lemma handshake_delivered:
  assumes "handshaking c" and "wellFormedResponse r" and "openedBy env r (m_handshake c) (framerOf c) = Some (hs, framer)"
    and "length (responseBytes r) < 2 ^ 31" and "[] \<notin> set pieces" and "room env (length (concat pieces)) c"
    and "length (m_buffer c) < length (responseBytes r)" and "m_buffer c @ concat pieces = responseBytes r @ rest"
  shows "\<exists>pieces'. deliver env pieces c = deliver env pieces' (opened hs framer c) \<and> concat pieces' = rest \<and> [] \<notin> set pieces'"
  using assms
proof (induction pieces arbitrary: c)
  case Nil
  then show ?case by (metis append_Nil2 concat.simps(1) leD length_append le_add1)
next
  case (Cons piece pieces)
  have nonempty: "piece \<noteq> []" "[] \<notin> set pieces" using Cons.prems(5) by auto
  have space: "room env (length piece) c" using Cons.prems(6) by (simp add: room_def)
  let ?c = "ext piece c"
  have c: "handshaking ?c" using Cons.prems(1) by (simp add: handshaking_def ext_def writable_def holds_fragments_def)
  have buffer: "m_buffer ?c \<noteq> []" "m_buffer ?c = m_buffer c @ piece" and fields: "m_handshake ?c = m_handshake c" "framerOf ?c = framerOf c"
    using nonempty(1) by (simp_all add: ext_def framerOf_def)
  have whole: "m_buffer ?c @ concat pieces = responseBytes r @ rest" using Cons.prems(8) buffer(2) by simp
  have receive: "didReceiveSocketStreamData env piece c = receiveLoop env ?c" by (rule receive_handshaking [OF Cons.prems(1) nonempty(1) space])
  show ?case
  proof (cases "length (m_buffer ?c) < length (responseBytes r)")
    case True
    let ?n = "length (m_buffer ?c)"
    have taken: "m_buffer ?c = take ?n (responseBytes r)" using arg_cong [OF whole, of "take ?n"] True by simp
    obtain hs1 where h: "readServerHandshake env (m_buffer ?c) (m_handshake ?c) (framerOf ?c) = (-1, hs1, framerOf ?c)"
      and w: "waiting (m_handshake ?c) hs1"
      using response_prefix_waits [OF Cons.prems(2) True] taken by metis
    let ?w = "?c\<lparr>m_handshake := hs1\<rparr>"
    have step: "receiveLoop env ?c = Done ?w" using handshaking_round [OF c buffer(1) h] handshaking_waits(2) [OF c w refl] by simp
    have "framerOf ?w = framerOf c" by (simp add: framerOf_def ext_def)
    then have o: "openedBy env r (m_handshake ?w) (framerOf ?w) = Some (hs, framer)"
      using openedBy_waiting [OF w, of env r "framerOf c"] Cons.prems(3) fields by simp
    have w': "handshaking ?w" using handshaking_waits [OF c w refl] by simp
    have "room env (length (concat pieces)) ?w" using Cons.prems(6) buffer(2) by (simp add: room_def)
    from Cons.IH [OF w' Cons.prems(2) o Cons.prems(4) nonempty(2) this] True whole obtain pieces' where
      "deliver env pieces ?w = deliver env pieces' (opened hs framer ?w)" "concat pieces' = rest" "[] \<notin> set pieces'" by auto
    moreover have "opened hs framer ?w = opened hs framer c" by (simp add: opened_def ext_def)
    ultimately show ?thesis using step receive by (intro exI [of _ pieces']) (simp add: deliver_Cons)
  next
    case False
    define rest0 where "rest0 = drop (length (responseBytes r)) (m_buffer ?c)"
    have split: "m_buffer ?c = responseBytes r @ rest0" "rest0 @ concat pieces = rest"
    proof -
      have "take (length (responseBytes r)) (m_buffer ?c) = responseBytes r"
        using arg_cong [OF whole, of "take (length (responseBytes r))"] False by simp
      then show first: "m_buffer ?c = responseBytes r @ rest0" unfolding rest0_def by (metis append_take_drop_id)
      show "rest0 @ concat pieces = rest" using whole unfolding first by simp
    qed
    have h: "readServerHandshake env (m_buffer ?c) (m_handshake ?c) (framerOf ?c) = (int (length (responseBytes r)), hs, framer)"
      unfolding split(1) fields by (rule readServerHandshake_opens [OF Cons.prems(2,3,4)])
    have "0 < length (responseBytes r)" by (simp add: responseBytes_def)
    moreover have "skipBuffer (length (responseBytes r)) (setFramer framer (?c\<lparr>m_handshake := hs\<rparr>)) =
        Done (setFramer framer (?c\<lparr>m_handshake := hs, m_buffer := rest0\<rparr>))"
      using split(1) by (simp add: skipBuffer_def setFramer_fields)
    moreover have "setFramer framer (?c\<lparr>m_handshake := hs, m_buffer := rest0\<rparr>)\<lparr>m_calls := m_calls c @ [DidConnect]\<rparr> =
        opened hs framer c\<lparr>m_buffer := rest0\<rparr>"
      by (cases c) (simp add: opened_def setFramer_fields ext_def)
    ultimately have loop: "receiveLoop env ?c = receiveLoop env (opened hs framer c\<lparr>m_buffer := rest0\<rparr>)"
      using handshaking_round [OF c buffer(1) h] openedBy_mode [OF Cons.prems(3)]
      by (simp add: setFramer_fields(3)) (simp add: ext_def)
    show ?thesis
    proof (cases "rest0 = []")
      case True
      have idle: "receiveLoop env (opened hs framer c) = Done (opened hs framer c)" by (intro receiveLoop_idle) (simp add: reading_def)
      have same: "opened hs framer c\<lparr>m_buffer := []\<rparr> = opened hs framer c"
        by (cases "opened hs framer c") (use opened_fields(1) [of hs framer c] in simp)
      have "deliver env (piece # pieces) c = deliver env pieces (opened hs framer c)"
        unfolding deliver_Cons receive loop True same idle by simp
      then show ?thesis using split(2) True nonempty(2) by auto
    next
      case Rest: False
      have session: "session None (opened hs framer c)" by (rule opened_session [OF Cons.prems(1) openedBy_mode [OF Cons.prems(3)]])
      then have conn: "connected (opened hs framer c)" and live: "m_client (opened hs framer c)" "\<not> m_shouldDiscardReceivedData (opened hs framer c)"
        by (simp_all add: session_def connected_def)
      have "length (concat (piece # pieces)) + length (m_buffer c) = length (responseBytes r) + length rest"
        using arg_cong [OF Cons.prems(8), of length] by simp
      then have "room env (length rest0) (opened hs framer c)"
        using Cons.prems(6,7) arg_cong [OF split(2), of length] by (simp add: room_def)
      from didReceive_room [OF Rest conn this]
      have "didReceiveSocketStreamData env rest0 (opened hs framer c) = receiveLoop env (ext rest0 (opened hs framer c))"
        using live by simp
      moreover have "ext rest0 (opened hs framer c) = opened hs framer c\<lparr>m_buffer := rest0\<rparr>" by (simp add: ext_def)
      ultimately have "deliver env (piece # pieces) c = deliver env (rest0 # pieces) (opened hs framer c)"
        using receive loop by (simp add: deliver_Cons)
      then show ?thesis using split(2) Rest nonempty(2) by (intro exI [of _ "rest0 # pieces"]) auto
    qed
  qed
qed

lemma handshake_incomplete:
  assumes "handshaking c" and "wellFormedResponse r" and "[] \<notin> set pieces" and "room env (length (concat pieces)) c"
    and "length (m_buffer c) + length (concat pieces) < length (responseBytes r)" and "m_buffer c @ concat pieces = take n (responseBytes r)"
  shows "\<exists>hs. deliver env pieces c = Done (c\<lparr>m_handshake := hs, m_buffer := m_buffer c @ concat pieces\<rparr>) \<and>
     (pieces \<noteq> [] \<longrightarrow> waiting (m_handshake c) hs)"
  using assms
proof (induction pieces arbitrary: c)
  case Nil
  then show ?case by (intro exI [of _ "m_handshake c"]) simp
next
  case (Cons piece pieces)
  have nonempty: "piece \<noteq> []" "[] \<notin> set pieces" using Cons.prems(3) by auto
  have space: "room env (length piece) c" using Cons.prems(4) by (simp add: room_def)
  let ?c = "ext piece c"
  let ?k = "length (m_buffer ?c)"
  have c: "handshaking ?c" using Cons.prems(1) by (simp add: handshaking_def ext_def writable_def holds_fragments_def)
  have buffer: "m_buffer ?c \<noteq> []" "m_buffer ?c = m_buffer c @ piece" and fields: "m_handshake ?c = m_handshake c"
    using nonempty(1) by (simp_all add: ext_def)
  have "?k < length (responseBytes r)" using Cons.prems(5) buffer(2) by simp
  moreover have "m_buffer ?c = take ?k (responseBytes r)"
  proof -
    have "?k \<le> n" using arg_cong [OF Cons.prems(6), of length] Cons.prems(5) buffer(2) by simp
    moreover have "m_buffer ?c = take ?k (m_buffer c @ concat (piece # pieces))" using buffer(2) by simp
    ultimately show ?thesis unfolding Cons.prems(6) by (simp add: min_def)
  qed
  ultimately obtain hs1 where h: "readServerHandshake env (m_buffer ?c) (m_handshake ?c) (framerOf ?c) = (-1, hs1, framerOf ?c)"
    and w: "waiting (m_handshake ?c) hs1"
    using response_prefix_waits [OF Cons.prems(2)] by metis
  let ?w = "?c\<lparr>m_handshake := hs1\<rparr>"
  have step: "didReceiveSocketStreamData env piece c = Done ?w"
    using receive_handshaking [OF Cons.prems(1) nonempty(1) space] handshaking_round [OF c buffer(1) h] handshaking_waits(2) [OF c w refl] by simp
  have w': "handshaking ?w" using handshaking_waits [OF c w refl] by simp
  have "room env (length (concat pieces)) ?w" "length (m_buffer ?w) + length (concat pieces) < length (responseBytes r)"
    "m_buffer ?w @ concat pieces = take n (responseBytes r)"
    using Cons.prems(4-6) buffer(2) by (simp_all add: room_def)
  from Cons.IH [OF w' Cons.prems(2) nonempty(2) this] obtain hs2 where
    d: "deliver env pieces ?w = Done (?w\<lparr>m_handshake := hs2, m_buffer := m_buffer ?w @ concat pieces\<rparr>)"
    "pieces \<noteq> [] \<longrightarrow> waiting (m_handshake ?w) hs2" by blast
  have "waiting (m_handshake c) (if pieces = [] then hs1 else hs2)"
    using w d(2) waiting_trans [of "m_handshake c" hs1 hs2] fields by auto
  moreover have "hs2 = hs1" if "pieces = []" using d(1) that by (cases c) (auto simp: ext_def)
  ultimately have "waiting (m_handshake c) hs2" by (cases "pieces = []") auto
  moreover have "?w\<lparr>m_handshake := hs2, m_buffer := m_buffer ?w @ concat pieces\<rparr> =
      c\<lparr>m_handshake := hs2, m_buffer := m_buffer c @ concat (piece # pieces)\<rparr>" by (simp add: ext_def)
  ultimately show ?case using step d(1) by (intro exI [of _ hs2]) (simp add: deliver_Cons)
qed

section \<open>No connection without a response\<close>

text \<open>Failing reports no connection.\<close>

definition silent :: "'z WebSocketChannel \<Rightarrow> 'z WebSocketChannel \<Rightarrow> bool" where
  "silent c c' \<longleftrightarrow> (DidConnect \<in> set (m_calls c') \<longrightarrow> DidConnect \<in> set (m_calls c))"

lemma silent_trans: "silent a b \<Longrightarrow> silent b c \<Longrightarrow> silent a c"
  by (simp add: silent_def)

lemma silent_didCloseRest: "didCloseRest c = Done c' \<Longrightarrow> silent c c'"
  by (cases "m_handle c"; cases "m_suspended c"; cases "m_client c") (auto simp: didCloseRest_def silent_def Let_def)

lemma silent_fail:
  "fail env reason c = Done c' \<Longrightarrow> silent c c'"
  "disconnectHandle env c = Done c' \<Longrightarrow> silent c c'"
  "didCloseSocketStream env c = Done c' \<Longrightarrow> silent c c'"
  "abortOutgoingFrameQueue env c = Done c' \<Longrightarrow> silent c c'"
  "didFail env e c = Done c' \<Longrightarrow> silent c c'"
proof (induction env reason c and env c and env c and env c and env e c arbitrary: c' and c' and c' and c' and c'
    rule: fail_disconnectHandle_didCloseSocketStream_abortOutgoingFrameQueue_didFail.induct)
  case (1 env reason c)
  then obtain x where x: "callClient DidReceiveMessageError (failedChannel env reason c) = Done x"
    and rest: "(if m_handle x \<noteq> None \<and> \<not> m_closed x then disconnectHandle env x else Done x) = Done c'"
    by (auto simp: fail.simps [of env reason c] obind_Done_iff)
  have "m_calls (failedChannel env reason c) = m_calls c"
    by (simp add: failedChannel_def didFail_framer_def resetInflateContext_def resetDeflateContext_def Let_def)
  then have "silent c x" using x by (auto simp: callClient_Done silent_def)
  moreover have "silent x c'" using 1(1) [OF x] rest by (auto simp: silent_def split: if_splits)
  ultimately show ?case by (rule silent_trans)
next
  case (2 env c)
  show ?case
  proof (cases "m_handle c")
    case None
    then show ?thesis using 2(3) by (simp add: disconnectHandle.simps [of env c])
  next
    case (Some h)
    show ?thesis
      using 2 Some by (auto simp: disconnectHandle.simps [of env c] obind_Done_iff silent_def setHandleState_def split: if_splits)
  qed
next
  case (3 env c)
  let ?c = "c\<lparr>m_closed := True, m_closingTimer := False\<rparr>"
  obtain x where x: "(if m_outgoingFrameQueueStatus ?c \<noteq> OutgoingFrameQueueClosed then abortOutgoingFrameQueue env ?c else Done ?c) = Done x"
    and rest: "didCloseRest x = Done c'"
    using 3(2) by (auto simp: didCloseSocketStream.simps [of env c] obind_Done_iff Let_def)
  have "silent ?c x" using 3(1) x by (auto simp: silent_def split: if_splits)
  moreover have "silent c ?c" by (simp add: silent_def)
  ultimately show ?case using silent_didCloseRest [OF rest] silent_trans by blast
next
  case (4 env c)
  have "silent c (c\<lparr>m_outgoingFrameQueue := [], m_outgoingFrameQueueStatus := OutgoingFrameQueueClosed\<rparr>)"
    by (simp add: silent_def)
  then show ?case using 4 by (auto simp: abortOutgoingFrameQueue.simps [of env c] Let_def intro: silent_trans split: if_splits)
next
  case (5 env e c)
  have "silent c (c\<lparr>m_blobLoaderStatus := BlobLoaderFailed\<rparr>)" by (simp add: silent_def)
  then show ?case using 5 by (auto simp: didFail.simps [of env e c] intro: silent_trans)
qed

lemma discarding_delivered:
  assumes "m_shouldDiscardReceivedData c" and "m_client c = m_document c" and "[] \<notin> set pieces"
  shows "deliver env pieces c = Done c"
  using assms(3)
proof (induction pieces)
  case (Cons piece pieces)
  then have "didReceiveSocketStreamData env piece c = Done c"
    using assms(1,2) by (auto simp: didReceiveSocketStreamData_def)
  then show ?case using Cons by (simp add: deliver_Cons)
qed simp

lemma connects_only:
  assumes "handshaking c" and "[] \<notin> set pieces" and "room env (length (concat pieces)) c"
    and "length (m_buffer c) + length (concat pieces) < 2 ^ 31"
    and "deliver env pieces c = Done c'" and "DidConnect \<in> set (m_calls c')" and "DidConnect \<notin> set (m_calls c)"
  shows "\<exists>r rest. wellFormedResponse r \<and> m_buffer c @ concat pieces = responseBytes r @ rest \<and>
     openedBy env r (m_handshake c) (framerOf c) \<noteq> None"
  using assms
proof (induction pieces arbitrary: c)
  case Nil
  then show ?case by simp
next
  case (Cons piece pieces)
  have nonempty: "piece \<noteq> []" "[] \<notin> set pieces" using Cons.prems(2) by auto
  have space: "room env (length piece) c" using Cons.prems(3) by (simp add: room_def)
  let ?c = "ext piece c"
  have c: "handshaking ?c" using Cons.prems(1) by (simp add: handshaking_def ext_def writable_def holds_fragments_def)
  have buffer: "m_buffer ?c \<noteq> []" "m_buffer ?c = m_buffer c @ piece" "length (m_buffer ?c) < 2 ^ 31"
    and fields: "m_handshake ?c = m_handshake c" "framerOf ?c = framerOf c" "m_calls ?c = m_calls c"
    using nonempty(1) Cons.prems(4) by (simp_all add: ext_def framerOf_def)
  obtain x where x: "receiveLoop env ?c = Done x" "deliver env pieces x = Done c'"
    using Cons.prems(5) receive_handshaking [OF Cons.prems(1) nonempty(1) space] by (auto simp: deliver_Cons obind_Done_iff)
  obtain n hs framer where h: "readServerHandshake env (m_buffer ?c) (m_handshake ?c) (framerOf ?c) = (n, hs, framer)" by (rule prod_cases3)
  note round = handshaking_round [OF c buffer(1) h]
  consider (wait) "n \<le> 0" | (connect) "0 < n" "hs_mode hs = HandshakeConnected" | (failed) "0 < n" "hs_mode hs \<noteq> HandshakeConnected" by linarith
  then show ?case
  proof cases
    case wait
    have w: "waiting (m_handshake ?c) hs" "framer = framerOf ?c"
      using readServerHandshake_waits [OF h wait buffer(1,3)] by simp_all
    let ?w = "?c\<lparr>m_handshake := hs\<rparr>"
    have x': "x = ?w" using round wait x(1) handshaking_waits(2) [OF c w] by simp
    have w': "handshaking ?w" using handshaking_waits [OF c w] by simp
    have more: "room env (length (concat pieces)) ?w" "length (m_buffer ?w) + length (concat pieces) < 2 ^ 31"
      "DidConnect \<notin> set (m_calls ?w)"
      using Cons.prems(3,4,7) buffer(2) fields(3) by (simp_all add: room_def)
    from Cons.IH [OF w' nonempty(2) more(1,2) x(2) [unfolded x'] Cons.prems(6) more(3)] obtain r rest where
      r: "wellFormedResponse r" "m_buffer ?w @ concat pieces = responseBytes r @ rest"
      "openedBy env r (m_handshake ?w) (framerOf ?w) \<noteq> None" by blast
    have "framerOf ?w = framerOf c" by (simp add: framerOf_def ext_def)
    then have "openedBy env r (m_handshake c) (framerOf c) \<noteq> None"
      using r(3) openedBy_waiting [OF w(1), of env r "framerOf c"] fields(1) by simp
    then show ?thesis using r(1,2) buffer(2) by (intro exI [of _ r] exI [of _ rest]) simp
  next
    case connect
    from readServerHandshake_only [OF h connect(2) buffer(3)] obtain r rest where
      "wellFormedResponse r" "m_buffer ?c = responseBytes r @ rest" "openedBy env r (m_handshake ?c) (framerOf ?c) = Some (hs, framer)" by blast
    then show ?thesis using buffer(2) fields by (intro exI [of _ r] exI [of _ "rest @ concat pieces"]) simp
  next
    case failed
    obtain y where y: "skipBuffer (nat n) (setFramer framer (?c\<lparr>m_handshake := hs\<rparr>)) = Done y"
      and f: "fail env (hs_failureReason hs) (y\<lparr>m_shouldDiscardReceivedData := True\<rparr>) = Done x"
      using x(1) round failed by (auto simp: obind_Done_iff)
    have y': "m_calls y = m_calls c" "m_client y = m_document y"
      using y c fields(3) by (auto simp: skipBuffer_Done setFramer_fields handshaking_def)
        (simp_all add: setFramer_def split: option.splits prod.splits)
    have "quiet (y\<lparr>m_shouldDiscardReceivedData := True\<rparr>) x" using settles_fail(1) [OF f] by (simp add: settles_def)
    then have "m_shouldDiscardReceivedData x" "m_client x = m_document x" using y'(2) by (auto simp: quiet_def)
    from discarding_delivered [OF this nonempty(2), of env] x(2) have "x = c'" by simp
    then have "DidConnect \<in> set (m_calls y)" using silent_fail(1) [OF f] Cons.prems(6) by (simp add: silent_def)
    then show ?thesis using y'(1) Cons.prems(7) by simp
  qed
qed

end
