(* ===== verification/WebSocket_Theorems.thy ===== *)
theory WebSocket_Theorems
  imports WebSocket_Opening
begin

text \<open>
  The properties of WebSocket frames and of the channel that receives them.
\<close>

section \<open>Frames\<close>

text \<open>
  C36. A frame that \<open>makeFrameData\<close> writes, with whatever masking key, is read back by \<open>parseFrame\<close>: every
  field but the reserved bits, which are not written; the end of the frame is where its bytes end, and
  the bytes after it are left alone. A proper prefix is incomplete and never an error, and once the
  outcome for a buffer is not \<open>FrameIncomplete\<close>, more bytes do not change it.
\<close>

theorem frame_roundtrip:
  assumes "length key = 4" and "fittingFrame sizeMax f"
  shows "parseFrame sizeMax (makeFrameData key f @ rest) f0 =
       \<lparr>parseResult = FrameOK,
        parsedData = take (length (makeFrameData key f) - length (payload f)) (makeFrameData key f) @ payload f @ rest,
        parsedFrame = f\<lparr>reserved2 := False, reserved3 := False\<rparr>,
        parsedEnd = Some (length (makeFrameData key f)), parsedError = None\<rparr> \<and>
     length (makeFrameData key f) =
       (if payloadLength f \<le> 125 then 2 else if payloadLength f \<le> 0xFFFF then 4 else 10) +
       (if masked f then 4 else 0) + length (payload f) \<and>
     (\<forall>n<length (makeFrameData key f). parseResult (parseFrame sizeMax (take n (makeFrameData key f)) f0) = FrameIncomplete) \<and>
     (\<forall>data ys. parseResult (parseFrame sizeMax data f0) \<noteq> FrameIncomplete \<longrightarrow>
        parseFrame sizeMax (data @ ys) f0 =
          (parseFrame sizeMax data f0)\<lparr>parsedData := parsedData (parseFrame sizeMax data f0) @ ys\<rparr>)"
proof -
  have fits: "payloadLength f = length (payload f)" using assms(2) by (simp add: fittingFrame_def)
  have len: "length (makeFrameData key f) =
       (if payloadLength f \<le> 125 then 2 else if payloadLength f \<le> 0xFFFF then 4 else 10) +
       (if masked f then 4 else 0) + length (payload f)"
    unfolding makeFrameData_shape [OF assms(1) fits] length_append length_frameHeader headerLength_def
    using assms(1) by simp
  show ?thesis
    using parse_made [OF assms, of rest f0] len made_prefix [OF assms, of _ f0] parseFrame_append [of sizeMax _ f0] by blast
qed

definition helloFrame :: WebSocketFrame where
  "helloFrame = newFrame OpCodeText True False True [0x48, 0x69] 2"

theorem frame_roundtrip_witness:
  "parsedFrame (parseFrame 0xFFFFFFFF (makeFrameData [1, 2, 3, 4] helloFrame @ [7]) (newFrame 0 False False False [] 0)) =
     helloFrame"
proof -
  have "fittingFrame 0xFFFFFFFF helloFrame"
    by (simp add: fittingFrame_def helloFrame_def newFrame_def maxPayloadLength_def frameSizes frameBits opCodes)
  then have "parsedFrame (parseFrame 0xFFFFFFFF (makeFrameData [1, 2, 3, 4] helloFrame @ [7]) (newFrame 0 False False False [] 0)) =
      helloFrame\<lparr>reserved2 := False, reserved3 := False\<rparr>"
    using frame_roundtrip [where key = "[1, 2, 3, 4]" and sizeMax = "0xFFFFFFFF" and f = helloFrame and rest = "[7]"] by simp
  then show ?thesis by (simp add: helloFrame_def newFrame_def)
qed

section \<open>Receiving\<close>

text \<open>
  C37. How the network cuts its data does not matter: two ways of cutting the same bytes lead a connected
  channel to the same calls, console messages, state and outgoing data, or both to undefined behaviour
  (up to the unread buffer of a channel that has closed), whatever the bytes are; and what waits in
  the buffer at the end is no complete frame.
\<close>

theorem pieces_do_not_matter:
  assumes "connected c" and "room env (length (concat pieces)) c" and "pieces \<noteq> []"
    and "[] \<notin> set pieces" and "[] \<notin> set pieces'" and "concat pieces' = concat pieces"
  shows "observe (deliver env pieces c) = observe (deliver env pieces' c) \<and>
     (\<forall>x. deliver env pieces c = Done x \<and> \<not> m_suspended x \<and> m_client x \<and> m_buffer x \<noteq> [] \<longrightarrow>
        m_shouldDiscardReceivedData x \<or> parseResult (parseOf env (m_buffer x)) = FrameIncomplete)"
proof -
  let ?whole = "didReceiveSocketStreamData env (concat pieces) c"
  have all: "concat pieces \<noteq> []" using assms(3,4) by (cases pieces) auto
  then have "pieces' \<noteq> []" using assms(6) by auto
  then have same: "observe (deliver env pieces c) = observe ?whole" "observe (deliver env pieces' c) = observe ?whole"
    using deliver_concat [OF assms(3,4,1,2)] deliver_concat [OF _ assms(5,1), of env] assms(2,6) by simp_all
  moreover have "m_shouldDiscardReceivedData x \<or> parseResult (parseOf env (m_buffer x)) = FrameIncomplete"
    if x: "deliver env pieces c = Done x" "reading x" for x
  proof -
    obtain w where w: "?whole = Done w" "observed x = observed w"
      using same(1) x(1) by (cases ?whole) (auto simp: observe_def)
    then have "w = x" using x(2) by (auto simp: observed_def reading_def split: if_splits)
    show ?thesis
    proof (cases "\<not> m_client c \<or> m_shouldDiscardReceivedData c")
      case True
      then have "x = c" using w(1) \<open>w = x\<close> by (simp add: didReceive_room [OF all assms(1,2)])
      then show ?thesis using True x(2) by (simp add: reading_def)
    next
      case False
      then have "receiveLoop env (ext (concat pieces) c) = Done x" "hs_mode (m_handshake (ext (concat pieces) c)) = HandshakeConnected"
        using w(1) \<open>w = x\<close> assms(1) by (simp_all add: didReceive_room [OF all assms(1,2)] connected_def)
      from receiveLoop_end [OF this] show ?thesis using x(2) by blast
    qed
  qed
  ultimately show ?thesis by (simp add: reading_def)
qed

text \<open>A channel just after the handshake, with a platform that takes all it is given.\<close>

definition exampleEnvironment :: "unit Environment" where
  "exampleEnvironment =
     \<lparr>largestSize = 0xFFFFFFFF, platformSend = (\<lambda>n bytes. int (length bytes)), maskingKey = (\<lambda>n. [1, 2, 3, of_nat n]),
      isUnicodeSpace = (\<lambda>c. c = 0x85 \<or> c = 0xA0), createDeflater = (\<lambda>windowBits contextTakeover. None), deflateBytes = (\<lambda>z bytes. (z, None)),
      inflateBytes = (\<lambda>z bytes. (z, None)), resetDeflater = (\<lambda>z. z), resetInflater = (\<lambda>z. z)\<rparr>"

definition exampleHandshake :: WebSocketHandshake where
  "exampleHandshake =
     \<lparr>hs_mode = HandshakeConnected, hs_clientProtocol = [], hs_expectedAccept = ascii ''s3pPLMBiTxaQ9kYGzzhZRbK+xOo='',
      hs_statusCode = 101, hs_statusText = [], hs_headers = [], hs_failureReason = [],
      hs_processors = [\<lparr>p_responseProcessed = False, p_failureReason = []\<rparr>], hs_acceptedExtensions = []\<rparr>"

definition exampleChannel :: "unit WebSocketChannel" where
  "exampleChannel =
     \<lparr>m_document = True, m_client = True, m_calls = [DidConnect], m_consoleMessages = [], m_handshake = exampleHandshake,
      m_handle = Some \<lparr>h_state = Open, h_connectingSubstate = Connected, h_streams = True, h_buffer = [], h_sends = 0, h_written = []\<rparr>,
      m_buffer = [], m_resumeTimer = False, m_suspended = False, m_closing = False, m_receivedClosingHandshake = False,
      m_closingTimer = False, m_closed = False, m_shouldDiscardReceivedData = False, m_unhandledBufferedAmount = 0,
      m_hasContinuousFrame = False, m_continuousFrameOpCode = 0, m_continuousFrameData = [],
      m_closeEventCode = CloseEventCodeAbnormalClosure, m_closeEventReason = None, m_outgoingFrameQueue = [],
      m_outgoingFrameQueueStatus = OutgoingFrameQueueOpen, m_blobLoaderStatus = BlobLoaderNotStarted, m_blobResult = [],
      m_framesSent = 0, m_deflateEnabled = False, m_deflater = (), m_inflater = ()\<rparr>"

theorem pieces_do_not_matter_witness:
  "observe (deliver exampleEnvironment [[0x81], [1, 0x41]] exampleChannel) =
     observe (deliver exampleEnvironment [[0x81, 1], [0x41]] exampleChannel)"
proof -
  have "connected exampleChannel" "room exampleEnvironment n exampleChannel \<longleftrightarrow> n \<le> 0xFFFFFFFF" for n
    by (simp_all add: connected_def room_def exampleChannel_def exampleHandshake_def exampleEnvironment_def)
  then show ?thesis
    using pieces_do_not_matter [of exampleChannel exampleEnvironment "[[0x81], [1, 0x41]]" "[[0x81, 1], [0x41]]"] by simp
qed

text \<open>What \<open>receiveLoop\<close> does with all the bytes at once is what it does with the pieces.\<close>

lemma deliver_loop:
  assumes "session fragments c" and "pieces \<noteq> []" and "[] \<notin> set pieces" and "room env (length (concat pieces)) c"
    and "receiveLoop env (ext (concat pieces) c) = Done x"
  shows "\<exists>y. deliver env pieces c = Done y \<and> observed y = observed x"
proof -
  have conn: "connected c" and live: "m_client c" "\<not> m_shouldDiscardReceivedData c"
    using assms(1) by (simp_all add: session_def connected_def)
  have "concat pieces \<noteq> []" using assms(2,3) by (cases pieces) auto
  then have "observe (deliver env pieces c) = observe (receiveLoop env (ext (concat pieces) c))"
    using deliver_concat [OF assms(2,3) conn assms(4)] live by (simp add: didReceive_room [OF _ conn assms(4)])
  then show ?thesis using assms(5) by (cases "deliver env pieces c") (auto simp: observe_def)
qed

lemma frames_delivered:
  assumes "takesAll env" and "session fragments c" and "m_buffer c = []"
    and "\<forall>f\<in>set frames. serverFrame env f" and "receiveFrames fragments frames = Some r"
    and "pieces \<noteq> []" and "[] \<notin> set pieces" and "room env (length (concat pieces)) c"
    and "concat pieces = wireBytes frames @ rest"
  shows "\<exists>c1. receiveLoop env (ext (concat pieces) c) = receiveLoop env c1 \<and> session (r_fragments r) c1 \<and> m_buffer c1 = rest \<and>
     m_calls c1 = m_calls c @ r_calls r \<and> written c1 = written c @ pongBytes env (m_framesSent c) (r_pongs r)"
proof -
  let ?c = "ext (concat pieces) c"
  have c: "session fragments ?c" using assms(2) unfolding ext_def by (simp add: session_skip)
  have same: "m_calls ?c = m_calls c" "written ?c = written c" "m_framesSent ?c = m_framesSent c" "m_buffer ?c = concat pieces"
    using assms(3) by (simp_all add: ext_def written_def)
  obtain c1 where "receiveLoop env ?c = receiveLoop env c1" "follows env r rest ?c c1"
    using frames_follow [OF assms(1) c assms(4,5), of rest] same(4) assms(9) by auto
  then show ?thesis using same by (auto simp: follows_def)
qed

text \<open>The frames of \<open>frames_delivered\<close> and no more; and a close frame after them.\<close>

lemma all_frames:
  assumes "takesAll env" and "session fragments c" and "m_buffer c = []"
    and "\<forall>f\<in>set frames. serverFrame env f" and "receiveFrames fragments frames = Some r"
    and "pieces \<noteq> []" and "[] \<notin> set pieces" and "room env (length (concat pieces)) c"
    and bytes: "concat pieces = wireBytes frames"
  shows "\<exists>c'. deliver env pieces c = Done c' \<and> session (r_fragments r) c' \<and> m_buffer c' = [] \<and>
     m_calls c' = m_calls c @ r_calls r \<and> written c' = written c @ pongBytes env (m_framesSent c) (r_pongs r)"
proof -
  obtain c' where c': "receiveLoop env (ext (concat pieces) c) = receiveLoop env c'" "session (r_fragments r) c'" "m_buffer c' = []"
    "m_calls c' = m_calls c @ r_calls r" "written c' = written c @ pongBytes env (m_framesSent c) (r_pongs r)"
    using frames_delivered [OF assms(1-8), of "[]"] bytes by auto
  have "receiveLoop env c' = Done c'" using c'(3) by (intro receiveLoop_idle) (simp add: reading_def)
  then obtain y where y: "deliver env pieces c = Done y" "observed y = observed c'"
    using deliver_loop [OF assms(2) assms(6-8)] c'(1) by metis
  have "m_client c'" using c'(2) by (simp add: session_def)
  then have "y = c'" using y(2) by (auto simp: observed_def split: if_splits)
  then show ?thesis using y(1) c'(2-5) by blast
qed

lemma frames_and_close:
  assumes "takesAll env" and "session fragments c" and "m_buffer c = []"
    and "\<forall>f\<in>set frames. serverFrame env f" and "receiveFrames fragments frames = Some r"
    and "pieces \<noteq> []" and "[] \<notin> set pieces" and "room env (length (concat pieces)) c"
    and f: "serverFrame env f" "opCode f = OpCodeClose" "closeCode f = Inr code" and bytes: "concat pieces = wireBytes (frames @ [f])"
  shows "\<exists>c'. deliver env pieces c = Done c' \<and> m_handle c' = None \<and> \<not> m_client c' \<and>
     m_calls c' = m_calls c @ r_calls r @ [DidStartClosingHandshake, DidClose 0 True code (closeReason f)]"
proof -
  obtain c1 where c1: "receiveLoop env (ext (concat pieces) c) = receiveLoop env c1" "session (r_fragments r) c1"
    "m_buffer c1 = wireBytes [f]" "m_calls c1 = m_calls c @ r_calls r"
    using frames_delivered [OF assms(1-8), of "wireBytes [f]"] bytes by (auto simp: wireBytes_def)
  obtain x where x: "receiveLoop env c1 = Done x" "\<not> m_client x" "m_handle x = None"
    "m_calls x = m_calls c1 @ [DidStartClosingHandshake, DidClose 0 True code (closeReason f)]"
    using closing_session [OF assms(1) f c1(2,3)] by auto
  then obtain y where y: "deliver env pieces c = Done y" "observed y = observed x"
    using deliver_loop [OF assms(2) assms(6-8)] c1(1) by metis
  have "m_client (observed z) = m_client z" "m_handle (observed z) = m_handle z" "m_calls (observed z) = m_calls z" for z :: "'a WebSocketChannel"
    by (simp_all add: observed_def)
  then have "m_client y = m_client x" "m_handle y = m_handle x" "m_calls y = m_calls x" using y(2) by metis+
  then show ?thesis using y(1) x c1(4) by auto
qed

text \<open>
  C38. A session in good order, of uncompressed frames over a socket that takes all that is written:
  whatever frames a server sends that make sense to the receiver of \<open>receiveFrames\<close>, however fragmented, with pings and pongs in between and cut into whatever pieces, the
  client is told the messages of the receiver, in order, each ping is answered by a masked pong with
  its payload, and the channel is ready for more; and when a valid close frame follows, the client is
  told of a clean close with its code and reason, and the connection is released.
\<close>

theorem messages_delivered:
  assumes "takesAll env" and "session fragments c" and "m_buffer c = []"
    and "\<forall>f\<in>set frames. serverFrame env f" and "receiveFrames fragments frames = Some r"
    and "pieces \<noteq> []" and "[] \<notin> set pieces" and "room env (length (concat pieces)) c"
  shows "(concat pieces = wireBytes frames \<longrightarrow>
       (\<exists>c'. deliver env pieces c = Done c' \<and> session (r_fragments r) c' \<and> m_buffer c' = [] \<and>
          m_calls c' = m_calls c @ r_calls r \<and> written c' = written c @ pongBytes env (m_framesSent c) (r_pongs r))) \<and>
     (\<forall>f code. serverFrame env f \<and> opCode f = OpCodeClose \<and> closeCode f = Inr code \<and>
         concat pieces = wireBytes (frames @ [f]) \<longrightarrow>
       (\<exists>c'. deliver env pieces c = Done c' \<and> m_handle c' = None \<and> \<not> m_client c' \<and>
          m_calls c' = m_calls c @ r_calls r @ [DidStartClosingHandshake, DidClose 0 True code (closeReason f)]))"
  using all_frames [OF assms] frames_and_close [OF assms] by blast

text \<open>The message \<open>Hi\<close> in two fragments with a ping in between, in pieces of one to six bytes.\<close>

definition exampleFrames :: "WebSocketFrame list" where
  "exampleFrames =
     [newFrame OpCodeText False False False [0x48] 1, newFrame OpCodePing True False False [7] 1,
      newFrame OpCodeContinuation True False False [0x69] 1]"

lemma exampleFrames_received:
  "\<forall>f\<in>set exampleFrames. serverFrame exampleEnvironment f"
  "receiveFrames None exampleFrames =
     Some \<lparr>r_fragments = None, r_calls = [DidReceiveMessage (String8 [0x48, 0x69])], r_pongs = [[7]]\<rparr>"
  "wireBytes exampleFrames = [1, 1, 0x48, 0x89, 1, 7, 0x80, 1, 0x69]"
proof -
  show "\<forall>f\<in>set exampleFrames. serverFrame exampleEnvironment f"
    by (simp add: exampleFrames_def serverFrame_def fittingFrame_def newFrame_def exampleEnvironment_def maxPayloadLength_def
        frameSizes frameBits opCodes isControlOpCode_def needsExtendedLengthField_def)
  show "receiveFrames None exampleFrames =
      Some \<lparr>r_fragments = None, r_calls = [DidReceiveMessage (String8 [0x48, 0x69])], r_pongs = [[7]]\<rparr>"
    by (simp add: exampleFrames_def receiveFrame_def newFrame_def opCodes endMessage_def messageCall_def decodeText_def
        String_fromUTF8_def isASCII_def)
  show "wireBytes exampleFrames = [1, 1, 0x48, 0x89, 1, 7, 0x80, 1, 0x69]"
    by (simp add: wireBytes_def exampleFrames_def makeFrameData_shape newFrame_def frameHeader_def Let_def frameSizes frameBits opCodes)
qed

theorem messages_delivered_witness:
  "\<exists>c'. deliver exampleEnvironment [[1], [1, 0x48, 0x89, 1, 7, 0x80], [1, 0x69]] exampleChannel = Done c' \<and>
     m_calls c' = [DidConnect, DidReceiveMessage (String8 [0x48, 0x69])] \<and> m_buffer c' = []"
proof -
  have env: "takesAll exampleEnvironment" by (simp add: takesAll_def exampleEnvironment_def)
  have c: "session None exampleChannel" "m_buffer exampleChannel = []" "m_calls exampleChannel = [DidConnect]"
    "room exampleEnvironment n exampleChannel \<longleftrightarrow> n \<le> 0xFFFFFFFF" for n
    by (simp_all add: session_def exampleChannel_def exampleHandshake_def writable_def holds_fragments_def room_def exampleEnvironment_def)
  show ?thesis
    using messages_delivered [OF env c(1,2) exampleFrames_received(1,2), of "[[1], [1, 0x48, 0x89, 1, 7, 0x80], [1, 0x69]]"]
      exampleFrames_received(3) c(3,4) by auto
qed

section \<open>Opening\<close>

text \<open>
  C33. The opening handshake: \<open>readServerHandshake\<close> ends in the mode \<open>Connected\<close> exactly for the bytes that
  begin with a well-formed response of status 101 that agrees with the client's offer: one value of
  \<open>Sec-WebSocket-Accept\<close>, the expected one; \<open>Upgrade\<close> and \<open>Connection\<close> as asked for; at most one
  subprotocol, and one that was offered; at most one list of extensions, which is negotiated. It then
  consumes the response and not a byte of what follows. What a well-formed response is, is said
  without the parsers; its fields must not be empty, which is the code's own demand.
\<close>

theorem handshake_accepts_exactly:
  assumes "length bytes < 2 ^ 31"
  shows "readServerHandshake env bytes hs framer = (n, hs', framer') \<and> hs_mode hs' = HandshakeConnected \<longleftrightarrow>
     (\<exists>r rest. wellFormedResponse r \<and> bytes = responseBytes r @ rest \<and> n = int (length (responseBytes r)) \<and>
        openedBy env r hs framer = Some (hs', framer'))"
proof
  assume "readServerHandshake env bytes hs framer = (n, hs', framer') \<and> hs_mode hs' = HandshakeConnected"
  then show "\<exists>r rest. wellFormedResponse r \<and> bytes = responseBytes r @ rest \<and> n = int (length (responseBytes r)) \<and>
        openedBy env r hs framer = Some (hs', framer')"
    using readServerHandshake_only assms by blast
next
  assume "\<exists>r rest. wellFormedResponse r \<and> bytes = responseBytes r @ rest \<and> n = int (length (responseBytes r)) \<and>
        openedBy env r hs framer = Some (hs', framer')"
  then obtain r rest where r: "wellFormedResponse r" "bytes = responseBytes r @ rest" "n = int (length (responseBytes r))"
    "openedBy env r hs framer = Some (hs', framer')" by blast
  then have "length (responseBytes r) < 2 ^ 31" using assms by simp
  then show "readServerHandshake env bytes hs framer = (n, hs', framer') \<and> hs_mode hs' = HandshakeConnected"
    using readServerHandshake_opens [OF r(1,4)] openedBy_mode [OF r(4)] r(2,3) by simp
qed

text \<open>The answer of RFC 6455 to the key of its example, and a channel that waits for it.\<close>

definition exampleResponse :: ServerResponse where
  "exampleResponse =
     \<lparr>s_version = asciiBytes ''HTTP/1.1'', s_text = asciiBytes ''Switching Protocols'',
      s_fields =
        [(asciiBytes ''Upgrade'', 1, asciiBytes ''websocket''), (asciiBytes ''Connection'', 1, asciiBytes ''Upgrade''),
         (asciiBytes ''Sec-WebSocket-Accept'', 1, asciiBytes ''s3pPLMBiTxaQ9kYGzzhZRbK+xOo='')]\<rparr>"

definition exampleOpening :: "unit WebSocketChannel" where
  "exampleOpening = exampleChannel\<lparr>m_calls := [], m_handshake := exampleHandshake\<lparr>hs_mode := HandshakeIncomplete\<rparr>\<rparr>"

lemma exampleResponse_accepted:
  "wellFormedResponse exampleResponse" "length (responseBytes exampleResponse) = 129"
  "\<exists>hs framer. openedBy exampleEnvironment exampleResponse (m_handshake exampleOpening) (framerOf exampleOpening) = Some (hs, framer)"
proof -
  show "wellFormedResponse exampleResponse" by code_simp
  show "length (responseBytes exampleResponse) = 129" by code_simp
  have "openedBy exampleEnvironment exampleResponse (m_handshake exampleOpening) (framerOf exampleOpening) \<noteq> None" by code_simp
  then show "\<exists>hs framer. openedBy exampleEnvironment exampleResponse (m_handshake exampleOpening) (framerOf exampleOpening) = Some (hs, framer)"
    by auto
qed

lemma exampleOpening_handshaking:
  "handshaking exampleOpening" "m_buffer exampleOpening = []" "m_calls exampleOpening = []"
  "room exampleEnvironment n exampleOpening \<longleftrightarrow> n \<le> 0xFFFFFFFF" "takesAll exampleEnvironment"
  by (simp_all add: handshaking_def exampleOpening_def exampleChannel_def exampleHandshake_def writable_def holds_fragments_def room_def
      exampleEnvironment_def takesAll_def)

theorem handshake_accepts_exactly_witness:
  "\<exists>hs' framer'. readServerHandshake exampleEnvironment (responseBytes exampleResponse @ [0x81, 0]) (m_handshake exampleOpening)
      (framerOf exampleOpening) = (129, hs', framer') \<and> hs_mode hs' = HandshakeConnected"
proof -
  have "length (responseBytes exampleResponse @ [0x81, 0]) < 2 ^ 31" using exampleResponse_accepted(2) by simp
  note exact = handshake_accepts_exactly [OF this, of exampleEnvironment "m_handshake exampleOpening" "framerOf exampleOpening" 129]
  obtain hs framer where "openedBy exampleEnvironment exampleResponse (m_handshake exampleOpening) (framerOf exampleOpening) = Some (hs, framer)"
    using exampleResponse_accepted(3) by blast
  then have "\<exists>r rest. wellFormedResponse r \<and> responseBytes exampleResponse @ [0x81, 0] = responseBytes r @ rest \<and>
      129 = int (length (responseBytes r)) \<and>
      openedBy exampleEnvironment r (m_handshake exampleOpening) (framerOf exampleOpening) = Some (hs, framer)"
    using exampleResponse_accepted(1,2) by (intro exI [of _ exampleResponse] exI [of _ "[0x81, 0]"]) simp
  then show ?thesis using exact by blast
qed

text \<open>
  C34. No connection without a valid response: if the client of a channel that waits for the response is
  told that it is connected, whatever bytes came from the network and however they were cut, then they
  began with a well-formed response that agrees with the offer.
\<close>

theorem connected_only_by_response:
  assumes "handshaking c" and "[] \<notin> set pieces" and "room env (length (concat pieces)) c"
    and "length (m_buffer c) + length (concat pieces) < 2 ^ 31"
    and "deliver env pieces c = Done c'" and "DidConnect \<in> set (m_calls c')" and "DidConnect \<notin> set (m_calls c)"
  shows "\<exists>r rest. wellFormedResponse r \<and> m_buffer c @ concat pieces = responseBytes r @ rest \<and>
     openedBy env r (m_handshake c) (framerOf c) \<noteq> None"
  by (rule connects_only [OF assms])

theorem connected_only_by_response_witness:
  "\<exists>c' r rest. deliver exampleEnvironment [responseBytes exampleResponse] exampleOpening = Done c' \<and> m_calls c' = [DidConnect] \<and>
     wellFormedResponse r \<and> responseBytes exampleResponse = responseBytes r @ rest"
proof -
  let ?pieces = "[responseBytes exampleResponse]"
  have some: "responseBytes exampleResponse \<noteq> []" by (simp add: responseBytes_def)
  obtain hs framer where o: "openedBy exampleEnvironment exampleResponse (m_handshake exampleOpening) (framerOf exampleOpening) = Some (hs, framer)"
    using exampleResponse_accepted(3) by blast
  obtain pieces' where "deliver exampleEnvironment ?pieces exampleOpening = deliver exampleEnvironment pieces' (opened hs framer exampleOpening)"
    "concat pieces' = []" "[] \<notin> set pieces'"
    using handshake_delivered [OF exampleOpening_handshaking(1) exampleResponse_accepted(1) o, of ?pieces "[]"]
      exampleResponse_accepted(2) some by (auto simp: exampleOpening_handshaking)
  then have d: "deliver exampleEnvironment ?pieces exampleOpening = Done (opened hs framer exampleOpening)" by (cases pieces') auto
  have "\<exists>r rest. wellFormedResponse r \<and> m_buffer exampleOpening @ concat ?pieces = responseBytes r @ rest \<and>
     openedBy exampleEnvironment r (m_handshake exampleOpening) (framerOf exampleOpening) \<noteq> None"
    by (rule connected_only_by_response [OF exampleOpening_handshaking(1) _ _ _ d])
      (use some exampleResponse_accepted(2) in \<open>simp_all add: exampleOpening_handshaking\<close>)
  then show ?thesis using d exampleOpening_handshaking(2,3) by auto
qed

text \<open>
  C35. From the first byte to the messages: while a response is incomplete, the channel keeps its bytes
  and tells the client nothing; when the whole of it has come and agrees with the offer, the client
  is told that it is connected, and of the messages in the frames that follow, however the network cuts
  the response and the frames, with no byte lost or read twice between them.
\<close>

theorem session_from_handshake:
  assumes "takesAll env" and "handshaking c" and "m_buffer c = []" and "wellFormedResponse r" and "length (responseBytes r) < 2 ^ 31"
    and "openedBy env r (m_handshake c) (framerOf c) = Some (hs, framer)"
    and "\<forall>f\<in>set frames. serverFrame env f" and "receiveFrames None frames = Some q"
    and "[] \<notin> set pieces" and "room env (length (concat pieces)) c"
  shows "(\<forall>n < length (responseBytes r). concat pieces = take n (responseBytes r) \<longrightarrow>
       (\<exists>hs1. deliver env pieces c = Done (c\<lparr>m_handshake := hs1, m_buffer := concat pieces\<rparr>))) \<and>
     (concat pieces = responseBytes r @ wireBytes frames \<longrightarrow>
       (\<exists>c'. deliver env pieces c = Done c' \<and> session (r_fragments q) c' \<and> m_buffer c' = [] \<and>
          m_calls c' = m_calls c @ DidConnect # r_calls q \<and> written c' = written c @ pongBytes env (m_framesSent c) (r_pongs q)))"
proof (intro conjI allI impI)
  fix n
  assume n: "n < length (responseBytes r)" "concat pieces = take n (responseBytes r)"
  then have "length (m_buffer c) + length (concat pieces) < length (responseBytes r)" using assms(3) by simp
  from handshake_incomplete [OF assms(2,4,9,10) this, of n] n(2) assms(3)
  show "\<exists>hs1. deliver env pieces c = Done (c\<lparr>m_handshake := hs1, m_buffer := concat pieces\<rparr>)" by auto
next
  assume bytes: "concat pieces = responseBytes r @ wireBytes frames"
  have start: "length (m_buffer c) < length (responseBytes r)" "m_buffer c @ concat pieces = responseBytes r @ wireBytes frames"
    using assms(3) bytes by (simp_all add: responseBytes_def)
  let ?o = "opened hs framer c"
  obtain pieces' where p: "deliver env pieces c = deliver env pieces' ?o" "concat pieces' = wireBytes frames" "[] \<notin> set pieces'"
    using handshake_delivered [OF assms(2,4,6,5,9,10) start] by blast
  have session: "session None ?o" by (rule opened_session [OF assms(2) openedBy_mode [OF assms(6)]])
  have space: "room env (length (concat pieces')) ?o" using assms(3,10) bytes p(2) by (simp add: room_def)
  show "\<exists>c'. deliver env pieces c = Done c' \<and> session (r_fragments q) c' \<and> m_buffer c' = [] \<and>
      m_calls c' = m_calls c @ DidConnect # r_calls q \<and> written c' = written c @ pongBytes env (m_framesSent c) (r_pongs q)"
  proof (cases "pieces' = []")
    case True
    have "frameHeader f \<noteq> []" for f by (simp add: frameHeader_def Let_def)
    then have "makeFrameData [0, 0, 0, 0] f \<noteq> []" if "serverFrame env f" for f
      using that by (simp add: serverFrame_def fittingFrame_def makeFrameData_shape)
    then have "frames = []" using True p(2) assms(7) by (cases frames) (auto simp: wireBytes_def)
    then have "q = \<lparr>r_fragments = None, r_calls = [], r_pongs = []\<rparr>" using assms(8) by simp
    then show ?thesis using True p(1) session by (intro exI [of _ ?o]) simp
  next
    case False
    from all_frames [OF assms(1) session _ assms(7,8) False p(3) space p(2)] p(1) show ?thesis by auto
  qed
qed

theorem session_from_handshake_witness:
  "\<exists>c'. deliver exampleEnvironment [take 40 (responseBytes exampleResponse), drop 40 (responseBytes exampleResponse) @ wireBytes exampleFrames]
      exampleOpening = Done c' \<and>
     m_calls c' = [DidConnect, DidReceiveMessage (String8 [0x48, 0x69])]"
proof -
  let ?pieces = "[take 40 (responseBytes exampleResponse), drop 40 (responseBytes exampleResponse) @ wireBytes exampleFrames]"
  obtain hs framer where o: "openedBy exampleEnvironment exampleResponse (m_handshake exampleOpening) (framerOf exampleOpening) = Some (hs, framer)"
    using exampleResponse_accepted(3) by blast
  have len: "length (responseBytes exampleResponse) < 2 ^ 31" "take 40 (responseBytes exampleResponse) \<noteq> []"
    "drop 40 (responseBytes exampleResponse) \<noteq> []"
    using exampleResponse_accepted(2) by auto
  show ?thesis
    using session_from_handshake [OF exampleOpening_handshaking(5,1,2) exampleResponse_accepted(1) len(1) o exampleFrames_received(1,2), of ?pieces]
      len(2,3) exampleFrames_received(3) exampleResponse_accepted(2) by (auto simp: exampleOpening_handshaking)
qed

section \<open>The edges of the handshake\<close>

text \<open>
  What the code does with responses that no server should send. A status line without an end is
  buffered, however long it is; a status code that has not three characters leaves the reason empty;
  a null byte among the fields hides the empty line behind it, so the response is never complete; a
  field without a value is called invalid UTF-8; and a quoted string that is empty is refused with the
  position left at its closing quote.
\<close>

lemma endless_status_line:
  assumes "0 \<notin> set header" and "0x0A \<notin> set header"
  shows "readStatusLine env header = (-1, -1, [], None)"
  using assms by (simp add: readStatusLine_def statusLoop_none)

lemma no_reason_for_short_code:
  "readStatusLine exampleEnvironment (asciiBytes ''HTTP/1.1 10 OK'' @ [0x0D, 0x0A]) = (16, -1, [], None)"
  by code_simp

lemma null_byte_hides_the_end: "\<not> hasBlankLine (0x58 # 0 # bytes)"
  by (simp add: blankLine_def)

lemma empty_value_refused:
  "parseHTTPHeader True (asciiBytes ''X:'' @ [0x0D, 0x0A, 0x0D, 0x0A]) =
     HeaderError (ascii ''Invalid UTF-8 sequence in header value'')"
  by code_simp

lemma quoted_failure_moves: "consumeQuotedString [0x22, 0x22, 0x2C] = (None, [0x22, 0x2C])"
  by code_simp

section \<open>Null pointers\<close>

text \<open>
  Three ways to a null pointer: disconnecting while a blob is loading, where the abort of the blob is
  reported to a client that has just been dropped; failing to compress a frame, which is reported
  twice; and failing to send the reply to a close frame, after which the handle is gone.
\<close>

lemma disconnect_while_loading:
  assumes "m_handle c = Some h" and "h_streams h" and "m_blobLoaderStatus c = BlobLoaderStarted"
    and "m_outgoingFrameQueueStatus c \<noteq> OutgoingFrameQueueClosed"
  shows "disconnect env c = Undef"
  using assms
  by (simp add: disconnect_def disconnectHandle.simps didCloseSocketStream.simps abortOutgoingFrameQueue.simps didFail.simps
      fail.simps callClient_def)

lemma failure_closes:
  assumes "m_handle c = Some h" and "h_streams h" and "m_client c" and "\<not> m_closed c" and "\<not> m_suspended c"
    and "m_outgoingFrameQueueStatus c = OutgoingFrameQueueOpen" and "m_blobLoaderStatus c = BlobLoaderNotStarted"
  shows "\<exists>c'. fail env reason c = Done c' \<and> \<not> m_client c' \<and> m_handle c' = None"
proof -
  have kept: "m_suspended (failedChannel env reason c) = m_suspended c"
    "m_outgoingFrameQueueStatus (failedChannel env reason c) = m_outgoingFrameQueueStatus c"
    "m_blobLoaderStatus (failedChannel env reason c) = m_blobLoaderStatus c"
    by (simp_all add: failedChannel_def didFail_framer_def resetInflateContext_def resetDeflateContext_def Let_def)
  show ?thesis
    using assms
    by (simp add: kept fail.simps callClient_def disconnectHandle.simps didCloseSocketStream.simps
        abortOutgoingFrameQueue.simps didCloseRest_def setHandleState_def)
qed

lemma failed_compression:
  assumes "m_handle c = Some h" and "h_streams h" and "m_client c" and "\<not> m_closed c" and "\<not> m_suspended c"
    and "m_outgoingFrameQueueStatus c = OutgoingFrameQueueOpen" and "m_blobLoaderStatus c = BlobLoaderNotStarted"
    and "m_deflateEnabled c" and "isNonControlOpCode code" and "data \<noteq> []"
    and "snd (deflateBytes env (m_deflater c) data) = None"
  shows "sendOrFail env code data c = Undef"
proof -
  obtain z where z: "deflateBytes env (m_deflater c) data = (z, None)" using assms(11) by (cases "deflateBytes env (m_deflater c) data") auto
  obtain c' where c': "fail env (ascii ''Failed to compress frame'') (c\<lparr>m_deflater := z\<rparr>) = Done c'" "\<not> m_client c'"
    using failure_closes [of "c\<lparr>m_deflater := z\<rparr>" h env "ascii ''Failed to compress frame''"] assms by auto
  have "m_client (resetDeflateContext env c') = m_client c'" by (simp add: resetDeflateContext_def)
  then show ?thesis
    using assms(8-10) z c' by (simp add: sendOrFail_def sendFrame_def deflateFrame_def newFrame_def Let_def fail.simps callClient_def)
qed

lemma lost_close_reply:
  "receivedClose (exampleEnvironment\<lparr>platformSend := \<lambda>n bytes. -1\<rparr>) (newFrame OpCodeClose True False False [] 0) 2
     (exampleChannel\<lparr>m_buffer := [0x88, 0]\<rparr>) = Undef"
  by code_simp

end
