(* ===== verification/Spec2Isabelle.thy ===== *)
theory Spec2Isabelle
  imports LevelDB_Theorems HTML_Theorems HTML_Input_Theorems Region_Theorems UTF8_Theorems WebSocket_Theorems
begin

text \<open>
  A verification library for parts of WebKit whose behaviour other code, stored data or security
  rests on. Five subsystems are modelled. They share the machine types and the interfaces of \<open>Prelude\<close>;
  the WebSockets of part 5 convert their strings with part 4, and the others are independent.

  \<^bold>\<open>1. The key coding of IndexedDB\<close> (\<open>Source/WebCore/Modules/indexeddb\<close>). The LevelDB backing store
  keeps everything under byte-string keys that \<open>leveldb/IDBLevelDBCoding.cpp\<close> writes, reads and
  orders; script keys are \<open>IDBKey\<close> objects (\<open>IDBKey.cpp\<close>, \<open>IDBKey.h\<close>).
  \<^item> \<open>LevelDB_Bytes\<close>: the primitive encodings. A pair of pointers is the list of the bytes between
    them; a decoder ends with a value, with failure or outside the defined part of C++ (\<open>outcome\<close>).
  \<^item> \<open>IDB_Key\<close>: \<open>IDBKey\<close> values and their order; \<open>IDB_KeyCoding\<close>: their encoding and comparison in
    encoded form; \<open>IDBKeyPath\<close>.
  \<^item> \<open>LevelDB_Prefix\<close>: \<open>KeyPrefix\<close>; \<open>LevelDB_Keys\<close>: the fifteen key classes; \<open>LevelDB_Compare\<close>: \<open>compare\<close>
    on slices and its specification \<open>keyOrder\<close>, the lexicographic order of the fields of a key;
    \<open>LevelDB_Order\<close>: that the one refines the other.
  \<^item> \<open>LevelDB_Theorems\<close>: the comparison refines the order of the keys and is a total
    preorder; encodings are injective and read back; the ranges that the store scans hold exactly
    the entries they are meant for; and three places where the code falls short.

  \<^bold>\<open>2. The HTML tokenizer\<close> (\<open>Source/WebCore/html/parser\<close>). \<open>HTMLTokenizer::nextToken\<close> reads characters
  from a \<open>SegmentedString\<close> through an \<open>InputStreamPreprocessor\<close>, resolves character references with
  \<open>consumeHTMLEntity\<close>, and builds an \<open>HTMLToken\<close>.
  \<^item> \<open>Segmented_String\<close>: \<open>platform/text/SegmentedString\<close>, field by field, with its fast paths: the
    function pointers are a datatype, a character pointer is an index into its string, and the
    8-bit and 16-bit accessors are the same function, since both store code units.
    \<open>Stream_View\<close>: the abstract stream of characters (\<open>viewOf\<close>), the invariant \<open>string_invar\<close> that
    ties the fast-path state to the segments, and that every operation refines one on streams. The
    locale \<open>character_stream\<close> is the contract of the three ways of advancing.
  \<^item> \<open>HTML_Entities\<close>: \<open>HTMLEntitySearch\<close>, \<open>HTMLEntityParser.cpp\<close>, \<open>CharacterReferenceParserInlines.h\<close>. The
    table of entities is generated by the build; it is a parameter, and \<open>table_ok\<close> states what the
    generator (\<open>create-html-entity-table\<close>) and its input provide: sorted distinct names of at least two
    characters without a null, the first one a letter, at least one for each letter.
    \<open>Entity_Search\<close>: what the two binary searches find. \<open>Entity_Parsing\<close>: reading ahead and pushing
    back on the stream. \<open>Entity_Reference\<close>: the reference definition \<open>characterReference\<close> on lists.
  \<^item> \<open>HTML_Token\<close>, \<open>HTML_Tokenizer\<close>: the token, the state of the tokenizer and the preprocessor;
    \<open>HTML_States\<close>: a definition \<open>in\<close>\<^emph>\<open>S\<close> for every state \<^emph>\<open>S\<close> of the \<open>switch\<close>, which answers where to go
    next (\<open>Control\<close>: the macros ADVANCE\_TO, SWITCH\_TO, RECONSUME\_IN and \<open>return\<close>), \<open>dispatch\<close> for the
    \<open>switch\<close>, \<open>runStates\<close> for its jumps, \<open>nextToken\<close>. A \<open>Machine\<close> holds the tokenizer, the token and
    the source, which the code passes by reference.
  \<^item> \<open>HTML_Progress\<close>: every jump consumes a character or goes down a rank. \<open>HTML_Runs\<close>: the locale
    \<open>token_run\<close>, by which what holds of every state holds of a call; it is interpreted by \<open>HTML_Checks\<close>
    (which token a state may find) and \<open>HTML_RawText\<close> (the text of raw-text elements). \<open>HTML_Segments\<close>:
    two sources with the same stream. \<open>HTML_Text\<close>: runs of text.
  \<^item> \<open>HTML_Theorems\<close>: \<open>nextToken\<close> returns, is type safe, does not see the segments, ends
    raw text only at its end tag, reads text; references are decoded as their definition says; and
    three places where the code falls short.
  \<^item> \<open>HTML_Input\<close>: \<open>HTMLInputStream\<close> and the insertion points of \<open>document.write\<close>; the pointer to the last
    string is a datatype. \<open>HTML_AtomicToken\<close>: \<open>AtomicHTMLToken\<close>, what the tree builder gets.
    \<open>HTML_Input_Theorems\<close>: the input stream is a document cut at its insertion points,
    and a token reaches the tree builder unchanged.

  \<^bold>\<open>3. Regions\<close> (\<open>Source/WebCore/platform/graphics\<close>). \<open>Region\<close> holds a set of pixels as a scan-line shape,
  spans of segments in two vectors, and its bounding rectangle; repaint and touch regions are built
  with it.
  \<^item> \<open>Region_Shape\<close>: \<open>IntRect\<close>, \<open>Region::Shape\<close> and \<open>Region\<close> operation by operation. An iterator is the list
    from there on; the template arguments of \<open>shapeOperation\<close> and \<open>compareShapes\<close> are datatypes.
  \<^item> \<open>Region_Rows\<close>: a list of segments as a set by parity, and that the sweep over two lists combines
    the sets. \<open>Region_Canonical\<close>: the rows of a shape, the canonical form, and that \<open>shapeOperation\<close>
    refines the operation on sets of points; a set has at most one canonical shape.
    \<open>Region_Compare\<close>: \<open>compareShapes\<close>. \<open>Region_Bounds\<close>: \<open>bounds\<close>, and the plane of coordinates (below
    \<open>2 ^ 30\<close> in size) whose differences fit \<open>int\<close>. \<open>Region_Queries\<close>: scan for a point, rectangles, area.
    \<open>Region_Regions\<close>: the operations of \<open>Region\<close> with their shortcuts by the bounds.
  \<^item> \<open>Region_Theorems\<close>: the locale \<open>point_algebra\<close>, interpreted on the operations of \<open>Region\<close>;
    the operations are those on sets of points, the queries answer about them, and the
    rectangles of a region tile it.

  \<^bold>\<open>4. Strings in UTF-8\<close> (\<open>Source/WTF/wtf\<close>). \<open>String::fromUTF8\<close> and \<open>StringImpl::utf8\<close>, which everything that
  comes from the network or goes there passes through.
  \<^item> \<open>WTF_UTF8\<close>: \<open>unicode/UTF8.cpp\<close> with its tables and the macros of ICU, \<open>fromUTF8\<close>, and \<open>utf8\<close> in its three
    modes. The loops keep the capacity of the target; what would write past it is \<open>Undef\<close>. The numeric
    definition of the two encodings of a code point stands at the end.
  \<^item> \<open>UTF8_Decoding\<close>: the tests and shifts of the code in numbers, and what decoding accepts.
    \<open>UTF8_Encoding\<close>: the code points of a text with unpaired surrogates, and what each mode writes.
  \<^item> \<open>UTF8_Theorems\<close>: decoding is right and accepts nothing else, but for two first bytes; encoding, and
    the way back.

  \<^bold>\<open>5. WebSockets\<close> (\<open>Source/WebCore/Modules/websockets\<close>). A \<open>WebSocketChannel\<close> gives the first bytes from its
  \<open>SocketStreamHandle\<close> to a \<open>WebSocketHandshake\<close>; when that is connected it reads frames, puts messages
  together for its client, answers pings, and queues what the client sends, blobs that are still
  loading included.
  \<^item> \<open>WebSocket_Frame\<close>: \<open>WebSocketFrame.cpp\<close>, reading (which unmasks in place) and writing.
  \<^item> \<open>WebSocket_Handshake\<close>: \<open>readServerHandshake\<close> with all that it calls, the status line, \<open>parseHTTPHeader\<close>, the
    header map, the parser of extensions and the deflate extension. \<open>WebSocket_Response\<close>: a syntax of status
    lines and fields, and that the parsers read it and nothing else. \<open>WebSocket_Acceptance\<close>: the responses that
    agree with the client's offer, said over the list of fields, and that exactly those are accepted.
  \<^item> \<open>WebSocket_Channel\<close>: \<open>WebSocketChannel.cpp\<close> with the part of the handle and of
    \<open>WebSocketDeflateFramer\<close> that it calls. The objects that the channel owns are part of its state; a null
    pointer is \<open>False\<close> or \<open>None\<close>, and following it is \<open>Undef\<close>. The calls to the client are recorded in
    order. The record \<open>Environment\<close> holds what is outside: the socket, random bytes, zlib, and white space
    beyond ASCII.
  \<^item> \<open>WebSocket_Segments\<close>: a run over a buffer and over a longer one go in parallel until the channel
    stops reading. \<open>WebSocket_Messages\<close>: the reference receiver \<open>receiveFrames\<close> on lists of frames, and
    that the channel follows it. \<open>WebSocket_Opening\<close>: the channel before it is connected.
  \<^item> \<open>WebSocket_Theorems\<close>: frames are read as they were written; the handshake accepts exactly the
    responses that agree with the offer; no client is told of a connection without one; the pieces in
    which data arrive do not matter; messages are delivered. Then what the handshake does at its
    edges, and three ways to a null pointer.

  \<^bold>\<open>Bounds and fuel.\<close> \<open>runStates\<close> is given \<open>8 * n + 8\<close> rounds for \<open>n\<close> characters to read: between two
  characters the machine reconsumes at most twice (\<open>rank\<close>), and a character reference, which may push
  back what it read, is entered by consuming its ampersand (\<open>HTML_Theorems\<close> proves that the rounds suffice). The
  preprocessor and the entity parser are given one round for each character left, and one or three
  more. The loops of the channel need no fuel: the outgoing queue gets shorter with each frame, the
  buffer with each round. Integers of the code keep their width where they can wrap (code units, code points, the
  bytes of the key coding); lengths, line and column counters (\<open>int\<close>) do not wrap here, and neither
  do the sizes of vectors.

  \<^bold>\<open>Not modelled.\<close> Assertions are absent from a release build; of the tokenizer those on the
  type of the token, the end-tag buffer and the characters appended to it are recorded in \<open>m_checks\<close> (all
  but three, which \<open>HTML_Token\<close> and the theorem on \<open>m_checks\<close> name), the others are not. Case-insensitive matching folds as ICU
  does for the ASCII keywords the tokenizer looks for. The tree builder, which sets the state of
  the tokenizer between calls, the parser's scheduling, the backing store around the key coding,
  making the request of the handshake and connecting, the header map's table of common names,
  reference counts, and the rest of the engine are not modelled; PROJECT.json lists them with the reasons.
\<close>

end
